(* ===== verification/Prelude.thy ===== *)
theory Prelude
  imports Main "HOL-Library.AList" "HOL-Library.Word" "HOL-Library.Sublist"
begin

text \<open>
  What every component of the model shares.

  Go values are represented as follows.
  \<^item> A Go \<open>string\<close> or \<open>[]byte\<close> is a list of bytes, the HOL type \<open>string\<close> (a \<open>char\<close> is one byte,
    so \<open>length\<close> is Go's \<open>len\<close>).
  \<^item> A \<open>time.Time\<close> is its distance from the zero time in nanoseconds, so that \<open>IsZero\<close> is
    \<open>t = 0\<close>; a \<open>time.Duration\<close> is a number of nanoseconds. The clock is a parameter.
  \<^item> A Go map whose size or iteration order is never observed is a HOL map; one that is iterated or
    counted is an association list with distinct keys, whose order is the iteration order that
    Go's runtime happens to choose (every theorem holds for all orders).
  \<^item> A Go \<open>int\<close> that cannot leave its range is \<open>int\<close> or \<open>nat\<close>; counters that wrap are words.
  \<^item> An error return is a value of the sum type, \<open>Inl\<close> the error.
\<close>

section \<open>Types\<close>

type_synonym time_ns = int
type_synonym duration = int
type_synonym uint64 = "64 word"
type_synonym uint32 = "32 word"
type_synonym ('k, 'v) gomap = "('k \<times> 'v) list"

abbreviation (input) zero_time :: time_ns where "zero_time \<equiv> 0"

abbreviation (input) is_zero :: "time_ns \<Rightarrow> bool" where "is_zero t \<equiv> t = 0"

abbreviation (input) millisecond :: duration where "millisecond \<equiv> 1000000"

abbreviation (input) second :: duration where "second \<equiv> 1000000000"

section \<open>Collections of facts\<close>

named_theorems inv_intros \<open>invariants kept by operations\<close>
named_theorems frame_simps \<open>fields an operation leaves alone\<close>

section \<open>Iterated maps as association lists\<close>

abbreviation mput :: "'k \<Rightarrow> 'v \<Rightarrow> ('k, 'v) gomap \<Rightarrow> ('k, 'v) gomap" where
  "mput \<equiv> AList.update"

abbreviation mdel :: "'k \<Rightarrow> ('k, 'v) gomap \<Rightarrow> ('k, 'v) gomap" where
  "mdel \<equiv> AList.delete"

abbreviation keys :: "('k, 'v) gomap \<Rightarrow> 'k list" where
  "keys m \<equiv> map fst m"

definition mwf :: "('k, 'v) gomap \<Rightarrow> bool" where
  "mwf m \<longleftrightarrow> distinct (keys m)"

lemma mwf_Nil [simp]: "mwf []"
  by (simp add: mwf_def)

lemma mwf_mput [simp, inv_intros]: "mwf m \<Longrightarrow> mwf (mput k v m)"
  by (simp add: mwf_def distinct_update)

lemma mwf_mdel [simp, inv_intros]: "mwf m \<Longrightarrow> mwf (mdel k m)"
  by (simp add: mwf_def distinct_delete)

lemma map_of_mput [simp]: "map_of (mput k v m) = (map_of m)(k \<mapsto> v)"
  by (simp add: update_conv')

lemma map_of_mdel [simp]: "map_of (mdel k m) = (map_of m)(k := None)"
  by (simp add: delete_conv')

lemma mput_new: "map_of m k = None \<Longrightarrow> mput k v m = m @ [(k, v)]"
  by (induction m) (auto split: if_splits)

lemma length_mput: "length (mput k v m) = (if map_of m k = None then Suc (length m) else length m)"
  by (induction m) auto

lemma set_mput_subset: "set (mput k v m) \<subseteq> insert (k, v) (set m)"
  by (induction m) (auto split: if_splits)

lemma ball_mput: "P (k, v) \<Longrightarrow> \<forall>x \<in> set m. P x \<Longrightarrow> \<forall>x \<in> set (mput k v m). P x"
  using set_mput_subset by fast

lemma mdel_fresh: "map_of m k = None \<Longrightarrow> mdel k m = m"
  by (simp add: delete_idem map_of_eq_None_iff)

text \<open>The sum of a measure over the entries of a map, and how an update changes it.\<close>

definition msum :: "('k \<Rightarrow> 'v \<Rightarrow> int) \<Rightarrow> ('k, 'v) gomap \<Rightarrow> int" where
  "msum f m = sum_list (map (\<lambda>(k, v). f k v) m)"

lemma msum_Nil [simp]: "msum f [] = 0"
  by (simp add: msum_def)

lemma msum_Cons [simp]: "msum f ((k, v) # m) = f k v + msum f m"
  by (simp add: msum_def)

lemma msum_append [simp]: "msum f (m @ m') = msum f m + msum f m'"
  by (simp add: msum_def)

lemma msum_mput:
  "msum f (mput k v m) = msum f m + f k v - (case map_of m k of None \<Rightarrow> 0 | Some w \<Rightarrow> f k w)"
  by (induction m) (auto split: option.splits)

lemma msum_mdel:
  "mwf m \<Longrightarrow> msum f (mdel k m) = msum f m - (case map_of m k of None \<Rightarrow> 0 | Some w \<Rightarrow> f k w)"
proof (induction m)
  case (Cons a m)
  obtain k' v where [simp]: "a = (k', v)" by (cases a)
  from Cons.prems have m: "mwf m" and "k' \<notin> set (keys m)" by (auto simp: mwf_def)
  then have "map_of m k' = None" by (simp add: map_of_eq_None_iff)
  with Cons.IH [OF m] show ?case by (auto simp: mdel_fresh split: option.splits)
qed simp

section \<open>Lists\<close>

lemma take_Suc_snoc_nth: "i < length xs \<Longrightarrow> take (Suc i) xs = take i xs @ [xs ! i]"
  by (rule take_Suc_conv_app_nth)

text \<open>The last \<open>n\<close> elements, Go's \<open>b[len(b)-n:]\<close>.\<close>

definition take_last :: "nat \<Rightarrow> 'a list \<Rightarrow> 'a list" where
  "take_last n xs = drop (length xs - n) xs"

lemma length_take_last [simp]: "length (take_last n xs) = min n (length xs)"
  by (simp add: take_last_def)

lemma take_last_all [simp]: "length xs \<le> n \<Longrightarrow> take_last n xs = xs"
  by (simp add: take_last_def)

lemma take_last_append:
  "take_last n (take_last n xs @ ys) = take_last n (xs @ ys)"
proof (cases "length xs \<le> n")
  case False
  then show ?thesis
    by (cases "length ys \<le> n") (simp_all add: take_last_def algebra_simps)
qed simp

lemma suffix_take_last [simp]: "suffix (take_last n xs) xs"
  by (simp add: take_last_def suffix_drop)

section \<open>Components as machines\<close>

text \<open>
  The contract that the stateful components share: their operations, applied one after the other,
  keep an invariant, provided that each operation is one that the callers may make. A component
  interprets the locale on its step function and gets the invariant for all histories.
\<close>

locale op_machine =
  fixes step :: "'op \<Rightarrow> 's \<Rightarrow> 's"
    and allowed :: "'op \<Rightarrow> bool"
    and inv :: "'s \<Rightarrow> bool"
  assumes inv_step: "allowed op \<Longrightarrow> inv s \<Longrightarrow> inv (step op s)"
begin

lemma inv_run: "\<forall>op \<in> set ops. allowed op \<Longrightarrow> inv s \<Longrightarrow> inv (fold step ops s)"
  by (induction ops arbitrary: s) (auto intro: inv_step)

lemma inv_prefix: "\<forall>op \<in> set ops. allowed op \<Longrightarrow> inv s \<Longrightarrow> inv (fold step (take n ops) s)"
  by (rule inv_run) (auto dest: in_set_takeD)

end

end
