(* ===== verification/GoStrings.thy ===== *)
theory GoStrings
  imports Prelude
begin

text \<open>
  The operations of Go's \<open>strings\<close> package that the program uses, on byte strings:
  \<open>HasPrefix\<close>, \<open>Index\<close>, \<open>Contains\<close>, \<open>LastIndex\<close>, \<open>Split\<close>, \<open>Join\<close>, \<open>Trim\<close> with a cutset of
  ASCII bytes; and the lemmas on searching and splitting that the file formats and composite keys
  of the program rest on. The separator of \<open>split\<close> is a non-empty constant at every call of the
  program (Go's special case for an empty separator is not modelled: \<open>split\<close> then returns the
  whole string).
\<close>

abbreviation NL :: char where "NL \<equiv> CHR 0x0A"

section \<open>Searching\<close>

definition has_prefix :: "string \<Rightarrow> string \<Rightarrow> bool" where
  "has_prefix s p \<longleftrightarrow> prefix p s"

fun index_of :: "string \<Rightarrow> string \<Rightarrow> nat option" where
  "index_of [] p = (if p = [] then Some 0 else None)"
| "index_of (c # s) p =
     (if prefix p (c # s) then Some 0 else map_option Suc (index_of s p))"

definition contains :: "string \<Rightarrow> string \<Rightarrow> bool" where
  "contains s p \<longleftrightarrow> index_of s p \<noteq> None"

text \<open>\<open>LastIndex\<close>: the largest index at which \<open>p\<close> occurs.\<close>

fun last_index_of :: "string \<Rightarrow> string \<Rightarrow> nat option" where
  "last_index_of [] p = (if p = [] then Some 0 else None)"
| "last_index_of (c # s) p =
     (case last_index_of s p of
        Some i \<Rightarrow> Some (Suc i)
      | None \<Rightarrow> if prefix p (c # s) then Some 0 else None)"

lemma index_of_Some_split:
  "index_of s p = Some i \<Longrightarrow> s = take i s @ p @ drop (i + length p) s"
proof (induction s arbitrary: i)
  case (Cons c s)
  show ?case
  proof (cases "prefix p (c # s)")
    case True
    with Cons.prems have "i = 0" by simp
    with True show ?thesis by (auto simp: prefix_def)
  next
    case False
    with Cons.prems obtain j where "index_of s p = Some j" "i = Suc j" by auto
    with Cons.IH [of j] show ?thesis by simp
  qed
qed (auto split: if_splits)

lemma index_of_le: "index_of s p = Some i \<Longrightarrow> i + length p \<le> length s"
  by (induction s arbitrary: i) (auto split: if_splits dest: prefix_length_le)

lemma index_of_None_iff: "index_of s p = None \<longleftrightarrow> \<not> sublist p s"
  by (induction s) (auto simp: sublist_Cons_right)

lemma contains_sublist: "contains s p \<longleftrightarrow> sublist p s"
  by (simp add: contains_def index_of_None_iff)

lemma last_index_of_None_iff: "last_index_of s p = None \<longleftrightarrow> \<not> sublist p s"
  by (induction s) (auto simp: sublist_Cons_right split: option.splits)

lemma last_index_of_Some_split:
  "last_index_of s p = Some i \<Longrightarrow> s = take i s @ p @ drop (i + length p) s"
proof (induction s arbitrary: i)
  case (Cons c s)
  show ?case
  proof (cases "last_index_of s p")
    case None
    with Cons.prems show ?thesis by (auto simp: prefix_def split: if_splits)
  next
    case (Some j)
    with Cons.prems have "i = Suc j" by simp
    with Cons.IH [OF Some] show ?thesis by simp
  qed
qed (auto split: if_splits)

lemma last_index_of_le: "last_index_of s p = Some i \<Longrightarrow> i + length p \<le> length s"
  by (induction s arbitrary: i) (auto split: if_splits option.splits dest: prefix_length_le)

text \<open>
  The first occurrence of \<open>p\<close> in \<open>x @ p @ r\<close> is at \<open>x\<close> when \<open>p\<close> does not occur in \<open>x\<close>
  followed by all of \<open>p\<close> but its last byte.
\<close>

lemma index_of_append:
  assumes "p \<noteq> []" and "\<not> sublist p (x @ butlast p)"
  shows "index_of (x @ p @ r) p = Some (length x)"
  using assms(2)
proof (induction x)
  case Nil
  from assms(1) obtain c q where "p = c # q" by (cases p) auto
  then show ?case by simp
next
  case (Cons c x)
  have np: "\<not> prefix p (c # x @ p @ r)"
  proof
    assume "prefix p (c # x @ p @ r)"
    moreover have "prefix (c # x @ butlast p) (c # x @ p @ r)"
      using assms(1) by (metis append.assoc append_Cons append_butlast_last_id prefixI same_prefix_prefix)
    moreover have "length p \<le> length (c # x @ butlast p)" by simp
    ultimately have "prefix p (c # x @ butlast p)" using prefix_length_prefix by blast
    with Cons.prems show False by (auto dest: prefix_imp_sublist)
  qed
  from Cons.prems have "\<not> sublist p (x @ butlast p)" by (auto simp: sublist_Cons_right)
  with Cons.IH have "index_of (x @ p @ r) p = Some (length x)" by simp
  with np show ?case by simp
qed

text \<open>
  An occurrence of \<open>p\<close> in \<open>x @ y\<close> that lies in neither straddles the boundary: a non-empty
  proper prefix of \<open>p\<close> ends \<open>x\<close> and the rest of \<open>p\<close> starts \<open>y\<close>.
\<close>

lemma sublist_append_cases:
  assumes "sublist p (x @ y)"
  obtains (left) "sublist p x" | (right) "sublist p y"
    | (cross) k where "0 < k" "k < length p" "suffix (take k p) x" "prefix (drop k p) y"
proof -
  from assms obtain a b where ab: "x @ y = a @ p @ b" by (auto simp: sublist_def)
  from ab consider (1) u where "a = x @ u" "u @ p @ b = y"
    | (2) u where "x = a @ u" "u @ y = p @ b"
    by (auto simp: append_eq_append_conv2)
  then show thesis
  proof cases
    case 1
    then show thesis using right by (auto simp: sublist_def)
  next
    case 2
    from 2(2) consider (a) v where "u = p @ v" | (b) v where "p = u @ v" "y = v @ b"
      by (auto simp: append_eq_append_conv2)
    then show thesis
    proof cases
      case a
      with 2 show thesis using left by (auto simp: sublist_def)
    next
      case b
      show thesis
      proof (cases "u = [] \<or> v = []")
        case True
        then show thesis
        proof
          assume "u = []"
          with b have "sublist p y" by auto
          then show thesis by (rule right)
        next
          assume "v = []"
          with b 2 have "sublist p x" by auto
          then show thesis by (rule left)
        qed
      next
        case False
        with b 2 show thesis by (intro cross [of "length u"]) (auto simp: suffix_def prefix_def)
      qed
    qed
  qed
qed

lemma not_sublist_butlast:
  assumes "\<not> sublist p x"
    and "\<And>k. 0 < k \<Longrightarrow> k < length p \<Longrightarrow> suffix (take k p) x \<Longrightarrow> \<not> prefix (drop k p) p"
  shows "\<not> sublist p (x @ butlast p)"
proof
  assume "sublist p (x @ butlast p)"
  then show False
  proof (cases rule: sublist_append_cases)
    case right
    then have "length p \<le> length (butlast p)" by (rule sublist_length_le)
    then have "p = []" by (cases p) (auto split: if_splits)
    then show False using assms(1) by simp
  next
    case (cross k)
    have "prefix (butlast p) p" by (metis append_butlast_last_id butlast.simps(1) prefixI prefix_order.refl)
    with cross assms(2) show False by (blast intro: prefix_order.trans)
  qed (use assms in simp)
qed

text \<open>A string without the byte \<open>c\<close> occurs in \<open>x @ c # y\<close> only within a side.\<close>

lemma sublist_append_sep:
  assumes "c \<notin> set p"
  shows "sublist p (x @ c # y) \<longleftrightarrow> sublist p x \<or> sublist p y"
proof
  assume "sublist p (x @ c # y)"
  then show "sublist p x \<or> sublist p y"
  proof (cases rule: sublist_append_cases)
    case right
    then show ?thesis using assms
      by (auto simp: sublist_Cons_right prefix_Cons)
  next
    case (cross k)
    then obtain q where "drop k p = c # q" by (cases "drop k p") auto
    then have "c \<in> set p" by (metis in_set_dropD list.set_intros(1))
    with assms show ?thesis by simp
  qed simp
next
  have "sublist x (x @ c # y)" "sublist y (x @ [c] @ y)"
    by (auto simp: sublist_def) (metis append.assoc append_Cons append_Nil append_Nil2)+
  moreover assume "sublist p x \<or> sublist p y"
  ultimately show "sublist p (x @ c # y)" by (auto intro: sublist_order.order.trans)
qed

lemma sublist_append_last:
  assumes "x \<noteq> []" "last x \<notin> set p"
  shows "sublist p (x @ y) \<longleftrightarrow> sublist p x \<or> sublist p y"
proof -
  from assms(1) have x: "x = butlast x @ [last x]" by simp
  have "sublist p (x @ y) \<longleftrightarrow> sublist p (butlast x) \<or> sublist p y"
    by (subst x) (simp add: sublist_append_sep assms(2))
  moreover have "sublist p x \<longleftrightarrow> sublist p (butlast x) \<or> p = []"
    by (subst x) (simp only: sublist_append_sep [OF assms(2)], simp)
  ultimately show ?thesis by auto
qed

section \<open>Join and Split\<close>

fun join :: "string \<Rightarrow> string list \<Rightarrow> string" where
  "join sep [] = []"
| "join sep [x] = x"
| "join sep (x # xs) = x @ sep @ join sep xs"

lemma join_Cons: "xs \<noteq> [] \<Longrightarrow> join sep (x # xs) = x @ sep @ join sep xs"
  by (cases xs) auto

lemma join_append:
  "xs \<noteq> [] \<Longrightarrow> ys \<noteq> [] \<Longrightarrow> join sep (xs @ ys) = join sep xs @ sep @ join sep ys"
  by (induction xs rule: list_nonempty_induct) (auto simp: join_Cons)

function split :: "string \<Rightarrow> string \<Rightarrow> string list" where
  "split s sep =
     (if sep = [] then [s]
      else case index_of s sep of
             None \<Rightarrow> [s]
           | Some i \<Rightarrow> take i s # split (drop (i + length sep) s) sep)"
  by pat_completeness auto
termination
proof (relation "measure (\<lambda>(s, sep). length s)", goal_cases)
  case (2 s sep i)
  then show ?case using index_of_le [of s sep i] by (cases sep) auto
qed simp

declare split.simps [simp del]

lemma split_ne [simp]: "split s sep \<noteq> []"
  by (subst split.simps) (simp split: option.splits)

lemma split_None: "\<not> sublist sep s \<Longrightarrow> split s sep = [s]"
  by (subst split.simps) (auto simp: index_of_None_iff [symmetric])

lemma split_step:
  assumes "sep \<noteq> []" and "\<not> sublist sep (x @ butlast sep)"
  shows "split (x @ sep @ r) sep = x # split r sep"
  using index_of_append [OF assms, of r] assms(1) by (subst split.simps) simp

text \<open>\<open>Split\<close> undoes \<open>Join\<close> when no piece can be confused with the separator.\<close>

lemma split_join:
  assumes "sep \<noteq> []" and "xs \<noteq> []"
    and "\<And>x. x \<in> set (butlast xs) \<Longrightarrow> \<not> sublist sep (x @ butlast sep)"
    and "\<not> sublist sep (last xs)"
  shows "split (join sep xs) sep = xs"
  using assms(2-4)
proof (induction xs rule: list_nonempty_induct)
  case (single x)
  then show ?case by (simp add: split_None)
next
  case (cons x xs)
  then show ?case by (simp add: join_Cons split_step assms(1))
qed

lemma join_split: "sep \<noteq> [] \<Longrightarrow> join sep (split s sep) = s"
proof (induction s sep rule: split.induct)
  case (1 s sep)
  show ?case
  proof (cases "index_of s sep")
    case None
    with 1 show ?thesis by (subst split.simps) simp
  next
    case (Some i)
    with "1.IH" "1.prems" have "join sep (split (drop (i + length sep) s) sep) = drop (i + length sep) s"
      by simp
    moreover have "join sep (split s sep) =
        take i s @ sep @ join sep (split (drop (i + length sep) s) sep)"
      using Some "1.prems" by (subst split.simps) (simp add: join_Cons)
    ultimately show ?thesis using index_of_Some_split [OF Some] by simp
  qed
qed

section \<open>Trim with a cutset\<close>

definition trim_left :: "(char \<Rightarrow> bool) \<Rightarrow> string \<Rightarrow> string" where
  "trim_left P s = dropWhile P s"

definition trim_right :: "(char \<Rightarrow> bool) \<Rightarrow> string \<Rightarrow> string" where
  "trim_right P s = rev (dropWhile P (rev s))"

definition trim :: "(char \<Rightarrow> bool) \<Rightarrow> string \<Rightarrow> string" where
  "trim P s = trim_right P (trim_left P s)"

text \<open>\<open>strings.Trim(s, "\n")\<close>.\<close>

abbreviation trim_nl :: "string \<Rightarrow> string" where
  "trim_nl \<equiv> trim (\<lambda>c. c = NL)"

definition trimmed :: "(char \<Rightarrow> bool) \<Rightarrow> string \<Rightarrow> bool" where
  "trimmed P s \<longleftrightarrow> s = [] \<or> \<not> P (hd s) \<and> \<not> P (last s)"

lemma trim_left_Cons [simp]: "trim_left P (c # s) = (if P c then trim_left P s else c # s)"
  by (simp add: trim_left_def)

lemma trim_left_Nil [simp]: "trim_left P [] = []"
  by (simp add: trim_left_def)

lemma trim_right_snoc [simp]: "trim_right P (s @ [c]) = (if P c then trim_right P s else s @ [c])"
  by (simp add: trim_right_def)

lemma trim_right_Nil [simp]: "trim_right P [] = []"
  by (simp add: trim_right_def)

lemma trim_right_id: "s \<noteq> [] \<Longrightarrow> \<not> P (last s) \<Longrightarrow> trim_right P s = s"
  by (metis append_butlast_last_id trim_right_snoc)

lemma trim_left_id: "s \<noteq> [] \<Longrightarrow> \<not> P (hd s) \<Longrightarrow> trim_left P s = s"
  by (cases s) auto

lemma trim_id: "trimmed P s \<Longrightarrow> trim P s = s"
  by (cases s) (auto simp: trimmed_def trim_def trim_right_id)

lemma trimmed_trim [simp]: "trimmed P (trim P s)"
proof (cases "trim P s = []")
  case False
  define u where "u = dropWhile P s"
  have t: "trim P s = rev (dropWhile P (rev u))"
    by (simp add: trim_def trim_left_def trim_right_def u_def)
  with False have ne: "dropWhile P (rev u) \<noteq> []" by simp
  then have l: "\<not> P (last (trim P s))"
    unfolding t by (simp add: last_rev hd_dropWhile)
  obtain v where v: "u = trim P s @ v"
    by (metis t rev_append rev_rev_ident takeWhile_dropWhile_id)
  with False have "hd u = hd (trim P s)" "u \<noteq> []" by auto
  then have "\<not> P (hd (trim P s))" using hd_dropWhile [of P s] unfolding u_def by simp
  with l show ?thesis by (simp add: trimmed_def)
qed (simp add: trimmed_def)

lemma trim_pad:
  assumes "s \<noteq> []" "trimmed P s" "\<forall>c \<in> set a. P c" "\<forall>c \<in> set b. P c"
  shows "trim P (a @ s @ b) = s"
proof -
  from assms(1,2) have s: "\<not> P (hd s)" "\<not> P (last s)" by (auto simp: trimmed_def)
  have "trim_left P (a @ s @ b) = s @ b"
    using assms(3) by (induction a) (use assms(1) s in \<open>auto simp: trim_left_id\<close>)
  moreover have "trim_right P (s @ b) = s"
    using assms(4)
    by (induction b rule: rev_induct)
      (use assms(1) s in \<open>auto simp: trim_right_id append_assoc [symmetric] simp del: append_assoc\<close>)
  ultimately show ?thesis by (simp add: trim_def)
qed

lemma trim_all: "\<forall>c \<in> set a. P c \<Longrightarrow> trim P a = []"
  by (induction a) (auto simp: trim_def)

lemma sublist_trim: "sublist (trim P s) s"
proof -
  have "suffix (trim_left P s) s" by (simp add: trim_left_def suffix_dropWhile)
  moreover have "prefix (trim_right P (trim_left P s)) (trim_left P s)"
    unfolding trim_right_def by (metis suffix_dropWhile suffix_to_prefix rev_rev_ident)
  ultimately show ?thesis unfolding trim_def
    by (blast intro: prefix_imp_sublist suffix_imp_sublist sublist_order.order.trans)
qed

lemma length_trim: "length (trim P s) \<le> length s"
  by (rule sublist_length_le [OF sublist_trim])

end
