(* ===== verification/Utf8.thy ===== *)
theory Utf8
  imports GoStrings
begin

text \<open>
  Go's UTF-8 layer, on byte strings: \<open>utf8.DecodeRuneInString\<close> (with its treatment of invalid
  bytes: the replacement rune and width 1), iteration over the runes of a string,
  \<open>utf8.RuneCountInString\<close>, \<open>utf8.ValidString\<close>, \<open>[]rune(s)\<close>, \<open>string(runes)\<close>, and
  \<open>strings.TrimSpace\<close>. The lemmas show that decoding consumes the string without gaps, that a
  string built from complete encodings splits at exactly those encodings, and that encoding and
  decoding are inverse on scalar values.
\<close>

section \<open>Decoding\<close>

abbreviation bv :: "char \<Rightarrow> nat" where "bv \<equiv> of_char"

lemma bv_less: "bv c < 256"
  by (metis of_char_mod_256 mod_less_divisor zero_less_numeral)

lemma char_of_bv [simp]: "char_of (bv c) = c"
  by simp

abbreviation rune_error :: nat where "rune_error \<equiv> 0xFFFD"

definition in_range :: "nat \<Rightarrow> nat \<Rightarrow> char \<Rightarrow> bool" where
  "in_range lo hi c \<longleftrightarrow> lo \<le> bv c \<and> bv c \<le> hi"

definition second_range :: "nat \<Rightarrow> nat \<times> nat" where
  "second_range b0 =
     (if b0 = 0xE0 then (0xA0, 0xBF)
      else if b0 = 0xED then (0x80, 0x9F)
      else if b0 = 0xF0 then (0x90, 0xBF)
      else if b0 = 0xF4 then (0x80, 0x8F)
      else (0x80, 0xBF))"

definition second_ok :: "nat \<Rightarrow> char \<Rightarrow> bool" where
  "second_ok b0 c = in_range (fst (second_range b0)) (snd (second_range b0)) c"

abbreviation cont :: "char \<Rightarrow> bool" where "cont \<equiv> in_range 0x80 0xBF"

abbreviation cv :: "char \<Rightarrow> nat" where "cv c \<equiv> bv c - 0x80"

definition decode_rune :: "string \<Rightarrow> nat \<times> nat" where
  "decode_rune s = (case s of
     [] \<Rightarrow> (rune_error, 0)
   | c # t \<Rightarrow>
       (let b0 = bv c in
        if b0 < 0x80 then (b0, 1)
        else if 0xC2 \<le> b0 \<and> b0 \<le> 0xDF then
          (case t of
             c1 # _ \<Rightarrow> if second_ok b0 c1 then ((b0 - 0xC0) * 64 + cv c1, 2) else (rune_error, 1)
           | _ \<Rightarrow> (rune_error, 1))
        else if 0xE0 \<le> b0 \<and> b0 \<le> 0xEF then
          (case t of
             c1 # c2 # _ \<Rightarrow>
               if second_ok b0 c1 \<and> cont c2
               then ((b0 - 0xE0) * 4096 + cv c1 * 64 + cv c2, 3) else (rune_error, 1)
           | _ \<Rightarrow> (rune_error, 1))
        else if 0xF0 \<le> b0 \<and> b0 \<le> 0xF4 then
          (case t of
             c1 # c2 # c3 # _ \<Rightarrow>
               if second_ok b0 c1 \<and> cont c2 \<and> cont c3
               then ((b0 - 0xF0) * 262144 + cv c1 * 4096 + cv c2 * 64 + cv c3, 4)
               else (rune_error, 1)
           | _ \<Rightarrow> (rune_error, 1))
        else (rune_error, 1)))"

lemma decode_rune_size:
  "s \<noteq> [] \<Longrightarrow> 1 \<le> snd (decode_rune s) \<and> snd (decode_rune s) \<le> length s \<and> snd (decode_rune s) \<le> 4"
  by (auto simp: decode_rune_def Let_def split: list.split)

lemma decode_rune_ascii: "bv c < 0x80 \<Longrightarrow> decode_rune (c # s) = (bv c, 1)"
  by (simp add: decode_rune_def Let_def)

text \<open>The shape of a complete encoding, and decoding as inversion on that shape.\<close>

lemma decode2:
  "0xC2 \<le> bv c \<Longrightarrow> bv c \<le> 0xDF \<Longrightarrow> second_ok (bv c) c1 \<Longrightarrow>
   decode_rune (c # c1 # t) = ((bv c - 0xC0) * 64 + cv c1, 2)"
  by (simp add: decode_rune_def Let_def)

lemma decode3:
  "0xE0 \<le> bv c \<Longrightarrow> bv c \<le> 0xEF \<Longrightarrow> second_ok (bv c) c1 \<Longrightarrow> cont c2 \<Longrightarrow>
   decode_rune (c # c1 # c2 # t) = ((bv c - 0xE0) * 4096 + cv c1 * 64 + cv c2, 3)"
  by (simp add: decode_rune_def Let_def)

lemma decode4:
  "0xF0 \<le> bv c \<Longrightarrow> bv c \<le> 0xF4 \<Longrightarrow> second_ok (bv c) c1 \<Longrightarrow> cont c2 \<Longrightarrow> cont c3 \<Longrightarrow>
   decode_rune (c # c1 # c2 # c3 # t) =
     ((bv c - 0xF0) * 262144 + cv c1 * 4096 + cv c2 * 64 + cv c3, 4)"
  by (simp add: decode_rune_def Let_def)

lemma decode_rune_cases:
  assumes "decode_rune s = (r, n)" and "s \<noteq> []"
  obtains (error) "r = rune_error" "n = 1"
    | (one) c t where "s = c # t" "bv c < 0x80" "n = 1" "r = bv c"
    | (two) c c1 t where "s = c # c1 # t" "0xC2 \<le> bv c" "bv c \<le> 0xDF" "second_ok (bv c) c1" "n = 2"
    | (three) c c1 c2 t where "s = c # c1 # c2 # t" "0xE0 \<le> bv c" "bv c \<le> 0xEF"
        "second_ok (bv c) c1" "cont c2" "n = 3"
    | (four) c c1 c2 c3 t where "s = c # c1 # c2 # c3 # t" "0xF0 \<le> bv c" "bv c \<le> 0xF4"
        "second_ok (bv c) c1" "cont c2" "cont c3" "n = 4"
proof -
  from assms(2) obtain c t where s: "s = c # t" by (cases s) auto
  consider (a) "bv c < 0x80" | (b) "0xC2 \<le> bv c" "bv c \<le> 0xDF"
    | (c) "0xE0 \<le> bv c" "bv c \<le> 0xEF" | (d) "0xF0 \<le> bv c" "bv c \<le> 0xF4"
    | (e) "0x80 \<le> bv c" "\<not> (0xC2 \<le> bv c \<and> bv c \<le> 0xDF)" "\<not> (0xE0 \<le> bv c \<and> bv c \<le> 0xEF)"
        "\<not> (0xF0 \<le> bv c \<and> bv c \<le> 0xF4)"
    by linarith
  then show thesis
  proof cases
    case a
    with assms(1) s show thesis by (intro one [of c t]) (auto simp: decode_rune_ascii)
  next
    case b
    show thesis
    proof (cases "\<exists>c1 u. t = c1 # u \<and> second_ok (bv c) c1")
      case True
      then obtain c1 u where u: "t = c1 # u" "second_ok (bv c) c1" by blast
      from assms(1) decode2 [OF b u(2), of u] have "n = 2" unfolding s u by simp
      then show thesis by (rule two [of c c1 u, rotated -1]) (use s u b in simp_all)
    next
      case False
      then have "decode_rune s = (rune_error, 1)"
        unfolding s decode_rune_def using b by (cases t) (auto simp: Let_def)
      with assms(1) show thesis by (intro error) simp_all
    qed
  next
    case c
    show thesis
    proof (cases "\<exists>c1 c2 u. t = c1 # c2 # u \<and> second_ok (bv c) c1 \<and> cont c2")
      case True
      then obtain c1 c2 u where u: "t = c1 # c2 # u" "second_ok (bv c) c1" "cont c2" by blast
      from assms(1) decode3 [OF c u(2,3), of u] have "n = 3" unfolding s u by simp
      then show thesis by (rule three [of c c1 c2 u, rotated -1]) (use s u c in simp_all)
    next
      case False
      then have "decode_rune s = (rune_error, 1)"
        unfolding s decode_rune_def using c by (auto simp: Let_def split: list.split)
      with assms(1) show thesis by (intro error) simp_all
    qed
  next
    case d
    show thesis
    proof (cases "\<exists>c1 c2 c3 u. t = c1 # c2 # c3 # u \<and> second_ok (bv c) c1 \<and> cont c2 \<and> cont c3")
      case True
      then obtain c1 c2 c3 u where u: "t = c1 # c2 # c3 # u" "second_ok (bv c) c1" "cont c2" "cont c3"
        by blast
      from assms(1) decode4 [OF d u(2-4), of u] have "n = 4" unfolding s u by simp
      then show thesis by (rule four [of c c1 c2 c3 u, rotated -1]) (use s u d in simp_all)
    next
      case False
      then have "decode_rune s = (rune_error, 1)"
        unfolding s decode_rune_def using d by (auto simp: Let_def split: list.split)
      with assms(1) show thesis by (intro error) simp_all
    qed
  next
    case e
    then have "decode_rune s = (rune_error, 1)" unfolding s decode_rune_def by (auto simp: Let_def)
    with assms(1) show thesis by (intro error) simp_all
  qed
qed

lemma decode_rune_append:
  assumes "decode_rune b = (r, length b)" "b \<noteq> []" "\<not> (r = rune_error \<and> length b = 1)"
  shows "decode_rune (b @ t) = (r, length b)"
  using assms(1,2)
proof (cases rule: decode_rune_cases)
  case error
  with assms(3) show ?thesis by simp
qed (use assms(1) in \<open>auto simp: decode_rune_ascii decode2 decode3 decode4\<close>)

lemma decode_rune_take:
  assumes "decode_rune s = (r, n)" "s \<noteq> []" "\<not> (r = rune_error \<and> n = 1)"
  shows "decode_rune (take n s) = (r, n)"
  using assms(1,2)
proof (cases rule: decode_rune_cases)
  case error
  with assms(3) show ?thesis by simp
qed (use assms(1) in \<open>auto simp: decode_rune_ascii decode2 decode3 decode4\<close>)

text \<open>The pieces of a string that \<open>for _, r := range s\<close> visits: the rune and its bytes.\<close>

function segs :: "string \<Rightarrow> (nat \<times> string) list" where
  "segs [] = []"
| "segs (c # s) =
     (let (r, n) = decode_rune (c # s) in (r, take n (c # s)) # segs (drop n (c # s)))"
  by pat_completeness auto
termination
proof (relation "measure length", goal_cases)
  case (2 c s x r n)
  then show ?case using decode_rune_size [of "c # s"] by (auto simp: prod_eq_iff)
qed simp

declare segs.simps(2) [simp del]

definition valid_seg :: "nat \<times> string \<Rightarrow> bool" where
  "valid_seg p \<longleftrightarrow>
     snd p \<noteq> [] \<and> decode_rune (snd p) = (fst p, length (snd p)) \<and>
     \<not> (fst p = rune_error \<and> length (snd p) = 1)"

definition rune_count :: "string \<Rightarrow> nat" where
  "rune_count s = length (segs s)"

definition valid_utf8 :: "string \<Rightarrow> bool" where
  "valid_utf8 s = list_all (\<lambda>(r, b). \<not> (r = rune_error \<and> length b = 1)) (segs s)"

definition runes :: "string \<Rightarrow> nat list" where
  "runes s = map fst (segs s)"

lemma concat_segs [simp]: "concat (map snd (segs s)) = s"
  by (induction s rule: segs.induct) (auto simp: segs.simps(2) split: prod.splits)

lemma segs_eq_Nil_iff [simp]: "segs s = [] \<longleftrightarrow> s = []"
  by (cases s) (auto simp: segs.simps(2) split: prod.splits)

lemma segs_nonempty: "(r, b) \<in> set (segs s) \<Longrightarrow> b \<noteq> []"
proof (induction s rule: segs.induct)
  case (2 c s)
  obtain q n where d: "decode_rune (c # s) = (q, n)" by force
  then have "1 \<le> n" using decode_rune_size [of "c # s"] by simp
  with "2.prems" "2.IH" [of "(q, n)" q n] d show ?case by (auto simp: segs.simps(2))
qed simp

lemma valid_seg_segs:
  "(r, b) \<in> set (segs s) \<Longrightarrow> \<not> (r = rune_error \<and> length b = 1) \<Longrightarrow> valid_seg (r, b)"
proof (induction s rule: segs.induct)
  case (2 c s)
  obtain q n where d: "decode_rune (c # s) = (q, n)" by force
  have n: "1 \<le> n" "n \<le> length (c # s)" using decode_rune_size [of "c # s"] d by auto
  from "2.prems"(1) d have "(r, b) = (q, take n (c # s)) \<or> (r, b) \<in> set (segs (drop n (c # s)))"
    by (auto simp: segs.simps(2))
  then show ?case
  proof
    assume rb: "(r, b) = (q, take n (c # s))"
    with n have "length b = n" by simp
    moreover have "decode_rune b = (q, n)"
      using rb "2.prems"(2) n d by (auto intro!: decode_rune_take)
    ultimately show ?thesis using rb n "2.prems"(2) by (auto simp: valid_seg_def)
  qed (use "2.IH" d "2.prems" in auto)
qed simp

lemma segs_valid_append:
  assumes "valid_seg (r, b)"
  shows "segs (b @ t) = (r, b) # segs t"
proof -
  from assms obtain c b' where b: "b = c # b'" by (cases b) (auto simp: valid_seg_def)
  from assms have "decode_rune (b @ t) = (r, length b)"
    by (intro decode_rune_append) (auto simp: valid_seg_def)
  then show ?thesis using b by (simp add: segs.simps(2))
qed

lemma segs_concat_append:
  "list_all valid_seg vs \<Longrightarrow> segs (concat (map snd vs) @ t) = vs @ segs t"
  by (induction vs) (auto simp: segs_valid_append)

lemma segs_concat: "list_all valid_seg vs \<Longrightarrow> segs (concat (map snd vs)) = vs"
  using segs_concat_append [of vs "[]"] by simp

lemma valid_utf8_segs: "valid_utf8 s \<longleftrightarrow> list_all valid_seg (segs s)"
proof
  assume "valid_utf8 s"
  then show "list_all valid_seg (segs s)"
    unfolding valid_utf8_def list_all_iff by (auto intro!: valid_seg_segs)
qed (auto simp: valid_utf8_def list_all_iff valid_seg_def)

lemma valid_utf8_concat: "list_all valid_seg vs \<Longrightarrow> valid_utf8 (concat (map snd vs))"
  by (simp add: valid_utf8_segs segs_concat)

lemma valid_utf8_Nil [simp]: "valid_utf8 []"
  by (simp add: valid_utf8_def)

lemma valid_seg_length: "valid_seg (r, b) \<Longrightarrow> 1 \<le> length b \<and> length b \<le> 4"
  using decode_rune_size [of b] by (auto simp: valid_seg_def)

section \<open>Encoding\<close>

definition scalar :: "nat \<Rightarrow> bool" where
  "scalar r \<longleftrightarrow> r < 0xD800 \<or> 0xE000 \<le> r \<and> r \<le> 0x10FFFF"

definition encode_scalar :: "nat \<Rightarrow> string" where
  "encode_scalar r =
     (if r < 0x80 then [char_of r]
      else if r < 0x800 then [char_of (0xC0 + r div 64), char_of (0x80 + r mod 64)]
      else if r < 0x10000 then
        [char_of (0xE0 + r div 4096), char_of (0x80 + r div 64 mod 64), char_of (0x80 + r mod 64)]
      else
        [char_of (0xF0 + r div 262144), char_of (0x80 + r div 4096 mod 64),
         char_of (0x80 + r div 64 mod 64), char_of (0x80 + r mod 64)])"

text \<open>\<open>utf8.EncodeRune\<close>: an invalid rune is encoded as the replacement rune.\<close>

definition encode_rune :: "nat \<Rightarrow> string" where
  "encode_rune r = (if scalar r then encode_scalar r else encode_scalar rune_error)"

definition of_runes :: "nat list \<Rightarrow> string" where
  "of_runes rs = concat (map encode_rune rs)"

lemma bv_char_of: "n < 256 \<Longrightarrow> bv (char_of n :: char) = n"
  by simp

lemma base64_2: "(r::nat) div 64 = 64 * (r div 4096) + r div 64 mod 64"
  using mult_div_mod_eq [of 64 "r div 64"] by (simp add: div_mult2_eq [of r 64 64, simplified])

lemma base64_3: "(r::nat) div 4096 = 64 * (r div 262144) + r div 4096 mod 64"
  using mult_div_mod_eq [of 64 "r div 4096"] by (simp add: div_mult2_eq [of r 4096 64, simplified])

lemma base64_1: "(r::nat) = 64 * (r div 64) + r mod 64"
  by simp

lemma decode_encode:
  assumes "scalar r"
  shows "decode_rune (encode_scalar r) = (r, length (encode_scalar r))"
proof -
  consider (1) "r < 0x80" | (2) "0x80 \<le> r" "r < 0x800" | (3) "0x800 \<le> r" "r < 0x10000"
    | (4) "0x10000 \<le> r" by linarith
  then show ?thesis
  proof cases
    case 1
    then show ?thesis by (simp add: encode_scalar_def decode_rune_ascii)
  next
    case 2
    let ?c = "char_of (0xC0 + r div 64) :: char" and ?c1 = "char_of (0x80 + r mod 64) :: char"
    have c: "bv ?c = 0xC0 + r div 64" "bv ?c1 = 0x80 + r mod 64"
      using 2 by (auto simp: bv_char_of simp del: of_char_of)
    have "decode_rune [?c, ?c1] = ((bv ?c - 0xC0) * 64 + cv ?c1, 2)"
      by (rule decode2) (use 2 in \<open>auto simp: c second_ok_def second_range_def in_range_def simp del: of_char_of\<close>)
    then show ?thesis using 2 by (simp add: encode_scalar_def c del: of_char_of)
  next
    case 3
    let ?c = "char_of (0xE0 + r div 4096) :: char" and ?c1 = "char_of (0x80 + r div 64 mod 64) :: char"
      and ?c2 = "char_of (0x80 + r mod 64) :: char"
    have c: "bv ?c = 0xE0 + r div 4096" "bv ?c1 = 0x80 + r div 64 mod 64" "bv ?c2 = 0x80 + r mod 64"
      using 3 by (auto simp: bv_char_of simp del: of_char_of)
    have m: "r div 64 mod 64 = r div 64 - 64 * (r div 4096)"
      using base64_2 [of r] by linarith
    have s: "second_ok (bv ?c) ?c1"
      using 3 assms unfolding second_ok_def second_range_def in_range_def scalar_def c m
      by (auto split: if_splits)
    have "decode_rune [?c, ?c1, ?c2] = ((bv ?c - 0xE0) * 4096 + cv ?c1 * 64 + cv ?c2, 3)"
      by (rule decode3) (use 3 s in \<open>auto simp: c in_range_def simp del: of_char_of\<close>)
    moreover have "r div 4096 * 4096 + r div 64 mod 64 * 64 + r mod 64 = r"
      using base64_1 [of r] base64_2 [of r] by linarith
    ultimately show ?thesis using 3 by (simp add: encode_scalar_def c del: of_char_of)
  next
    case 4
    with assms have le: "r \<le> 0x10FFFF" by (simp add: scalar_def)
    let ?c = "char_of (0xF0 + r div 262144) :: char" and ?c1 = "char_of (0x80 + r div 4096 mod 64) :: char"
      and ?c2 = "char_of (0x80 + r div 64 mod 64) :: char" and ?c3 = "char_of (0x80 + r mod 64) :: char"
    have c: "bv ?c = 0xF0 + r div 262144" "bv ?c1 = 0x80 + r div 4096 mod 64"
        "bv ?c2 = 0x80 + r div 64 mod 64" "bv ?c3 = 0x80 + r mod 64"
      using le by (auto simp: bv_char_of simp del: of_char_of)
    have s: "second_ok (bv ?c) ?c1"
      using 4 le base64_3 [of r] unfolding second_ok_def second_range_def in_range_def c
      by (auto split: if_splits)
    have "decode_rune [?c, ?c1, ?c2, ?c3] =
        ((bv ?c - 0xF0) * 262144 + cv ?c1 * 4096 + cv ?c2 * 64 + cv ?c3, 4)"
      by (rule decode4) (use 4 le s in \<open>auto simp: c in_range_def simp del: of_char_of\<close>)
    moreover have "r div 262144 * 262144 + r div 4096 mod 64 * 4096 + r div 64 mod 64 * 64 + r mod 64 = r"
      using base64_1 [of r] base64_2 [of r] base64_3 [of r] by linarith
    ultimately show ?thesis using 4 by (simp add: encode_scalar_def c del: of_char_of)
  qed
qed

lemma encode_scalar_ne [simp]: "encode_scalar r \<noteq> []"
  by (simp add: encode_scalar_def)

lemma valid_seg_encode: "scalar r \<Longrightarrow> valid_seg (r, encode_scalar r)"
  by (auto simp: valid_seg_def decode_encode) (simp add: encode_scalar_def split: if_splits)

lemma scalar_error [simp]: "scalar rune_error"
  by (simp add: scalar_def)

lemma valid_seg_encode_rune: "valid_seg (if scalar r then r else rune_error, encode_rune r)"
  by (simp add: encode_rune_def valid_seg_encode)

lemma segs_of_runes:
  "segs (of_runes rs) = map (\<lambda>r. (if scalar r then r else rune_error, encode_rune r)) rs"
proof -
  let ?vs = "map (\<lambda>r. (if scalar r then r else rune_error, encode_rune r)) rs"
  have "of_runes rs = concat (map snd ?vs)" by (simp add: of_runes_def comp_def)
  moreover have "list_all valid_seg ?vs"
    by (simp add: list_all_iff valid_seg_encode_rune del: if_split_asm)
  ultimately show ?thesis by (metis segs_concat)
qed

lemma rune_count_of_runes [simp]: "rune_count (of_runes rs) = length rs"
  by (simp add: rune_count_def segs_of_runes)

lemma valid_of_runes [simp]: "valid_utf8 (of_runes rs)"
  unfolding valid_utf8_segs segs_of_runes
  by (auto simp: list_all_iff valid_seg_encode_rune simp del: if_split)

section \<open>TrimSpace\<close>

text \<open>\<open>unicode.IsSpace\<close>.\<close>

definition is_space :: "nat \<Rightarrow> bool" where
  "is_space r \<longleftrightarrow> (0x09 \<le> r \<and> r \<le> 0x0D) \<or> r = 0x20 \<or> r = 0x85 \<or> r = 0xA0 \<or> r = 0x1680 \<or>
     (0x2000 \<le> r \<and> r \<le> 0x200A) \<or> r = 0x2028 \<or> r = 0x2029 \<or> r = 0x202F \<or> r = 0x205F \<or> r = 0x3000"

definition seg_space :: "nat \<times> string \<Rightarrow> bool" where
  "seg_space p = is_space (fst p)"

definition trim_segs :: "(nat \<times> string) list \<Rightarrow> (nat \<times> string) list" where
  "trim_segs xs = rev (dropWhile seg_space (rev (dropWhile seg_space xs)))"

text \<open>
  \<open>strings.TrimSpace\<close>: the runes of white space at both ends are dropped. An invalid byte decodes to
  the replacement rune, which is no space, so it stops the trimming.
\<close>

definition trim_space :: "string \<Rightarrow> string" where
  "trim_space s = concat (map snd (trim_segs (segs s)))"

lemma trim_segs_infix: "\<exists>a b. xs = a @ trim_segs xs @ b"
proof -
  define u where "u = dropWhile seg_space xs"
  have "rev (dropWhile seg_space (rev u)) @ rev (takeWhile seg_space (rev u)) = u"
    by (metis rev_append rev_rev_ident takeWhile_dropWhile_id)
  then have "xs = takeWhile seg_space xs @ trim_segs xs @ rev (takeWhile seg_space (rev u))"
    unfolding trim_segs_def u_def by (metis append.assoc takeWhile_dropWhile_id)
  then show ?thesis by blast
qed

lemma sublist_trim_space: "sublist (trim_space s) s"
proof -
  obtain a b where "segs s = a @ trim_segs (segs s) @ b" using trim_segs_infix by blast
  then have "concat (map snd (segs s)) =
      concat (map snd a) @ trim_space s @ concat (map snd b)"
    unfolding trim_space_def by (metis concat_append map_append)
  then show ?thesis by (auto simp: sublist_def)
qed

lemma length_trim_space: "length (trim_space s) \<le> length s"
  by (rule sublist_length_le [OF sublist_trim_space])

lemma valid_trim_space: "valid_utf8 s \<Longrightarrow> valid_utf8 (trim_space s)"
proof -
  assume v: "valid_utf8 s"
  obtain a b where "segs s = a @ trim_segs (segs s) @ b" using trim_segs_infix by blast
  with v have "list_all valid_seg (trim_segs (segs s))"
    unfolding valid_utf8_segs by (metis list_all_append)
  then show ?thesis unfolding trim_space_def by (rule valid_utf8_concat)
qed

lemma trim_space_Nil [simp]: "trim_space [] = []"
  by (simp add: trim_space_def trim_segs_def)

end
