(* ===== verification/TextSanitize.thy ===== *)
theory TextSanitize
  imports Utf8
begin

text \<open>
  \<open>internal/sanitize/sanitize.go\<close>: \<open>SafeSlug\<close>, \<open>TruncateUTF8\<close>, \<open>StripControlChars\<close> and
  \<open>TrimToRunes\<close>, as functions on byte strings. An index \<open>i\<close> into the input of
  \<open>StripControlChars\<close> is modelled by the suffix \<open>s[i:]\<close> that is still to be read.
\<close>

section \<open>SafeSlug\<close>

text \<open>
  \<open>unicode.ToLower\<close> as far as \<open>SafeSlug\<close> can see it: the ASCII capitals, and the two runes outside
  ASCII whose lower case is an ASCII letter (U+0130 and the Kelvin sign U+212A). The image of any
  other rune outside ASCII is outside ASCII, and \<open>SafeSlug\<close> drops it as it drops the rune.
\<close>

definition lower_rune :: "nat \<Rightarrow> nat" where
  "lower_rune r =
     (if 65 \<le> r \<and> r \<le> 90 then r + 32 else if r = 0x130 then 105 else if r = 0x212A then 107 else r)"

definition adapter_slug_max_length :: nat where
  "adapter_slug_max_length = 64"

definition slug_rune :: "nat \<Rightarrow> string" where
  "slug_rune r =
     (if 97 \<le> r \<and> r \<le> 122 \<or> 48 \<le> r \<and> r \<le> 57 then [char_of r]
      else if r = 45 \<or> r = 95 then [char_of r]
      else if r = 32 \<or> r = 46 \<or> r = 47 then ''-''
      else [])"

definition slug_sep :: "char \<Rightarrow> bool" where
  "slug_sep c \<longleftrightarrow> c = CHR ''-'' \<or> c = CHR ''_''"

definition safe_slug :: "string \<Rightarrow> string" where
  "safe_slug value =
     (let res = trim slug_sep (concat (map (slug_rune \<circ> lower_rune) (runes (trim_space value))))
      in if res = [] then ''adapter''
         else if adapter_slug_max_length < length res then take adapter_slug_max_length res
         else res)"

definition slug_char :: "char \<Rightarrow> bool" where
  "slug_char c \<longleftrightarrow> (97 \<le> bv c \<and> bv c \<le> 122) \<or> (48 \<le> bv c \<and> bv c \<le> 57) \<or> slug_sep c"

lemma slug_sep_bv: "slug_sep c \<longleftrightarrow> bv c = 45 \<or> bv c = 95"
proof -
  have "c = CHR ''-'' \<longleftrightarrow> bv c = bv (CHR ''-'')" "c = CHR ''_'' \<longleftrightarrow> bv c = bv (CHR ''_'')"
    by (metis char_of_bv)+
  then show ?thesis by (simp add: slug_sep_def)
qed

lemma slug_rune_chars: "c \<in> set (slug_rune r) \<Longrightarrow> slug_char c"
  by (auto simp: slug_rune_def slug_char_def slug_sep_bv split: if_splits)

section \<open>TruncateUTF8\<close>

function trunc_loop :: "string \<Rightarrow> string" where
  "trunc_loop t = (if t \<noteq> [] \<and> \<not> valid_utf8 t then trunc_loop (butlast t) else t)"
  by pat_completeness auto
termination by (relation "measure length") auto

declare trunc_loop.simps [simp del]

definition truncate_utf8 :: "string \<Rightarrow> int \<Rightarrow> string" where
  "truncate_utf8 s max_bytes =
     (if max_bytes \<le> 0 then []
      else if int (length s) \<le> max_bytes then s
      else trunc_loop (take (nat max_bytes) s))"

lemma trunc_loop_prefix: "prefix (trunc_loop t) t"
proof (induction t rule: trunc_loop.induct)
  case (1 t)
  then show ?case
    by (subst trunc_loop.simps) (auto intro: prefix_order.order_trans prefixeq_butlast)
qed

lemma trunc_loop_valid: "valid_utf8 (trunc_loop t)"
proof (induction t rule: trunc_loop.induct)
  case (1 t)
  then show ?case by (subst trunc_loop.simps) auto
qed

lemma trunc_loop_longest: "prefix q t \<Longrightarrow> valid_utf8 q \<Longrightarrow> length q \<le> length (trunc_loop t)"
proof (induction t rule: trunc_loop.induct)
  case (1 t)
  show ?case
  proof (cases "t \<noteq> [] \<and> \<not> valid_utf8 t")
    case True
    with "1.prems" have "q \<noteq> t" by blast
    with "1.prems"(1) have "prefix q (butlast t)"
      using True by (metis append_butlast_last_id prefix_snoc)
    with "1.IH" True "1.prems"(2) show ?thesis by (subst trunc_loop.simps) simp
  next
    case False
    with "1.prems" show ?thesis by (subst trunc_loop.simps) (auto dest: prefix_length_le)
  qed
qed

text \<open>Every cut point of a valid string is at most three bytes after the end of some rune.\<close>

lemma valid_boundary:
  assumes "list_all valid_seg vs" "n \<le> length (concat (map snd vs))"
  shows "\<exists>q. prefix q (take n (concat (map snd vs))) \<and> valid_utf8 q \<and> n \<le> length q + 3"
  using assms
proof (induction vs arbitrary: n)
  case (Cons v vs)
  obtain r b where v: "v = (r, b)" by force
  with Cons.prems have b: "valid_seg (r, b)" "list_all valid_seg vs" by auto
  then have len: "length b \<le> 4" "1 \<le> length b" using valid_seg_length by auto
  show ?case
  proof (cases "n < length b")
    case True
    then show ?thesis using len by (intro exI [of _ "[]"]) auto
  next
    case False
    with Cons.prems v have "n - length b \<le> length (concat (map snd vs))" by simp
    with Cons.IH b(2) obtain q where q: "prefix q (take (n - length b) (concat (map snd vs)))"
      "valid_utf8 q" "n - length b \<le> length q + 3" by blast
    from q(2) b(1) have "list_all valid_seg ((r, b) # segs q)" by (simp add: valid_utf8_segs)
    from valid_utf8_concat [OF this] have "valid_utf8 (b @ q)" by simp
    moreover have "prefix (b @ q) (take n (concat (map snd (v # vs))))"
      using q(1) False v by (simp add: take_append)
    ultimately show ?thesis using q(3) by (intro exI [of _ "b @ q"]) auto
  qed
qed simp

section \<open>StripControlChars\<close>

abbreviation ESC :: char where "ESC \<equiv> CHR 0x1B"
abbreviation BEL :: char where "BEL \<equiv> CHR 0x07"

text \<open>\<open>unicode.IsControl\<close>.\<close>

definition is_control :: "nat \<Rightarrow> bool" where
  "is_control r \<longleftrightarrow> r < 0x20 \<or> 0x7F \<le> r \<and> r < 0xA0"

definition final_byte :: "char \<Rightarrow> bool" where
  "final_byte c \<longleftrightarrow> 0x40 \<le> bv c \<and> bv c \<le> 0x7E"

text \<open>After \<open>ESC [\<close>: at most \<open>k\<close> parameter bytes are skipped, then the final byte if it is next.\<close>

fun skip_csi :: "nat \<Rightarrow> string \<Rightarrow> string" where
  "skip_csi k [] = []"
| "skip_csi 0 (c # s) = (if final_byte c then s else c # s)"
| "skip_csi (Suc k) (c # s) = (if final_byte c then s else skip_csi k s)"

text \<open>After \<open>ESC ]\<close>: up to and including \<open>BEL\<close> or \<open>ESC \\<close>.\<close>

fun skip_osc :: "string \<Rightarrow> string" where
  "skip_osc [] = []"
| "skip_osc (c # s) =
     (if c = BEL then s
      else if c = ESC \<and> s \<noteq> [] \<and> hd s = CHR 0x5C then tl s
      else skip_osc s)"

lemma skip_csi_final: "final_byte c \<Longrightarrow> skip_csi k (c # s) = s"
  by (cases k) auto

lemma length_skip_csi: "length (skip_csi k s) \<le> length s"
  by (induction k s rule: skip_csi.induct) auto

lemma length_skip_osc: "length (skip_osc s) \<le> length s"
  by (induction s) auto

definition keep_rune :: "nat \<Rightarrow> bool" where
  "keep_rune r \<longleftrightarrow> r = 0x0A \<or> r = 0x09 \<or> (0x20 \<le> r \<and> \<not> is_control r)"

function strip_control_chars :: "string \<Rightarrow> string" where
  "strip_control_chars [] = []"
| "strip_control_chars (c # s) =
     (if c = ESC then
        (case s of
           [] \<Rightarrow> []
         | d # t \<Rightarrow>
             if d = CHR ''['' then strip_control_chars (skip_csi 64 t)
             else if d = CHR '']'' then strip_control_chars (skip_osc t)
             else strip_control_chars t)
      else
        (let (r, n) = decode_rune (c # s)
         in (if keep_rune r then take n (c # s) else []) @ strip_control_chars (drop n (c # s))))"
  by pat_completeness auto
termination
proof (relation "measure length", goal_cases)
  case (5 c s x r n)
  then show ?case using decode_rune_size [of "c # s"] by (auto simp: prod_eq_iff)
qed (auto simp: le_imp_less_Suc length_skip_csi length_skip_osc le_SucI)

declare strip_control_chars.simps(2) [simp del]

text \<open>The bytes of one decoded piece: a single ASCII byte, or bytes of 0x80 and above.\<close>

lemma decode_rune_bytes:
  assumes "decode_rune s = (r, n)" "s \<noteq> []"
  shows "(n = 1 \<and> bv (hd s) = r \<and> r < 0x80) \<or> (0x80 \<le> r \<and> (\<forall>c \<in> set (take n s). 0x80 \<le> bv c))"
  using assms
proof (cases rule: decode_rune_cases)
  case error
  show ?thesis
  proof (cases "bv (hd s) < 0x80")
    case True
    with assms error show ?thesis by (cases s) (auto simp: decode_rune_ascii)
  next
    case False
    with error assms(2) show ?thesis by (cases s) auto
  qed
next
  case (two c c1 t)
  with assms(1) show ?thesis
    by (auto simp: decode2 second_ok_def second_range_def in_range_def)
next
  case (three c c1 c2 t)
  with assms(1) show ?thesis
    by (auto simp: decode3 second_ok_def second_range_def in_range_def split: if_splits)
next
  case (four c c1 c2 c3 t)
  with assms(1) show ?thesis
    by (auto simp: decode4 second_ok_def second_range_def in_range_def split: if_splits)
qed auto

section \<open>TrimToRunes\<close>

definition trim_to_runes :: "string \<Rightarrow> int \<Rightarrow> string" where
  "trim_to_runes value max_runes =
     (let value = trim_space value
      in if value = [] \<or> max_runes \<le> 0 then []
         else if int (rune_count value) \<le> max_runes then value
         else of_runes (take (nat max_runes) (runes value)))"

lemma rune_count_Nil: "rune_count [] = 0"
  by (simp add: rune_count_def)

lemma rune_count_trim_to_runes: "0 \<le> n \<Longrightarrow> int (rune_count (trim_to_runes s n)) \<le> n"
  by (cases "n = 0") (auto simp: trim_to_runes_def Let_def rune_count_Nil)

text \<open>Re-encoding the runes of a valid string gives its bytes back.\<close>

lemma digit64: "(r::nat) = 64 * q + a \<Longrightarrow> a < 64 \<Longrightarrow> r div 64 = q \<and> r mod 64 = a"
  by simp

lemma encode_decode:
  assumes "valid_seg (r, b)"
  shows "encode_rune r = b"
proof -
  from assms have d: "decode_rune b = (r, length b)" and ne: "b \<noteq> []"
    and ok: "\<not> (r = rune_error \<and> length b = 1)" by (auto simp: valid_seg_def)
  have r: "decode_rune b = (r, length b) \<Longrightarrow> fst (decode_rune b) = r" by simp
  from d ne show ?thesis
  proof (cases rule: decode_rune_cases)
    case error
    with ok show ?thesis by simp
  next
    case (one c t)
    then show ?thesis by (simp add: encode_rune_def scalar_def encode_scalar_def)
  next
    case (two c c1 t)
    with d have b: "b = [c, c1]" "r = (bv c - 0xC0) * 64 + cv c1" by (auto simp: decode2)
    have k: "0x80 \<le> bv c1" "bv c1 \<le> 0xBF"
      using two by (auto simp: second_ok_def second_range_def in_range_def)
    have "r = 64 * (bv c - 0xC0) + cv c1" "cv c1 < 64" using b(2) k by auto
    from digit64 [OF this] have "r div 64 = bv c - 0xC0" "r mod 64 = cv c1" by auto
    moreover have "0x80 \<le> r" "r < 0x800" using b(2) k two by auto
    ultimately show ?thesis using b(1) k two
      by (simp add: encode_rune_def scalar_def encode_scalar_def)
  next
    case (three c c1 c2 t)
    with d have b: "b = [c, c1, c2]" "r = (bv c - 0xE0) * 4096 + cv c1 * 64 + cv c2"
      by (auto simp: decode3)
    have k: "0x80 \<le> bv c1" "bv c1 \<le> 0xBF" "0x80 \<le> bv c2" "bv c2 \<le> 0xBF"
      "bv c = 0xE0 \<longrightarrow> 0xA0 \<le> bv c1" "bv c = 0xED \<longrightarrow> bv c1 \<le> 0x9F"
      using three by (auto simp: second_ok_def second_range_def in_range_def split: if_splits)
    have "r = 64 * (64 * (bv c - 0xE0) + cv c1) + cv c2" "cv c2 < 64" "cv c1 < 64"
      using b(2) k by auto
    note 1 = digit64 [OF this(1,2)]
    note 2 = digit64 [OF conjunct1 [OF 1] \<open>cv c1 < 64\<close>]
    from 1 2 have "r mod 64 = cv c2" "r div 4096 = bv c - 0xE0" "r div 64 mod 64 = cv c1"
      by (auto simp: div_mult2_eq [of r 64 64, simplified])
    moreover have "0x800 \<le> r" "r < 0x10000" using b(2) k three by auto
    moreover have "scalar r"
    proof (cases "bv c = 0xED")
      case False
      then have "bv c \<le> 0xEC \<or> 0xEE \<le> bv c" by linarith
      then show ?thesis using b(2) k three by (auto simp: scalar_def)
    qed (use b(2) k in \<open>auto simp: scalar_def\<close>)
    ultimately show ?thesis using b(1) k three by (simp add: encode_rune_def encode_scalar_def)
  next
    case (four c c1 c2 c3 t)
    with d have b: "b = [c, c1, c2, c3]"
      "r = (bv c - 0xF0) * 262144 + cv c1 * 4096 + cv c2 * 64 + cv c3" by (auto simp: decode4)
    have k: "0x80 \<le> bv c1" "bv c1 \<le> 0xBF" "0x80 \<le> bv c2" "bv c2 \<le> 0xBF"
      "0x80 \<le> bv c3" "bv c3 \<le> 0xBF"
      "bv c = 0xF0 \<longrightarrow> 0x90 \<le> bv c1" "bv c = 0xF4 \<longrightarrow> bv c1 \<le> 0x8F"
      using four by (auto simp: second_ok_def second_range_def in_range_def split: if_splits)
    have "r = 64 * (64 * (64 * (bv c - 0xF0) + cv c1) + cv c2) + cv c3"
      unfolding b(2) by (simp only: distrib_left mult.assoc [symmetric])
    have lt: "cv c3 < 64" "cv c2 < 64" "cv c1 < 64" using k by linarith+
    note r = \<open>r = 64 * (64 * (64 * (bv c - 0xF0) + cv c1) + cv c2) + cv c3\<close>
    note 1 = digit64 [OF r lt(1)]
    note 2 = digit64 [OF conjunct1 [OF 1] lt(2)]
    note 3 = digit64 [OF conjunct1 [OF 2] lt(3)]
    have "r div 4096 = r div 64 div 64" "r div 262144 = r div 64 div 64 div 64"
      by (simp_all add: div_mult2_eq [symmetric])
    with 1 2 3 have 4: "r mod 64 = cv c3" "r div 64 mod 64 = cv c2" "r div 262144 = bv c - 0xF0"
      "r div 4096 mod 64 = cv c1" by auto
    have "0x10000 \<le> r \<and> r \<le> 0x10FFFF"
    proof -
      from four consider "bv c = 0xF0" | "0xF1 \<le> bv c" "bv c \<le> 0xF3" | "bv c = 0xF4" by linarith
      then show ?thesis by cases (use b(2) k in auto)
    qed
    then have "0x10000 \<le> r" "scalar r" by (auto simp: scalar_def)
    then show ?thesis using b(1) k four 4 by (simp add: encode_rune_def encode_scalar_def)
  qed
qed

lemma of_runes_runes:
  "list_all valid_seg vs \<Longrightarrow> of_runes (map fst vs) = concat (map snd vs)"
  by (induction vs) (auto simp: of_runes_def encode_decode)

lemma trim_to_runes_nonpos [simp]: "n \<le> 0 \<Longrightarrow> trim_to_runes s n = []"
  by (simp add: trim_to_runes_def Let_def)

section \<open>Properties\<close>

lemma char_of_eqI: "of_char c = (n :: nat) \<Longrightarrow> char_of n = c"
  by (metis char_of_char)

lemmas utf8_eval = valid_utf8_def runes_def segs.simps(2) decode_rune_def second_ok_def
  second_range_def in_range_def rune_count_def

text \<open>\<open>SafeSlug\<close> always returns a filesystem-safe name: between 1 and 64 bytes, all of them
  lower-case ASCII letters, digits, hyphens or underscores, and the first one a letter or a digit.\<close>

theorem safe_slug_safe:
  "safe_slug s \<noteq> [] \<and> length (safe_slug s) \<le> 64 \<and> (\<forall>c \<in> set (safe_slug s). slug_char c) \<and>
   \<not> slug_sep (hd (safe_slug s))"
proof -
  let ?b = "concat (map (slug_rune \<circ> lower_rune) (runes (trim_space s)))"
  have chars: "\<forall>c \<in> set ?b. slug_char c" by (auto dest: slug_rune_chars)
  define res where "res = trim slug_sep ?b"
  have res: "set res \<subseteq> set ?b" unfolding res_def using sublist_trim set_mono_sublist by metis
  have t: "trimmed slug_sep res" unfolding res_def by simp
  have eq: "safe_slug s = (if res = [] then ''adapter'' else if 64 < length res then take 64 res else res)"
    by (simp add: safe_slug_def Let_def res_def adapter_slug_max_length_def)
  show ?thesis
  proof (cases "res = []")
    case True
    with eq have "safe_slug s = ''adapter''" by simp
    then show ?thesis by (simp add: slug_char_def slug_sep_def)
  next
    case False
    with eq have p: "safe_slug s = take 64 res" by simp
    moreover have "hd (take 64 res) = hd res" using False by (cases res) auto
    moreover have "set (take 64 res) \<subseteq> set ?b" using res set_take_subset by fastforce
    ultimately show ?thesis using False t chars by (auto simp: trimmed_def)
  qed
qed

theorem safe_slug_safe_witness:
  "safe_slug ''A.b'' = ''a-b'' \<and> slug_char (hd (safe_slug ''A.b'')) \<and> length (safe_slug ''A.b'') \<le> 64"
proof -
  have [simp]: "char_of (97 :: nat) = CHR ''a''" "char_of (98 :: nat) = CHR ''b''"
    by (rule char_of_eqI, simp)+
  have e: "safe_slug ''A.b'' = ''a-b''"
    by (simp add: safe_slug_def slug_rune_def lower_rune_def slug_sep_def trim_def trim_left_def
        trim_right_def adapter_slug_max_length_def trim_space_def trim_segs_def seg_space_def
        is_space_def utf8_eval)
  have "slug_char (hd (safe_slug ''A.b'')) \<and> length (safe_slug ''A.b'') \<le> 64"
    using safe_slug_safe [of "''A.b''"] by (metis hd_in_set)
  with e show ?thesis by simp
qed

text \<open>\<open>TruncateUTF8\<close> returns a prefix of its input of at most \<open>maxBytes\<close> bytes; it never splits a
  rune (whenever it cuts, or the input was valid, the result is valid UTF-8); and it is tight: on
  valid input it gives up at most three of the allowed bytes.\<close>

theorem truncate_utf8_spec:
  "prefix (truncate_utf8 s n) s \<and> int (length (truncate_utf8 s n)) \<le> max 0 n \<and>
   (n < int (length s) \<or> valid_utf8 s \<longrightarrow> valid_utf8 (truncate_utf8 s n)) \<and>
   (valid_utf8 s \<and> n < int (length s) \<longrightarrow> n - 3 \<le> int (length (truncate_utf8 s n)))"
proof -
  let ?t = "trunc_loop (take (nat n) s)"
  have pre: "prefix ?t s"
    using trunc_loop_prefix take_is_prefix by (rule prefix_order.order_trans)
  have len: "length ?t \<le> nat n"
    using prefix_length_le [OF trunc_loop_prefix [of "take (nat n) s"]] by simp
  have tight: "n \<le> int (length ?t) + 3" if "valid_utf8 s" "n < int (length s)"
  proof -
    from that have "list_all valid_seg (segs s)" "nat n \<le> length (concat (map snd (segs s)))"
      by (auto simp: valid_utf8_segs)
    from valid_boundary [OF this] obtain q
      where "prefix q (take (nat n) s)" "valid_utf8 q" "nat n \<le> length q + 3"
      unfolding concat_segs by blast
    with trunc_loop_longest [of q "take (nat n) s"] show ?thesis by linarith
  qed
  show ?thesis
    using pre len trunc_loop_valid [of "take (nat n) s"] tight
    by (auto simp: truncate_utf8_def Sublist.prefix_order.eq_iff)
qed

theorem truncate_utf8_spec_witness:
  "truncate_utf8 [CHR 0x68, CHR 0xC3, CHR 0xA9] 2 = [CHR 0x68] \<and>
   valid_utf8 [CHR 0x68, CHR 0xC3, CHR 0xA9] \<and>
   valid_utf8 (truncate_utf8 [CHR 0x68, CHR 0xC3, CHR 0xA9] 2) \<and>
   -1 \<le> int (length (truncate_utf8 [CHR 0x68, CHR 0xC3, CHR 0xA9] 2))"
proof -
  have v: "valid_utf8 [CHR 0x68, CHR 0xC3, CHR 0xA9]" by (simp add: utf8_eval)
  have e: "truncate_utf8 [CHR 0x68, CHR 0xC3, CHR 0xA9] 2 = [CHR 0x68]"
    by (simp add: truncate_utf8_def trunc_loop.simps utf8_eval)
  show ?thesis
    using v e truncate_utf8_spec [of "[CHR 0x68, CHR 0xC3, CHR 0xA9]" 2] by auto
qed

text \<open>whatever the input, valid UTF-8 or not, \<open>StripControlChars\<close> leaves no ASCII control byte
  other than newline and tab: no escape introducer, no bell, no NUL, no DEL.\<close>

theorem strip_control_chars_bytes:
  "\<forall>c \<in> set (strip_control_chars s). c = NL \<or> c = CHR 0x09 \<or> 0x20 \<le> bv c \<and> bv c \<noteq> 0x7F"
proof (induction s rule: strip_control_chars.induct)
  case (2 c s)
  show ?case
  proof (cases "c = ESC")
    case True
    with 2 show ?thesis by (auto simp: strip_control_chars.simps(2) split: list.splits if_splits)
  next
    case False
    obtain r n where d: "decode_rune (c # s) = (r, n)" by force
    have "\<forall>x \<in> set (take n (c # s)). x = NL \<or> x = CHR 0x09 \<or> 0x20 \<le> bv x \<and> bv x \<noteq> 0x7F"
      if keep: "keep_rune r"
      using decode_rune_bytes [OF d]
    proof
      assume a: "n = 1 \<and> bv (hd (c # s)) = r \<and> r < 0x80"
      then have "c = NL \<or> c = CHR 0x09 \<or> 0x20 \<le> bv c \<and> bv c \<noteq> 0x7F"
        using keep of_char_eq_iff [of c NL] of_char_eq_iff [of c "CHR 0x09"]
        by (auto simp: keep_rune_def is_control_def)
      with a show ?thesis by simp
    next
      assume "0x80 \<le> r \<and> (\<forall>c \<in> set (take n (c # s)). 0x80 \<le> bv c)"
      then show ?thesis by fastforce
    qed simp
    with False d "2.IH"(4) [OF False, of "(r, n)" r n] show ?thesis
      by (auto simp: strip_control_chars.simps(2))
  qed
qed simp

theorem strip_control_chars_bytes_witness:
  "list_all (\<lambda>c. c = NL \<or> c = CHR 0x09 \<or> 0x20 \<le> bv c \<and> bv c \<noteq> 0x7F)
     (strip_control_chars [ESC, CHR ''['', CHR ''m'', BEL, CHR ''x''])"
  unfolding list_all_iff
  by (rule strip_control_chars_bytes)

text \<open>text that is already clean passes \<open>StripControlChars\<close> unchanged: valid UTF-8 or not, if no
  byte is \<open>ESC\<close> and every rune is printable, newline or tab.\<close>

theorem strip_control_chars_id:
  "ESC \<notin> set s \<Longrightarrow> list_all keep_rune (runes s) \<Longrightarrow> strip_control_chars s = s"
proof (induction s rule: strip_control_chars.induct)
  case (2 c s)
  obtain r n where d: "decode_rune (c # s) = (r, n)" by force
  from "2.prems" have c: "c \<noteq> ESC" by auto
  from "2.prems"(2) d have k: "keep_rune r" "list_all keep_rune (runes (drop n (c # s)))"
    by (auto simp: runes_def segs.simps(2))
  have "ESC \<notin> set (drop n (c # s))" using "2.prems"(1) by (auto dest: in_set_dropD)
  with "2.IH"(4) [OF c, of "(r, n)" r n] d k c show ?case
    by (simp add: strip_control_chars.simps(2))
qed simp

theorem strip_control_chars_id_witness:
  "ESC \<notin> set ''ok'' \<and> list_all keep_rune (runes ''ok'') \<and> strip_control_chars ''ok'' = ''ok''"
proof -
  have a: "ESC \<notin> set ''ok''" by simp
  have b: "list_all keep_rune (runes ''ok'')"
    by (simp add: utf8_eval keep_rune_def is_control_def)
  show ?thesis using a b strip_control_chars_id [OF a b] by blast
qed

text \<open>\<open>StripControlChars\<close> does not preserve UTF-8: on the valid input \<open>ESC\<close> followed by a two-byte
  letter it takes the letter's first byte as part of the escape sequence and leaves the second one,
  and it can even assemble a control character (U+0085) out of two invalid bytes.\<close>

theorem strip_control_chars_breaks_utf8:
  "valid_utf8 [ESC, CHR 0xC3, CHR 0xA9] \<and>
   strip_control_chars [ESC, CHR 0xC3, CHR 0xA9] = [CHR 0xA9] \<and> \<not> valid_utf8 [CHR 0xA9] \<and>
   runes (strip_control_chars [CHR 0xC2, ESC, CHR ''['', CHR ''m'', CHR 0x85]) = [0x85] \<and>
   is_control 0x85"
  by (simp add: utf8_eval keep_rune_def is_control_def strip_control_chars.simps(2) skip_csi_final
      final_byte_def)

text \<open>\<open>TrimToRunes\<close> returns at most \<open>maxRunes\<close> runes, and on valid UTF-8 it returns a valid prefix
  of the trimmed input.\<close>

theorem trim_to_runes_spec:
  "0 \<le> n \<Longrightarrow> int (rune_count (trim_to_runes s n)) \<le> n \<and>
   (valid_utf8 s \<longrightarrow> valid_utf8 (trim_to_runes s n) \<and> prefix (trim_to_runes s n) (trim_space s))"
proof -
  assume n: "0 \<le> n"
  have "valid_utf8 (trim_to_runes s n) \<and> prefix (trim_to_runes s n) (trim_space s)"
    if v: "valid_utf8 s"
  proof -
    let ?vs = "segs (trim_space s)"
    have vs: "list_all valid_seg ?vs" using v valid_trim_space valid_utf8_segs by blast
    then have t: "list_all valid_seg (take (nat n) ?vs)"
      by (metis append_take_drop_id list_all_append)
    have "prefix (of_runes (take (nat n) (runes (trim_space s)))) (trim_space s)"
      unfolding runes_def take_map of_runes_runes [OF t]
      by (metis append_take_drop_id concat_append concat_segs map_append prefixI)
    then show ?thesis using valid_trim_space [OF v] by (auto simp: trim_to_runes_def Let_def)
  qed
  then show ?thesis using rune_count_trim_to_runes [OF n] by blast
qed

theorem trim_to_runes_spec_witness:
  "(0::int) \<le> 2 \<and> valid_utf8 '' abc'' \<and> rune_count (trim_to_runes '' abc'' 2) \<le> 2 \<and>
   prefix (trim_to_runes '' abc'' 2) (trim_space '' abc'')"
proof -
  have v: "valid_utf8 '' abc''" by (simp add: utf8_eval)
  have z: "(0::int) \<le> 2" by simp
  show ?thesis using trim_to_runes_spec [OF z, of "'' abc''"] v by auto
qed

end
