(* ===== verification/MetadataSanitize.thy ===== *)
theory MetadataSanitize
  imports TextSanitize "HOL-Library.List_Lexorder" "HOL-Library.Char_ord"
begin

text \<open>
  \<open>internal/sanitize/metadata.go\<close>: the strict normaliser \<open>NormalizeAndValidateMetadata\<close> (errors on
  a limit) and the lossy \<open>MetadataAccumulator\<close> (drops what does not fit). Go iterates over maps in
  a random order; both functions sort the keys first (\<open>sort.Strings\<close>, the byte-wise
  lexicographic order, here the order of \<open>List_Lexorder\<close> over \<open>Char_ord\<close>), and the theorems show
  that the result depends on the map only.
\<close>

section \<open>Limits and errors\<close>

record metadata_limits =
  max_entries :: int
  max_key_runes :: int
  max_value_runes :: int
  max_total_bytes :: int

definition default_metadata_limits :: metadata_limits where
  "default_metadata_limits =
     \<lparr>max_entries = 32, max_key_runes = 64, max_value_runes = 512, max_total_bytes = 8192\<rparr>"

lemma default_metadata_limits_sel [simp]:
  "max_entries default_metadata_limits = 32" "max_key_runes default_metadata_limits = 64"
  "max_value_runes default_metadata_limits = 512" "max_total_bytes default_metadata_limits = 8192"
  by (simp_all add: default_metadata_limits_def)

datatype metadata_error =
    KeyTooLong string
  | ValueTooLong string
  | TooManyEntries
  | TotalTooLarge

abbreviation entry_bytes :: "string \<Rightarrow> string \<Rightarrow> int" where
  "entry_bytes k v \<equiv> int (length k) + int (length v)"

abbreviation map_bytes :: "(string, string) gomap \<Rightarrow> int" where
  "map_bytes \<equiv> msum entry_bytes"

section \<open>NormalizeAndValidateMetadata\<close>

text \<open>The body of the loop over the sorted keys, on the pair of \<open>normalized\<close> and \<open>totalBytes\<close>.\<close>

definition normalize_step ::
  "metadata_limits \<Rightarrow> (string, string) gomap \<Rightarrow> string \<Rightarrow>
   (string, string) gomap \<times> int \<Rightarrow> metadata_error + (string, string) gomap \<times> int" where
  "normalize_step lim raw raw_key st =
     (let (normalized, total) = st;
          key = trim_space raw_key
      in if key = [] then Inr st
         else
           let value = trim_space (the (map_of raw raw_key))
           in if 0 < max_key_runes lim \<and> max_key_runes lim < int (rune_count key)
              then Inl (KeyTooLong key)
              else if 0 < max_value_runes lim \<and> max_value_runes lim < int (rune_count value)
              then Inl (ValueTooLong key)
              else if map_of normalized key = None \<and> 0 < max_entries lim \<and>
                      max_entries lim \<le> int (length normalized)
              then Inl TooManyEntries
              else
                let total = (case map_of normalized key of
                               Some previous \<Rightarrow> total - entry_bytes key previous
                             | None \<Rightarrow> total)
                in if 0 < max_total_bytes lim \<and> max_total_bytes lim < total + entry_bytes key value
                   then Inl TotalTooLarge
                   else Inr (mput key value normalized, total + entry_bytes key value))"

fun normalize_loop ::
  "metadata_limits \<Rightarrow> (string, string) gomap \<Rightarrow> string list \<Rightarrow>
   (string, string) gomap \<times> int \<Rightarrow> metadata_error + (string, string) gomap \<times> int" where
  "normalize_loop lim raw [] st = Inr st"
| "normalize_loop lim raw (k # ks) st =
     (case normalize_step lim raw k st of
        Inl e \<Rightarrow> Inl e
      | Inr st' \<Rightarrow> normalize_loop lim raw ks st')"

text \<open>The nil map that the code returns for an empty result is the empty map.\<close>

definition normalize_metadata ::
  "(string, string) gomap \<Rightarrow> metadata_limits \<Rightarrow> metadata_error + (string, string) gomap" where
  "normalize_metadata raw lim =
     (if raw = [] then Inr []
      else case normalize_loop lim raw (sort (keys raw)) ([], 0) of
             Inl e \<Rightarrow> Inl e
           | Inr (normalized, _) \<Rightarrow> Inr normalized)"

text \<open>What the loop keeps: the running total is exact and every limit holds.\<close>

definition within_limits :: "metadata_limits \<Rightarrow> (string, string) gomap \<Rightarrow> bool" where
  "within_limits lim m \<longleftrightarrow>
     mwf m \<and>
     (0 < max_entries lim \<longrightarrow> int (length m) \<le> max_entries lim) \<and>
     (0 < max_total_bytes lim \<longrightarrow> map_bytes m \<le> max_total_bytes lim) \<and>
     (\<forall>(k, v) \<in> set m. k \<noteq> [] \<and>
        (0 < max_key_runes lim \<longrightarrow> int (rune_count k) \<le> max_key_runes lim) \<and>
        (0 < max_value_runes lim \<longrightarrow> int (rune_count v) \<le> max_value_runes lim))"

lemma within_limits_Nil [simp]: "within_limits lim []"
  by (simp add: within_limits_def)

definition entry_ok :: "metadata_limits \<Rightarrow> string \<times> string \<Rightarrow> bool" where
  "entry_ok lim e \<longleftrightarrow> (case e of (k, v) \<Rightarrow> k \<noteq> [] \<and>
     (0 < max_key_runes lim \<longrightarrow> int (rune_count k) \<le> max_key_runes lim) \<and>
     (0 < max_value_runes lim \<longrightarrow> int (rune_count v) \<le> max_value_runes lim))"

lemma within_limits_entries: "within_limits lim m \<Longrightarrow> \<forall>e \<in> set m. entry_ok lim e"
  by (auto simp: within_limits_def entry_ok_def)

lemma within_limits_mput:
  assumes "within_limits lim m" and "entry_ok lim (k, v)"
    and "0 < max_entries lim \<longrightarrow> int (length (mput k v m)) \<le> max_entries lim"
    and "0 < max_total_bytes lim \<longrightarrow> map_bytes (mput k v m) \<le> max_total_bytes lim"
  shows "within_limits lim (mput k v m)"
proof -
  have "\<forall>e \<in> set (mput k v m). entry_ok lim e"
    using assms(1,2) within_limits_entries by (intro ball_mput) auto
  then show ?thesis using assms by (auto simp: within_limits_def entry_ok_def)
qed

lemma normalize_step_within:
  assumes "normalize_step lim raw k (m, t) = Inr (m', t')" "within_limits lim m" "t = map_bytes m"
  shows "within_limits lim m' \<and> t' = map_bytes m'"
proof (cases "trim_space k = []")
  case True
  with assms show ?thesis by (auto simp: normalize_step_def Let_def)
next
  case False
  let ?k = "trim_space k" and ?v = "trim_space (the (map_of raw k))"
  from assms(1) False have lim: "\<not> (0 < max_key_runes lim \<and> max_key_runes lim < int (rune_count ?k))"
    "\<not> (0 < max_value_runes lim \<and> max_value_runes lim < int (rune_count ?v))"
    "\<not> (map_of m ?k = None \<and> 0 < max_entries lim \<and> max_entries lim \<le> int (length m))"
    "m' = mput ?k ?v m"
    and t: "\<not> (0 < max_total_bytes lim \<and> max_total_bytes lim < t')"
    "t' = t - (case map_of m ?k of Some p \<Rightarrow> entry_bytes ?k p | None \<Rightarrow> 0) + entry_bytes ?k ?v"
    by (auto simp: normalize_step_def Let_def split: if_splits option.splits)
  have bytes: "t' = map_bytes m'" using t(2) assms(3) lim(4) by (simp add: msum_mput split: option.splits)
  have "entry_ok lim (?k, ?v)" using lim(1,2) False by (auto simp: entry_ok_def)
  moreover have "0 < max_entries lim \<longrightarrow> int (length m') \<le> max_entries lim"
    using assms(2) lim(3) unfolding lim(4) within_limits_def by (auto simp: length_mput)
  ultimately show ?thesis
    using assms(2) bytes t(1) unfolding lim(4) by (auto intro!: within_limits_mput)
qed

lemma normalize_loop_within:
  "normalize_loop lim raw ks (m, t) = Inr (m', t') \<Longrightarrow> within_limits lim m \<Longrightarrow> t = map_bytes m \<Longrightarrow>
   within_limits lim m' \<and> t' = map_bytes m'"
proof (induction ks arbitrary: m t)
  case (Cons k ks)
  from Cons.prems(1) obtain m1 t1 where s: "normalize_step lim raw k (m, t) = Inr (m1, t1)"
    "normalize_loop lim raw ks (m1, t1) = Inr (m', t')" by (auto split: sum.splits)
  from normalize_step_within [OF s(1) Cons.prems(2,3)] Cons.IH [OF s(2)] show ?case by blast
qed simp

text \<open>Which entry a key ends with: the one of the last raw key, in sorted order, that trims to it.\<close>

definition trimmed_entries :: "(string, string) gomap \<Rightarrow> string list \<Rightarrow> (string \<times> string) list" where
  "trimmed_entries raw ks =
     filter (\<lambda>(k, v). k \<noteq> [])
       (map (\<lambda>k. (trim_space k, trim_space (the (map_of raw k)))) ks)"

lemma trimmed_entries_simps [simp]:
  "trimmed_entries raw [] = []"
  "trimmed_entries raw (k # ks) =
     (if trim_space k = [] then trimmed_entries raw ks
      else (trim_space k, trim_space (the (map_of raw k))) # trimmed_entries raw ks)"
  by (auto simp: trimmed_entries_def)

lemma normalize_step_map:
  "normalize_step lim raw k (m, t) = Inr (m', t') \<Longrightarrow>
   map_of m' = (if trim_space k = [] then map_of m
                else (map_of m)(trim_space k \<mapsto> trim_space (the (map_of raw k))))"
  by (auto simp: normalize_step_def Let_def split: if_splits option.splits)

lemma normalize_loop_map:
  "normalize_loop lim raw ks (m, t) = Inr (m', t') \<Longrightarrow>
   map_of m' = map_of m ++ map_of (rev (trimmed_entries raw ks))"
proof (induction ks arbitrary: m t)
  case (Cons k ks)
  from Cons.prems obtain m1 t1 where s: "normalize_step lim raw k (m, t) = Inr (m1, t1)"
    "normalize_loop lim raw ks (m1, t1) = Inr (m', t')" by (auto split: sum.splits)
  from Cons.IH [OF s(2)] normalize_step_map [OF s(1)] show ?case by auto
qed simp

lemma normalize_step_cong:
  "map_of raw k = map_of raw' k \<Longrightarrow> normalize_step lim raw k st = normalize_step lim raw' k st"
  by (cases st) (simp add: normalize_step_def Let_def)

lemma normalize_loop_cong:
  "map_of raw = map_of raw' \<Longrightarrow> normalize_loop lim raw ks st = normalize_loop lim raw' ks st"
  by (induction ks arbitrary: st) (auto simp: normalize_step_cong [of raw _ raw'] split: sum.split)

lemma sorted_keys_cong:
  assumes "mwf raw" "mwf raw'" "map_of raw = map_of raw'"
  shows "sort (keys raw) = sort (keys raw')"
proof (rule sorted_distinct_set_unique)
  have "set (keys raw) = dom (map_of raw)" "set (keys raw') = dom (map_of raw')"
    by (simp_all add: dom_map_of_conv_image_fst)
  with assms(3) show "set (sort (keys raw)) = set (sort (keys raw'))" by simp
qed (use assms in \<open>simp_all add: mwf_def\<close>)

section \<open>MetadataAccumulator\<close>

record accumulator =
  limits :: metadata_limits
  entries :: "(string, string) gomap"
  total :: int

definition acc_add :: "string \<Rightarrow> string \<Rightarrow> accumulator \<Rightarrow> accumulator" where
  "acc_add key value m =
     (let key = trim_to_runes key (max_key_runes (limits m))
      in if key = [] then m
         else
           let value = trim_to_runes value (max_value_runes (limits m));
               lim = limits m
           in if 0 < max_entries lim \<and> max_entries lim \<le> int (length (entries m)) \<and>
                 map_of (entries m) key = None
              then m
              else
                let addition = entry_bytes key value;
                    total' = (case map_of (entries m) key of
                                Some existing \<Rightarrow> total m - entry_bytes key existing
                              | None \<Rightarrow> total m)
                in if 0 < max_total_bytes lim \<and> max_total_bytes lim < total' + addition
                   then m
                   else
                     let m' = m\<lparr>entries := mput key value (entries m), total := total' + addition\<rparr>
                     in if 0 < max_entries lim \<and> max_entries lim < int (length (entries m'))
                        then m'\<lparr>entries := mdel key (entries m'), total := total m' - addition\<rparr>
                        else m')"

definition acc_merge :: "(string, string) gomap \<Rightarrow> accumulator \<Rightarrow> accumulator" where
  "acc_merge src m = fold (\<lambda>k. acc_add k (the (map_of src k))) (sort (keys src)) m"

definition new_accumulator :: "(string, string) gomap \<Rightarrow> metadata_limits \<Rightarrow> accumulator" where
  "new_accumulator base lim = acc_merge base \<lparr>limits = lim, entries = [], total = 0\<rparr>"

definition acc_result :: "accumulator \<Rightarrow> (string, string) gomap" where
  "acc_result m = entries m"

text \<open>The invariant: within the limits the accumulator was built with, and an exact byte count.\<close>

definition acc_inv :: "accumulator \<Rightarrow> bool" where
  "acc_inv m \<longleftrightarrow> within_limits (limits m) (entries m) \<and> total m = map_bytes (entries m) \<and>
     (0 \<le> max_value_runes (limits m) \<longrightarrow>
        (\<forall>v \<in> snd ` set (entries m). int (rune_count v) \<le> max_value_runes (limits m)))"

lemma acc_add_limits [simp, frame_simps]: "limits (acc_add k v m) = limits m"
  by (simp add: acc_add_def Let_def split: option.split)

lemma acc_fold_limits: "limits (fold (\<lambda>k. acc_add k (f k)) ks m) = limits m"
  by (induction ks arbitrary: m) auto

lemma acc_merge_limits [simp, frame_simps]: "limits (acc_merge src m) = limits m"
  by (simp add: acc_merge_def acc_fold_limits)

text \<open>The two ways an addition can end: nothing changes, or exactly the entry is set.\<close>

lemma acc_add_cases:
  assumes "acc_inv m"
  obtains (unchanged) "acc_add k v m = m"
    | (put) key val where "key = trim_to_runes k (max_key_runes (limits m))"
      "val = trim_to_runes v (max_value_runes (limits m))" "key \<noteq> []"
      "acc_add k v m = m\<lparr>entries := mput key val (entries m),
                          total := map_bytes (mput key val (entries m))\<rparr>"
      "0 < max_entries (limits m) \<longrightarrow>
         int (length (mput key val (entries m))) \<le> max_entries (limits m)"
      "0 < max_total_bytes (limits m) \<longrightarrow>
         map_bytes (mput key val (entries m)) \<le> max_total_bytes (limits m)"
proof -
  let ?key = "trim_to_runes k (max_key_runes (limits m))"
  let ?val = "trim_to_runes v (max_value_runes (limits m))"
  let ?e = "mput ?key ?val (entries m)"
  from assms have t: "total m = map_bytes (entries m)"
    and len: "0 < max_entries (limits m) \<longrightarrow> int (length (entries m)) \<le> max_entries (limits m)"
    by (auto simp: acc_inv_def within_limits_def)
  have b: "(case map_of (entries m) ?key of Some x \<Rightarrow> total m - entry_bytes ?key x | None \<Rightarrow> total m) +
      entry_bytes ?key ?val = map_bytes ?e"
    by (simp add: msum_mput t split: option.split)
  show thesis
  proof (cases "acc_add k v m = m")
    case False
    have ne: "?key \<noteq> []" using False by (auto simp: acc_add_def Let_def)
    have room: "\<not> (0 < max_entries (limits m) \<and> max_entries (limits m) \<le> int (length (entries m)) \<and>
        map_of (entries m) ?key = None)"
    proof
      assume "0 < max_entries (limits m) \<and> max_entries (limits m) \<le> int (length (entries m)) \<and>
        map_of (entries m) ?key = None"
      then have "acc_add k v m = m" by (simp add: acc_add_def Let_def)
      with False show False ..
    qed
    then have l: "0 < max_entries (limits m) \<longrightarrow> int (length ?e) \<le> max_entries (limits m)"
      using len by (auto simp: length_mput)
    have bytes: "\<not> (0 < max_total_bytes (limits m) \<and> max_total_bytes (limits m) < map_bytes ?e)"
    proof
      assume "0 < max_total_bytes (limits m) \<and> max_total_bytes (limits m) < map_bytes ?e"
      with ne room have "acc_add k v m = m" unfolding acc_add_def Let_def b by simp
      with False show False ..
    qed
    have "acc_add k v m = m\<lparr>entries := ?e, total := map_bytes ?e\<rparr>"
      using ne room bytes l unfolding acc_add_def Let_def b by auto
    with ne l bytes show thesis by (intro put [of ?key ?val]) auto
  qed (rule unchanged)
qed

lemma acc_add_inv [inv_intros]:
  assumes inv: "acc_inv m"
  shows "acc_inv (acc_add k v m)"
  using inv
proof (cases rule: acc_add_cases [of m k v])
  case unchanged
  with inv show ?thesis by simp
next
  case (put key val)
  have k: "0 < max_key_runes (limits m)" using put(1,3) by (cases "max_key_runes (limits m) \<le> 0") auto
  have kr: "int (rune_count key) \<le> max_key_runes (limits m)"
    unfolding put(1) using k by (intro rune_count_trim_to_runes) simp
  have vr: "0 \<le> max_value_runes (limits m) \<longrightarrow> int (rune_count val) \<le> max_value_runes (limits m)"
    unfolding put(2) by (auto intro: rune_count_trim_to_runes)
  have "within_limits (limits m) (mput key val (entries m))"
    using inv put(3,5,6) kr vr by (intro within_limits_mput) (auto simp: acc_inv_def entry_ok_def)
  moreover have "\<forall>x \<in> set (mput key val (entries m)). int (rune_count (snd x)) \<le> max_value_runes (limits m)"
    if "0 \<le> max_value_runes (limits m)"
    using that vr inv by (intro ball_mput) (auto simp: acc_inv_def)
  ultimately show ?thesis unfolding acc_inv_def put(4) by auto
qed

lemma acc_merge_inv [inv_intros]: "acc_inv m \<Longrightarrow> acc_inv (acc_merge src m)"
  unfolding acc_merge_def
  by (rule fold_invariant [where P = acc_inv and Q = "\<lambda>_. True"]) (auto intro: acc_add_inv)

lemma new_accumulator_inv [inv_intros]: "acc_inv (new_accumulator base lim)"
  unfolding new_accumulator_def by (rule acc_merge_inv) (simp add: acc_inv_def)

lemma acc_merge_cong:
  "mwf src \<Longrightarrow> mwf src' \<Longrightarrow> map_of src = map_of src' \<Longrightarrow> acc_merge src m = acc_merge src' m"
  by (simp add: acc_merge_def sorted_keys_cong [of src src'])

section \<open>Properties\<close>

text \<open>when \<open>NormalizeAndValidateMetadata\<close> succeeds, its result is within every configured limit
  (number of entries, runes of each key and value, total bytes, no empty key), and each key holds
  the trimmed value of the last raw key, in sorted order, that trims to it.\<close>

theorem normalize_metadata_spec:
  assumes "normalize_metadata raw lim = Inr m"
  shows "within_limits lim m \<and> map_of m = map_of (rev (trimmed_entries raw (sort (keys raw))))"
proof (cases "raw = []")
  case True
  with assms show ?thesis by (simp add: normalize_metadata_def)
next
  case False
  with assms obtain t where l: "normalize_loop lim raw (sort (keys raw)) ([], 0) = Inr (m, t)"
    by (auto simp: normalize_metadata_def split: sum.splits prod.splits)
  from normalize_loop_within [OF l] normalize_loop_map [OF l] show ?thesis by simp
qed

theorem normalize_metadata_spec_witness:
  "normalize_metadata [('' a'', ''b''), (''a'', ''c'')] default_metadata_limits = Inr [(''a'', ''c'')] \<and>
   within_limits default_metadata_limits [(''a'', ''c'')]"
proof -
  have "normalize_metadata [('' a'', ''b''), (''a'', ''c'')] default_metadata_limits = Inr [(''a'', ''c'')]"
    by (simp add: normalize_metadata_def normalize_step_def default_metadata_limits_def Let_def
        trim_space_def trim_segs_def seg_space_def is_space_def utf8_eval list_less_def lexord_def
        less_char_def)
  with normalize_metadata_spec [OF this] show ?thesis by blast
qed

text \<open>\<open>NormalizeAndValidateMetadata\<close> is deterministic: two enumerations of the same map, whatever
  order Go's runtime iterates in, give the same result or the same error.\<close>

theorem normalize_metadata_deterministic:
  assumes "mwf raw" "mwf raw'" "map_of raw = map_of raw'"
  shows "normalize_metadata raw lim = normalize_metadata raw' lim"
proof -
  have "raw = [] \<longleftrightarrow> raw' = []" using assms(3) by (metis map_of_eq_empty_iff)
  then show ?thesis
    using sorted_keys_cong [OF assms] normalize_loop_cong [OF assms(3)]
    by (simp add: normalize_metadata_def)
qed

theorem normalize_metadata_deterministic_witness:
  "mwf [(''a'', ''1''), (''b'', ''2'')] \<and> mwf [(''b'', ''2''), (''a'', ''1'')] \<and>
   normalize_metadata [(''a'', ''1''), (''b'', ''2'')] default_metadata_limits =
   normalize_metadata [(''b'', ''2''), (''a'', ''1'')] default_metadata_limits"
proof -
  have a: "mwf [(''a'', ''1''), (''b'', ''2'')]" and b: "mwf [(''b'', ''2''), (''a'', ''1'')]"
    by (simp_all add: mwf_def)
  have c: "map_of [(''a'', ''1''), (''b'', ''2'')] = map_of [(''b'', ''2''), (''a'', ''1'')]" by auto
  show ?thesis using a b normalize_metadata_deterministic [OF a b c] by blast
qed

text \<open>however many entries are merged into or added to a \<open>MetadataAccumulator\<close>, its contents stay
  within the limits it was built with and its byte counter is exact.\<close>

theorem accumulator_within_limits:
  "let m = fold (\<lambda>(k, v). acc_add k v) kvs (acc_merge src (new_accumulator base lim))
   in within_limits lim (acc_result m) \<and> total m = map_bytes (acc_result m)"
proof -
  define m0 where "m0 = acc_merge src (new_accumulator base lim)"
  have m0: "acc_inv m0" "limits m0 = lim"
    by (auto simp: m0_def new_accumulator_def intro!: acc_merge_inv) (simp add: acc_inv_def)
  have "acc_inv (fold (\<lambda>(k, v). acc_add k v) kvs m0) \<and>
      limits (fold (\<lambda>(k, v). acc_add k v) kvs m0) = lim"
    using m0 by (induction kvs arbitrary: m0) (auto simp: acc_add_inv)
  then show ?thesis by (auto simp: acc_inv_def acc_result_def m0_def Let_def)
qed

text \<open>adding an entry either leaves the accumulator as it is or sets exactly that one key, to the
  value cut to its rune limit: no other entry is ever evicted. In particular the final branch of
  \<open>Add\<close>, which deletes the key again when the map is over its limit, is never taken.\<close>

theorem accumulator_add_effect:
  assumes "acc_inv m"
  shows "acc_add k v m = m \<or>
    (trim_to_runes k (max_key_runes (limits m)) \<noteq> [] \<and>
     map_of (entries (acc_add k v m)) =
       (map_of (entries m))(trim_to_runes k (max_key_runes (limits m)) \<mapsto>
          trim_to_runes v (max_value_runes (limits m))))"
  using assms by (cases rule: acc_add_cases [of m k v]) auto

theorem accumulator_add_effect_witness:
  "acc_inv (new_accumulator [] default_metadata_limits) \<and>
   map_of (entries (acc_add ''k'' ''v'' (new_accumulator [] default_metadata_limits))) ''k'' = Some ''v''"
proof -
  have i: "acc_inv (new_accumulator [] default_metadata_limits)" by (rule new_accumulator_inv)
  have n: "acc_add ''k'' ''v'' (new_accumulator [] default_metadata_limits) \<noteq>
      new_accumulator [] default_metadata_limits"
    "trim_to_runes ''k'' 64 = ''k''" "trim_to_runes ''v'' 512 = ''v''"
    by (simp_all add: acc_add_def new_accumulator_def acc_merge_def Let_def
        trim_to_runes_def trim_space_def trim_segs_def seg_space_def is_space_def utf8_eval)
  have l: "limits (new_accumulator [] default_metadata_limits) = default_metadata_limits"
    by (simp add: new_accumulator_def)
  show ?thesis using i n accumulator_add_effect [OF i, of "''k''" "''v''"]
    by (simp add: l)
qed

end
