(* ===== verification/RollingLogFile.thy ===== *)
theory RollingLogFile
  imports GoStrings
begin

text \<open>
  The live-file format of \<open>internal/awareness/rolling_log.go\<close>: the text that \<open>persistToFile\<close>
  writes, \<open>parseRollingLogFile\<close> and its helpers, and the round trip between the two.
\<close>

section \<open>The format\<close>

definition tag_summaries_open :: string where
  "tag_summaries_open = ''<nupi:rolling-log:summaries>''"

definition tag_summaries_close :: string where
  "tag_summaries_close = ''</nupi:rolling-log:summaries>''"

definition tag_raw_open :: string where
  "tag_raw_open = ''<nupi:rolling-log:raw>''"

definition tag_raw_close :: string where
  "tag_raw_close = ''</nupi:rolling-log:raw>''"

lemmas tag_defs = tag_summaries_open_def tag_summaries_close_def tag_raw_open_def tag_raw_close_def

abbreviation para :: string where "para \<equiv> [NL, NL]"
abbreviation triple :: string where "triple \<equiv> [NL, NL, NL]"
abbreviation header :: string where "header \<equiv> ''### ''"
abbreviation header_sep :: string where "header_sep \<equiv> para @ header"

definition contains_format_delimiters :: "string \<Rightarrow> bool" where
  "contains_format_delimiters text \<longleftrightarrow>
     contains text tag_summaries_open \<or> contains text tag_summaries_close \<or>
     contains text tag_raw_open \<or> contains text tag_raw_close"

text \<open>One section body: the entries and a newline when there are any, then a newline.\<close>

definition section_body :: "string \<Rightarrow> string list \<Rightarrow> string" where
  "section_body sep xs = para @ (if xs \<noteq> [] then join sep xs @ [NL] else []) @ [NL]"

definition render_file :: "string list \<Rightarrow> string list \<Rightarrow> string" where
  "render_file summaries raw_tail =
     tag_summaries_open @ section_body para summaries @ tag_summaries_close @ [NL] @
     tag_raw_open @ section_body triple raw_tail @ tag_raw_close @ [NL]"

section \<open>The parser\<close>

definition extract_tag_content :: "string \<Rightarrow> string \<Rightarrow> string \<Rightarrow> string" where
  "extract_tag_content content open_tag close_tag =
     (case index_of content open_tag of
        None \<Rightarrow> []
      | Some i \<Rightarrow>
          let rest = drop (i + length open_tag) content
          in case index_of rest close_tag of None \<Rightarrow> [] | Some j \<Rightarrow> take j rest)"

fun summary_parts :: "nat \<Rightarrow> string list \<Rightarrow> string list" where
  "summary_parts i [] = []"
| "summary_parts i (part # parts) =
     (let trimmed_part = trim_nl part
      in if trimmed_part = [] then summary_parts (Suc i) parts
         else (if 0 < i then header @ trimmed_part else trimmed_part) # summary_parts (Suc i) parts)"

definition parse_summaries :: "string \<Rightarrow> string list" where
  "parse_summaries sect = (if sect = [] then [] else summary_parts 0 (split sect header_sep))"

definition parse_raw_tail :: "string \<Rightarrow> string list" where
  "parse_raw_tail sect =
     (if sect = [] then [] else filter (\<lambda>p. p \<noteq> []) (map trim_nl (split sect triple)))"

definition parse_rolling_log_file :: "string \<Rightarrow> string list \<times> string list" where
  "parse_rolling_log_file content =
     (parse_summaries (trim_nl (extract_tag_content content tag_summaries_open tag_summaries_close)),
      parse_raw_tail (trim_nl (extract_tag_content content tag_raw_open tag_raw_close)))"

section \<open>Well-formed entries\<close>

definition is_tag :: "string \<Rightarrow> bool" where
  "is_tag p \<longleftrightarrow> p \<in> {tag_summaries_open, tag_summaries_close, tag_raw_open, tag_raw_close}"

text \<open>What \<open>AppendRaw\<close> and \<open>AppendSummary\<close> let in.\<close>

definition raw_entry_ok :: "string \<Rightarrow> bool" where
  "raw_entry_ok x \<longleftrightarrow> x \<noteq> [] \<and> trimmed (\<lambda>c. c = NL) x \<and> \<not> contains x triple \<and>
     \<not> contains_format_delimiters x"

definition summary_ok :: "string \<Rightarrow> bool" where
  "summary_ok x \<longleftrightarrow> trimmed (\<lambda>c. c = NL) x \<and> has_prefix x header \<and> \<not> contains x header_sep \<and>
     \<not> contains_format_delimiters x"

text \<open>A summary whose header line has a text: it survives a reload in any position.\<close>

definition titled :: "string \<Rightarrow> bool" where
  "titled x \<longleftrightarrow> drop 4 x \<noteq> [] \<and> hd (drop 4 x) \<noteq> NL"

lemma tag_facts: "is_tag p \<Longrightarrow> NL \<notin> set p \<and> p \<noteq> []"
  by (auto simp: is_tag_def tag_defs)

lemma no_delimiters: "\<not> contains_format_delimiters x \<longleftrightarrow> (\<forall>p. is_tag p \<longrightarrow> \<not> sublist p x)"
  by (auto simp: contains_format_delimiters_def is_tag_def contains_sublist)

lemma summary_ok_ne: "summary_ok x \<Longrightarrow> x \<noteq> []"
  by (auto simp: summary_ok_def has_prefix_def)

section \<open>Lemmas on the layout\<close>

lemma not_sublist_butlast_last:
  assumes "\<not> sublist p x" "x \<noteq> []" "last x \<notin> set p"
  shows "\<not> sublist p (x @ butlast p)"
proof (rule not_sublist_butlast [OF assms(1)])
  fix k assume k: "0 < k" "k < length p" "suffix (take k p) x"
  then have "last (take k p) = last x" by (cases "take k p") (auto simp: suffix_def)
  then have "last x \<in> set p" using k by (metis in_set_takeD last_in_set length_greater_0_conv
        less_trans list.size(3) not_gr_zero take_eq_Nil)
  with assms(3) show "\<not> prefix (drop k p) p" by simp
qed

lemma not_sublist_butlast_self: "p \<noteq> [] \<Longrightarrow> \<not> sublist p (butlast p)"
  by (metis diff_less length_butlast length_greater_0_conv not_le sublist_length_le zero_less_one)

lemma extract_layout:
  assumes "open_tag \<noteq> []" "close_tag \<noteq> []"
    and "\<not> sublist open_tag (a @ butlast open_tag)" "\<not> sublist close_tag (x @ butlast close_tag)"
  shows "extract_tag_content (a @ open_tag @ x @ close_tag @ b) open_tag close_tag = x"
  using index_of_append [OF assms(1,3), of "x @ close_tag @ b"]
    index_of_append [OF assms(2,4), of b]
  by (simp add: extract_tag_content_def)

lemma sublist_Nil_iff: "sublist p [] \<longleftrightarrow> p = []"
  by (auto simp: sublist_def)

lemma sublist_join:
  assumes "NL \<notin> set p" "p \<noteq> []" "sep \<noteq> []" "set sep \<subseteq> {NL}"
  shows "sublist p (join sep xs) \<longleftrightarrow> (\<exists>x \<in> set xs. sublist p x)"
proof (induction xs)
  case (Cons x xs)
  have nls: "sublist p (sep @ y) \<longleftrightarrow> sublist p y" for y
    using assms(4)
  proof (induction sep)
    case (Cons c sep)
    then show ?case using sublist_append_sep [OF assms(1), of "[]" "sep @ y"] assms(2)
      by (auto simp: sublist_Nil_iff)
  qed simp
  obtain q where q: "sep = NL # q" using assms(3,4) by (cases sep) auto
  show ?case
  proof (cases "xs = []")
    case False
    have "sublist p (join sep (x # xs)) \<longleftrightarrow> sublist p x \<or> sublist p (q @ join sep xs)"
      using False sublist_append_sep [OF assms(1), of x] by (simp add: join_Cons q)
    moreover have "sublist p (q @ join sep xs) \<longleftrightarrow> sublist p (sep @ join sep xs)"
      using sublist_append_sep [OF assms(1), of "[]" "q @ join sep xs"] assms(2)
      by (simp add: q sublist_Nil_iff)
    ultimately show ?thesis using nls Cons.IH by simp
  qed simp
qed (simp add: assms sublist_Nil_iff)

lemma sublist_section:
  assumes "NL \<notin> set p" "p \<noteq> []" "sep \<noteq> []" "set sep \<subseteq> {NL}"
  shows "sublist p (section_body sep xs) \<longleftrightarrow> (\<exists>x \<in> set xs. sublist p x)"
proof -
  note sep = sublist_append_sep [OF assms(1)]
  have 1: "sublist p (NL # y) \<longleftrightarrow> sublist p y" for y
    using sep [of "[]" y] assms(2) by (simp add: sublist_Nil_iff)
  show ?thesis
    using sep [of "join sep xs" "[NL]"] assms(2)
    by (simp add: section_body_def 1 sublist_join [OF assms] sublist_Nil_iff)
qed

lemma last_section: "section_body sep xs \<noteq> [] \<and> last (section_body sep xs) = NL"
  by (simp add: section_body_def)

lemma hd_join: "xs \<noteq> [] \<Longrightarrow> hd xs \<noteq> [] \<Longrightarrow> join sep xs \<noteq> [] \<and> hd (join sep xs) = hd (hd xs)"
  by (cases xs; cases "tl xs") auto

lemma join_ne: "xs \<noteq> [] \<Longrightarrow> last xs \<noteq> [] \<Longrightarrow> join sep xs \<noteq> []"
  by (induction xs rule: list_nonempty_induct) (auto simp: join_Cons)

lemma last_join: "xs \<noteq> [] \<Longrightarrow> last xs \<noteq> [] \<Longrightarrow> last (join sep xs) = last (last xs)"
  by (induction xs rule: list_nonempty_induct) (auto simp: join_Cons join_ne)

lemma trim_section:
  assumes "\<forall>x \<in> set xs. x \<noteq> [] \<and> trimmed (\<lambda>c. c = NL) x"
  shows "trim_nl (section_body sep xs) = join sep xs"
proof (cases "xs = []")
  case True
  then show ?thesis using trim_all [of "[NL, NL, NL]" "\<lambda>c. c = NL"] by (simp add: section_body_def)
next
  case False
  then have "hd xs \<in> set xs" "last xs \<in> set xs" by simp_all
  with assms have e: "hd xs \<noteq> []" "last xs \<noteq> []" "hd (hd xs) \<noteq> NL" "last (last xs) \<noteq> NL"
    by (auto simp: trimmed_def)
  from hd_join [OF False e(1)] last_join [OF False e(2)] e
  have "join sep xs \<noteq> []" "trimmed (\<lambda>c. c = NL) (join sep xs)" by (auto simp: trimmed_def)
  from trim_pad [OF this, of para para] False show ?thesis by (simp add: section_body_def)
qed

section \<open>The round trip\<close>

lemma split_raw:
  assumes "xs \<noteq> []" "\<forall>x \<in> set xs. raw_entry_ok x"
  shows "split (join triple xs) triple = xs"
proof (rule split_join)
  have ok: "\<not> sublist triple x \<and> x \<noteq> [] \<and> last x \<noteq> NL" if "x \<in> set xs" for x
    using assms(2) that by (auto simp: raw_entry_ok_def contains_sublist trimmed_def)
  show "\<not> sublist triple (x @ butlast triple)" if "x \<in> set (butlast xs)" for x
  proof (rule not_sublist_butlast)
    from that have x: "x \<in> set xs" by (rule in_set_butlastD)
    then show "\<not> sublist triple x" using ok by blast
    fix k assume k: "0 < k" "k < length triple" "suffix (take k triple) x"
    then have "last x \<in> set (take k triple)" by (cases k) (auto simp: suffix_def take_Cons')
    then have "last x = NL" by (auto dest: in_set_takeD)
    with ok [OF x] show "\<not> prefix (drop k triple) triple" by blast
  qed
  show "\<not> sublist triple (last xs)" using ok assms(1) by simp
qed (use assms in simp_all)

lemma parse_render_raw:
  assumes "\<forall>x \<in> set xs. raw_entry_ok x"
  shows "parse_raw_tail (join triple xs) = xs"
proof (cases "xs = []")
  case False
  have e: "\<forall>x \<in> set xs. x \<noteq> [] \<and> trim_nl x = x"
    using assms by (auto simp: raw_entry_ok_def trim_id)
  then have "map trim_nl xs = xs" "filter (\<lambda>p. p \<noteq> []) xs = xs"
    by (auto simp: map_idI filter_id_conv)
  moreover have "join triple xs \<noteq> []" using False e join_ne [of xs] by simp
  ultimately show ?thesis using split_raw [OF False assms] by (simp add: parse_raw_tail_def)
qed (simp add: parse_raw_tail_def)

text \<open>The summaries joined by blank lines are their texts joined by the header separator.\<close>

lemma join_headers:
  "\<forall>x \<in> set ss. has_prefix x header \<Longrightarrow>
   join para (s # ss) = join header_sep (s # map (drop 4) ss)"
proof (induction ss arbitrary: s)
  case (Cons t ss)
  then obtain u where t: "t = header @ u" by (auto simp: has_prefix_def prefix_def)
  have IH: "join para (t # ss) = join header_sep (t # map (drop 4) ss)"
    using Cons.IH Cons.prems by auto
  have j: "join sp (t # xs) = header @ join sp (u # xs)" for sp xs
    by (cases xs) (simp_all add: t)
  have "join para (s # t # ss) = s @ para @ join para (t # ss)" by simp
  also have "\<dots> = s @ header_sep @ join header_sep (u # map (drop 4) ss)"
    unfolding IH by (simp only: j append_assoc)
  also have "\<dots> = join header_sep (s # map (drop 4) (t # ss))" by (simp add: t)
  finally show ?case .
qed simp

lemma not_sublist_header_sep:
  assumes "\<not> sublist header_sep x" "x \<noteq> []" "last x \<noteq> NL"
  shows "\<not> sublist header_sep (x @ butlast header_sep)"
proof (rule not_sublist_butlast [OF assms(1)])
  fix k assume k: "0 < k" "k < length header_sep" "suffix (take k header_sep) x"
  then have l: "last (take k header_sep) = last x"
    by (cases "take k header_sep") (auto simp: suffix_def)
  from k(1,2) have "k = 1 \<or> k = 2 \<or> k = 3 \<or> k = 4 \<or> k = 5" by auto
  then show "\<not> prefix (drop k header_sep) header_sep" using l assms(3)
    by (auto simp: eval_nat_numeral)
qed

lemma summary_parts_id:
  "0 < i \<Longrightarrow> \<forall>x \<in> set xs. x \<noteq> [] \<and> trimmed (\<lambda>c. c = NL) x \<Longrightarrow>
   summary_parts i xs = map (\<lambda>x. header @ x) xs"
  by (induction xs arbitrary: i) (auto simp: Let_def trim_id)

lemma parse_render_summaries:
  assumes "\<forall>x \<in> set xs. summary_ok x" and "\<forall>x \<in> set (tl xs). titled x"
  shows "parse_summaries (join para xs) = xs"
proof (cases xs)
  case Nil
  then show ?thesis by (simp add: parse_summaries_def)
next
  case (Cons s ss)
  let ?ps = "s # map (drop 4) ss"
  from assms Cons have s: "summary_ok s" and ss: "\<forall>x \<in> set ss. summary_ok x \<and> titled x" by auto
  have piece: "\<not> sublist header_sep p \<and> p \<noteq> [] \<and> trimmed (\<lambda>c. c = NL) p" if p: "p \<in> set ?ps" for p
  proof (cases "p = s")
    case True
    with s summary_ok_ne [OF s] show ?thesis by (simp add: summary_ok_def contains_sublist)
  next
    case False
    with p obtain x where x: "x \<in> set ss" "p = drop 4 x" by auto
    with ss have o: "summary_ok x" "titled x" by auto
    then have ne: "p \<noteq> []" "hd p \<noteq> NL" using x by (auto simp: titled_def)
    then have "last p = last x" using x(2) by (simp add: last_drop)
    moreover have "sublist p x" unfolding x(2) by (rule sublist_drop)
    ultimately show ?thesis using o ne summary_ok_ne [OF o(1)]
      by (auto simp: summary_ok_def contains_sublist trimmed_def intro: sublist_order.order.trans)
  qed
  have "split (join header_sep ?ps) header_sep = ?ps"
  proof (rule split_join)
    show "\<not> sublist header_sep (x @ butlast header_sep)" if "x \<in> set (butlast ?ps)" for x
      using piece [OF in_set_butlastD [OF that]] by (intro not_sublist_header_sep) (auto simp: trimmed_def)
    show "\<not> sublist header_sep (last ?ps)" using piece [of "last ?ps"] last_in_set [of ?ps] by blast
  qed simp_all
  moreover have "join header_sep ?ps = join para xs"
    unfolding Cons using ss by (intro join_headers [symmetric]) (auto simp: summary_ok_def)
  moreover have "summary_parts 0 ?ps = s # map (\<lambda>x. header @ x) (map (drop 4) ss)"
    using piece summary_parts_id [of 1 "map (drop 4) ss"] by (simp add: Let_def trim_id)
  moreover have "map (\<lambda>x. header @ x) (map (drop 4) ss) = ss"
    using ss by (auto simp: summary_ok_def has_prefix_def prefix_def intro!: map_idI)
  moreover have "join para xs \<noteq> []"
    unfolding Cons using s ss summary_ok_ne by (intro join_ne) auto
  ultimately show ?thesis using Cons by (simp add: parse_summaries_def)
qed

lemma parse_render:
  assumes s: "\<forall>x \<in> set ss. summary_ok x" "\<forall>x \<in> set (tl ss). titled x"
    and r: "\<forall>x \<in> set rs. raw_entry_ok x"
  shows "parse_rolling_log_file (render_file ss rs) = (ss, rs)"
proof -
  have tag_s: "\<not> sublist p (section_body para ss)" and tag_r: "\<not> sublist p (section_body triple rs)"
    if p: "is_tag p" for p
    using tag_facts [OF p] p s(1) r
    by (auto simp: sublist_section summary_ok_def raw_entry_ok_def no_delimiters)
  have last: "last (section_body sep xs) \<notin> set p" if "is_tag p" for sep xs p
    using last_section tag_facts [OF that] by metis
  have is_tags: "is_tag tag_summaries_open" "is_tag tag_summaries_close" "is_tag tag_raw_open"
    "is_tag tag_raw_close" by (simp_all add: is_tag_def)
  have ne: "p \<noteq> []" if "is_tag p" for p using tag_facts [OF that] by blast
  let ?a = "tag_summaries_open @ section_body para ss @ tag_summaries_close @ [NL]"
  have "\<not> sublist tag_summaries_close (section_body para ss @ butlast tag_summaries_close)"
    by (rule not_sublist_butlast_last [OF tag_s [OF is_tags(2)] conjunct1 [OF last_section]
          last [OF is_tags(2)]])
  with not_sublist_butlast_self [OF ne [OF is_tags(1)]]
  have "extract_tag_content ([] @ tag_summaries_open @ section_body para ss @ tag_summaries_close @
      ([NL] @ tag_raw_open @ section_body triple rs @ tag_raw_close @ [NL]))
      tag_summaries_open tag_summaries_close = section_body para ss"
    by (intro extract_layout ne is_tags) (simp_all only: append_Nil not_False_eq_True)
  then have 1: "extract_tag_content (render_file ss rs) tag_summaries_open tag_summaries_close =
      section_body para ss"
    by (simp only: render_file_def append_Nil)
  have "\<not> sublist tag_raw_open ?a"
  proof -
    have o: "is_tag tag_raw_open" by (simp add: is_tag_def)
    note sep = sublist_append_sep [OF conjunct1 [OF tag_facts [OF o]]]
    obtain b where b: "section_body para ss = NL # b" by (auto simp: section_body_def)
    obtain c where c: "section_body para ss = c @ [NL]" using last_section by (metis append_butlast_last_id)
    have "sublist tag_raw_open ?a \<longleftrightarrow> sublist tag_raw_open tag_summaries_open \<or>
        sublist tag_raw_open (b @ tag_summaries_close @ [NL])"
      using sep [of tag_summaries_open "b @ tag_summaries_close @ [NL]"] by (simp add: b)
    moreover have "sublist tag_raw_open (NL # b @ tag_summaries_close @ [NL]) \<longleftrightarrow>
        sublist tag_raw_open (b @ tag_summaries_close @ [NL])"
      using sep [of "[]" "b @ tag_summaries_close @ [NL]"] by (simp add: sublist_Nil_iff tag_defs)
    moreover have "NL # b @ tag_summaries_close @ [NL] = c @ NL # tag_summaries_close @ [NL]"
      using b c by simp
    moreover have "sublist tag_raw_open (c @ NL # tag_summaries_close @ [NL]) \<longleftrightarrow>
        sublist tag_raw_open c \<or> sublist tag_raw_open (tag_summaries_close @ [NL])"
      by (rule sep)
    moreover have "\<not> sublist tag_raw_open c"
      using tag_s [OF o] unfolding c by (auto intro: sublist_order.order.trans)
    moreover have "\<not> sublist tag_raw_open tag_summaries_open"
      "\<not> sublist tag_raw_open (tag_summaries_close @ [NL])"
      by (simp_all add: index_of_None_iff [symmetric] tag_defs)
    ultimately show ?thesis by (simp only: append_assoc simp_thms)
  qed
  then have "\<not> sublist tag_raw_open (?a @ butlast tag_raw_open)"
    by (rule not_sublist_butlast_last) (use tag_facts [OF is_tags(3)] in simp_all)
  moreover have "\<not> sublist tag_raw_close (section_body triple rs @ butlast tag_raw_close)"
    by (rule not_sublist_butlast_last [OF tag_r [OF is_tags(4)] conjunct1 [OF last_section]
          last [OF is_tags(4)]])
  ultimately have "extract_tag_content (?a @ tag_raw_open @ section_body triple rs @ tag_raw_close @
      [NL]) tag_raw_open tag_raw_close = section_body triple rs"
    by (intro extract_layout ne is_tags)
  then have 2: "extract_tag_content (render_file ss rs) tag_raw_open tag_raw_close =
      section_body triple rs"
    by (simp only: render_file_def append_assoc)
  have "\<forall>x \<in> set ss. x \<noteq> [] \<and> trimmed (\<lambda>c. c = NL) x"
    using s(1) summary_ok_ne by (simp add: summary_ok_def)
  moreover have "\<forall>x \<in> set rs. x \<noteq> [] \<and> trimmed (\<lambda>c. c = NL) x"
    using r by (simp add: raw_entry_ok_def)
  ultimately have "trim_nl (section_body para ss) = join para ss"
    "trim_nl (section_body triple rs) = join triple rs"
    by (simp_all add: trim_section)
  then show ?thesis
    by (simp add: parse_rolling_log_file_def 1 2 parse_render_raw [OF r] parse_render_summaries [OF s])
qed

end
