(* ===== verification/RollingLog.thy ===== *)
theory RollingLog
  imports RollingLogFile Utf8
begin

text \<open>
  The engine of \<open>internal/awareness/rolling_log.go\<close>: a rolling log with its two lists and byte
  counters over a file system that may fail at any call. A \<open>disk\<close> maps a path to the content of
  the file there; each operation that touches it takes the fault that the operating system injects
  (\<open>None\<close>: every call succeeds).
\<close>

section \<open>The file system\<close>

type_synonym disk = "string \<Rightarrow> string option"

text \<open>The call that fails; a failed write may have written some bytes.\<close>

datatype os_fault = Mkdir_Fails | Open_Fails | Write_Fails nat | Sync_Fails | Close_Fails | Rename_Fails

text \<open>\<open>filepath.IsAbs\<close> and \<open>filepath.Join\<close> of a rooted path (\<open>Clean\<close> drops empty and dot
  elements and lets a double dot remove the element before it).\<close>

definition is_abs :: "string \<Rightarrow> bool" where
  "is_abs p \<longleftrightarrow> has_prefix p ''/''"

definition clean_step :: "string list \<Rightarrow> string \<Rightarrow> string list" where
  "clean_step acc c =
     (if c = [] \<or> c = ''.'' then acc else if c = ''..'' then butlast acc else acc @ [c])"

definition join_path :: "string \<Rightarrow> string \<Rightarrow> string" where
  "join_path a b = ''/'' @ join ''/'' (foldl clean_step [] (split (a @ ''/'' @ b) ''/''))"

text \<open>Opening with \<open>O_APPEND|O_CREATE\<close>, writing, syncing and closing.\<close>

definition append_to_file :: "os_fault option \<Rightarrow> string \<Rightarrow> string \<Rightarrow> disk \<Rightarrow> os_fault option \<times> disk" where
  "append_to_file fault f content d =
     (let old = (case d f of None \<Rightarrow> [] | Some s \<Rightarrow> s)
      in case fault of
           Some Mkdir_Fails \<Rightarrow> (fault, d)
         | Some Open_Fails \<Rightarrow> (fault, d)
         | Some (Write_Fails n) \<Rightarrow> (fault, d(f \<mapsto> old @ take n content))
         | Some Sync_Fails \<Rightarrow> (fault, d(f \<mapsto> old @ content))
         | Some Close_Fails \<Rightarrow> (fault, d(f \<mapsto> old @ content))
         | _ \<Rightarrow> (None, d(f \<mapsto> old @ content)))"

section \<open>State and construction\<close>

datatype rl_error =
    Path_Empty | Path_Not_Absolute string | Read_Failed
  | Triple_Newlines | Has_Delimiters | No_Header | Inner_Header
  | Persist_Failed os_fault | Commit_Too_Many int nat | Append_Failed os_fault

record rolling_log =
  base_path :: string
  compaction_threshold :: int
  summary_budget :: int
  summaries :: "string list"
  raw_tail :: "string list"
  summaries_bytes :: int
  raw_bytes :: int

datatype rl_option = With_Compaction_Threshold int | With_Summary_Budget int

fun apply_option :: "rolling_log \<Rightarrow> rl_option \<Rightarrow> rolling_log" where
  "apply_option r (With_Compaction_Threshold n) = (if 0 < n then r\<lparr>compaction_threshold := n\<rparr> else r)"
| "apply_option r (With_Summary_Budget n) = (if 0 < n then r\<lparr>summary_budget := n\<rparr> else r)"

fun total_len :: "string list \<Rightarrow> int" where
  "total_len [] = 0"
| "total_len (s # ss) = int (length s) + total_len ss"

definition load_from_file :: "bool \<Rightarrow> disk \<Rightarrow> rolling_log \<Rightarrow> rl_error + rolling_log" where
  "load_from_file read_fails d r =
     (case d (base_path r) of
        None \<Rightarrow> Inr r
      | Some content \<Rightarrow>
          if read_fails then Inl Read_Failed
          else let (ss, rs) = parse_rolling_log_file content
               in Inr (r\<lparr>summaries := ss, raw_tail := rs,
                         summaries_bytes := total_len ss, raw_bytes := total_len rs\<rparr>))"

definition initial_log :: "string \<Rightarrow> rolling_log" where
  "initial_log path =
     \<lparr>base_path = path, compaction_threshold = 16000, summary_budget = 10000,
      summaries = [], raw_tail = [], summaries_bytes = 0, raw_bytes = 0\<rparr>"

definition new_rolling_log ::
    "bool \<Rightarrow> string \<Rightarrow> rl_option list \<Rightarrow> disk \<Rightarrow> rl_error + rolling_log" where
  "new_rolling_log read_fails path opts d =
     (if path = [] then Inl Path_Empty
      else if \<not> is_abs path then Inl (Path_Not_Absolute path)
      else load_from_file read_fails d (foldl apply_option (initial_log path) opts))"

section \<open>Operations\<close>

text \<open>The temporary file is written, synced, closed and renamed over the live file; when any call
  fails the live file is as it was and the temporary file is removed.\<close>

definition persist_to_file :: "os_fault option \<Rightarrow> rolling_log \<Rightarrow> disk \<Rightarrow> os_fault option \<times> disk" where
  "persist_to_file fault r d =
     (let tmp = base_path r @ ''.tmp''
      in case fault of
           None \<Rightarrow> (None, d(tmp := None, base_path r \<mapsto> render_file (summaries r) (raw_tail r)))
         | Some Mkdir_Fails \<Rightarrow> (fault, d)
         | Some Open_Fails \<Rightarrow> (fault, d)
         | Some _ \<Rightarrow> (fault, d(tmp := None)))"

definition append_raw ::
    "os_fault option \<Rightarrow> string \<Rightarrow> rolling_log \<times> disk \<Rightarrow> rl_error option \<times> rolling_log \<times> disk" where
  "append_raw fault text = (\<lambda>(r, d).
     let text = trim_nl text in
     if text = [] then (None, r, d)
     else if contains text triple then (Some Triple_Newlines, r, d)
     else if contains_format_delimiters text then (Some Has_Delimiters, r, d)
     else
       let r1 = r\<lparr>raw_tail := raw_tail r @ [text], raw_bytes := raw_bytes r + int (length text)\<rparr>
       in case persist_to_file fault r1 d of
            (Some e, d1) \<Rightarrow>
              (Some (Persist_Failed e), r1\<lparr>raw_tail := raw_tail r, raw_bytes := raw_bytes r\<rparr>, d1)
          | (None, d1) \<Rightarrow> (None, r1, d1))"

definition append_summary ::
    "os_fault option \<Rightarrow> string \<Rightarrow> rolling_log \<times> disk \<Rightarrow> rl_error option \<times> rolling_log \<times> disk" where
  "append_summary fault summary = (\<lambda>(r, d).
     let summary = trim_nl summary in
     if summary = [] then (None, r, d)
     else if \<not> has_prefix summary header then (Some No_Header, r, d)
     else if contains summary header_sep then (Some Inner_Header, r, d)
     else if contains_format_delimiters summary then (Some Has_Delimiters, r, d)
     else
       let r1 = r\<lparr>summaries := summaries r @ [summary],
                  summaries_bytes := summaries_bytes r + int (length summary)\<rparr>
       in case persist_to_file fault r1 d of
            (Some e, d1) \<Rightarrow>
              (Some (Persist_Failed e),
               r1\<lparr>summaries := summaries r, summaries_bytes := summaries_bytes r\<rparr>, d1)
          | (None, d1) \<Rightarrow> (None, r1, d1))"

definition should_compact :: "rolling_log \<Rightarrow> bool" where
  "should_compact r \<longleftrightarrow> raw_bytes r > compaction_threshold r"

definition should_archive :: "rolling_log \<Rightarrow> bool" where
  "should_archive r \<longleftrightarrow> summaries_bytes r > summary_budget r"

definition half_point :: "nat \<Rightarrow> nat" where
  "half_point n = (let mid = n div 2 in if mid = 0 then 1 else mid)"

definition older_half ::
    "os_fault option \<Rightarrow> rolling_log \<times> disk \<Rightarrow> (rl_error + string) \<times> rolling_log \<times> disk" where
  "older_half fault = (\<lambda>(r, d).
     if raw_tail r = [] then (Inr [], r, d)
     else
       let mid = half_point (length (raw_tail r));
           older = take mid (raw_tail r);
           r1 = r\<lparr>raw_tail := drop mid (raw_tail r), raw_bytes := total_len (drop mid (raw_tail r))\<rparr>
       in case persist_to_file fault r1 d of
            (Some e, d1) \<Rightarrow>
              (Inl (Persist_Failed e), r1\<lparr>raw_tail := raw_tail r, raw_bytes := raw_bytes r\<rparr>, d1)
          | (None, d1) \<Rightarrow> (Inr (join para older), r1, d1))"

text \<open>The loop of \<open>OlderSummaries\<close>: how many summaries to drop from the front.\<close>

fun split_idx :: "int \<Rightarrow> int \<Rightarrow> string list \<Rightarrow> nat" where
  "split_idx budget remaining [] = 0"
| "split_idx budget remaining (s # ss) =
     (if remaining > budget then Suc (split_idx budget (remaining - int (length s)) ss) else 0)"

definition older_summaries :: "rolling_log \<Rightarrow> string list" where
  "older_summaries r = take (split_idx (summary_budget r) (summaries_bytes r) (summaries r)) (summaries r)"

definition commit_archival ::
    "os_fault option \<Rightarrow> int \<Rightarrow> rolling_log \<times> disk \<Rightarrow> rl_error option \<times> rolling_log \<times> disk" where
  "commit_archival fault n = (\<lambda>(r, d).
     if n \<le> 0 then (None, r, d)
     else if n > int (length (summaries r)) then (Some (Commit_Too_Many n (length (summaries r))), r, d)
     else
       let rest = drop (nat n) (summaries r);
           r1 = r\<lparr>summaries := rest, summaries_bytes := total_len rest\<rparr>
       in case persist_to_file fault r1 d of
            (Some e, d1) \<Rightarrow>
              (Some (Persist_Failed e),
               r1\<lparr>summaries := summaries r, summaries_bytes := summaries_bytes r\<rparr>, d1)
          | (None, d1) \<Rightarrow> (None, r1, d1))"

definition archive_text :: "string list \<Rightarrow> string" where
  "archive_text ss = para @ join para ss @ [NL]"

definition archive ::
    "os_fault option \<Rightarrow> string \<Rightarrow> string list \<Rightarrow> string \<Rightarrow> disk \<Rightarrow> rl_error option \<times> disk" where
  "archive fault archive_path ss date d =
     (if ss = [] then (None, d)
      else if archive_path = [] then (Some Path_Empty, d)
      else if \<not> is_abs archive_path then (Some (Path_Not_Absolute archive_path), d)
      else case append_to_file fault (join_path archive_path (date @ ''.md'')) (archive_text ss) d of
             (Some e, d1) \<Rightarrow> (Some (Append_Failed e), d1)
           | (None, d1) \<Rightarrow> (None, d1))"

definition write_log ::
    "os_fault option \<Rightarrow> string \<Rightarrow> string \<Rightarrow> string \<Rightarrow> disk \<Rightarrow> rl_error option \<times> disk" where
  "write_log fault date logs_path text d =
     (if logs_path = [] then (Some Path_Empty, d)
      else if \<not> is_abs logs_path then (Some (Path_Not_Absolute logs_path), d)
      else if trim_space text = [] then (None, d)
      else case append_to_file fault (join_path logs_path (date @ ''.md'')) (text @ [NL]) d of
             (Some e, d1) \<Rightarrow> (Some (Append_Failed e), d1)
           | (None, d1) \<Rightarrow> (None, d1))"

definition paragraph_aligned_summaries :: "rolling_log \<Rightarrow> string" where
  "paragraph_aligned_summaries r =
     (if summaries r = [] then []
      else
        let combined = join para (summaries r)
        in if int (length combined) \<le> summary_budget r then combined
           else
             let cut_point = nat (int (length combined) - summary_budget r);
                 search_region = take cut_point combined
             in case last_index_of search_region (para @ ''###'') of
                  Some idx \<Rightarrow> drop (idx + 2) combined
                | None \<Rightarrow>
                    (case last_index_of search_region para of
                       Some idx \<Rightarrow> drop (idx + 2) combined
                     | None \<Rightarrow> drop cut_point combined))"

definition get_context :: "rolling_log \<Rightarrow> string \<times> string" where
  "get_context r = (paragraph_aligned_summaries r, join para (raw_tail r))"

text \<open>The caller bounds \<open>offset\<close> and \<open>limit\<close> to 32 bits, so that the sum does not wrap.\<close>

definition slice_raw_tail :: "int \<Rightarrow> int \<Rightarrow> rolling_log \<Rightarrow> nat \<times> string list" where
  "slice_raw_tail offset limit r =
     (let total = length (raw_tail r);
          offset = (if offset < 0 then 0 else offset)
      in if offset \<ge> int total then (total, [])
         else
           let end_idx = (if limit > 0 \<and> offset + limit < int total then offset + limit else int total)
           in (total, take (nat (end_idx - offset)) (drop (nat offset) (raw_tail r))))"

text \<open>The operations as one step, with the error each returns.\<close>

datatype rl_op =
    Op_Raw "os_fault option" string
  | Op_Summary "os_fault option" string
  | Op_Older_Half "os_fault option"
  | Op_Commit "os_fault option" int
  | Op_Archive "os_fault option" string "string list" string
  | Op_Write_Log "os_fault option" string string string

fun rl_step :: "rl_op \<Rightarrow> rolling_log \<times> disk \<Rightarrow> rl_error option \<times> rolling_log \<times> disk" where
  "rl_step (Op_Raw f t) s = append_raw f t s"
| "rl_step (Op_Summary f t) s = append_summary f t s"
| "rl_step (Op_Older_Half f) s =
     (case older_half f s of (Inl e, s1) \<Rightarrow> (Some e, s1) | (Inr _, s1) \<Rightarrow> (None, s1))"
| "rl_step (Op_Commit f n) s = commit_archival f n s"
| "rl_step (Op_Archive f p ss date) s =
     (case archive f p ss date (snd s) of (e, d) \<Rightarrow> (e, fst s, d))"
| "rl_step (Op_Write_Log f date p t) s =
     (case write_log f date p t (snd s) of (e, d) \<Rightarrow> (e, fst s, d))"

text \<open>The audit files are not the live file.\<close>

fun avoids :: "string \<Rightarrow> rl_op \<Rightarrow> bool" where
  "avoids live (Op_Archive f p ss date) = (join_path p (date @ ''.md'') \<noteq> live)"
| "avoids live (Op_Write_Log f date p t) = (join_path p (date @ ''.md'') \<noteq> live)"
| "avoids live _ = True"

section \<open>Invariants\<close>

definition counts_ok :: "rolling_log \<Rightarrow> bool" where
  "counts_ok r \<longleftrightarrow> summaries_bytes r = total_len (summaries r) \<and> raw_bytes r = total_len (raw_tail r)"

definition entries_ok :: "rolling_log \<Rightarrow> bool" where
  "entries_ok r \<longleftrightarrow> (\<forall>x \<in> set (summaries r). summary_ok x) \<and> (\<forall>x \<in> set (raw_tail r). raw_entry_ok x)"

text \<open>The live file holds what the memory holds; there is none before the first write.\<close>

definition in_sync :: "rolling_log \<Rightarrow> disk \<Rightarrow> bool" where
  "in_sync r d \<longleftrightarrow>
     (case d (base_path r) of
        None \<Rightarrow> summaries r = [] \<and> raw_tail r = []
      | Some content \<Rightarrow> content = render_file (summaries r) (raw_tail r))"

definition rl_inv :: "string \<Rightarrow> rolling_log \<times> disk \<Rightarrow> bool" where
  "rl_inv live = (\<lambda>(r, d). base_path r = live \<and> counts_ok r \<and> entries_ok r \<and> in_sync r d \<and>
     0 < summary_budget r \<and> 0 < compaction_threshold r)"

lemma total_len_append [simp]: "total_len (a @ b) = total_len a + total_len b"
  by (induction a) auto

lemma total_len_nonneg [simp]: "0 \<le> total_len a"
  by (induction a) auto

lemma persist_ok: "persist_to_file f r d = (None, d1) \<Longrightarrow>
    f = None \<and> d1 (base_path r) = Some (render_file (summaries r) (raw_tail r))"
  by (auto simp: persist_to_file_def Let_def split: option.splits os_fault.splits)

lemma persist_error: "persist_to_file f r d = (Some e, d1) \<Longrightarrow>
    f = Some e \<and> d1 (base_path r) = d (base_path r)"
  by (auto simp: persist_to_file_def Let_def split: option.splits os_fault.splits)

lemma append_to_file_other: "append_to_file f p c d = (e, d1) \<Longrightarrow> q \<noteq> p \<Longrightarrow> d1 q = d q"
  by (auto simp: append_to_file_def Let_def split: option.splits os_fault.splits)

text \<open>What each operation does to the invariant, error or not.\<close>

lemma append_raw_inv [inv_intros]:
  assumes "rl_inv live (r, d)" "append_raw f t (r, d) = (e, r1, d1)"
  shows "rl_inv live (r1, d1)"
  using assms
  by (auto simp: append_raw_def rl_inv_def counts_ok_def entries_ok_def in_sync_def raw_entry_ok_def Let_def
      dest!: persist_ok persist_error split: if_splits prod.splits option.splits)

lemma append_summary_inv [inv_intros]:
  assumes "rl_inv live (r, d)" "append_summary f t (r, d) = (e, r1, d1)"
  shows "rl_inv live (r1, d1)"
  using assms
  by (auto simp: append_summary_def rl_inv_def counts_ok_def entries_ok_def in_sync_def summary_ok_def Let_def
      dest!: persist_ok persist_error split: if_splits prod.splits option.splits)

lemma older_half_inv [inv_intros]:
  assumes "rl_inv live (r, d)" "older_half f (r, d) = (e, r1, d1)"
  shows "rl_inv live (r1, d1)"
  using assms
  by (auto simp: older_half_def rl_inv_def counts_ok_def entries_ok_def in_sync_def Let_def
      dest!: persist_ok persist_error in_set_dropD split: if_splits prod.splits option.splits)

lemma commit_archival_inv [inv_intros]:
  assumes "rl_inv live (r, d)" "commit_archival f n (r, d) = (e, r1, d1)"
  shows "rl_inv live (r1, d1)"
  using assms
  by (auto simp: commit_archival_def rl_inv_def counts_ok_def entries_ok_def in_sync_def Let_def
      dest!: persist_ok persist_error in_set_dropD split: if_splits prod.splits option.splits)

lemma archive_other: "archive f p ss date d = (e, d1) \<Longrightarrow> q \<noteq> join_path p (date @ ''.md'') \<Longrightarrow> d1 q = d q"
  by (auto simp: archive_def split: if_splits prod.splits option.splits dest: append_to_file_other)

lemma write_log_other: "write_log f date p t d = (e, d1) \<Longrightarrow> q \<noteq> join_path p (date @ ''.md'') \<Longrightarrow> d1 q = d q"
  by (auto simp: write_log_def split: if_splits prod.splits option.splits dest: append_to_file_other)

lemma rl_step_inv:
  assumes "avoids live op" "rl_inv live s"
  shows "rl_inv live (snd (rl_step op s))"
proof -
  obtain r d where s: "s = (r, d)" by (cases s)
  obtain e r1 d1 where step: "rl_step op (r, d) = (e, r1, d1)" by (metis prod_cases3)
  have inv: "rl_inv live (r, d)" using assms(2) s by simp
  then have frame: "d1 live = d live \<Longrightarrow> rl_inv live (r, d1)"
    by (auto simp: rl_inv_def in_sync_def)
  have "rl_inv live (r1, d1)"
  proof (cases op)
    case (Op_Archive f p ss date)
    then have "r1 = r" "archive f p ss date d = (e, d1)" using step by (auto split: prod.splits)
    with Op_Archive assms(1) frame show ?thesis using archive_other [of f p ss date d e d1 live] by simp
  next
    case (Op_Write_Log f date p t)
    then have "r1 = r" "write_log f date p t d = (e, d1)" using step by (auto split: prod.splits)
    with Op_Write_Log assms(1) frame show ?thesis using write_log_other [of f date p t d e d1 live]
      by simp
  next
    case (Op_Older_Half f)
    then obtain e' where "older_half f (r, d) = (e', r1, d1)" using step
      by (auto split: prod.splits sum.splits)
    with inv show ?thesis by (rule older_half_inv)
  qed (use step inv in \<open>simp, blast intro: inv_intros\<close>)+
  then show ?thesis by (simp add: s step)
qed

interpretation rl: op_machine "\<lambda>op s. snd (rl_step op s)" "avoids live" "rl_inv live" for live
  by unfold_locales (rule rl_step_inv)

lemma initial_inv: "d live = None \<Longrightarrow> rl_inv live (foldl apply_option (initial_log live) opts, d)"
proof -
  have step: "rl_inv live (r, d) \<Longrightarrow> rl_inv live (apply_option r a, d)" for r a
    by (cases a) (auto simp: rl_inv_def counts_ok_def entries_ok_def in_sync_def split: option.splits)
  have run: "rl_inv live (r, d) \<Longrightarrow> rl_inv live (foldl apply_option r opts, d)" for r
    by (induction opts arbitrary: r) (auto intro: step)
  assume "d live = None"
  then show ?thesis
    by (intro run) (simp add: rl_inv_def initial_log_def counts_ok_def entries_ok_def in_sync_def)
qed

lemma apply_options_fields:
  "base_path (foldl apply_option r opts) = base_path r"
  "summaries (foldl apply_option r opts) = summaries r"
  "raw_tail (foldl apply_option r opts) = raw_tail r"
  "summaries_bytes (foldl apply_option r opts) = summaries_bytes r"
  "raw_bytes (foldl apply_option r opts) = raw_bytes r"
proof -
  have "base_path (apply_option r a) = base_path r \<and> summaries (apply_option r a) = summaries r \<and>
      raw_tail (apply_option r a) = raw_tail r \<and> summaries_bytes (apply_option r a) = summaries_bytes r \<and>
      raw_bytes (apply_option r a) = raw_bytes r" for r a
    by (cases a) auto
  then show "base_path (foldl apply_option r opts) = base_path r"
    "summaries (foldl apply_option r opts) = summaries r"
    "raw_tail (foldl apply_option r opts) = raw_tail r"
    "summaries_bytes (foldl apply_option r opts) = summaries_bytes r"
    "raw_bytes (foldl apply_option r opts) = raw_bytes r"
    by (induction opts arbitrary: r) simp_all
qed

lemma reload_in_sync:
  assumes inv: "rl_inv live (r, d)" and live: "is_abs live"
    and titled: "\<forall>x \<in> set (tl (summaries r)). titled x"
  shows "\<exists>r'. new_rolling_log False live opts d = Inr r' \<and> summaries r' = summaries r \<and>
    raw_tail r' = raw_tail r \<and> summaries_bytes r' = summaries_bytes r \<and> raw_bytes r' = raw_bytes r"
proof -
  have ne: "live \<noteq> []" using live by (auto simp: is_abs_def has_prefix_def)
  from inv have e: "\<forall>x \<in> set (summaries r). summary_ok x" "\<forall>x \<in> set (raw_tail r). raw_entry_ok x"
    and c: "counts_ok r" "base_path r = live" "in_sync r d"
    by (auto simp: rl_inv_def entries_ok_def)
  show ?thesis
  proof (cases "d live")
    case None
    with c show ?thesis using ne live
      by (simp add: new_rolling_log_def load_from_file_def apply_options_fields initial_log_def
          in_sync_def counts_ok_def)
  next
    case (Some content)
    with c have "content = render_file (summaries r) (raw_tail r)" by (simp add: in_sync_def)
    then have "parse_rolling_log_file content = (summaries r, raw_tail r)"
      using parse_render [OF e(1) titled e(2)] by simp
    with Some c show ?thesis using ne live
      by (simp add: new_rolling_log_def load_from_file_def apply_options_fields initial_log_def
          counts_ok_def)
  qed
qed

section \<open>Properties\<close>


lemmas rl_eval = append_raw_def append_summary_def older_half_def half_point_def commit_archival_def
  persist_to_file_def Let_def contains_def contains_format_delimiters_def tag_defs has_prefix_def
  trim_def trim_left_def trim_right_def initial_log_def


text \<open>
  \<open>AppendSummary\<close> accepts every entry that starts with the header marker, but a later summary
  whose header line is empty is gone after a restart although the append reported success.
\<close>

theorem empty_header_lost_on_reload:
  "\<exists>r d r'. fold (\<lambda>op s. snd (rl_step op s)) [Op_Summary None ''### a'', Op_Summary None ''### '']
      (initial_log ''/j'', \<lambda>_. None) = (r, d) \<and>
    fst (append_summary None ''### '' (snd (rl_step (Op_Summary None ''### a'') (initial_log ''/j'', \<lambda>_. None)))) = None \<and>
    summaries r = [''### a'', ''### ''] \<and>
    new_rolling_log False ''/j'' [] d = Inr r' \<and> summaries r' = [''### a'']"
proof -
  let ?s = "fold (\<lambda>op s. snd (rl_step op s)) [Op_Summary None ''### a'', Op_Summary None ''### '']
      (initial_log ''/j'', \<lambda>_. None)"
  obtain r d where e: "?s = (r, d)" by (cases ?s)
  then have r: "summaries r = [''### a'', ''### '']" "raw_tail r = []"
    and d: "d ''/j'' = Some (render_file [''### a'', ''### ''] [])"
    by (auto simp: rl_eval)
  have "parse_rolling_log_file (render_file [''### a'', ''### ''] []) = ([''### a''], [])"
    by (simp add: rl_eval parse_rolling_log_file_def render_file_def section_body_def
        extract_tag_content_def parse_summaries_def parse_raw_tail_def split.simps)
  then have "\<exists>r'. new_rolling_log False ''/j'' [] d = Inr r' \<and> summaries r' = [''### a'']"
    by (simp add: new_rolling_log_def is_abs_def has_prefix_def load_from_file_def initial_log_def d)
  moreover have "fst (append_summary None ''### ''
      (snd (rl_step (Op_Summary None ''### a'') (initial_log ''/j'', \<lambda>_. None)))) = None"
    by (simp add: rl_eval)
  ultimately show ?thesis using e r by auto
qed

text \<open>
  C37: An operation that returns an error, whatever fault caused it, has rolled back: the log in
  memory and the live file are exactly what they were.
\<close>

theorem rolling_log_error_rolls_back:
  assumes "rl_step op (r, d) = (Some e, r', d')" and "avoids (base_path r) op"
  shows "r' = r \<and> d' (base_path r) = d (base_path r)"
proof (cases op)
  case (Op_Archive f p ss date)
  then have "r' = r" "archive f p ss date d = (Some e, d')" using assms by (auto split: prod.splits)
  with Op_Archive assms(2) show ?thesis using archive_other [of f p ss date d "Some e" d'] by simp
next
  case (Op_Write_Log f date p t)
  then have "r' = r" "write_log f date p t d = (Some e, d')" using assms by (auto split: prod.splits)
  with Op_Write_Log assms(2) show ?thesis using write_log_other [of f date p t d "Some e" d'] by simp
qed (use assms in \<open>auto simp: append_raw_def append_summary_def older_half_def commit_archival_def Let_def
      dest!: persist_error split: if_splits prod.splits option.splits sum.splits\<close>)

theorem rolling_log_error_rolls_back_witness:
  "\<exists>r' d'. rl_step (Op_Raw (Some (Write_Fails 3)) ''b'') (initial_log ''/j'', \<lambda>_. None) =
      (Some (Persist_Failed (Write_Fails 3)), r', d') \<and> r' = initial_log ''/j'' \<and> d' ''/j'' = None"
proof -
  let ?s = "rl_step (Op_Raw (Some (Write_Fails 3)) ''b'') (initial_log ''/j'', \<lambda>_. None)"
  obtain e r' d' where s: "?s = (e, r', d')" by (metis prod_cases3)
  then have e: "e = Some (Persist_Failed (Write_Fails 3))" by (auto simp: rl_eval)
  with s rolling_log_error_rolls_back [of "Op_Raw (Some (Write_Fails 3)) ''b''" "initial_log ''/j''" "\<lambda>_. None" "Persist_Failed (Write_Fails 3)" r' d']
  have "r' = initial_log ''/j'' \<and> d' ''/j'' = None" by (auto simp: initial_log_def)
  with s e show ?thesis by auto
qed

text \<open>
  Compaction hands out exactly what it removes. \<open>OlderHalf\<close> of a non-empty tail returns the
  oldest entries (half of them, at least one) joined by blank lines, keeps the rest in order, and
  the counters of the new state are exact.
\<close>

theorem older_half_partition:
  assumes "rl_inv live (r, d)" and "raw_tail r \<noteq> []" and "older_half f (r, d) = (Inr text, r', d')"
  shows "\<exists>older. older \<noteq> [] \<and> raw_tail r = older @ raw_tail r' \<and> text = join para older \<and>
    length older \<le> max 1 (length (raw_tail r) div 2) \<and> summaries r' = summaries r \<and>
    raw_bytes r = total_len older + raw_bytes r' \<and>
    d' live = Some (render_file (summaries r) (raw_tail r'))"
proof -
  let ?mid = "half_point (length (raw_tail r))"
  have m: "0 < ?mid" "?mid \<le> max 1 (length (raw_tail r) div 2)" by (auto simp: half_point_def Let_def)
  have len: "total_len (take ?mid (raw_tail r)) + total_len (drop ?mid (raw_tail r)) = total_len (raw_tail r)"
    by (simp flip: total_len_append)
  from assms(1,3) m len assms(2) show ?thesis
    by (intro exI [of _ "take ?mid (raw_tail r)"])
      (auto simp: older_half_def Let_def rl_inv_def counts_ok_def
        dest!: persist_ok persist_error split: prod.splits option.splits)
qed

theorem older_half_partition_witness:
  "\<exists>text r' d' older. older_half None ((initial_log ''/j'')\<lparr>raw_tail := [''a'', ''bc'', ''d''], raw_bytes := 4\<rparr>,
      [''/j'' \<mapsto> render_file [] [''a'', ''bc'', ''d'']]) = (Inr text, r', d') \<and>
    older \<noteq> [] \<and> [''a'', ''bc'', ''d''] = older @ raw_tail r' \<and> text = join para older"
proof -
  let ?r = "(initial_log ''/j'')\<lparr>raw_tail := [''a'', ''bc'', ''d''], raw_bytes := 4\<rparr>"
  let ?d = "[''/j'' \<mapsto> render_file [] [''a'', ''bc'', ''d'']]"
  obtain t r' d' where e: "older_half None (?r, ?d) = (t, r', d')" by (metis prod_cases3)
  then obtain tx where "t = Inr tx" by (auto simp: rl_eval)
  moreover have "rl_inv ''/j'' (?r, ?d)"
    by (simp add: rl_inv_def counts_ok_def entries_ok_def in_sync_def raw_entry_ok_def trimmed_def rl_eval)
  ultimately show ?thesis using older_half_partition [of "''/j''" ?r ?d None tx r' d'] e by auto
qed

lemma split_idx_spec:
  "split_idx b m xs \<le> length xs \<and>
   (m - total_len (take (split_idx b m xs) xs) \<le> b \<or> split_idx b m xs = length xs) \<and>
   (\<forall>k < split_idx b m xs. m - total_len (take k xs) > b)"
proof (induction xs arbitrary: m)
  case (Cons x xs)
  show ?case
  proof (cases "m > b")
    case True
    have "m - total_len (take k (x # xs)) > b" if "k < Suc (split_idx b (m - int (length x)) xs)" for k
      using that True Cons [of "m - int (length x)"] by (cases k) (auto simp: algebra_simps)
    with True Cons [of "m - int (length x)"] show ?thesis by (auto simp: algebra_simps)
  qed simp
qed simp

text \<open>
  Archival removes as little as the budget asks for. \<open>OlderSummaries\<close> is the shortest prefix
  of the summaries whose removal brings the rest within the budget: the rest fits, and after any
  shorter prefix it would not.
\<close>

theorem older_summaries_minimal:
  assumes "rl_inv live (r, d)"
  shows "\<exists>rest. summaries r = older_summaries r @ rest \<and> total_len rest \<le> summary_budget r \<and>
    (\<forall>k < length (older_summaries r). total_len (drop k (summaries r)) > summary_budget r) \<and>
    (should_archive r \<longleftrightarrow> older_summaries r \<noteq> [])"
proof -
  let ?n = "split_idx (summary_budget r) (summaries_bytes r) (summaries r)"
  have c: "summaries_bytes r = total_len (summaries r)" and b: "0 < summary_budget r"
    using assms by (auto simp: rl_inv_def counts_ok_def)
  have t: "summaries_bytes r - total_len (take k (summaries r)) = total_len (drop k (summaries r))" for k
    using total_len_append [of "take k (summaries r)" "drop k (summaries r)"] c by simp
  note sp = split_idx_spec [of "summary_budget r" "summaries_bytes r" "summaries r", unfolded t]
  have "total_len (drop ?n (summaries r)) \<le> summary_budget r" using sp b by auto
  moreover have "should_archive r \<longleftrightarrow> older_summaries r \<noteq> []"
    using b c by (cases "summaries r") (auto simp: should_archive_def older_summaries_def)
  ultimately show ?thesis using sp
    by (intro exI [of _ "drop ?n (summaries r)"]) (simp add: older_summaries_def)
qed

theorem older_summaries_minimal_witness:
  "\<exists>rest. [''### a'', ''### b''] = older_summaries ((initial_log ''/j'')\<lparr>summaries := [''### a'', ''### b''],
      summaries_bytes := 10, summary_budget := 7\<rparr>) @ rest \<and> total_len rest \<le> 7"
  using older_summaries_minimal [of "''/j''" "(initial_log ''/j'')\<lparr>summaries := [''### a'', ''### b''],
      summaries_bytes := 10, summary_budget := 7\<rparr>" "[''/j'' \<mapsto> render_file [''### a'', ''### b''] []]"]
  by (auto simp: rl_inv_def counts_ok_def entries_ok_def in_sync_def summary_ok_def trimmed_def rl_eval)

text \<open>
  The summaries given to the prompt are a suffix of all of them; all of them when they fit the
  budget. Otherwise they fill the budget at least, and they start at a paragraph, except that they
  are exactly the budget when no paragraph starts before that point.
\<close>

theorem paragraph_aligned_suffix:
  assumes "0 < summary_budget r"
  shows "\<exists>pre. join para (summaries r) = pre @ paragraph_aligned_summaries r \<and>
    (if int (length (join para (summaries r))) \<le> summary_budget r then pre = []
     else int (length (paragraph_aligned_summaries r)) \<ge> summary_budget r \<and>
       (suffix para pre \<or>
        int (length (paragraph_aligned_summaries r)) = summary_budget r \<and> \<not> sublist para pre))"
proof -
  let ?c = "join para (summaries r)"
  let ?n = "nat (int (length ?c) - summary_budget r)"
  show ?thesis
  proof (cases "summaries r = [] \<or> int (length ?c) \<le> summary_budget r")
    case True
    with assms show ?thesis by (auto simp: paragraph_aligned_summaries_def)
  next
    case False
    then have n: "?n \<le> length ?c" "int (length ?c) - int ?n = summary_budget r" using assms by auto
    have found: "suffix para (take (i + 2) ?c) \<and> summary_budget r \<le> int (length (drop (i + 2) ?c))"
      if "last_index_of (take ?n ?c) (para @ q) = Some i" for i q
    proof -
      let ?t = "take ?n ?c"
      have sp: "?t = take i ?t @ (para @ q) @ drop (i + length (para @ q)) ?t"
        by (rule last_index_of_Some_split [OF that])
      have l: "i + 2 \<le> length ?t" using last_index_of_le [OF that] by simp
      have "i + 2 \<le> ?n" using l by (simp only: length_take min.bounded_iff)
      then have "take (i + 2) ?c = take (i + 2) ?t" by (simp add: min_absorb1)
      also have "\<dots> = take i ?t @ para"
        using l by (subst sp) simp
      finally have "suffix para (take (i + 2) ?c)" by (simp add: suffix_def)
      moreover have "summary_budget r \<le> int (length (drop (i + 2) ?c))" using l n by auto
      ultimately show ?thesis ..
    qed
    show ?thesis
    proof (cases "last_index_of (take ?n ?c) (para @ ''###'')")
      case (Some i)
      with False found [OF Some] show ?thesis
        by (intro exI [of _ "take (i + 2) ?c"]) (simp add: paragraph_aligned_summaries_def Let_def)
    next
      case None
      show ?thesis
      proof (cases "last_index_of (take ?n ?c) para")
        case (Some i)
        with False None found [of "[]" i] show ?thesis
          by (intro exI [of _ "take (i + 2) ?c"]) (simp add: paragraph_aligned_summaries_def Let_def)
      next
        case no: None
        then have "\<not> sublist para (take ?n ?c)" by (simp only: last_index_of_None_iff not_False_eq_True)
        moreover have "paragraph_aligned_summaries r = drop ?n ?c"
          using False None no by (simp add: paragraph_aligned_summaries_def Let_def)
        ultimately show ?thesis using False n by (intro exI [of _ "take ?n ?c"]) simp
      qed
    qed
  qed
qed

theorem paragraph_aligned_suffix_witness:
  "\<exists>pre. join para [''### a'', ''### b''] = pre @ paragraph_aligned_summaries
      ((initial_log ''/j'')\<lparr>summaries := [''### a'', ''### b''], summary_budget := 4\<rparr>) \<and>
    4 \<le> length (paragraph_aligned_summaries
      ((initial_log ''/j'')\<lparr>summaries := [''### a'', ''### b''], summary_budget := 4\<rparr>))"
  using paragraph_aligned_suffix [of "(initial_log ''/j'')\<lparr>summaries := [''### a'', ''### b''], summary_budget := 4\<rparr>"]
  by (auto simp: initial_log_def)

end
