(* ===== verification/Compaction.thy ===== *)
theory Compaction
  imports RollingLog
begin

text \<open>
  What \<open>internal/awareness/journal.go\<close> does around a rolling log: the cleaning of raw entries and of
  AI summaries before they are appended, the layout of a summary, and the archival workflow
  (\<open>OlderSummaries\<close>, \<open>Archive\<close>, \<open>CommitArchival\<close>) with its synchronisation event.
\<close>

section \<open>Cleaning text\<close>

text \<open>\<open>strings.ReplaceAll\<close> with a non-empty old string.\<close>

definition replace_all :: "string \<Rightarrow> string \<Rightarrow> string \<Rightarrow> string" where
  "replace_all s old new = join new (split s old)"

fun collapse_loop :: "nat \<Rightarrow> string \<Rightarrow> string" where
  "collapse_loop nl_count [] = []"
| "collapse_loop nl_count (c # s) =
     (if c = NL
      then let nl_count = Suc nl_count
           in if nl_count \<le> 2 then NL # collapse_loop nl_count s else collapse_loop nl_count s
      else c # collapse_loop 0 s)"

definition collapse_excessive_newlines :: "string \<Rightarrow> string" where
  "collapse_excessive_newlines s = collapse_loop 0 s"

abbreviation CR :: char where "CR \<equiv> CHR 0x0D"

definition normalize_cr :: "string \<Rightarrow> string" where
  "normalize_cr s = replace_all (replace_all s [CR, NL] [NL]) [CR] [NL]"

definition strip_tags :: "string \<Rightarrow> string" where
  "strip_tags s =
     replace_all (replace_all (replace_all (replace_all s tag_summaries_open []) tag_summaries_close [])
       tag_raw_open []) tag_raw_close []"

definition sanitize_for_rolling_log :: "string \<Rightarrow> string" where
  "sanitize_for_rolling_log s = collapse_excessive_newlines (strip_tags (normalize_cr s))"

definition sanitize_for_summary :: "string \<Rightarrow> string" where
  "sanitize_for_summary s =
     (let t = strip_tags (normalize_cr s);
          t = (if has_prefix t header then ''#### '' @ drop 4 t else t);
          t = replace_all t header_sep (para @ ''#### '')
      in collapse_excessive_newlines t)"

text \<open>The summary that \<open>handleCompactionReply\<close> appends; the dash is an en dash in UTF-8.\<close>

definition summary_header :: "string \<Rightarrow> string \<Rightarrow> string" where
  "summary_header start_time end_time =
     ''### [summary] '' @ start_time @ '' '' @ [CHR 0xE2, CHR 0x80, CHR 0x93] @ '' '' @ end_time"

definition format_summary :: "string \<Rightarrow> string \<Rightarrow> string \<Rightarrow> string" where
  "format_summary start_time end_time reply =
     summary_header start_time end_time @ NL # sanitize_for_summary reply"

section \<open>Archival\<close>

datatype sync_type = Sync_Created | Sync_Updated

text \<open>The event that \<open>triggerArchival\<close> publishes, if any, and the new state. The journal keeps its
  archives under its base path, one directory per session.\<close>

definition trigger_archival ::
    "string \<Rightarrow> string \<Rightarrow> string \<Rightarrow> os_fault option \<Rightarrow> os_fault option \<Rightarrow> rolling_log \<times> disk \<Rightarrow>
     (string \<times> sync_type) option \<times> rolling_log \<times> disk" where
  "trigger_archival journal_path session_id date archive_fault commit_fault = (\<lambda>(r, d).
     let summaries = older_summaries r in
     if summaries = [] then (None, r, d)
     else
       let archive_path = join_path (join_path journal_path ''archives'') session_id;
           archive_file = join_path archive_path (date @ ''.md'');
           archive_existed = (d archive_file \<noteq> None)
       in case archive archive_fault archive_path summaries date d of
            (Some e, d1) \<Rightarrow> (None, r, d1)
          | (None, d1) \<Rightarrow>
              (case commit_archival commit_fault (int (length summaries)) (r, d1) of
                 (Some e, r2, d2) \<Rightarrow> (None, r2, d2)
               | (None, r2, d2) \<Rightarrow>
                   (Some (archive_file, if archive_existed then Sync_Updated else Sync_Created), r2, d2)))"

section \<open>Lemmas on replacing and collapsing\<close>

lemma sublist_skip:
  "set a \<inter> set p = {} \<Longrightarrow> p \<noteq> [] \<Longrightarrow> sublist p (a @ y) \<longleftrightarrow> sublist p y"
proof (induction a)
  case (Cons c a)
  then show ?case using sublist_append_sep [of c p "[]" "a @ y"] by (auto simp: sublist_Nil_iff)
qed simp

lemma sublist_join_disjoint:
  assumes "set sep \<inter> set p = {}" "sep \<noteq> []" "p \<noteq> []"
  shows "sublist p (join sep xs) \<longleftrightarrow> (\<exists>x \<in> set xs. sublist p x)"
proof (induction xs)
  case (Cons x xs)
  obtain c q where q: "sep = c # q" using assms(2) by (cases sep) auto
  show ?case
  proof (cases "xs = []")
    case False
    then have "sublist p (join sep (x # xs)) \<longleftrightarrow> sublist p (x @ c # q @ join sep xs)"
      by (simp add: join_Cons q)
    also have "\<dots> \<longleftrightarrow> sublist p x \<or> sublist p (q @ join sep xs)"
      using assms(1) by (intro sublist_append_sep) (auto simp: q)
    also have "sublist p (q @ join sep xs) \<longleftrightarrow> sublist p (join sep xs)"
      using assms(1,3) by (intro sublist_skip) (auto simp: q)
    finally show ?thesis using Cons.IH by simp
  qed simp
qed (simp add: assms sublist_Nil_iff)

lemma replace_all_absent: "\<not> sublist old s \<Longrightarrow> replace_all s old new = s"
  by (simp add: replace_all_def split_None)

lemma replace_all_disjoint:
  assumes "set old \<inter> set p = {}" "old \<noteq> []" "set new \<inter> set p = {}" "new \<noteq> []" "p \<noteq> []"
  shows "sublist p (replace_all s old new) \<longleftrightarrow> sublist p s"
  using sublist_join_disjoint [of new p "split s old"] sublist_join_disjoint [of old p "split s old"]
    join_split [OF assms(2), of s] assms
  by (simp add: replace_all_def)

lemma index_of_first:
  "p \<noteq> [] \<Longrightarrow> index_of s p = Some i \<Longrightarrow> \<not> sublist p (butlast (take (i + length p) s))"
proof (induction s arbitrary: i)
  case (Cons c s)
  show ?case
  proof (cases "prefix p (c # s)")
    case True
    with Cons.prems have i: "i = 0" by simp
    have "length (butlast (take (i + length p) (c # s))) < length p" using Cons.prems(1) i
      by (cases p) auto
    then show ?thesis by (meson not_le sublist_length_le)
  next
    case False
    with Cons.prems obtain j where j: "index_of s p = Some j" "i = Suc j" by auto
    let ?B = "butlast (take (j + length p) s)"
    have "take (i + length p) (c # s) = c # take (j + length p) s" using j by simp
    moreover have "take (j + length p) s \<noteq> []"
      using index_of_le [OF j(1)] Cons.prems(1) by (cases s; cases p) auto
    ultimately have B: "butlast (take (i + length p) (c # s)) = c # ?B" by simp
    have "prefix ?B s" by (metis prefix_order.order_trans prefixeq_butlast take_is_prefix)
    then have "\<not> prefix p (c # ?B)" using False by (metis Cons_prefix_Cons prefix_order.order_trans)
    then show ?thesis using Cons.IH [OF Cons.prems(1) j(1)] unfolding B by (simp add: sublist_Cons_right)
  qed
qed (simp split: if_splits)

lemma index_of_take: "index_of s p = Some i \<Longrightarrow> take (i + length p) s = take i s @ p"
proof -
  assume i: "index_of s p = Some i"
  let ?x = "take i s"
  have "length ?x = i" using index_of_le [OF i] by simp
  then have "take (i + length p) (?x @ p @ drop (i + length p) s) = ?x @ p" by simp
  with index_of_Some_split [OF i] show ?thesis by simp
qed

text \<open>After the replacement there is no header separator left.\<close>

abbreviation header4 :: string where "header4 \<equiv> para @ ''#### ''"

lemma no_header_sep_after_new:
  assumes a: "\<not> sublist header_sep (x @ butlast header_sep)" and r: "\<not> sublist header_sep y"
  shows "\<not> sublist header_sep (x @ header4 @ y)"
proof
  assume "sublist header_sep (x @ header4 @ y)"
  moreover have "x @ header4 @ y = (x @ butlast header_sep) @ ''# '' @ y" by simp
  ultimately have "sublist header_sep ((x @ butlast header_sep) @ ''# '' @ y)" by simp
  then show False
  proof (cases rule: sublist_append_cases)
    case right
    with r show False by (auto simp: sublist_Cons_right)
  next
    case (cross k)
    then have "k = 1 \<or> k = 2 \<or> k = 3 \<or> k = 4 \<or> k = 5" by auto
    with cross(3,4) show False
      by (auto simp: eval_nat_numeral suffix_def append_eq_Cons_conv Cons_eq_append_conv
          append_eq_append_conv2)
  qed (use a in simp)
qed

lemma replace_header_sep: "\<not> sublist header_sep (replace_all s header_sep header4)"
proof (induction s "header_sep" rule: split.induct)
  case (1 s)
  show ?case
  proof (cases "index_of s header_sep")
    case None
    then show ?thesis by (simp only: replace_all_absent index_of_None_iff not_False_eq_True)
  next
    case (Some i)
    let ?rest = "drop (i + length header_sep) s"
    have eq: "replace_all s header_sep header4 = take i s @ header4 @ replace_all ?rest header_sep header4"
      unfolding replace_all_def using Some by (subst split.simps) (simp add: join_Cons)
    have "take (i + length header_sep) s = take i s @ header_sep"
      by (rule index_of_take [OF Some])
    with index_of_first [OF _ Some] have "\<not> sublist header_sep (take i s @ butlast header_sep)"
      by (simp add: butlast_append)
    moreover have "\<not> sublist header_sep (replace_all ?rest header_sep header4)"
      using "1.hyps" [OF _ Some] by blast
    ultimately show ?thesis unfolding eq by (rule no_header_sep_after_new)
  qed
qed

section \<open>Collapsing\<close>

lemma collapse_prefix: "NL \<notin> set q \<Longrightarrow> prefix q (collapse_loop 0 s) \<longleftrightarrow> prefix q s"
proof (induction q arbitrary: s)
  case (Cons a q)
  then show ?case by (cases s) (auto simp: Let_def)
qed simp

lemma collapse_no_triple: "\<not> sublist triple (replicate (min n 2) NL @ collapse_loop n s)"
proof (induction s arbitrary: n)
  case Nil
  have "length triple > min n 2" by simp
  then show ?case by (metis append_Nil2 collapse_loop.simps(1) length_replicate not_le sublist_length_le)
next
  case (Cons c s)
  show ?case
  proof (cases "c = NL")
    case True
    have "replicate (min n 2) NL @ collapse_loop n (c # s) =
        replicate (min (Suc n) 2) NL @ collapse_loop (Suc n) s"
      using True by (auto simp: min_def Let_def replicate_append_same le_Suc_eq numeral_2_eq_2)
    with Cons.IH [of "Suc n"] show ?thesis by simp
  next
    case False
    have "\<not> sublist triple (replicate (min n 2) NL)"
      by (metis length_replicate min.cobounded2 not_less_eq_eq numeral_2_eq_2 sublist_length_le
          length_Cons list.size(3) dual_order.trans)
    with False Cons.IH [of 0] show ?thesis by (simp add: sublist_append_sep)
  qed
qed

text \<open>Collapsing makes no header separator and no tag.\<close>

lemma replicate_prefix_split:
  assumes "sublist (para @ q) (replicate m NL @ c # s)" "c \<noteq> NL" "q \<noteq> []" "hd q \<noteq> NL"
  shows "2 \<le> m \<and> prefix q (c # s) \<or> sublist (para @ q) s"
  using assms(1)
proof (induction m)
  case 0
  then show ?case using assms by (auto simp: sublist_Cons_right)
next
  case (Suc m)
  then have "prefix (para @ q) (replicate (Suc m) NL @ c # s) \<or>
      sublist (para @ q) (replicate m NL @ c # s)"
    by (auto simp: sublist_Cons_right)
  then show ?case
  proof
    assume p: "prefix (para @ q) (replicate (Suc m) NL @ c # s)"
    then obtain k where k: "m = Suc k" using assms(2) by (cases m) auto
    with p have "prefix q (replicate k NL @ c # s)" by simp
    with assms(3,4) have "k = 0" by (cases k; cases q) auto
    with p k show ?thesis by simp
  next
    assume "sublist (para @ q) (replicate m NL @ c # s)"
    with Suc.IH show ?thesis by auto
  qed
qed

lemma collapse_header:
  assumes q: "q \<noteq> []" "NL \<notin> set q"
  shows "sublist (para @ q) (replicate (min n 2) NL @ collapse_loop n s) \<Longrightarrow>
    sublist (para @ q) (replicate n NL @ s)"
proof (induction s arbitrary: n)
  case Nil
  then have "sublist (para @ q) (replicate (min n 2) NL)" by simp
  then have "set q \<subseteq> {NL}" using set_mono_sublist by fastforce
  with q show ?case by (cases q) auto
next
  case (Cons c s)
  have hq: "hd q \<noteq> NL" using q by (cases q) auto
  show ?case
  proof (cases "c = NL")
    case True
    have "replicate (min n 2) NL @ collapse_loop n (c # s) =
        replicate (min (Suc n) 2) NL @ collapse_loop (Suc n) s"
      using True by (auto simp: min_def Let_def replicate_append_same le_Suc_eq numeral_2_eq_2)
    with Cons.prems Cons.IH [of "Suc n"] have "sublist (para @ q) (replicate (Suc n) NL @ s)" by simp
    then show ?thesis using True by (simp add: replicate_app_Cons_same)
  next
    case False
    with Cons.prems have "sublist (para @ q) (replicate (min n 2) NL @ c # collapse_loop 0 s)" by simp
    from replicate_prefix_split [OF this False q(1) hq] show ?thesis
    proof
      assume p: "2 \<le> min n 2 \<and> prefix q (c # collapse_loop 0 s)"
      then obtain q' where "q = c # q'" "prefix q' (collapse_loop 0 s)" using q by (cases q) auto
      then have "prefix q (c # s)" using q collapse_prefix [of q'] by auto
      then have "prefix (para @ q) (para @ c # s)" by simp
      moreover obtain k where "n = k + 2" using p by (metis le_add_diff_inverse2 min.bounded_iff)
      then have "replicate n NL @ c # s = replicate k NL @ para @ c # s"
        by (simp add: replicate_app_Cons_same)
      ultimately show ?thesis by (auto simp: prefix_def sublist_def)
    next
      assume "sublist (para @ q) (collapse_loop 0 s)"
      with Cons.IH [of 0] have "sublist (para @ q) s" by simp
      then show ?thesis by (metis append_Cons append_assoc append_Nil sublist_appendI sublist_order.order.trans append_Nil2)
    qed
  qed
qed

lemma collapse_no_header:
  assumes "\<not> sublist header_sep s"
  shows "\<not> sublist header_sep (collapse_loop 0 s)"
  using collapse_header [of header 0 s] assms by auto

lemma collapse_tag:
  assumes "NL \<notin> set p" "p \<noteq> []"
  shows "sublist p (collapse_loop n s) \<Longrightarrow> sublist p s"
proof (induction s arbitrary: n)
  case (Cons c s)
  have nl: "sublist p (NL # y) \<longleftrightarrow> sublist p y" for y
    using sublist_append_sep [OF assms(1), of "[]" y] assms(2) by (simp add: sublist_Nil_iff)
  show ?case
  proof (cases "c = NL")
    case True
    with Cons show ?thesis by (auto simp: nl Let_def split: if_splits)
  next
    case False
    with Cons.prems have "prefix p (c # collapse_loop 0 s) \<or> sublist p (collapse_loop 0 s)"
      by (simp add: sublist_Cons_right)
    then show ?thesis
    proof
      assume "prefix p (c # collapse_loop 0 s)"
      then obtain q where "p = c # q" "prefix q (collapse_loop 0 s)" using assms(2) by (cases p) auto
      then show ?thesis using assms(1) collapse_prefix [of q s] by (simp add: sublist_Cons_right)
    next
      assume "sublist p (collapse_loop 0 s)"
      with Cons.IH show ?thesis by (auto simp: sublist_Cons_right)
    qed
  qed
qed simp

section \<open>What cleaning achieves\<close>

lemma strip_tags_absent: "\<not> contains_format_delimiters s \<Longrightarrow> strip_tags s = s"
  by (simp add: strip_tags_def replace_all_absent contains_format_delimiters_def contains_sublist)

lemma collapse_no_tags:
  "\<not> contains_format_delimiters s \<Longrightarrow> \<not> contains_format_delimiters (collapse_excessive_newlines s)"
  unfolding collapse_excessive_newlines_def no_delimiters using collapse_tag tag_facts by metis

lemma collapse_no_triple0: "\<not> sublist triple (collapse_excessive_newlines s)"
  using collapse_no_triple [of 0 s] by (simp add: collapse_excessive_newlines_def)

lemma no_tags_trim: "\<not> contains_format_delimiters s \<Longrightarrow> \<not> contains_format_delimiters (trim_nl s)"
  unfolding no_delimiters using sublist_trim sublist_order.order.trans by metis

lemma no_tags_replace_header:
  assumes "\<not> contains_format_delimiters s"
  shows "\<not> contains_format_delimiters (replace_all s header_sep header4)"
  unfolding no_delimiters
proof (intro allI impI)
  fix p assume p: "is_tag p"
  then have "set header_sep \<inter> set p = {}" "set header4 \<inter> set p = {}" "p \<noteq> []"
    by (auto simp: is_tag_def tag_defs)
  then have "sublist p (replace_all s header_sep header4) \<longleftrightarrow> sublist p s"
    by (intro replace_all_disjoint) auto
  then show "\<not> sublist p (replace_all s header_sep header4)" using assms p by (simp add: no_delimiters)
qed

lemma no_tags_downgrade:
  assumes "\<not> contains_format_delimiters s"
  shows "\<not> contains_format_delimiters (''#### '' @ drop 4 s)"
  unfolding no_delimiters
proof (intro allI impI)
  fix p assume p: "is_tag p"
  then have "sublist p (''#### '' @ drop 4 s) \<longleftrightarrow> sublist p (drop 4 s)"
    by (intro sublist_skip) (auto simp: is_tag_def tag_defs)
  then show "\<not> sublist p (''#### '' @ drop 4 s)"
    using assms p by (metis no_delimiters sublist_drop sublist_order.order.trans)
qed

lemma trim_right_append: "a \<noteq> [] \<Longrightarrow> \<not> P (last a) \<Longrightarrow> trim_right P (a @ y) = a @ trim_right P y"
proof (induction y rule: rev_induct)
  case (snoc c y)
  then show ?case by (simp flip: append_assoc)
qed (simp add: trim_right_id)

lemma collapse_keeps_start: "NL \<notin> set q \<Longrightarrow> prefix (NL # q) (collapse_loop 0 u) \<Longrightarrow> prefix (NL # q) u"
proof -
  assume q: "NL \<notin> set q" and p: "prefix (NL # q) (collapse_loop 0 u)"
  obtain v where v: "u = NL # v" using p by (cases u) (auto simp: Let_def split: if_splits)
  have "prefix q v"
  proof (cases q)
    case (Cons a q')
    with p v q obtain w where "v = a # w" "prefix q' (collapse_loop 0 w)"
      by (cases v) (auto simp: Let_def split: if_splits)
    with Cons q show ?thesis using collapse_prefix [of q' w] by simp
  qed simp
  with v show ?thesis by simp
qed

lemma replace_header_start:
  "prefix (NL # header) (replace_all s header_sep header4) \<Longrightarrow> prefix (NL # header) s"
proof (cases "index_of s header_sep")
  case None
  assume "prefix (NL # header) (replace_all s header_sep header4)"
  with None show ?thesis by (simp only: replace_all_absent index_of_None_iff not_False_eq_True)
next
  case (Some i)
  assume p: "prefix (NL # header) (replace_all s header_sep header4)"
  let ?rest = "drop (i + length header_sep) s"
  have "replace_all s header_sep header4 = take i s @ header4 @ replace_all ?rest header_sep header4"
    unfolding replace_all_def using Some by (subst split.simps) (simp add: join_Cons)
  with p have p: "prefix (NL # header) (take i s @ NL # NL # (''#### '' @ replace_all ?rest header_sep header4))"
    by simp
  have gen: "prefix (NL # q) (x @ NL # NL # y) \<Longrightarrow> NL \<notin> set q \<Longrightarrow> q \<noteq> [] \<Longrightarrow> prefix (NL # q) x"
    for q x y :: string
  proof -
    assume a: "prefix (NL # q) (x @ NL # NL # y)" "NL \<notin> set q" "q \<noteq> []"
    have cut: "prefix q (x @ NL # y) \<Longrightarrow> NL \<notin> set q \<Longrightarrow> prefix q x" for q x y :: string
    proof (induction x arbitrary: q)
      case Nil
      then show ?case by (cases q) auto
    next
      case (Cons c x)
      then show ?case by (cases q) auto
    qed
    show ?thesis
    proof (cases x)
      case Nil
      with a show ?thesis by (cases q) auto
    next
      case (Cons c x')
      with a have c: "c = NL" "prefix q (x' @ NL # NL # y)" by auto
      from cut [OF c(2) a(2)] c(1) Cons show ?thesis by simp
    qed
  qed
  from gen [OF p] have "prefix (NL # header) (take i s)" by simp
  then show ?thesis using take_is_prefix prefix_order.order_trans by blast
qed

lemma no_header_sep_after_header:
  assumes "NL \<notin> set h" "\<not> prefix (NL # header) y" "\<not> sublist header_sep y"
  shows "\<not> sublist header_sep (h @ NL # y)"
  using assms(1)
proof (induction h)
  case Nil
  with assms show ?case by (simp add: sublist_Cons_right)
next
  case (Cons c h)
  then show ?case by (auto simp: sublist_Cons_right prefix_Cons)
qed

text \<open>Both ends of the range are non-empty lines without a tag: time stamps.\<close>

definition time_text :: "string \<Rightarrow> bool" where
  "time_text t \<longleftrightarrow> t \<noteq> [] \<and> NL \<notin> set t \<and> CHR ''<'' \<notin> set t"

lemma sanitized_summary_facts:
  assumes "\<not> contains_format_delimiters (normalize_cr t)"
  shows "\<not> contains_format_delimiters (sanitize_for_summary t)"
    and "\<not> sublist header_sep (sanitize_for_summary t)"
    and "\<not> prefix (NL # header) (normalize_cr t) \<Longrightarrow> \<not> prefix (NL # header) (sanitize_for_summary t)"
proof -
  let ?n = "normalize_cr t"
  let ?t = "if has_prefix ?n header then ''#### '' @ drop 4 ?n else ?n"
  have s: "sanitize_for_summary t = collapse_loop 0 (replace_all ?t header_sep header4)"
    by (simp add: sanitize_for_summary_def strip_tags_absent [OF assms] Let_def
        collapse_excessive_newlines_def)
  have t: "\<not> contains_format_delimiters ?t" using assms no_tags_downgrade by simp
  show "\<not> contains_format_delimiters (sanitize_for_summary t)"
    unfolding s using collapse_no_tags [OF no_tags_replace_header [OF t]]
    by (simp only: collapse_excessive_newlines_def not_False_eq_True)
  show "\<not> sublist header_sep (sanitize_for_summary t)"
    unfolding s using replace_header_sep by (rule collapse_no_header)
  show "\<not> prefix (NL # header) (sanitize_for_summary t)" if "\<not> prefix (NL # header) ?n"
  proof
    assume "prefix (NL # header) (sanitize_for_summary t)"
    then have "prefix (NL # header) (replace_all ?t header_sep header4)"
      unfolding s by (rule collapse_keeps_start [rotated]) simp
    then have "prefix (NL # header) ?t" by (rule replace_header_start)
    with that show False by (auto split: if_splits)
  qed
qed

section \<open>Properties\<close>

text \<open>
  A cleaned raw entry is always stored: once the tags that text may contain are excluded, what
  \<open>sanitizeForRollingLog\<close> returns passes every check of \<open>AppendRaw\<close>, and the tail grows by that
  entry without its outer newlines (or not at all when nothing else is left).
\<close>

theorem sanitized_raw_entry_accepted:
  assumes "\<not> contains_format_delimiters (normalize_cr t)"
  shows "\<exists>r' d'. append_raw None (sanitize_for_rolling_log t) (r, d) = (None, r', d') \<and>
    raw_tail r' = raw_tail r @ filter (\<lambda>e. e \<noteq> []) [trim_nl (sanitize_for_rolling_log t)]"
proof -
  have s: "sanitize_for_rolling_log t = collapse_excessive_newlines (normalize_cr t)"
    by (simp add: sanitize_for_rolling_log_def strip_tags_absent [OF assms])
  have "\<not> contains_format_delimiters (trim_nl (sanitize_for_rolling_log t))"
    unfolding s by (intro no_tags_trim collapse_no_tags assms)
  moreover have "\<not> contains (trim_nl (sanitize_for_rolling_log t)) triple"
    unfolding s contains_sublist using collapse_no_triple0 sublist_trim sublist_order.order.trans by blast
  ultimately show ?thesis by (simp add: append_raw_def Let_def persist_to_file_def)
qed

lemmas clean_eval = normalize_cr_def replace_all_def split.simps contains_format_delimiters_def
  contains_def tag_defs has_prefix_def

theorem sanitized_raw_entry_accepted_witness:
  "\<exists>r' d'. append_raw None (sanitize_for_rolling_log [CHR ''a'', CR, NL, NL, NL, CHR ''b''])
      (initial_log ''/j'', \<lambda>_. None) = (None, r', d') \<and> raw_tail r' = [[CHR ''a'', NL, NL, CHR ''b'']]"
proof -
  let ?t = "[CHR ''a'', CR, NL, NL, NL, CHR ''b'']"
  have n: "normalize_cr ?t = [CHR ''a'', NL, NL, NL, CHR ''b'']" by (simp add: clean_eval)
  have c: "\<not> contains_format_delimiters (normalize_cr ?t)" unfolding n by (simp add: clean_eval)
  have "sanitize_for_rolling_log ?t = [CHR ''a'', NL, NL, CHR ''b'']"
    unfolding sanitize_for_rolling_log_def strip_tags_absent [OF c] unfolding n
    by (simp add: collapse_excessive_newlines_def Let_def)
  with sanitized_raw_entry_accepted [OF c, of "initial_log ''/j''" "\<lambda>_. None"] show ?thesis
    by (auto simp: trim_def trim_left_def trim_right_def initial_log_def)
qed

text \<open>
  A cleaned AI summary is always stored, and survives a restart in any position: what the journal
  builds from the time range and the cleaned reply passes every check of \<open>AppendSummary\<close>, unless the
  reply contains format tags or starts with one newline and a level-three header.
\<close>

theorem sanitized_summary_accepted:
  assumes "\<not> contains_format_delimiters (normalize_cr t)" and "\<not> has_prefix (normalize_cr t) (NL # header)"
    and "time_text a" and "time_text b"
  shows "\<exists>r' d' x. append_summary None (format_summary a b t) (r, d) = (None, r', d') \<and>
    summaries r' = summaries r @ [x] \<and> titled x \<and> has_prefix x (summary_header a b)"
proof -
  let ?h = "summary_header a b" and ?s = "sanitize_for_summary t"
  let ?x = "trim_nl (format_summary a b t)"
  note facts = sanitized_summary_facts [OF assms(1)]
  have h: "?h \<noteq> []" "NL \<notin> set ?h" "hd ?h \<noteq> NL"
    using assms(3,4) by (auto simp: summary_header_def time_text_def)
  then have "last ?h \<noteq> NL" by (metis last_in_set)
  note h = h this
  have "?x = trim_right (\<lambda>c. c = NL) (?h @ NL # ?s)"
    using h by (simp add: trim_def format_summary_def trim_left_id)
  also have "\<dots> = ?h @ trim_right (\<lambda>c. c = NL) (NL # ?s)" using h by (intro trim_right_append)
  finally have x: "?x = ?h @ trim_right (\<lambda>c. c = NL) (NL # ?s)" .
  have sub: "sublist ?x (?h @ NL # ?s)" using sublist_trim [of "\<lambda>c. c = NL" "format_summary a b t"]
    by (simp add: format_summary_def)
  have "\<not> sublist header_sep (?h @ NL # ?s)"
    using h facts assms(2) by (intro no_header_sep_after_header) (auto simp: has_prefix_def)
  then have "\<not> contains ?x header_sep" unfolding contains_sublist
    using sub sublist_order.order.trans by blast
  moreover have "\<not> contains_format_delimiters ?x"
    unfolding no_delimiters
  proof (intro allI impI)
    fix p assume p: "is_tag p"
    then have p': "NL \<notin> set p" "p \<noteq> []" and "CHR ''<'' \<in> set p"
      by (auto simp: is_tag_def tag_defs)
    then have "\<not> sublist p ?h" using assms(3,4) set_mono_sublist
      by (fastforce simp: summary_header_def time_text_def)
    then show "\<not> sublist p ?x" using facts(1) p sub
      by (metis no_delimiters sublist_append_sep [OF p'(1)] sublist_order.order.trans)
  qed
  moreover have "has_prefix ?x header" "?x \<noteq> []" "titled ?x"
    unfolding x by (simp_all add: has_prefix_def summary_header_def titled_def)
  ultimately show ?thesis using x
    by (simp add: append_summary_def Let_def persist_to_file_def has_prefix_def)
qed

theorem sanitized_summary_accepted_witness:
  "\<exists>r' d' x. append_summary None (format_summary ''09:00:00'' ''09:30:00'' ''### Done'') (initial_log ''/j'', \<lambda>_. None)
      = (None, r', d') \<and> summaries r' = [x] \<and> titled x \<and> has_prefix x (summary_header ''09:00:00'' ''09:30:00'')"
proof -
  have n: "normalize_cr ''### Done'' = ''### Done''" by (simp add: clean_eval)
  have "\<not> contains_format_delimiters (normalize_cr ''### Done'')"
    "\<not> has_prefix (normalize_cr ''### Done'') (NL # header)" unfolding n by (simp_all add: clean_eval)
  moreover have "time_text ''09:00:00''" "time_text ''09:30:00''" by (simp_all add: time_text_def)
  ultimately show ?thesis
    using sanitized_summary_accepted [of "''### Done''" "''09:00:00''" "''09:30:00''" "initial_log ''/j''" "\<lambda>_. None"]
    by (simp add: initial_log_def)
qed

text \<open>
  The two gaps that the previous properties leave open are real. A tag nested in itself survives the
  single pass of \<open>ReplaceAll\<close> and the cleaned entry is refused; and a reply that starts with a newline
  and a header makes the formatted summary contain the header separator, so that it is refused too.
\<close>

theorem cleaning_gaps:
  "fst (append_raw None (sanitize_for_rolling_log ''<nupi:rolling-log:<nupi:rolling-log:raw>raw>'')
      (initial_log ''/j'', \<lambda>_. None)) = Some Has_Delimiters \<and>
   fst (append_summary None (format_summary ''09:00:00'' ''09:30:00'' (NL # ''### Notes''))
      (initial_log ''/j'', \<lambda>_. None)) = Some Inner_Header"
proof
  let ?t = "''<nupi:rolling-log:<nupi:rolling-log:raw>raw>''"
  have "normalize_cr ?t = ?t" by (simp add: clean_eval)
  moreover have "strip_tags ?t = ''<nupi:rolling-log:raw>''"
    by (simp add: strip_tags_def clean_eval)
  ultimately have "sanitize_for_rolling_log ?t = ''<nupi:rolling-log:raw>''"
    by (simp add: sanitize_for_rolling_log_def collapse_excessive_newlines_def)
  then show "fst (append_raw None (sanitize_for_rolling_log ?t) (initial_log ''/j'', \<lambda>_. None)) =
      Some Has_Delimiters"
    by (simp add: rl_eval)
next
  have n: "normalize_cr (NL # ''### Notes'') = NL # ''### Notes''" by (simp add: clean_eval)
  have "\<not> contains_format_delimiters (normalize_cr (NL # ''### Notes''))"
    unfolding n by (simp add: clean_eval)
  then have "sanitize_for_summary (NL # ''### Notes'') = NL # ''### Notes''"
    unfolding sanitize_for_summary_def by (simp add: strip_tags_absent n)
      (simp add: clean_eval collapse_excessive_newlines_def Let_def)
  then show "fst (append_summary None (format_summary ''09:00:00'' ''09:30:00'' (NL # ''### Notes''))
      (initial_log ''/j'', \<lambda>_. None)) = Some Inner_Header"
    by (simp add: format_summary_def summary_header_def rl_eval)
qed

text \<open>
  Archival moves summaries and loses none, whatever call fails. When it publishes its event, the
  archive file has grown by exactly the oldest summaries, these are gone from the log, the rest fits
  the budget and the event says whether the file is new; when it does not, the log still holds every
  summary. (The archive file is neither the live file nor its temporary file.) In both cases the log keeps its invariant.
\<close>

theorem archival_loses_nothing:
  assumes inv: "rl_inv live (r, d)"
    and other: "join_path (join_path (join_path base ''archives'') sid) (date @ ''.md'') \<notin> {live, live @ ''.tmp''}"
    and run: "trigger_archival base sid date f1 f2 (r, d) = (event, r', d')"
  shows "rl_inv live (r', d') \<and> raw_tail r' = raw_tail r \<and>
    (case event of
       None \<Rightarrow> r' = r
     | Some (file, ty) \<Rightarrow>
         (\<exists>moved. moved \<noteq> [] \<and> summaries r = moved @ summaries r' \<and>
            total_len (summaries r') \<le> summary_budget r \<and>
            d' file = Some ((case d file of None \<Rightarrow> [] | Some old \<Rightarrow> old) @ archive_text moved) \<and>
            (ty = Sync_Updated \<longleftrightarrow> d file \<noteq> None)))"
proof (cases "older_summaries r = []")
  case True
  with run inv show ?thesis by (auto simp: trigger_archival_def)
next
  case False
  let ?path = "join_path (join_path base ''archives'') sid"
  let ?file = "join_path ?path (date @ ''.md'')"
  obtain e1 d1 where a: "archive f1 ?path (older_summaries r) date d = (e1, d1)"
    by (metis surj_pair)
  have inv1: "rl_inv live (r, d1)"
    using inv archive_other [OF a, of live] other by (auto simp: rl_inv_def in_sync_def)
  show ?thesis
  proof (cases e1)
    case (Some e)
    with run a False inv1 show ?thesis by (auto simp: trigger_archival_def Let_def)
  next
    case None
    obtain e2 r2 d2 where c: "commit_archival f2 (int (length (older_summaries r))) (r, d1) = (e2, r2, d2)"
      by (metis prod_cases3)
    have inv2: "rl_inv live (r2, d2)" using commit_archival_inv [OF inv1 c] .
    have d1: "d1 ?file = Some ((case d ?file of None \<Rightarrow> [] | Some old \<Rightarrow> old) @ archive_text (older_summaries r))"
      using a None False
      by (auto simp: archive_def append_to_file_def Let_def split: if_splits option.splits os_fault.splits)
    show ?thesis
    proof (cases e2)
      case (Some e)
      then have "r2 = r" using c
        by (auto simp: commit_archival_def Let_def dest!: persist_error split: if_splits prod.splits option.splits)
      with run a c None Some False inv2 show ?thesis by (auto simp: trigger_archival_def Let_def)
    next
      case ok: None
      from run a c None ok False have res: "r' = r2" "d' = d2"
        "event = Some (?file, if d ?file \<noteq> None then Sync_Updated else Sync_Created)"
        by (auto simp: trigger_archival_def Let_def)
      obtain rest where rest: "summaries r = older_summaries r @ rest" "total_len rest \<le> summary_budget r"
        using older_summaries_minimal [OF inv] by blast
      have r2: "summaries r2 = rest" "raw_tail r2 = raw_tail r"
        using c ok False rest(1)
        by (auto simp: commit_archival_def Let_def split: if_splits prod.splits option.splits)
      have d2: "d2 ?file = d1 ?file"
        using c ok False inv1 other
        by (auto simp: commit_archival_def persist_to_file_def rl_inv_def Let_def
            split: if_splits prod.splits option.splits os_fault.splits)
      show ?thesis using res r2 rest inv2 d1 d2 False by auto
    qed
  qed
qed

theorem archival_loses_nothing_witness:
  "\<exists>event r' d'. trigger_archival ''/b'' ''s'' ''d'' None None
      ((initial_log ''/j'')\<lparr>summaries := [''### a'', ''### b''], summaries_bytes := 10, summary_budget := 7\<rparr>,
       [''/j'' \<mapsto> render_file [''### a'', ''### b''] []]) = (event, r', d') \<and>
    rl_inv ''/j'' (r', d') \<and> event \<noteq> None \<and> summaries r' = [''### b'']"
proof -
  let ?r = "(initial_log ''/j'')\<lparr>summaries := [''### a'', ''### b''], summaries_bytes := 10, summary_budget := 7\<rparr>"
  let ?d = "[''/j'' \<mapsto> render_file [''### a'', ''### b''] []]"
  obtain event r' d' where run: "trigger_archival ''/b'' ''s'' ''d'' None None (?r, ?d) = (event, r', d')"
    by (metis prod_cases3)
  have inv: "rl_inv ''/j'' (?r, ?d)"
    by (simp add: rl_inv_def counts_ok_def entries_ok_def in_sync_def summary_ok_def trimmed_def rl_eval)
  have fname: "join_path (join_path (join_path ''/b'' ''archives'') ''s'') (''d'' @ ''.md'') = ''/b/archives/s/d.md''"
    by (simp add: join_path_def clean_step_def split.simps)
  have path: "join_path (join_path ''/b'' ''archives'') ''s'' = ''/b/archives/s''"
    by (simp add: join_path_def clean_step_def split.simps)
  have older: "older_summaries ?r = [''### a'']" by (simp add: older_summaries_def)
  have "event \<noteq> None \<and> summaries r' = [''### b'']"
    using run older path
    by (auto simp: trigger_archival_def archive_def is_abs_def has_prefix_def append_to_file_def
        commit_archival_def persist_to_file_def Let_def initial_log_def split: if_splits)
  with run archival_loses_nothing [OF inv _ run] fname show ?thesis by auto
qed

section \<open>Cleaning by repetition\<close>

text \<open>What the single pass of \<open>collapseExcessiveNewlines\<close> is for: no three newlines in a row, reached the slow way.\<close>

lemma replace_all_step:
  "replace_all s old new =
     (case index_of s old of None \<Rightarrow> s | Some i \<Rightarrow> take i s @ new @ replace_all (drop (i + length old) s) old new)"
  if "old \<noteq> []"
proof (cases "index_of s old")
  case (Some i)
  have "split (drop (i + length old) s) old \<noteq> []" by (subst split.simps) (simp split: option.split)
  then obtain x xs where "split (drop (i + length old) s) old = x # xs" by (cases "split (drop (i + length old) s) old") auto
  with Some that show ?thesis by (subst replace_all_def, subst split.simps) (simp add: replace_all_def)
qed (use that in \<open>simp add: replace_all_def split.simps\<close>)

lemma collapse_app:
  "\<exists>m. \<forall>b. collapse_loop n (a @ b) = collapse_loop n a @ collapse_loop m b"
proof (induction a arbitrary: n)
  case (Cons c a)
  obtain k where k: "\<forall>b. collapse_loop (if c = NL then Suc n else 0) (a @ b) =
      collapse_loop (if c = NL then Suc n else 0) a @ collapse_loop k b"
    using Cons.IH by blast
  then show ?case by (intro exI [of _ k]) (simp add: Let_def split: if_splits)
qed auto

lemma collapse_saturated: "2 \<le> n \<Longrightarrow> 2 \<le> m \<Longrightarrow> collapse_loop n s = collapse_loop m s"
proof (induction s arbitrary: n m)
  case (Cons c s)
  from Cons.IH [of "Suc n" "Suc m"] Cons.prems show ?case by (auto simp: Let_def)
qed simp

lemma collapse_triple:
  assumes "\<And>m. collapse_loop m t' = collapse_loop m t"
  shows "collapse_loop n ([NL, NL] @ t') = collapse_loop n (triple @ t)"
  using assms collapse_saturated [of "Suc (Suc n)" "Suc (Suc (Suc n))" t] by (cases n) (auto simp: Let_def)

lemma collapse_replace: "collapse_loop n (replace_all s triple [NL, NL]) = collapse_loop n s"
proof (induction s arbitrary: n rule: length_induct)
  case (1 s)
  show ?case
  proof (cases "index_of s triple")
    case None
    then show ?thesis by (subst replace_all_step) simp_all
  next
    case (Some i)
    let ?t = "drop (i + length triple) s"
    have s: "s = take i s @ triple @ ?t" by (rule index_of_Some_split [OF Some])
    have "length ?t < length s" using index_of_le [OF Some] by simp
    with 1 have ih: "collapse_loop m (replace_all ?t triple [NL, NL]) = collapse_loop m ?t" for m by blast
    obtain k where k: "collapse_loop n (take i s @ b) = collapse_loop n (take i s) @ collapse_loop k b" for b
      using collapse_app by blast
    have r: "replace_all s triple [NL, NL] = take i s @ [NL, NL] @ replace_all ?t triple [NL, NL]"
      by (subst replace_all_step) (simp_all only: Some option.case list.distinct not_False_eq_True)
    have "collapse_loop n (replace_all s triple [NL, NL]) = collapse_loop n (take i s @ triple @ ?t)"
      unfolding r k collapse_triple [OF ih] ..
    with s show ?thesis by metis
  qed
qed

lemma length_replace_all:
  "length (replace_all s triple [NL, NL]) \<le> length s - of_bool (contains s triple)"
proof (induction s rule: length_induct)
  case (1 s)
  show ?case
  proof (cases "index_of s triple")
    case None
    then have "\<not> contains s triple" by (simp only: contains_sublist index_of_None_iff) simp
    with None show ?thesis by (subst replace_all_step) simp_all
  next
    case (Some i)
    let ?t = "drop (i + length triple) s"
    have le: "i + 3 \<le> length s" using index_of_le [OF Some] by simp
    have "length ?t < length s" using le by simp
    with 1 have "length (replace_all ?t triple [NL, NL]) \<le> length ?t" by (meson diff_le_self le_trans)
    moreover have "replace_all s triple [NL, NL] = take i s @ [NL, NL] @ replace_all ?t triple [NL, NL]"
      by (subst replace_all_step) (simp_all only: Some option.case list.distinct not_False_eq_True)
    moreover have "of_bool (contains s triple) \<le> (1::nat)" by simp
    ultimately show ?thesis using le by simp
  qed
qed

lemma collapse_id: "\<not> sublist triple (replicate (min n 2) NL @ s) \<Longrightarrow> collapse_loop n s = s"
proof (induction s arbitrary: n)
  case (Cons c s)
  show ?case
  proof (cases "c = NL")
    case False
    have "\<not> sublist triple s"
    proof
      assume "sublist triple s"
      moreover have "sublist s (replicate (min n 2) NL @ c # s)" using sublist_append_leftI [of s "replicate (min n 2) NL @ [c]"] by simp
      ultimately show False using Cons.prems sublist_order.order.trans by blast
    qed
    with Cons.IH [of 0] False show ?thesis by simp
  next
    case True
    have "n < 2"
    proof (rule ccontr)
      assume "\<not> n < 2"
      then have "replicate (min n 2) NL @ c # s = triple @ s" using True by (simp add: numeral_2_eq_2 min_def)
      with Cons.prems show False by (metis sublist_append_rightI)
    qed
    then have "replicate (min (Suc n) 2) NL @ s = replicate (min n 2) NL @ c # s"
      using True by (auto simp: min_def numeral_2_eq_2 less_Suc_eq)
    with Cons.prems have "\<not> sublist triple (replicate (min (Suc n) 2) NL @ s)" by metis
    then have "collapse_loop (Suc n) s = s" by (rule Cons.IH)
    with \<open>n < 2\<close> True show ?thesis by simp
  qed
qed simp

function collapse_repeatedly :: "string \<Rightarrow> string" where
  "collapse_repeatedly s = (if contains s triple then collapse_repeatedly (replace_all s triple [NL, NL]) else s)"
  by pat_completeness auto
termination
proof (relation "measure length", goal_cases)
  case (2 s)
  then have "s \<noteq> []" by (auto simp: contains_sublist)
  then show ?case using length_replace_all [of s] 2 by (cases s) auto
qed simp

declare collapse_repeatedly.simps [simp del]

text \<open>
  C16: The single pass over the text is as good as repeated replacement: \<open>collapseExcessiveNewlines\<close> returns what replacing three
  newlines by two, over the whole text and again and again until none are left, returns.
\<close>

theorem collapse_equivalent: "collapse_excessive_newlines s = collapse_repeatedly s"
proof (induction s rule: collapse_repeatedly.induct)
  case (1 s)
  show ?case
  proof (cases "contains s triple")
    case True
    with 1 collapse_replace [of 0 s] show ?thesis
      by (subst collapse_repeatedly.simps) (simp add: collapse_excessive_newlines_def)
  next
    case False
    with collapse_id [of 0 s] show ?thesis
      by (subst collapse_repeatedly.simps) (simp add: collapse_excessive_newlines_def contains_sublist)
  qed
qed

end
