(* ===== verification/OverflowBuffer.thy ===== *)
theory OverflowBuffer
  imports Prelude
begin

text \<open>
  The two queues of the event bus: Go's buffered channel with the non-blocking operations that the
  bus uses, and the ring buffer of \<open>internal/eventbus/overflow.go\<close>; and the contract they share,
  a bounded FIFO, as a locale that both interpret.
\<close>

section \<open>A bounded FIFO\<close>

text \<open>
  \<open>enq\<close> reports whether it took the element, \<open>deq\<close> returns the oldest one; \<open>items\<close> is the abstract
  queue and \<open>bound\<close> its capacity, which no operation changes.
\<close>

locale bounded_fifo =
  fixes ok :: "'s \<Rightarrow> bool"
    and items :: "'s \<Rightarrow> 'e list"
    and bound :: "'s \<Rightarrow> nat"
    and enq :: "'e \<Rightarrow> 's \<Rightarrow> bool \<times> 's"
    and deq :: "'s \<Rightarrow> 'e option \<times> 's"
  assumes bounded: "ok s \<Longrightarrow> length (items s) \<le> bound s"
    and enq_room: "ok s \<Longrightarrow> length (items s) < bound s \<Longrightarrow> enq e s = (b, s') \<Longrightarrow>
      b \<and> ok s' \<and> items s' = items s @ [e] \<and> bound s' = bound s"
    and enq_full: "ok s \<Longrightarrow> length (items s) = bound s \<Longrightarrow> enq e s = (False, s)"
    and deq_some: "ok s \<Longrightarrow> items s = e # rest \<Longrightarrow> deq s = (r, s') \<Longrightarrow>
      r = Some e \<and> ok s' \<and> items s' = rest \<and> bound s' = bound s"
    and deq_none: "ok s \<Longrightarrow> items s = [] \<Longrightarrow> deq s = (None, s)"
begin

text \<open>A history: \<open>Some e\<close> enqueues \<open>e\<close>, \<open>None\<close> dequeues. A run returns what came in and what came out.\<close>

fun run :: "'e option list \<Rightarrow> 's \<Rightarrow> 'e list \<times> 'e list \<times> 's" where
  "run [] s = ([], [], s)"
| "run (Some e # ops) s =
     (let (b, s1) = enq e s; (ins, outs, s2) = run ops s1 in (if b then e # ins else ins, outs, s2))"
| "run (None # ops) s =
     (let (r, s1) = deq s; (ins, outs, s2) = run ops s1
      in (ins, (case r of None \<Rightarrow> outs | Some e \<Rightarrow> e # outs), s2))"

lemma enq_cases:
  assumes "ok s"
  obtains s' where "enq e s = (True, s')" "ok s'" "items s' = items s @ [e]" "bound s' = bound s"
      "length (items s) < bound s"
  | "enq e s = (False, s)" "length (items s) = bound s"
proof -
  obtain b s' where e: "enq e s = (b, s')" by force
  show thesis
  proof (cases "length (items s) < bound s")
    case True
    with enq_room [OF assms True e] e show thesis using that(1) [of s'] by simp
  next
    case False
    then have "length (items s) = bound s" using bounded [OF assms] by simp
    with enq_full [OF assms this] show thesis using that(2) by blast
  qed
qed

lemma deq_cases:
  assumes "ok s"
  obtains e rest s' where "items s = e # rest" "deq s = (Some e, s')" "ok s'" "items s' = rest"
      "bound s' = bound s"
  | "items s = []" "deq s = (None, s)"
proof (cases "items s")
  case Nil
  with deq_none [OF assms Nil] show thesis using that(2) by blast
next
  case (Cons e rest)
  obtain r s' where d: "deq s = (r, s')" by force
  with deq_some [OF assms Cons d] Cons show thesis using that(1) by blast
qed

theorem fifo_run:
  "ok s \<Longrightarrow> run ops s = (ins, outs, s') \<Longrightarrow>
   ok s' \<and> bound s' = bound s \<and> items s @ ins = outs @ items s'"
proof (induction ops s arbitrary: ins outs s' rule: run.induct)
  case (2 e ops s)
  show ?case
  proof (cases rule: enq_cases [OF 2(2), of e])
    case (1 s1)
    obtain ins' outs' s2 where r: "run ops s1 = (ins', outs', s2)" by (metis prod_cases3)
    with 1 2(3) have "ins = e # ins'" "outs = outs'" "s' = s2" by (auto simp: Let_def)
    with 2(1) [OF 1(1)[symmetric] refl 1(2) r] 1 show ?thesis by auto
  next
    case f: 2
    obtain ins' outs' s2 where r: "run ops s = (ins', outs', s2)" by (metis prod_cases3)
    with f 2(3) have "ins = ins'" "outs = outs'" "s' = s2" by (auto simp: Let_def)
    with 2(1) [OF f(1)[symmetric] refl 2(2) r] show ?thesis by auto
  qed
next
  case (3 ops s)
  show ?case
  proof (cases rule: deq_cases [OF 3(2)])
    case (1 e rest s1)
    obtain ins' outs' s2 where r: "run ops s1 = (ins', outs', s2)" by (metis prod_cases3)
    with 1 3(3) have "ins = ins'" "outs = e # outs'" "s' = s2" by (auto simp: Let_def)
    with 3(1) [OF 1(2)[symmetric] refl 1(3) r] 1 show ?thesis by auto
  next
    case 2
    obtain ins' outs' s2 where r: "run ops s = (ins', outs', s2)" by (metis prod_cases3)
    with 2 3(3) have "ins = ins'" "outs = outs'" "s' = s2" by (auto simp: Let_def)
    with 3(1) [OF 2(2)[symmetric] refl 3(2) r] show ?thesis by auto
  qed
qed simp

end

section \<open>Go channels\<close>

record 'e chan =
  ch_cap :: nat
  ch_items :: "'e list"

definition chan_ok :: "'e chan \<Rightarrow> bool" where
  "chan_ok c \<longleftrightarrow> length (ch_items c) \<le> ch_cap c"

text \<open>\<open>select { case ch <- e: ... default: ... }\<close> and \<open>select { case e := <-ch: ... default: ... }\<close>.\<close>

definition try_send :: "'e \<Rightarrow> 'e chan \<Rightarrow> bool \<times> 'e chan" where
  "try_send e c =
     (if length (ch_items c) < ch_cap c then (True, c\<lparr>ch_items := ch_items c @ [e]\<rparr>) else (False, c))"

definition try_recv :: "'e chan \<Rightarrow> 'e option \<times> 'e chan" where
  "try_recv c = (case ch_items c of [] \<Rightarrow> (None, c) | e # rest \<Rightarrow> (Some e, c\<lparr>ch_items := rest\<rparr>))"

interpretation ch: bounded_fifo chan_ok ch_items ch_cap try_send try_recv
  by unfold_locales (auto simp: chan_ok_def try_send_def try_recv_def split: if_splits)

section \<open>The ring buffer\<close>

text \<open>\<open>notify\<close> is the wake-up channel of capacity one: whether a signal is pending.\<close>

record 'e ring =
  rb_buf :: "'e list"
  rb_head :: nat
  rb_count :: nat
  rb_cap :: nat
  rb_notify :: bool

definition default_max_overflow :: int where
  "default_max_overflow = 512"

definition new_overflow_buffer :: "'e \<Rightarrow> int \<Rightarrow> 'e ring" where
  "new_overflow_buffer zero max_size =
     (let max_size = (if max_size \<le> 0 then default_max_overflow else max_size)
      in \<lparr>rb_buf = replicate (nat max_size) zero, rb_head = 0, rb_count = 0, rb_cap = nat max_size,
          rb_notify = False\<rparr>)"

definition push :: "'e \<Rightarrow> 'e ring \<Rightarrow> bool \<times> 'e ring" where
  "push env o' =
     (if rb_count o' \<ge> rb_cap o' then (False, o')
      else
        let idx = (rb_head o' + rb_count o') mod rb_cap o'
        in (True, o'\<lparr>rb_buf := (rb_buf o')[idx := env], rb_count := Suc (rb_count o'), rb_notify := True\<rparr>))"

definition pop :: "'e \<Rightarrow> 'e ring \<Rightarrow> 'e option \<times> 'e ring" where
  "pop zero o' =
     (if rb_count o' = 0 then (None, o')
      else
        let env = rb_buf o' ! rb_head o'
        in (Some env, o'\<lparr>rb_buf := (rb_buf o')[rb_head o' := zero],
              rb_head := (rb_head o' + 1) mod rb_cap o', rb_count := rb_count o' - 1\<rparr>))"

definition ring_len :: "'e ring \<Rightarrow> nat" where
  "ring_len o' = rb_count o'"

definition ring_ok :: "'e ring \<Rightarrow> bool" where
  "ring_ok o' \<longleftrightarrow> length (rb_buf o') = rb_cap o' \<and> rb_head o' < rb_cap o' \<and> rb_count o' \<le> rb_cap o'"

text \<open>The queue that a ring represents.\<close>

definition ring_items :: "'e ring \<Rightarrow> 'e list" where
  "ring_items o' = map (\<lambda>i. rb_buf o' ! ((rb_head o' + i) mod rb_cap o')) [0..<rb_count o']"

lemma length_ring_items [simp]: "length (ring_items o') = rb_count o'"
  by (simp add: ring_items_def)

lemma new_overflow_buffer_ok [simp]:
  "ring_ok (new_overflow_buffer z n)" "ring_items (new_overflow_buffer z n) = []"
  by (auto simp: new_overflow_buffer_def ring_ok_def ring_items_def Let_def default_max_overflow_def)

lemma mod_add_inj:
  assumes "i < (c :: nat)" "j < c" "(h + i) mod c = (h + j) mod c"
  shows "i = j"
proof -
  have "i \<le> j \<Longrightarrow> j < c \<Longrightarrow> (h + i) mod c = (h + j) mod c \<Longrightarrow> i = j" for i j
    using mod_eq_dvd_iff_nat [of "h + i" "h + j" c] dvd_imp_le [of c "j - i"] by fastforce
  from this [of i j] this [of j i] show ?thesis using assms by (cases "i \<le> j") auto
qed

lemma push_items:
  assumes "ring_ok o'" "rb_count o' < rb_cap o'" "push e o' = (b, o'')"
  shows "b \<and> ring_ok o'' \<and> ring_items o'' = ring_items o' @ [e] \<and> rb_cap o'' = rb_cap o'"
proof -
  let ?idx = "(rb_head o' + rb_count o') mod rb_cap o'"
  have idx: "?idx < length (rb_buf o')" using assms by (auto simp: ring_ok_def)
  have other: "(rb_head o' + i) mod rb_cap o' \<noteq> ?idx" if "i < rb_count o'" for i
    using mod_add_inj [of i "rb_cap o'" "rb_count o'" "rb_head o'"] assms(2) that by auto
  show ?thesis using assms idx other [THEN not_sym]
    by (auto simp: push_def ring_ok_def ring_items_def Let_def nth_list_update)
qed

lemma pop_items:
  assumes "ring_ok o'" "ring_items o' = e # rest" "pop z o' = (r, o'')"
  shows "r = Some e \<and> ring_ok o'' \<and> ring_items o'' = rest \<and> rb_cap o'' = rb_cap o'"
proof -
  let ?c = "rb_cap o'" and ?h = "rb_head o'"
  obtain n where n: "rb_count o' = Suc n" using assms(2) by (cases "rb_count o'") (auto simp: ring_items_def)
  have ok: "?h < ?c" "Suc n \<le> ?c" "length (rb_buf o') = ?c" using assms(1) n by (auto simp: ring_ok_def)
  have l: "ring_items o' = rb_buf o' ! ?h # map (\<lambda>i. rb_buf o' ! ((?h + Suc i) mod ?c)) [0..<n]"
    using ok by (simp add: ring_items_def n upt_conv_Cons map_Suc_upt [symmetric] del: upt_Suc)
  have idx: "((?h + 1) mod ?c + i) mod ?c = (?h + Suc i) mod ?c" for i
    by (simp add: mod_simps)
  have other: "(?h + Suc i) mod ?c \<noteq> ?h" if "i < n" for i
    using mod_add_inj [of "Suc i" ?c 0 ?h] ok that by auto
  have "ring_items o'' = map (\<lambda>i. rb_buf o' ! ((?h + Suc i) mod ?c)) [0..<n]"
    using assms(3) n other [symmetric] by (auto simp: pop_def ring_items_def Let_def idx [simplified])
  with l assms n ok show ?thesis by (auto simp: pop_def Let_def ring_ok_def)
qed

interpretation rb: bounded_fifo ring_ok ring_items rb_cap push "pop zero" for zero
proof
  show "ring_ok s \<Longrightarrow> length (ring_items s) \<le> rb_cap s" for s :: "'a ring"
    by (simp add: ring_ok_def)
  show "ring_ok s \<Longrightarrow> length (ring_items s) < rb_cap s \<Longrightarrow> push e s = (b, s') \<Longrightarrow>
      b \<and> ring_ok s' \<and> ring_items s' = ring_items s @ [e] \<and> rb_cap s' = rb_cap s" for s :: "'a ring" and e b s'
    by (rule push_items) simp_all
  show "ring_ok s \<Longrightarrow> length (ring_items s) = rb_cap s \<Longrightarrow> push e s = (False, s)" for s :: "'a ring" and e
    by (simp add: push_def)
  show "ring_ok s \<Longrightarrow> ring_items s = e # rest \<Longrightarrow> pop zero s = (r, s') \<Longrightarrow>
      r = Some e \<and> ring_ok s' \<and> ring_items s' = rest \<and> rb_cap s' = rb_cap s" for s :: "'a ring" and e rest r s'
    by (rule pop_items)
  show "ring_ok s \<Longrightarrow> ring_items s = [] \<Longrightarrow> pop zero s = (None, s)" for s :: "'a ring"
    by (simp add: pop_def ring_items_def)
qed

section \<open>Properties\<close>

text \<open>
  C8: The ring buffer is a bounded FIFO: from an empty ring, after any sequence of pushes and pops,
  the envelopes popped are the envelopes accepted, in order, followed by what the ring still holds;
  and the ring never holds more than its capacity. A push is refused only when the ring is full.
\<close>

theorem ring_is_fifo:
  assumes "rb.run z ops (new_overflow_buffer z n) = (ins, outs, r)"
  shows "ins = outs @ ring_items r \<and> rb_count r \<le> rb_cap r \<and> rb_cap r = rb_cap (new_overflow_buffer z n) \<and>
    (fst (push e r) \<longleftrightarrow> rb_count r < rb_cap r)"
proof -
  have "ring_ok r \<and> rb_cap r = rb_cap (new_overflow_buffer z n) \<and> ins = outs @ ring_items r"
    using rb.fifo_run [OF _ assms] by simp
  then show ?thesis by (auto simp: ring_ok_def push_def Let_def)
qed

theorem ring_is_fifo_witness:
  "\<exists>r. rb.run (0 :: nat) [Some 1, Some 2, None, Some 3, Some 4] (new_overflow_buffer 0 2) = ([1, 2, 3], [1], r) \<and>
    [1, 2, 3] = [1] @ ring_items r \<and> rb_count r \<le> rb_cap r"
proof -
  obtain ins outs r where run: "rb.run (0 :: nat) [Some 1, Some 2, None, Some 3, Some 4] (new_overflow_buffer 0 2)
      = (ins, outs, r)" by (metis prod_cases3)
  then have v: "ins = [1, 2, 3]" "outs = [1]"
    by (auto simp: rb.run.simps push_def pop_def new_overflow_buffer_def Let_def numeral_2_eq_2)
  from ring_is_fifo [OF run] have "ins = outs @ ring_items r \<and> rb_count r \<le> rb_cap r" by blast
  with run show ?thesis unfolding v by blast
qed

end
