(* ===== verification/EventBus.thy ===== *)
theory EventBus
  imports OverflowBuffer GoStrings
begin

text \<open>
  The event bus of \<open>internal/eventbus\<close> (\<open>bus.go\<close>, \<open>policy.go\<close>, \<open>topic.go\<close>, the drain loop of
  \<open>overflow.go\<close>): delivery policies, subscriptions and their back-pressure, publishing, closing and
  shutdown, each operation as a function on the bus. The goroutine that drains an overflow buffer
  appears as its atomic steps. \<open>BusConcurrency\<close> interleaves the operations.
\<close>

section \<open>Envelopes and policies\<close>

record 'p envelope =
  env_topic :: string
  env_timestamp :: time_ns
  env_source :: string
  env_correlation_id :: string
  env_payload :: "'p option"

text \<open>The zero \<open>Envelope{}\<close>; a nil payload is \<open>None\<close>.\<close>

definition zero_envelope :: "'p envelope" where
  "zero_envelope = \<lparr>env_topic = [], env_timestamp = 0, env_source = [], env_correlation_id = [],
     env_payload = None\<rparr>"

datatype priority = Priority_Low | Priority_Normal | Priority_Critical

fun priority_value :: "priority \<Rightarrow> int" where
  "priority_value Priority_Low = 0"
| "priority_value Priority_Normal = 1"
| "priority_value Priority_Critical = 2"

lemma priority_value_inj: "priority_value p = priority_value q \<Longrightarrow> p = q"
  by (cases p; cases q) auto

text \<open>Priorities are ordered by their numeric value.\<close>

instantiation priority :: linorder
begin

definition less_eq_priority :: "priority \<Rightarrow> priority \<Rightarrow> bool" where
  "p \<le> q \<longleftrightarrow> priority_value p \<le> priority_value q"

definition less_priority :: "priority \<Rightarrow> priority \<Rightarrow> bool" where
  "p < q \<longleftrightarrow> priority_value p < priority_value q"

instance
  by standard (auto simp: less_eq_priority_def less_priority_def intro: priority_value_inj)

end

abbreviation strategy_drop_oldest :: string where "strategy_drop_oldest \<equiv> ''drop-oldest''"
abbreviation strategy_drop_newest :: string where "strategy_drop_newest \<equiv> ''drop-newest''"
abbreviation strategy_overflow :: string where "strategy_overflow \<equiv> ''overflow''"

record delivery_policy =
  strategy :: string
  pol_priority :: priority
  max_overflow :: int

definition max_allowed_overflow :: int where
  "max_allowed_overflow = 4096"

definition default_policy :: delivery_policy where
  "default_policy = \<lparr>strategy = strategy_drop_oldest, pol_priority = Priority_Normal, max_overflow = 0\<rparr>"

definition overflow_topics :: "string list" where
  "overflow_topics = [''conversation.prompt'', ''conversation.reply'', ''speech.transcript.final'',
     ''sessions.lifecycle'']"

definition drop_oldest_topics :: "string list" where
  "drop_oldest_topics = [''sessions.output'', ''audio.ingress.segment'', ''pipeline.cleaned'',
     ''audio.egress.playback'', ''speech.transcript.partial'', ''speech.vad.detected'',
     ''conversation.speak'', ''conversation.turn'', ''sessions.tool'', ''sessions.tool_changed'',
     ''audio.ingress.raw'', ''pipeline.error'', ''audio.interrupt'', ''speech.barge_in'',
     ''pairing.created'', ''pairing.claimed'', ''awareness.sync'']"

definition drop_newest_topics :: "string list" where
  "drop_newest_topics = [''adapters.log'', ''adapters.status'']"

definition default_policies :: "string \<Rightarrow> delivery_policy option" where
  "default_policies topic =
     (if topic \<in> set overflow_topics
      then Some \<lparr>strategy = strategy_overflow, pol_priority = Priority_Critical, max_overflow = default_max_overflow\<rparr>
      else if topic \<in> set drop_oldest_topics
      then Some \<lparr>strategy = strategy_drop_oldest, pol_priority = Priority_Normal, max_overflow = 0\<rparr>
      else if topic \<in> set drop_newest_topics
      then Some \<lparr>strategy = strategy_drop_newest, pol_priority = Priority_Low, max_overflow = 0\<rparr>
      else None)"

definition policy_for :: "string \<Rightarrow> (string \<Rightarrow> delivery_policy option) \<Rightarrow> delivery_policy" where
  "policy_for topic overrides =
     (let p = (case overrides topic of
                 Some p \<Rightarrow> p
               | None \<Rightarrow> (case default_policies topic of Some p \<Rightarrow> p | None \<Rightarrow> default_policy))
      in if max_overflow p > max_allowed_overflow then p\<lparr>max_overflow := max_allowed_overflow\<rparr> else p)"

section \<open>Subscriptions\<close>

text \<open>The drain goroutine: none, in its inner loop, blocked on sending an envelope it has popped,
  waiting for a signal, or gone.\<close>

datatype 'p drainer = No_Drainer | Sweeping | Holding "'p envelope" | Waiting | Drained

record 'p subscription =
  sub_topic :: string
  sub_id :: uint64
  sub_name :: string
  sub_ch :: "'p envelope chan"
  sub_ch_closed :: bool
  sub_done :: bool
  sub_closed :: bool
  sub_dropped :: uint64
  sub_policy :: delivery_policy
  sub_ovf :: "'p envelope ring option"
  sub_drainer :: "'p drainer"

definition record_drop :: "'p subscription \<Rightarrow> 'p subscription" where
  "record_drop s = s\<lparr>sub_dropped := sub_dropped s + 1\<rparr>"

definition drop_oldest_and_enqueue :: "'p envelope \<Rightarrow> 'p subscription \<Rightarrow> 'p subscription" where
  "drop_oldest_and_enqueue env s =
     (let s1 = (case try_recv (sub_ch s) of
                  (Some _, c) \<Rightarrow> record_drop (s\<lparr>sub_ch := c\<rparr>)
                | (None, _) \<Rightarrow> s)
      in case try_send env (sub_ch s1) of
           (True, c) \<Rightarrow> s1\<lparr>sub_ch := c\<rparr>
         | (False, _) \<Rightarrow> record_drop s1)"

definition deliver :: "bool \<Rightarrow> 'p envelope \<Rightarrow> 'p subscription \<Rightarrow> 'p subscription" where
  "deliver ctx_done env s =
     (if sub_closed s then s
      else if ctx_done then s
      else
        let try_channel =
              (case try_send env (sub_ch s) of
                 (True, c) \<Rightarrow> s\<lparr>sub_ch := c\<rparr>
               | (False, _) \<Rightarrow>
                   if strategy (sub_policy s) = strategy_drop_newest then record_drop s
                   else drop_oldest_and_enqueue env s)
        in case sub_ovf s of
             Some o' \<Rightarrow>
               if strategy (sub_policy s) = strategy_overflow
               then (case push env o' of
                       (True, o'') \<Rightarrow> s\<lparr>sub_ovf := Some o''\<rparr>
                     | (False, _) \<Rightarrow> drop_oldest_and_enqueue env s)
               else try_channel
           | None \<Rightarrow> try_channel)"

text \<open>The atomic steps of \<open>drainLoop\<close>: pop the oldest envelope or go to wait, send the popped one
  when the channel has room, wake up on a signal. A step that is blocked changes nothing.\<close>

definition drain_pop :: "'p subscription \<Rightarrow> 'p subscription" where
  "drain_pop s =
     (case (sub_drainer s, sub_ovf s) of
        (Sweeping, Some o') \<Rightarrow>
          (case pop zero_envelope o' of
             (Some env, o'') \<Rightarrow> s\<lparr>sub_ovf := Some o'', sub_drainer := Holding env\<rparr>
           | (None, _) \<Rightarrow> s\<lparr>sub_drainer := Waiting\<rparr>)
      | _ \<Rightarrow> s)"

definition drain_send :: "'p subscription \<Rightarrow> 'p subscription" where
  "drain_send s =
     (case sub_drainer s of
        Holding env \<Rightarrow>
          (case try_send env (sub_ch s) of
             (True, c) \<Rightarrow> s\<lparr>sub_ch := c, sub_drainer := Sweeping\<rparr>
           | (False, _) \<Rightarrow> s)
      | _ \<Rightarrow> s)"

definition drain_wake :: "'p subscription \<Rightarrow> 'p subscription" where
  "drain_wake s =
     (case (sub_drainer s, sub_ovf s) of
        (Waiting, Some o') \<Rightarrow>
          if rb_notify o' then s\<lparr>sub_ovf := Some (o'\<lparr>rb_notify := False\<rparr>), sub_drainer := Sweeping\<rparr> else s
      | _ \<Rightarrow> s)"

text \<open>The subscriber receives.\<close>

definition receive :: "'p subscription \<Rightarrow> 'p envelope option \<times> 'p subscription" where
  "receive s = (case try_recv (sub_ch s) of (r, c) \<Rightarrow> (r, s\<lparr>sub_ch := c\<rparr>))"

definition stop_overflow :: "'p subscription \<Rightarrow> 'p subscription" where
  "stop_overflow s = (case sub_drainer s of No_Drainer \<Rightarrow> s | _ \<Rightarrow> s\<lparr>sub_drainer := Drained\<rparr>)"

definition close_locked :: "'p subscription \<Rightarrow> 'p subscription" where
  "close_locked s =
     (if sub_closed s then s
      else (stop_overflow (s\<lparr>sub_closed := True\<rparr>))\<lparr>sub_done := True, sub_ch_closed := True\<rparr>)"

section \<open>The bus\<close>

text \<open>
  \<open>heap\<close> holds every subscription made, by its identifier; \<open>subscribers\<close> is the routing table, from a
  topic to the identifiers registered for it in the order in which the runtime iterates the map.
\<close>

record 'p bus =
  heap :: "uint64 \<Rightarrow> 'p subscription option"
  subscribers :: "(string, uint64 list) gomap"
  topic_buffers :: "string \<Rightarrow> int"
  topic_policies :: "string \<Rightarrow> delivery_policy option"
  next_id :: uint64

definition default_buffers :: "(string \<times> int) list" where
  "default_buffers =
     [(''sessions.output'', 1024), (''sessions.lifecycle'', 256), (''sessions.tool'', 128),
      (''sessions.tool_changed'', 64), (''pipeline.cleaned'', 512), (''pipeline.error'', 64),
      (''conversation.prompt'', 256), (''conversation.reply'', 256), (''adapters.status'', 128),
      (''adapters.log'', 256), (''audio.ingress.raw'', 256), (''audio.ingress.segment'', 10000),
      (''audio.egress.playback'', 256), (''audio.interrupt'', 64), (''speech.transcript.partial'', 256),
      (''speech.transcript.final'', 256), (''speech.vad.detected'', 128), (''speech.barge_in'', 64),
      (''conversation.speak'', 128), (''conversation.turn'', 256), (''pairing.created'', 64),
      (''pairing.claimed'', 64), (''awareness.sync'', 64)]"

datatype bus_option = With_Topic_Buffer string int | With_Topic_Policy string delivery_policy

fun apply_bus_option :: "'p bus \<Rightarrow> bus_option \<Rightarrow> 'p bus" where
  "apply_bus_option b (With_Topic_Buffer topic n) =
     b\<lparr>topic_buffers := (topic_buffers b)(topic := if n \<le> 0 then 1 else n)\<rparr>"
| "apply_bus_option b (With_Topic_Policy topic policy) =
     b\<lparr>topic_policies := (topic_policies b)(topic \<mapsto> policy)\<rparr>"

text \<open>A topic without an entry has buffer size 0, the zero of a missing map key.\<close>

definition new_bus :: "bus_option list \<Rightarrow> 'p bus" where
  "new_bus opts = foldl apply_bus_option
     \<lparr>heap = (\<lambda>_. None), subscribers = [],
      topic_buffers = (\<lambda>t. case map_of default_buffers t of Some n \<Rightarrow> n | None \<Rightarrow> 0),
      topic_policies = (\<lambda>_. None), next_id = 0\<rparr> opts"

datatype sub_option = With_Subscription_Buffer int | With_Subscription_Name string

text \<open>The configuration: buffer size and name.\<close>

fun apply_sub_option :: "int \<times> string \<Rightarrow> sub_option \<Rightarrow> int \<times> string" where
  "apply_sub_option (buffer, name) (With_Subscription_Buffer n) = (if 0 < n then n else buffer, name)"
| "apply_sub_option (buffer, name) (With_Subscription_Name n) = (buffer, n)"

definition route :: "'p bus \<Rightarrow> string \<Rightarrow> uint64 list" where
  "route b topic = (case map_of (subscribers b) topic of None \<Rightarrow> [] | Some ids \<Rightarrow> ids)"

definition subscribe :: "string \<Rightarrow> sub_option list \<Rightarrow> 'p bus \<Rightarrow> uint64 \<times> 'p bus" where
  "subscribe topic opts b =
     (let buffer0 = topic_buffers b topic;
          (buffer, name) = foldl apply_sub_option (if buffer0 \<le> 0 then 1 else buffer0, []) opts;
          policy = policy_for topic (topic_policies b);
          sid = next_id b + 1;
          overflow = (strategy policy = strategy_overflow);
          ovf_cap = (if max_overflow policy \<le> 0 then default_max_overflow else max_overflow policy);
          sub = \<lparr>sub_topic = topic, sub_id = sid, sub_name = name,
                 sub_ch = \<lparr>ch_cap = nat buffer, ch_items = []\<rparr>, sub_ch_closed = False, sub_done = False,
                 sub_closed = False, sub_dropped = 0, sub_policy = policy,
                 sub_ovf = (if overflow then Some (new_overflow_buffer zero_envelope ovf_cap) else None),
                 sub_drainer = (if overflow then Sweeping else No_Drainer)\<rparr>
      in (sid, b\<lparr>next_id := sid, heap := (heap b)(sid \<mapsto> sub),
                subscribers := mput topic (route b topic @ [sid]) (subscribers b)\<rparr>))"

definition update_sub :: "uint64 \<Rightarrow> ('p subscription \<Rightarrow> 'p subscription) \<Rightarrow> 'p bus \<Rightarrow> 'p bus" where
  "update_sub sid f b =
     (case heap b sid of None \<Rightarrow> b | Some s \<Rightarrow> b\<lparr>heap := (heap b)(sid \<mapsto> f s)\<rparr>)"

definition publish :: "time_ns \<Rightarrow> bool \<Rightarrow> 'p envelope \<Rightarrow> 'p bus \<Rightarrow> 'p bus" where
  "publish now ctx_done env b =
     (if env_topic env = [] then b
      else
        let env = (if is_zero (env_timestamp env) then env\<lparr>env_timestamp := now\<rparr> else env);
            env = (if env_source env = [] then env\<lparr>env_source := ''unknown''\<rparr> else env)
        in fold (\<lambda>sid. update_sub sid (deliver ctx_done env)) (route b (env_topic env)) b)"

definition close_sub :: "uint64 \<Rightarrow> 'p bus \<Rightarrow> 'p bus" where
  "close_sub sid b =
     (case heap b sid of
        None \<Rightarrow> b
      | Some s \<Rightarrow>
          if sub_closed s then b
          else
            let s1 = (stop_overflow (s\<lparr>sub_closed := True\<rparr>))\<lparr>sub_done := True\<rparr>;
                table = (case map_of (subscribers b) (sub_topic s) of
                           None \<Rightarrow> subscribers b
                         | Some ids \<Rightarrow> mput (sub_topic s) (removeAll sid ids) (subscribers b))
            in b\<lparr>subscribers := table, heap := (heap b)(sid \<mapsto> s1\<lparr>sub_ch_closed := True\<rparr>)\<rparr>)"

definition shutdown_bus :: "'p bus \<Rightarrow> 'p bus" where
  "shutdown_bus b =
     (fold (\<lambda>sid. update_sub sid close_locked) (concat (map snd (subscribers b))) b)\<lparr>subscribers := []\<rparr>"

section \<open>One subscription\<close>

text \<open>What is on its way to the subscriber, oldest first.\<close>

definition in_hand :: "'p subscription \<Rightarrow> 'p envelope list" where
  "in_hand s = (case sub_drainer s of Holding env \<Rightarrow> [env] | _ \<Rightarrow> [])"

definition in_ring :: "'p subscription \<Rightarrow> 'p envelope list" where
  "in_ring s = (case sub_ovf s of None \<Rightarrow> [] | Some o' \<Rightarrow> ring_items o')"

definition queued :: "'p subscription \<Rightarrow> 'p envelope list" where
  "queued s = ch_items (sub_ch s) @ in_hand s @ in_ring s"

text \<open>Well-formed: bounds, one drainer exactly for an overflow buffer, and no lost wake-up.\<close>

definition sub_ok :: "'p subscription \<Rightarrow> bool" where
  "sub_ok s \<longleftrightarrow> chan_ok (sub_ch s) \<and> 0 < ch_cap (sub_ch s) \<and>
     (case sub_ovf s of
        None \<Rightarrow> sub_drainer s = No_Drainer
      | Some o' \<Rightarrow> ring_ok o' \<and> strategy (sub_policy s) = strategy_overflow \<and>
          sub_drainer s \<noteq> No_Drainer \<and> (sub_drainer s = Waiting \<and> ring_items o' \<noteq> [] \<longrightarrow> rb_notify o'))"

lemma push_fields: "push e o' = (b, o'') \<Longrightarrow> rb_notify o'' = (b \<or> rb_notify o')"
  by (auto simp: push_def Let_def split: if_splits)

lemma pop_fields: "pop z o' = (r, o'') \<Longrightarrow> rb_notify o'' = rb_notify o'"
  by (auto simp: pop_def Let_def split: if_splits)

lemma drop_oldest_effect:
  assumes "sub_ok s"
  shows "drop_oldest_and_enqueue env s =
    s\<lparr>sub_ch := (sub_ch s)\<lparr>ch_items := tl (ch_items (sub_ch s)) @ [env]\<rparr>,
      sub_dropped := sub_dropped s + (if ch_items (sub_ch s) = [] then 0 else 1)\<rparr>"
proof (cases "ch_items (sub_ch s)")
  case Nil
  with assms show ?thesis
    by (simp add: drop_oldest_and_enqueue_def try_recv_def try_send_def sub_ok_def)
next
  case (Cons e rest)
  then have "length rest < ch_cap (sub_ch s)" using assms by (auto simp: sub_ok_def chan_ok_def)
  with Cons show ?thesis
    by (simp add: drop_oldest_and_enqueue_def try_recv_def try_send_def record_drop_def)
qed

text \<open>The outcomes of a delivery to an open subscription.\<close>

lemma deliver_cases:
  assumes "sub_ok s" "\<not> sub_closed s"
  obtains (buffered) o' o'' where "sub_ovf s = Some o'" "push env o' = (True, o'')"
      "deliver False env s = s\<lparr>sub_ovf := Some o''\<rparr>"
  | (sent) c where "sub_ovf s = None" "try_send env (sub_ch s) = (True, c)"
      "deliver False env s = s\<lparr>sub_ch := c\<rparr>"
  | (newest) "sub_ovf s = None" "try_send env (sub_ch s) = (False, sub_ch s)"
      "strategy (sub_policy s) = strategy_drop_newest" "deliver False env s = record_drop s"
  | (oldest) "\<forall>o'. sub_ovf s = Some o' \<longrightarrow> push env o' = (False, o')"
      "sub_ovf s = None \<Longrightarrow> try_send env (sub_ch s) = (False, sub_ch s)"
      "sub_ovf s = None \<Longrightarrow> strategy (sub_policy s) \<noteq> strategy_drop_newest"
      "deliver False env s = drop_oldest_and_enqueue env s"
proof (cases "sub_ovf s")
  case None
  obtain b c where t: "try_send env (sub_ch s) = (b, c)" by force
  show thesis
  proof (cases b)
    case True
    with None t assms show thesis by (intro sent) (auto simp: deliver_def Let_def)
  next
    case False
    then have c: "c = sub_ch s" using t by (auto simp: try_send_def split: if_splits)
    show thesis
    proof (cases "strategy (sub_policy s) = strategy_drop_newest")
      case True
      with None t False c assms show thesis by (intro newest) (auto simp: deliver_def Let_def)
    next
      case other: False
      with None t False c assms show thesis by (intro oldest) (auto simp: deliver_def Let_def)
    qed
  qed
next
  case (Some o')
  with assms(1) have st: "strategy (sub_policy s) = strategy_overflow" by (simp add: sub_ok_def)
  obtain b o'' where t: "push env o' = (b, o'')" by force
  show thesis
  proof (cases b)
    case True
    with Some t st assms show thesis by (intro buffered) (auto simp: deliver_def Let_def)
  next
    case False
    then have "o'' = o'" using t by (auto simp: push_def Let_def split: if_splits)
    with Some t False st assms show thesis by (intro oldest) (auto simp: deliver_def Let_def)
  qed
qed

lemma try_send_ok: "chan_ok c \<Longrightarrow> try_send e c = (True, c') \<Longrightarrow>
    chan_ok c' \<and> ch_items c' = ch_items c @ [e] \<and> ch_cap c' = ch_cap c"
  by (auto simp: try_send_def chan_ok_def split: if_splits)

lemma push_ok: "ring_ok o' \<Longrightarrow> push e o' = (True, o'') \<Longrightarrow>
    ring_ok o'' \<and> ring_items o'' = ring_items o' @ [e] \<and> rb_notify o''"
  using push_items [of o' e True o''] push_fields [of e o' True o'']
  by (cases "rb_count o' < rb_cap o'") (auto simp: push_def)

text \<open>A delivery keeps the subscription well-formed and loses nothing silently: the queue and the drop
  counter together grow by one.\<close>

lemma deliver_step:
  assumes "sub_ok s" "\<not> sub_closed s"
  shows "sub_ok (deliver False env s) \<and> \<not> sub_closed (deliver False env s) \<and>
    of_nat (length (queued (deliver False env s))) + sub_dropped (deliver False env s) =
    of_nat (length (queued s)) + sub_dropped s + 1"
  using assms
proof (cases rule: deliver_cases [where env = env])
  case (buffered o' o'')
  then have "ring_ok o'" using assms(1) by (simp add: sub_ok_def)
  from push_ok [OF this buffered(2)] buffered assms show ?thesis
    by (auto simp: sub_ok_def queued_def in_ring_def in_hand_def)
next
  case (sent c)
  from try_send_ok [OF _ sent(2)] sent assms show ?thesis
    by (auto simp: sub_ok_def queued_def in_ring_def in_hand_def)
next
  case newest
  with assms show ?thesis
    by (auto simp: sub_ok_def queued_def in_ring_def in_hand_def record_drop_def)
next
  case oldest
  have "chan_ok ((sub_ch s)\<lparr>ch_items := tl (ch_items (sub_ch s)) @ [env]\<rparr>)"
    using assms(1) by (cases "ch_items (sub_ch s)") (auto simp: sub_ok_def chan_ok_def)
  then show ?thesis unfolding oldest(4) drop_oldest_effect [OF assms(1)]
    using assms by (cases "ch_items (sub_ch s)")
      (auto simp: sub_ok_def queued_def in_ring_def in_hand_def split: option.splits)
qed

lemma drain_pop_step:
  assumes "sub_ok s"
  shows "sub_ok (drain_pop s) \<and> queued (drain_pop s) = queued s \<and> sub_closed (drain_pop s) = sub_closed s \<and>
    sub_dropped (drain_pop s) = sub_dropped s"
proof (cases "sub_drainer s = Sweeping \<and> sub_ovf s \<noteq> None")
  case True
  then obtain o' where o': "sub_ovf s = Some o'" "sub_drainer s = Sweeping" by auto
  with assms have ok: "ring_ok o'" by (simp add: sub_ok_def)
  show ?thesis
  proof (cases "ring_items o'")
    case Nil
    then have "pop zero_envelope o' = (None, o')" by (simp add: pop_def ring_items_def)
    with Nil o' assms show ?thesis by (simp add: drain_pop_def sub_ok_def queued_def in_ring_def in_hand_def)
  next
    case (Cons e rest)
    obtain r o'' where p: "pop zero_envelope o' = (r, o'')" by force
    with pop_items [OF ok Cons p] Cons o' assms show ?thesis
      by (simp add: drain_pop_def sub_ok_def queued_def in_ring_def in_hand_def)
  qed
next
  case False
  then have "drain_pop s = s" by (auto simp: drain_pop_def split: drainer.splits option.splits)
  with assms show ?thesis by simp
qed

lemma drain_send_step:
  assumes "sub_ok s"
  shows "sub_ok (drain_send s) \<and> queued (drain_send s) = queued s \<and> sub_closed (drain_send s) = sub_closed s \<and>
    sub_dropped (drain_send s) = sub_dropped s"
proof (cases "sub_drainer s")
  case (Holding env)
  obtain b c where t: "try_send env (sub_ch s) = (b, c)" by force
  have ok: "chan_ok (sub_ch s)" using assms by (simp add: sub_ok_def)
  show ?thesis
  proof (cases b)
    case True
    with try_send_ok [OF ok] t Holding assms show ?thesis
      by (auto simp: drain_send_def sub_ok_def queued_def in_ring_def in_hand_def split: option.splits)
  next
    case False
    with t Holding assms show ?thesis by (simp add: drain_send_def)
  qed
qed (use assms in \<open>simp_all add: drain_send_def\<close>)

lemma drain_wake_step:
  assumes "sub_ok s"
  shows "sub_ok (drain_wake s) \<and> queued (drain_wake s) = queued s \<and> sub_closed (drain_wake s) = sub_closed s \<and>
    sub_dropped (drain_wake s) = sub_dropped s"
  using assms
  by (auto simp: drain_wake_def sub_ok_def queued_def in_ring_def in_hand_def ring_ok_def ring_items_def
      split: drainer.splits option.splits)

lemma receive_step:
  assumes "sub_ok s" "receive s = (r, s')"
  shows "sub_ok s' \<and> sub_closed s' = sub_closed s \<and> sub_dropped s' = sub_dropped s \<and>
    queued s = (case r of None \<Rightarrow> [] | Some e \<Rightarrow> [e]) @ queued s'"
  using assms
  by (auto simp: receive_def try_recv_def sub_ok_def chan_ok_def queued_def in_ring_def in_hand_def
      split: list.splits option.splits)

text \<open>Everything that happens to an open subscription, with what was offered to it and what came out.\<close>

datatype 'p sub_event = Ev_Deliver "'p envelope" | Ev_Pop | Ev_Send | Ev_Wake | Ev_Receive

type_synonym 'p history = "'p subscription \<times> 'p envelope list \<times> 'p envelope list"

fun sub_step :: "'p sub_event \<Rightarrow> 'p history \<Rightarrow> 'p history" where
  "sub_step (Ev_Deliver env) (s, ins, outs) = (deliver False env s, ins @ [env], outs)"
| "sub_step Ev_Pop (s, ins, outs) = (drain_pop s, ins, outs)"
| "sub_step Ev_Send (s, ins, outs) = (drain_send s, ins, outs)"
| "sub_step Ev_Wake (s, ins, outs) = (drain_wake s, ins, outs)"
| "sub_step Ev_Receive (s, ins, outs) =
     (case receive s of (r, s') \<Rightarrow> (s', ins, outs @ (case r of None \<Rightarrow> [] | Some e \<Rightarrow> [e])))"

definition accounted :: "'p history \<Rightarrow> bool" where
  "accounted = (\<lambda>(s, ins, outs). sub_ok s \<and> \<not> sub_closed s \<and>
     of_nat (length outs + length (queued s)) + sub_dropped s = (of_nat (length ins) :: uint64))"

lemma sub_step_accounted: "accounted h \<Longrightarrow> accounted (sub_step ev h)"
proof -
  obtain s ins outs where h: "h = (s, ins, outs)" by (metis prod_cases3)
  assume "accounted h"
  then have a: "sub_ok s" "\<not> sub_closed s"
    "of_nat (length outs + length (queued s)) + sub_dropped s = (of_nat (length ins) :: uint64)"
    by (auto simp: accounted_def h)
  show ?thesis
  proof (cases ev)
    case (Ev_Deliver env)
    have "of_nat (length outs) + (of_nat (length (queued (deliver False env s))) +
        sub_dropped (deliver False env s)) = (of_nat (length ins) :: uint64) + 1"
      using deliver_step [OF a(1,2), of env] a(3) by (simp add: ac_simps)
    then show ?thesis using deliver_step [OF a(1,2), of env]
      by (simp add: Ev_Deliver h accounted_def ac_simps)
  next
    case Ev_Receive
    obtain r s' where r: "receive s = (r, s')" by force
    from receive_step [OF a(1) r] a show ?thesis
      by (cases r) (simp_all add: Ev_Receive h accounted_def r ac_simps)
  qed (use a drain_pop_step [OF a(1)] drain_send_step [OF a(1)] drain_wake_step [OF a(1)] in \<open>simp_all add: h accounted_def\<close>)
qed

interpretation sub: op_machine sub_step "\<lambda>_. True" accounted
  by unfold_locales (rule sub_step_accounted)

lemma policy_for_bound: "max_overflow (policy_for topic overrides) \<le> max_allowed_overflow"
  by (simp add: policy_for_def Let_def)

lemma sub_options_positive:
  "0 < fst (foldl apply_sub_option (n, name) opts) \<longleftrightarrow> 0 < n \<or>
     (\<exists>m. With_Subscription_Buffer m \<in> set opts \<and> 0 < m)"
  if "0 < n"
proof -
  have "0 < fst (foldl apply_sub_option (n, name) opts)" using that
  proof (induction opts arbitrary: n name)
    case (Cons a opts)
    then show ?case by (cases a) auto
  qed simp
  with that show ?thesis by simp
qed

lemma new_overflow_cap:
  "n \<le> 4096 \<Longrightarrow> rb_cap (new_overflow_buffer z n) \<le> 4096 \<and> 0 < rb_cap (new_overflow_buffer z n)"
  by (auto simp: new_overflow_buffer_def Let_def default_max_overflow_def)

lemma subscribe_fresh:
  assumes "subscribe topic opts b = (sid, b')"
  shows "sid = next_id b + 1 \<and> next_id b' = sid \<and> subscribers b' = mput topic (route b topic @ [sid]) (subscribers b) \<and>
    (\<exists>s. heap b' = (heap b)(sid \<mapsto> s) \<and> sub_ok s \<and> \<not> sub_closed s \<and> \<not> sub_ch_closed s \<and> \<not> sub_done s \<and>
       sub_drainer s \<noteq> Drained \<and> sub_id s = sid \<and> sub_topic s = topic \<and> queued s = [] \<and> sub_dropped s = 0 \<and>
       sub_policy s = policy_for topic (topic_policies b) \<and>
       (sub_ovf s \<noteq> None \<longleftrightarrow> strategy (sub_policy s) = strategy_overflow) \<and>
       (\<forall>o'. sub_ovf s = Some o' \<longrightarrow> 0 < rb_cap o' \<and> rb_cap o' \<le> 4096))"
proof -
  obtain buffer name where cfg: "foldl apply_sub_option
      (if topic_buffers b topic \<le> 0 then 1 else topic_buffers b topic, []) opts = (buffer, name)" by force
  have pos: "0 < buffer"
    using sub_options_positive [of "if topic_buffers b topic \<le> 0 then 1 else topic_buffers b topic" "[]" opts]
    by (simp add: cfg split: if_splits)
  have "max_overflow (policy_for topic (topic_policies b)) \<le> 4096"
    using policy_for_bound [of topic "topic_policies b"] by (simp add: max_allowed_overflow_def)
  then show ?thesis using assms pos
    by (intro conjI exI [of _ "the (heap b' sid)"])
      (auto simp: subscribe_def Let_def cfg sub_ok_def chan_ok_def queued_def in_hand_def in_ring_def
        default_max_overflow_def new_overflow_cap split: if_splits)
qed

lemma dropped_cap: "sub_ok s \<Longrightarrow> length (ch_items (sub_ch s)) \<le> ch_cap (sub_ch s)"
  by (simp add: sub_ok_def chan_ok_def)

text \<open>Capacities and the policy do not change.\<close>

lemma push_cap: "push e o' = (b, o'') \<Longrightarrow> rb_cap o'' = rb_cap o'"
  by (auto simp: push_def Let_def split: if_splits)

lemma pop_cap: "pop z o' = (r, o'') \<Longrightarrow> rb_cap o'' = rb_cap o'"
  by (auto simp: pop_def Let_def split: if_splits)

definition caps :: "'p subscription \<Rightarrow> nat \<times> nat option \<times> delivery_policy" where
  "caps s = (ch_cap (sub_ch s), map_option rb_cap (sub_ovf s), sub_policy s)"

lemma drop_oldest_caps: "caps (drop_oldest_and_enqueue env s) = caps s"
  by (auto simp: drop_oldest_and_enqueue_def try_recv_def try_send_def record_drop_def caps_def Let_def
      split: list.splits)

lemma deliver_caps: "caps (deliver c env s) = caps s"
  using drop_oldest_caps [of env s]
  by (auto simp: deliver_def Let_def record_drop_def caps_def try_send_def push_def
      split: option.splits prod.splits bool.splits)

lemma drain_caps: "caps (drain_pop s) = caps s" "caps (drain_send s) = caps s" "caps (drain_wake s) = caps s"
  by (auto simp: drain_pop_def drain_send_def drain_wake_def caps_def try_send_def dest: pop_cap
      split: drainer.splits option.splits prod.splits bool.splits)

lemma receive_caps: "caps (snd (receive s)) = caps s"
  by (auto simp: receive_def caps_def try_recv_def split: list.splits)

lemma sub_step_caps: "caps (fst (sub_step ev h)) = caps (fst h)"
proof -
  obtain s ins outs where h: "h = (s, ins, outs)" by (metis prod_cases3)
  show ?thesis using receive_caps [of s]
    by (cases ev; cases "receive s") (simp_all add: h deliver_caps drain_caps)
qed

lemma sub_run_caps: "caps (fst (fold sub_step evs h)) = caps (fst h)"
  by (induction evs arbitrary: h) (simp_all add: sub_step_caps)

definition ev_named :: "string \<Rightarrow> unit envelope" where
  "ev_named c = \<lparr>env_topic = ''t'', env_timestamp = 1, env_source = ''s'', env_correlation_id = c,
     env_payload = None\<rparr>"

section \<open>Properties of one subscription\<close>



text \<open>A run in which no delivery finds the overflow buffer full.\<close>

fun no_overflow :: "'p sub_event list \<Rightarrow> 'p history \<Rightarrow> bool" where
  "no_overflow [] h = True"
| "no_overflow (ev # evs) h =
     ((case ev of
         Ev_Deliver env \<Rightarrow> (case sub_ovf (fst h) of None \<Rightarrow> False | Some o' \<Rightarrow> rb_count o' < rb_cap o')
       | _ \<Rightarrow> True) \<and> no_overflow evs (sub_step ev h))"

definition in_order :: "'p history \<Rightarrow> bool" where
  "in_order = (\<lambda>(s, ins, outs). sub_ok s \<and> \<not> sub_closed s \<and> sub_dropped s = 0 \<and> outs @ queued s = ins)"

lemma in_order_step:
  assumes "in_order h" "no_overflow (ev # evs) h"
  shows "in_order (sub_step ev h)"
proof -
  obtain s ins outs where h: "h = (s, ins, outs)" by (metis prod_cases3)
  with assms(1) have a: "sub_ok s" "\<not> sub_closed s" "sub_dropped s = 0" "outs @ queued s = ins"
    by (auto simp: in_order_def)
  show ?thesis
  proof (cases ev)
    case (Ev_Deliver env)
    with assms(2) h obtain o' where o': "sub_ovf s = Some o'" "rb_count o' < rb_cap o'"
      by (auto split: option.splits)
    from a(1,2) show ?thesis
    proof (cases rule: deliver_cases [where env = env])
      case (buffered o1 o2)
      with a(1) have "ring_ok o1" by (simp add: sub_ok_def)
      from push_ok [OF this buffered(2)] buffered a deliver_step [OF a(1,2), of env] show ?thesis
        by (auto simp: Ev_Deliver h in_order_def queued_def in_ring_def in_hand_def)
    qed (use o' in \<open>auto simp: push_def Let_def\<close>)
  next
    case Ev_Receive
    obtain r s' where r: "receive s = (r, s')" by force
    from receive_step [OF a(1) r] a show ?thesis
      by (cases r) (simp_all add: Ev_Receive h in_order_def r)
  qed (use a drain_pop_step [OF a(1)] drain_send_step [OF a(1)] drain_wake_step [OF a(1)] in
      \<open>simp_all add: h in_order_def\<close>)
qed

text \<open>
  The overflow strategy preserves order. On a subscription with that strategy, as long as no
  delivery finds the overflow buffer full, nothing is dropped and the subscriber receives the events
  in the order in which they were delivered, whatever the interleaving with the drain goroutine:
  what it has received followed by what is queued is exactly what was delivered.
\<close>

theorem overflow_preserves_order:
  assumes "subscribe topic opts b = (sid, b')" and "heap b' sid = Some s"
    and "no_overflow evs (s, [], [])" and "fold sub_step evs (s, [], []) = (s', ins, outs)"
  shows "outs @ queued s' = ins \<and> sub_dropped s' = 0"
proof -
  have run: "in_order h \<Longrightarrow> no_overflow evs h \<Longrightarrow> in_order (fold sub_step evs h)" for h :: "'a history"
  proof (induction evs arbitrary: h)
    case (Cons ev evs)
    from in_order_step [OF Cons.prems] Cons.IH Cons.prems(2) show ?case by simp
  qed simp
  from subscribe_fresh [OF assms(1)] assms(2) have "in_order (s, [], [])" by (auto simp: in_order_def)
  from run [OF this assms(3)] show ?thesis by (simp add: assms(4) in_order_def)
qed

theorem overflow_preserves_order_witness:
  "\<exists>sid b' s s' outs. subscribe ''conversation.prompt'' [] (new_bus []) = (sid, b') \<and> heap b' sid = Some s \<and>
    fold sub_step [Ev_Deliver (ev_named ''1''), Ev_Pop, Ev_Deliver (ev_named ''2''), Ev_Send, Ev_Receive] (s, [], []) =
      (s', [ev_named ''1'', ev_named ''2''], outs) \<and>
    outs @ queued s' = [ev_named ''1'', ev_named ''2''] \<and> sub_dropped s' = 0"
proof -
  let ?evs = "[Ev_Deliver (ev_named ''1''), Ev_Pop, Ev_Deliver (ev_named ''2''), Ev_Send, Ev_Receive]"
  obtain sid b' where sub: "subscribe ''conversation.prompt'' [] (new_bus [] :: unit bus) = (sid, b')" by force
  with subscribe_fresh [OF sub] obtain s where s: "heap b' sid = Some s" by auto
  obtain o' where o': "sub_ovf s = Some o'" "rb_count o' = 0" "rb_cap o' = 512" "sub_drainer s = Sweeping"
      "\<not> sub_closed s" "strategy (sub_policy s) = strategy_overflow" "rb_head o' = 0"
    using sub s
    by (auto simp: subscribe_def new_bus_def policy_for_def default_policies_def overflow_topics_def
        new_overflow_buffer_def max_allowed_overflow_def default_max_overflow_def Let_def
        split: prod.splits)
  have n: "no_overflow ?evs (s, [], [])"
    using o' by (simp add: deliver_def push_def drain_pop_def pop_def Let_def)
  obtain s' ins outs where f: "fold sub_step ?evs (s, [], []) = (s', ins, outs)" by (metis prod_cases3)
  then have "ins = [ev_named ''1'', ev_named ''2'']" by (auto split: prod.splits)
  with overflow_preserves_order [OF sub s n f] sub s f show ?thesis by auto
qed

text \<open>
  When a delivery does find the overflow buffer full, the order is lost: the newest event goes
  straight into the channel and the subscriber receives it before older ones that wait in the buffer,
  although nothing was dropped.
\<close>

theorem full_overflow_reorders:
  "\<exists>s s'. heap (snd (subscribe ''t'' []
        (new_bus [With_Topic_Policy ''t'' \<lparr>strategy = strategy_overflow, pol_priority = Priority_Critical,
           max_overflow = 1\<rparr>]))) 1 = Some s \<and>
    fold sub_step [Ev_Deliver (ev_named ''1''), Ev_Deliver (ev_named ''2''), Ev_Pop, Ev_Receive, Ev_Send, Ev_Receive]
      (s, [], []) = (s', [ev_named ''1'', ev_named ''2''], [ev_named ''2'', ev_named ''1'']) \<and>
    sub_dropped s' = 0"
  by (simp add: subscribe_def new_bus_def policy_for_def max_allowed_overflow_def default_buffers_def
      new_overflow_buffer_def deliver_def push_def drop_oldest_and_enqueue_def try_recv_def try_send_def
      receive_def drain_pop_def drain_send_def pop_def Let_def route_def)

text \<open>
  The drain goroutine never stalls: if an event is in the overflow buffer, or popped and not yet
  sent, and the channel has room, then one pass of the drain loop (wake, pop, send) moves exactly
  the oldest such event to the end of the channel. In particular no wake-up is lost.
\<close>

theorem drain_progress:
  assumes "sub_ok s" and "in_hand s @ in_ring s = env # rest" and "sub_drainer s \<noteq> Drained"
    and "length (ch_items (sub_ch s)) < ch_cap (sub_ch s)"
  shows "ch_items (sub_ch (drain_send (drain_pop (drain_wake s)))) = ch_items (sub_ch s) @ [env] \<and>
    in_ring (drain_send (drain_pop (drain_wake s))) = rest"
proof -
  obtain o' where o': "sub_ovf s = Some o'" "ring_ok o'"
    using assms(1,2) by (auto simp: sub_ok_def in_hand_def in_ring_def split: option.splits)
  have notify: "ring_items (o'\<lparr>rb_notify := b\<rparr>) = ring_items o'" "ring_ok (o'\<lparr>rb_notify := b\<rparr>)" for b
    using o'(2) by (auto simp: ring_items_def ring_ok_def)
  have sweep: "ch_items (sub_ch (drain_send (drain_pop (t\<lparr>sub_drainer := Sweeping\<rparr>)))) = ch_items (sub_ch t) @ [env] \<and>
      in_ring (drain_send (drain_pop (t\<lparr>sub_drainer := Sweeping\<rparr>))) = rest"
    if t: "sub_ovf t = Some o1" "ring_ok o1" "ring_items o1 = env # rest" "sub_ch t = sub_ch s" for t o1
  proof -
    obtain r o2 where p: "pop zero_envelope o1 = (r, o2)" by force
    from pop_items [OF t(2,3) p] p t assms(4) show ?thesis
      by (simp add: drain_pop_def drain_send_def try_send_def in_ring_def)
  qed
  show ?thesis
  proof (cases "sub_drainer s")
    case Sweeping
    then have "drain_wake s = s\<lparr>sub_drainer := Sweeping\<rparr>" by (simp add: drain_wake_def)
    with sweep [of s o'] o' Sweeping assms(2) show ?thesis by (simp add: in_hand_def in_ring_def)
  next
    case (Holding e)
    with assms o' show ?thesis
      by (simp add: drain_wake_def drain_pop_def drain_send_def try_send_def in_hand_def in_ring_def)
  next
    case Waiting
    with assms(1,2) o' have "rb_notify o'" "ring_items o' = env # rest"
      by (auto simp: sub_ok_def in_hand_def in_ring_def)
    with Waiting o' sweep [of "s\<lparr>sub_ovf := Some (o'\<lparr>rb_notify := False\<rparr>)\<rparr>" "o'\<lparr>rb_notify := False\<rparr>"] notify
    show ?thesis by (simp add: drain_wake_def)
  qed (use assms o' in \<open>simp_all add: sub_ok_def\<close>)
qed

theorem drain_progress_witness:
  "\<exists>s :: unit subscription. sub_ok s \<and> in_hand s @ in_ring s = [ev_named ''1''] \<and>
    ch_items (sub_ch (drain_send (drain_pop (drain_wake s)))) = [ev_named ''1'']"
proof -
  let ?s = "\<lparr>sub_topic = ''t'', sub_id = 1, sub_name = [], sub_ch = \<lparr>ch_cap = 1, ch_items = []\<rparr>,
    sub_ch_closed = False, sub_done = False, sub_closed = False, sub_dropped = 0,
    sub_policy = policy_for ''conversation.prompt'' (\<lambda>_. None),
    sub_ovf = Some \<lparr>rb_buf = [ev_named ''1''], rb_head = 0, rb_count = 1, rb_cap = 1, rb_notify = True\<rparr>,
    sub_drainer = Waiting\<rparr>"
  have ok: "sub_ok ?s"
    by (simp add: sub_ok_def chan_ok_def ring_ok_def policy_for_def default_policies_def overflow_topics_def
        max_allowed_overflow_def default_max_overflow_def)
  have items: "in_hand ?s @ in_ring ?s = [ev_named ''1'']" by (simp add: in_hand_def in_ring_def ring_items_def)
  show ?thesis using ok items drain_progress [OF ok items] by (intro exI [of _ ?s]) simp
qed

text \<open>
  Back-pressure does what the policy says. Deliver any events to an open subscription with an
  empty channel of capacity \<open>n\<close> and no overflow buffer while the subscriber does not receive. With
  the drop-newest strategy the channel holds the first \<open>n\<close> events, with any other the last \<open>n\<close>, in
  order; the counter says how many were dropped.
\<close>

theorem backpressure_policy:
  assumes "sub_ok s" and "\<not> sub_closed s" and "sub_ovf s = None" and "ch_items (sub_ch s) = []"
  shows "ch_items (sub_ch (fold (deliver False) envs s)) =
      (if strategy (sub_policy s) = strategy_drop_newest then take (ch_cap (sub_ch s)) envs
       else take_last (ch_cap (sub_ch s)) envs) \<and>
    sub_dropped (fold (deliver False) envs s) = sub_dropped s + of_nat (length envs - ch_cap (sub_ch s))"
proof (induction envs rule: rev_induct)
  case Nil
  with assms(4) show ?case by (simp add: take_last_def)
next
  case (snoc env envs)
  let ?n = "ch_cap (sub_ch s)" and ?t = "fold (deliver False) envs s"
  have inv: "sub_ok ?t \<and> \<not> sub_closed ?t \<and> caps ?t = caps s"
    by (induction envs rule: rev_induct) (simp_all add: assms deliver_step deliver_caps)
  then have t: "sub_ok ?t" "\<not> sub_closed ?t" "ch_cap (sub_ch ?t) = ?n" "sub_ovf ?t = None"
    "sub_policy ?t = sub_policy s" using assms(3) by (auto simp: caps_def)
  have n: "0 < ?n" using assms(1) by (simp add: sub_ok_def)
  have l: "length (ch_items (sub_ch ?t)) = min ?n (length envs)" using snoc by auto
  from t(1,2) show ?case
  proof (cases rule: deliver_cases [where env = env])
    case (sent c)
    then have "length envs < ?n" using l t by (auto simp: try_send_def split: if_splits)
    with sent snoc t show ?thesis by (auto simp: try_send_def take_last_def split: if_splits)
  next
    case newest
    then have "?n \<le> length envs" using l t by (auto simp: try_send_def split: if_splits)
    with newest snoc t show ?thesis by (simp add: record_drop_def Suc_diff_le)
  next
    case oldest
    then have full: "?n \<le> length envs" using l t by (auto simp: try_send_def split: if_splits)
    then have ne: "ch_items (sub_ch ?t) \<noteq> []" using l n by auto
    have "tl (take_last ?n envs) @ [env] = take_last ?n (envs @ [env])"
      using full n by (simp add: take_last_def Suc_diff_le drop_Suc tl_drop)
    with oldest(4) drop_oldest_effect [OF t(1), of env] snoc ne full oldest(3) t show ?thesis
      by (simp add: Suc_diff_le)
  qed (use t in simp)
qed

theorem backpressure_policy_witness:
  "\<exists>s :: unit subscription. sub_ok s \<and> sub_policy s = default_policy \<and>
    ch_items (sub_ch (fold (deliver False) [ev_named ''1'', ev_named ''2'', ev_named ''3''] s)) =
      [ev_named ''2'', ev_named ''3''] \<and>
    sub_dropped (fold (deliver False) [ev_named ''1'', ev_named ''2'', ev_named ''3''] s) = 1"
proof -
  let ?s = "\<lparr>sub_topic = ''t'', sub_id = 1, sub_name = [], sub_ch = \<lparr>ch_cap = 2, ch_items = []\<rparr>,
    sub_ch_closed = False, sub_done = False, sub_closed = False, sub_dropped = 0,
    sub_policy = default_policy, sub_ovf = None, sub_drainer = No_Drainer\<rparr>"
  have ok: "sub_ok ?s" by (simp add: sub_ok_def chan_ok_def)
  show ?thesis
    using ok backpressure_policy [OF ok, of "[ev_named ''1'', ev_named ''2'', ev_named ''3'']"]
    by (intro exI [of _ ?s]) (simp add: default_policy_def take_last_def del: fold.simps)
qed

end
