(* ===== verification/BusRouting.thy ===== *)
theory BusRouting
  imports EventBus
begin

text \<open>
  The routing table of the bus: the invariant that ties it to the life of the subscriptions, that
  every operation keeps it, and what publishing, closing and shutting down do.
\<close>

section \<open>Invariant\<close>

definition alive :: "'p subscription \<Rightarrow> bool" where
  "alive s \<longleftrightarrow> \<not> sub_closed s \<and> \<not> sub_ch_closed s \<and> \<not> sub_done s \<and> sub_drainer s \<noteq> Drained"

definition dead :: "'p subscription \<Rightarrow> bool" where
  "dead s \<longleftrightarrow> sub_closed s \<and> sub_ch_closed s \<and> sub_done s \<and> sub_drainer s \<in> {No_Drainer, Drained}"

text \<open>A subscription is alive exactly while the table routes its topic to it.\<close>

definition bus_ok :: "'p bus \<Rightarrow> bool" where
  "bus_ok b \<longleftrightarrow> mwf (subscribers b) \<and>
     (\<forall>topic. distinct (route b topic)) \<and>
     (\<forall>topic. \<forall>sid \<in> set (route b topic). \<exists>s. heap b sid = Some s \<and> sub_topic s = topic) \<and>
     (\<forall>sid s. heap b sid = Some s \<longrightarrow> sub_ok s \<and> sub_id s = sid \<and> sid \<le> next_id b \<and>
        (if sid \<in> set (route b (sub_topic s)) then alive s else dead s))"

lemma alive_dead: "alive s \<Longrightarrow> \<not> dead s"
  by (simp add: alive_def dead_def)

lemma route_mput [simp]: "route (b\<lparr>subscribers := mput t ids (subscribers b)\<rparr>) u = (if u = t then ids else route b u)"
  by (simp add: route_def)

lemma route_cong: "subscribers b = subscribers b' \<Longrightarrow> route b = route b'"
  by (simp add: route_def fun_eq_iff)

text \<open>Operations that keep the identity and the life of a subscription.\<close>

definition same_life :: "'p subscription \<Rightarrow> 'p subscription \<Rightarrow> bool" where
  "same_life s t \<longleftrightarrow> sub_topic t = sub_topic s \<and> sub_id t = sub_id s \<and> sub_closed t = sub_closed s \<and>
     sub_ch_closed t = sub_ch_closed s \<and> sub_done t = sub_done s \<and>
     (sub_drainer t = Drained \<longleftrightarrow> sub_drainer s = Drained) \<and>
     (sub_drainer t = No_Drainer \<longleftrightarrow> sub_drainer s = No_Drainer)"

lemma same_life_refl [simp]: "same_life s s"
  by (simp add: same_life_def)

lemma same_life_alive: "same_life s t \<Longrightarrow> alive t = alive s"
  by (auto simp: same_life_def alive_def)

lemma same_life_dead: "same_life s t \<Longrightarrow> dead t = dead s"
  by (auto simp: same_life_def dead_def)

lemma drop_oldest_life: "same_life s (drop_oldest_and_enqueue env s)"
  by (auto simp: same_life_def drop_oldest_and_enqueue_def try_recv_def try_send_def record_drop_def Let_def
      split: list.splits)

lemma deliver_life: "same_life s (deliver c env s)"
  using drop_oldest_life [of s env]
  by (auto simp: deliver_def Let_def record_drop_def same_life_def split: option.splits prod.splits bool.splits)

lemma drain_life: "same_life s (drain_pop s)" "same_life s (drain_send s)" "same_life s (drain_wake s)"
  by (auto simp: drain_pop_def drain_send_def drain_wake_def same_life_def
      split: drainer.splits option.splits prod.splits bool.splits)

lemma receive_life: "same_life s (snd (receive s))"
  by (auto simp: receive_def same_life_def split: prod.splits)

lemma deliver_ok: "sub_ok s \<Longrightarrow> sub_ok (deliver c env s)"
  using deliver_step [of s env] by (cases "sub_closed s \<or> c") (auto simp: deliver_def)

lemma receive_ok: "sub_ok s \<Longrightarrow> sub_ok (snd (receive s))"
  using receive_step [of s "fst (receive s)" "snd (receive s)"] by simp

section \<open>Updates of the heap\<close>

lemma update_sub_heap: "heap (update_sub sid f b) = (heap b)(sid := map_option f (heap b sid))"
  by (auto simp: update_sub_def fun_eq_iff split: option.splits)

lemma update_sub_frame [simp]:
  "subscribers (update_sub sid f b) = subscribers b" "next_id (update_sub sid f b) = next_id b"
  "topic_policies (update_sub sid f b) = topic_policies b" "topic_buffers (update_sub sid f b) = topic_buffers b"
  by (auto simp: update_sub_def split: option.splits)

lemma route_update [simp]: "route (update_sub sid f b) = route b"
  by (rule route_cong) simp

lemma fold_update_frame [simp]:
  "subscribers (fold (\<lambda>sid. update_sub sid f) sids b) = subscribers b"
  "next_id (fold (\<lambda>sid. update_sub sid f) sids b) = next_id b"
  by (induction sids arbitrary: b) simp_all

lemma fold_update_heap:
  "distinct sids \<Longrightarrow> heap (fold (\<lambda>sid. update_sub sid f) sids b) sid =
    (if sid \<in> set sids then map_option f (heap b sid) else heap b sid)"
  by (induction sids arbitrary: b) (auto simp: update_sub_heap)

lemma update_sub_ok:
  assumes "bus_ok b" "\<And>s. same_life s (f s)" "\<And>s. sub_ok s \<Longrightarrow> sub_ok (f s)"
  shows "bus_ok (update_sub sid f b)"
proof -
  have life: "sub_topic (f s) = sub_topic s" "sub_id (f s) = sub_id s" "alive (f s) = alive s"
    "dead (f s) = dead s" for s
    using same_life_alive [OF assms(2)] same_life_dead [OF assms(2)] assms(2) [unfolded same_life_def]
    by simp_all
  show ?thesis using assms(1,3) unfolding bus_ok_def
    by (auto simp: update_sub_heap life) (metis life(1))
qed

lemma fold_update_ok:
  "bus_ok b \<Longrightarrow> (\<And>s. same_life s (f s)) \<Longrightarrow> (\<And>s. sub_ok s \<Longrightarrow> sub_ok (f s)) \<Longrightarrow>
   bus_ok (fold (\<lambda>sid. update_sub sid f) sids b)"
  by (induction sids arbitrary: b) (simp_all add: update_sub_ok)

section \<open>Every operation keeps the invariant\<close>

lemma word_less_succ: "n \<noteq> - 1 \<Longrightarrow> n < n + (1 :: uint64)"
proof -
  assume n: "n \<noteq> - 1"
  have "unat n \<noteq> 2 ^ 64 - 1"
  proof
    assume "unat n = 2 ^ 64 - 1"
    then have "unat n = unat (- 1 :: uint64)" by (simp add: unsigned_minus_1_eq_mask mask_eq_exp_minus_1)
    then have "n = - 1" by (rule unsigned_word_eqI)
    then show False using n by simp
  qed
  moreover have "unat n < 2 ^ LENGTH(64)" by (rule unsigned_less)
  ultimately show ?thesis by (simp add: word_less_nat_alt unat_word_ariths)
qed

lemma apply_bus_option_ok: "bus_ok b \<Longrightarrow> bus_ok (apply_bus_option b opt)"
  by (cases opt) (auto simp: bus_ok_def route_def)

lemma new_bus_ok: "bus_ok (new_bus opts)"
proof -
  have run: "bus_ok b \<Longrightarrow> bus_ok (foldl apply_bus_option b opts)" for b :: "'a bus"
    by (induction opts arbitrary: b) (simp_all add: apply_bus_option_ok)
  show ?thesis unfolding new_bus_def by (rule run) (simp add: bus_ok_def route_def)
qed

lemma publish_ok [inv_intros]: "bus_ok b \<Longrightarrow> bus_ok (publish now c env b)"
  by (simp add: publish_def Let_def fold_update_ok deliver_life deliver_ok)

lemma subscribe_ok [inv_intros]:
  assumes "bus_ok b" "next_id b \<noteq> - 1"
  shows "bus_ok (snd (subscribe topic opts b))"
proof -
  obtain sid b' where sub: "subscribe topic opts b = (sid, b')" by force
  from subscribe_fresh [OF sub] obtain s where s: "sid = next_id b + 1" "next_id b' = sid"
    "subscribers b' = mput topic (route b topic @ [sid]) (subscribers b)" "heap b' = (heap b)(sid \<mapsto> s)"
    "sub_ok s" "alive s" "sub_id s = sid" "sub_topic s = topic"
    unfolding alive_def by blast
  have lt: "next_id b < sid" unfolding s(1) by (rule word_less_succ [OF assms(2)])
  have fresh: "heap b sid = None" "sid \<notin> set (route b t)" for t
    using assms(1) lt by (auto simp: bus_ok_def) (metis leD not_None_eq, metis leD option.sel)
  have route: "route b' t = (if t = topic then route b topic @ [sid] else route b t)" for t
    using s(3) by (simp add: route_def)
  have le: "\<And>i s'. heap b i = Some s' \<Longrightarrow> i \<le> sid"
    using assms(1) lt unfolding bus_ok_def by (meson dual_order.strict_trans2 less_imp_le order.trans)
  show ?thesis using assms(1) s fresh lt le unfolding sub snd_conv bus_ok_def
    by (auto simp: route)
qed

lemma stop_overflow_dead:
  "sub_drainer (stop_overflow s) \<in> {No_Drainer, Drained} \<and> sub_topic (stop_overflow s) = sub_topic s \<and>
   sub_id (stop_overflow s) = sub_id s \<and> sub_closed (stop_overflow s) = sub_closed s \<and>
   (sub_ok s \<longrightarrow> sub_ok (stop_overflow s))"
  by (auto simp: stop_overflow_def sub_ok_def split: drainer.splits option.splits)

lemma close_locked_dead:
  assumes "\<not> sub_closed s"
  shows "dead (close_locked s) \<and> sub_topic (close_locked s) = sub_topic s \<and> sub_id (close_locked s) = sub_id s"
  using assms stop_overflow_dead [of "s\<lparr>sub_closed := True\<rparr>"] by (auto simp: close_locked_def dead_def)

lemma closed_again: "sub_closed s \<Longrightarrow> close_locked s = s"
  by (simp add: close_locked_def)

lemma close_locked_ok: "sub_ok s \<Longrightarrow> sub_ok (close_locked s)"
  using stop_overflow_dead [of "s\<lparr>sub_closed := True\<rparr>"]
  by (auto simp: close_locked_def sub_ok_def split: option.splits)

text \<open>\<open>Close\<close> is \<open>closeLocked\<close> and the removal of the identifier from its topic's route.\<close>

lemma close_sub_eq:
  assumes "heap b sid = Some s" "\<not> sub_closed s"
  shows "heap (close_sub sid b) = (heap b)(sid \<mapsto> close_locked s) \<and> next_id (close_sub sid b) = next_id b \<and>
    route (close_sub sid b) t = (if t = sub_topic s then removeAll sid (route b t) else route b t) \<and>
    (mwf (subscribers b) \<longrightarrow> mwf (subscribers (close_sub sid b)))"
  using assms by (auto simp: close_sub_def close_locked_def Let_def route_def split: option.splits)

lemma close_sub_ok [inv_intros]: "bus_ok b \<Longrightarrow> bus_ok (close_sub sid b)"
proof (cases "\<exists>s. heap b sid = Some s \<and> \<not> sub_closed s")
  case False
  then have "close_sub sid b = b" by (auto simp: close_sub_def split: option.splits)
  then show "bus_ok b \<Longrightarrow> ?thesis" by simp
next
  case True
  then obtain s where s: "heap b sid = Some s" "\<not> sub_closed s" by blast
  note eq = close_sub_eq [OF s] and d = close_locked_dead [OF s(2)]
  assume ok: "bus_ok b"
  then have "sub_ok s" using s by (auto simp: bus_ok_def)
  then have "sub_ok (close_locked s)" by (rule close_locked_ok)
  moreover have "sid \<notin> set (route b t)" if "t \<noteq> sub_topic s" for t
    using ok s that unfolding bus_ok_def by (metis option.sel)
  ultimately show ?thesis using ok s d unfolding bus_ok_def
    by (auto simp: eq distinct_removeAll)
qed

lemma shutdown_heap:
  assumes "bus_ok b"
  shows "heap (shutdown_bus b) sid =
    (case heap b sid of None \<Rightarrow> None | Some s \<Rightarrow> Some (if sub_closed s then s else close_locked s))"
proof -
  let ?ids = "concat (map snd (subscribers b))"
  have idem: "close_locked (close_locked s) = close_locked s" for s :: "'a subscription"
    using close_locked_dead [of s] closed_again [of s] closed_again [of "close_locked s"]
    by (cases "sub_closed s") (simp_all add: dead_def)
  have h: "heap (fold (\<lambda>sid. update_sub sid close_locked) ids b') sid =
      (if sid \<in> set ids then map_option close_locked (heap b' sid) else heap b' sid)" for ids and b' :: "'a bus"
    by (induction ids arbitrary: b') (auto simp: update_sub_heap idem option.map_comp comp_def)
  have ids: "sid \<in> set ?ids \<longleftrightarrow> sid \<in> set (route b (sub_topic s))" if "heap b sid = Some s" for s
  proof
    assume "sid \<in> set ?ids"
    then obtain t ids where "(t, ids) \<in> set (subscribers b)" "sid \<in> set ids" by auto
    moreover from this have "route b t = ids" using assms by (simp add: route_def bus_ok_def mwf_def)
    ultimately show "sid \<in> set (route b (sub_topic s))" using assms that by (force simp: bus_ok_def)
  next
    assume "sid \<in> set (route b (sub_topic s))"
    then obtain ids where "map_of (subscribers b) (sub_topic s) = Some ids" "sid \<in> set ids"
      by (cases "map_of (subscribers b) (sub_topic s)") (auto simp: route_def)
    then show "sid \<in> set ?ids" by (force dest: map_of_SomeD)
  qed
  show ?thesis
  proof (cases "heap b sid")
    case (Some s)
    with assms have "if sid \<in> set (route b (sub_topic s)) then alive s else dead s" by (auto simp: bus_ok_def)
    with Some ids [OF Some] show ?thesis
      by (auto simp: shutdown_bus_def h close_locked_def alive_def dead_def split: if_splits)
  qed (simp add: shutdown_bus_def h)
qed

lemma shutdown_route [simp]: "route (shutdown_bus b) t = []" "subscribers (shutdown_bus b) = []"
  by (simp_all add: route_def shutdown_bus_def)

lemma shutdown_ok [inv_intros]:
  assumes "bus_ok b"
  shows "bus_ok (shutdown_bus b)"
proof -
  have n: "next_id (shutdown_bus b) = next_id b" by (simp add: shutdown_bus_def)
  have "sub_ok s' \<and> sub_id s' = sid \<and> sid \<le> next_id b \<and> dead s'"
    if "heap (shutdown_bus b) sid = Some s'" for sid s'
  proof -
    from that obtain s where s: "heap b sid = Some s" "s' = (if sub_closed s then s else close_locked s)"
      unfolding shutdown_heap [OF assms] by (auto split: option.splits)
    with assms have "sub_ok s" "sub_id s = sid" "sid \<le> next_id b" "sub_closed s \<Longrightarrow> dead s"
      by (auto simp: bus_ok_def alive_def split: if_splits)
    with s close_locked_dead [of s] close_locked_ok [of s] show ?thesis by auto
  qed
  then show ?thesis by (simp add: bus_ok_def n)
qed

section \<open>Histories of the bus\<close>

text \<open>Every operation of the bus and every step of a subscription's drain goroutine and subscriber. A
  bus makes fewer than \<open>2 ^ 64\<close> subscriptions: the operation is not offered at the last identifier.\<close>

datatype 'p bus_op =
    Bus_Subscribe string "sub_option list"
  | Bus_Publish time_ns bool "'p envelope"
  | Bus_Close uint64
  | Bus_Shutdown
  | Bus_Pop uint64 | Bus_Send uint64 | Bus_Wake uint64 | Bus_Receive uint64

fun bus_step :: "'p bus_op \<Rightarrow> 'p bus \<Rightarrow> 'p bus" where
  "bus_step (Bus_Subscribe topic opts) b = (if next_id b = - 1 then b else snd (subscribe topic opts b))"
| "bus_step (Bus_Publish now ctx_done env) b = publish now ctx_done env b"
| "bus_step (Bus_Close sid) b = close_sub sid b"
| "bus_step Bus_Shutdown b = shutdown_bus b"
| "bus_step (Bus_Pop sid) b = update_sub sid drain_pop b"
| "bus_step (Bus_Send sid) b = update_sub sid drain_send b"
| "bus_step (Bus_Wake sid) b = update_sub sid drain_wake b"
| "bus_step (Bus_Receive sid) b = update_sub sid (\<lambda>s. snd (receive s)) b"

lemma bus_step_ok: "bus_ok b \<Longrightarrow> bus_ok (bus_step op b)"
  by (cases op) (auto intro: inv_intros update_sub_ok drain_life receive_life receive_ok
      simp: drain_pop_step drain_send_step drain_wake_step)

interpretation bus: op_machine bus_step "\<lambda>_. True" bus_ok
  by unfold_locales (rule bus_step_ok)

section \<open>Properties\<close>



text \<open>
  Publishing reaches exactly the subscribers of the topic, once each: after \<open>Publish\<close> on a bus in
  a state its operations can reach, a subscription is the result of one delivery of the stamped
  envelope if the table routes the topic to it, and is unchanged otherwise; the order in which the
  runtime iterates the subscribers plays no role.
\<close>

theorem publish_exact:
  assumes "b = fold bus_step ops (new_bus opts)" and "env_topic env \<noteq> []"
    and "env_timestamp env \<noteq> 0" and "env_source env \<noteq> []"
  shows "heap (publish now ctx_done env b) sid =
      (if sid \<in> set (route b (env_topic env)) then map_option (deliver ctx_done env) (heap b sid)
       else heap b sid) \<and>
    subscribers (publish now ctx_done env b) = subscribers b"
proof -
  have "bus_ok b" unfolding assms(1) by (rule bus.inv_run) (simp_all add: new_bus_ok)
  then have "distinct (route b (env_topic env))" by (simp add: bus_ok_def)
  with assms(2-4) show ?thesis by (simp add: publish_def Let_def fold_update_heap)
qed

theorem publish_exact_witness:
  "heap (publish 5 False (ev_named ''1'') (fold bus_step [Bus_Subscribe ''t'' [], Bus_Subscribe ''u'' []] (new_bus []))) 2 =
   heap (fold bus_step [Bus_Subscribe ''t'' [], Bus_Subscribe ''u'' []] (new_bus [])) 2"
proof -
  let ?b = "fold bus_step [Bus_Subscribe ''t'' [], Bus_Subscribe ''u'' []] (new_bus [] :: unit bus)"
  have n: "2 \<notin> set (route ?b ''t'')"
    by (auto simp: subscribe_def new_bus_def route_def Let_def split: prod.splits)
  have e: "env_topic (ev_named ''1'') \<noteq> []" "env_timestamp (ev_named ''1'') \<noteq> 0"
    "env_source (ev_named ''1'') \<noteq> []" and t: "env_topic (ev_named ''1'') = ''t''"
    by (simp_all add: ev_named_def)
  from publish_exact [OF refl e] n show ?thesis unfolding t by (simp only: if_False)
qed

text \<open>
  \<open>Shutdown\<close> closes every subscription and empties the table; closing a subscription again, before
  or after, does nothing.
\<close>

theorem shutdown_closes_all:
  assumes "b = fold bus_step ops (new_bus opts)"
  shows "subscribers (shutdown_bus b) = [] \<and>
    (case heap (shutdown_bus b) sid of None \<Rightarrow> heap b sid = None
     | Some s \<Rightarrow> sub_closed s \<and> sub_ch_closed s \<and> sub_done s) \<and>
    close_sub sid (shutdown_bus b) = shutdown_bus b \<and> close_sub sid (close_sub sid b) = close_sub sid b"
proof -
  have ok: "bus_ok b" unfolding assms by (rule bus.inv_run) (simp_all add: new_bus_ok)
  have all: "dead s" if "heap (shutdown_bus b) sid = Some s" for s
    using shutdown_ok [OF ok] that by (auto simp: bus_ok_def)
  have closed: "(case heap (shutdown_bus b) sid of None \<Rightarrow> heap b sid = None
      | Some s \<Rightarrow> sub_closed s \<and> sub_ch_closed s \<and> sub_done s) \<and> close_sub sid (shutdown_bus b) = shutdown_bus b"
  proof (cases "heap (shutdown_bus b) sid")
    case None
    then have "heap b sid = None" unfolding shutdown_heap [OF ok] by (auto split: option.splits)
    with None show ?thesis by (simp add: close_sub_def)
  next
    case (Some s)
    with all [OF Some] show ?thesis by (simp add: close_sub_def dead_def)
  qed
  moreover have "close_sub sid (close_sub sid b) = close_sub sid b"
  proof (cases "\<exists>s. heap b sid = Some s \<and> \<not> sub_closed s")
    case True
    then obtain s where s: "heap b sid = Some s" "\<not> sub_closed s" by blast
    with close_sub_eq [OF s] close_locked_dead [OF s(2)]
    have "\<exists>s'. heap (close_sub sid b) sid = Some s' \<and> sub_closed s'" by (simp add: dead_def)
    then show ?thesis by (auto simp: close_sub_def [of sid "close_sub sid b"])
  qed (auto simp: close_sub_def split: option.splits)
  ultimately show ?thesis using closed by simp
qed

theorem shutdown_closes_all_witness:
  "subscribers (shutdown_bus (fold bus_step [Bus_Subscribe ''t'' []] (new_bus [] :: unit bus))) = [] \<and>
   close_sub 1 (shutdown_bus (fold bus_step [Bus_Subscribe ''t'' []] (new_bus [] :: unit bus))) =
   shutdown_bus (fold bus_step [Bus_Subscribe ''t'' []] (new_bus []))"
  using shutdown_closes_all [OF refl] by blast

end
