(* ===== verification/BusConcurrency.thy ===== *)
theory BusConcurrency
  imports BusRouting
begin

text \<open>
  The locking discipline of one subscription (\<open>internal/eventbus/bus.go\<close>): any number of goroutines
  publish, close the subscription or shut the bus down while the drain goroutine runs. Each rule is
  one atomic action of the code, a lock operation, a load or compare-and-swap of \<open>closed\<close>, a channel
  operation or a close; what the queues hold is left out here (\<open>EventBus\<close> treats it), so that a
  rule may fire whatever the data. A send on a closed channel and a second close, which panic in Go,
  are recorded.
\<close>

section \<open>States\<close>

text \<open>Where a goroutine is: in \<open>publish\<close>, in \<open>Close\<close> or in \<open>Shutdown\<close>.\<close>

datatype pc =
    Idle
  | Pub_Locked      \<comment> \<open>holds the read lock\<close>
  | Pub_Found       \<comment> \<open>found the subscription in the table\<close>
  | Pub_Open        \<comment> \<open>saw \<open>closed = false\<close>\<close>
  | Pub_Received    \<comment> \<open>after the first select of \<open>dropOldestAndEnqueue\<close>\<close>
  | Cl_Start        \<comment> \<open>saw \<open>closed = false\<close>, before the compare-and-swap\<close>
  | Cl_Won | Cl_Cancelled | Cl_Waited | Cl_Done
  | Cl_Locked | Cl_Deleted
  | Sh_Locked | Sh_Won | Sh_Cancelled | Sh_Waited | Sh_Done
  | Sh_Closed       \<comment> \<open>\<open>closeLocked\<close> has returned, before the deletion\<close>

datatype drain_pc = D_Sweep | D_Hold | D_Wait | D_Exited

record conc =
  pcs :: "nat \<Rightarrow> pc"
  readers :: "nat set"
  writer :: "nat option"
  registered :: bool
  c_closed :: bool
  cancelled :: bool
  drain :: drain_pc
  done_closes :: nat
  ch_closes :: nat
  bad_send :: bool

definition at :: "nat \<Rightarrow> pc \<Rightarrow> conc \<Rightarrow> conc" where
  "at t p s = s\<lparr>pcs := (pcs s)(t := p)\<rparr>"

definition unlock_read :: "nat \<Rightarrow> conc \<Rightarrow> conc" where
  "unlock_read t s = at t Idle (s\<lparr>readers := readers s - {t}\<rparr>)"

definition unlock_write :: "nat \<Rightarrow> conc \<Rightarrow> conc" where
  "unlock_write t s = at t Idle (s\<lparr>writer := None\<rparr>)"

text \<open>A send on the channel.\<close>

definition send_ch :: "conc \<Rightarrow> conc" where
  "send_ch s = s\<lparr>bad_send := bad_send s \<or> 0 < ch_closes s\<rparr>"

text \<open>A fresh subscription in the table, with a running drain goroutine or without one.\<close>

inductive conc_init :: "conc \<Rightarrow> bool" where
  "pcs s = (\<lambda>_. Idle) \<Longrightarrow> readers s = {} \<Longrightarrow> writer s = None \<Longrightarrow> registered s \<Longrightarrow> \<not> c_closed s \<Longrightarrow>
   \<not> cancelled s \<Longrightarrow> drain s \<in> {D_Sweep, D_Exited} \<Longrightarrow> done_closes s = 0 \<Longrightarrow> ch_closes s = 0 \<Longrightarrow>
   \<not> bad_send s \<Longrightarrow> conc_init s"

section \<open>Steps\<close>

text \<open>A goroutine enters \<open>publish\<close>, \<open>Close\<close> or \<open>Shutdown\<close>.\<close>

inductive begin_step :: "conc \<Rightarrow> conc \<Rightarrow> bool" where
  pub_rlock: "pcs s t = Idle \<Longrightarrow> writer s = None \<Longrightarrow>
    begin_step s (at t Pub_Locked (s\<lparr>readers := insert t (readers s)\<rparr>))"
| cl_load: "pcs s t = Idle \<Longrightarrow> \<not> c_closed s \<Longrightarrow> begin_step s (at t Cl_Start s)"
| sh_lock: "pcs s t = Idle \<Longrightarrow> writer s = None \<Longrightarrow> readers s = {} \<Longrightarrow>
    begin_step s (at t Sh_Locked (s\<lparr>writer := Some t\<rparr>))"

text \<open>A goroutine that is inside one of them, or the drain goroutine, goes on.\<close>

inductive work_step :: "conc \<Rightarrow> conc \<Rightarrow> bool" where
  pub_absent: "pcs s t = Pub_Locked \<Longrightarrow> \<not> registered s \<Longrightarrow> work_step s (unlock_read t s)"
| pub_found: "pcs s t = Pub_Locked \<Longrightarrow> registered s \<Longrightarrow> work_step s (at t Pub_Found s)"
| pub_closed: "pcs s t = Pub_Found \<Longrightarrow> c_closed s \<Longrightarrow> work_step s (unlock_read t s)"
| pub_open: "pcs s t = Pub_Found \<Longrightarrow> \<not> c_closed s \<Longrightarrow> work_step s (at t Pub_Open s)"
| pub_queue: "pcs s t = Pub_Open \<Longrightarrow> work_step s (unlock_read t s)"
| pub_send: "pcs s t = Pub_Open \<Longrightarrow> work_step s (unlock_read t (send_ch s))"
| pub_recv: "pcs s t = Pub_Open \<Longrightarrow> work_step s (at t Pub_Received s)"
| pub_resend: "pcs s t = Pub_Received \<Longrightarrow> work_step s (unlock_read t (send_ch s))"
| cl_lost: "pcs s t = Cl_Start \<Longrightarrow> c_closed s \<Longrightarrow> work_step s (at t Idle s)"
| cl_won: "pcs s t = Cl_Start \<Longrightarrow> \<not> c_closed s \<Longrightarrow> work_step s (at t Cl_Won (s\<lparr>c_closed := True\<rparr>))"
| cl_cancel: "pcs s t = Cl_Won \<Longrightarrow> work_step s (at t Cl_Cancelled (s\<lparr>cancelled := True\<rparr>))"
| cl_wait: "pcs s t = Cl_Cancelled \<Longrightarrow> drain s = D_Exited \<Longrightarrow> work_step s (at t Cl_Waited s)"
| cl_done: "pcs s t = Cl_Waited \<Longrightarrow> work_step s (at t Cl_Done (s\<lparr>done_closes := Suc (done_closes s)\<rparr>))"
| cl_lock: "pcs s t = Cl_Done \<Longrightarrow> writer s = None \<Longrightarrow> readers s = {} \<Longrightarrow>
    work_step s (at t Cl_Locked (s\<lparr>writer := Some t\<rparr>))"
| cl_delete: "pcs s t = Cl_Locked \<Longrightarrow> work_step s (at t Cl_Deleted (s\<lparr>registered := False\<rparr>))"
| cl_close: "pcs s t = Cl_Deleted \<Longrightarrow> work_step s (unlock_write t (s\<lparr>ch_closes := Suc (ch_closes s)\<rparr>))"
| sh_absent: "pcs s t = Sh_Locked \<Longrightarrow> \<not> registered s \<Longrightarrow> work_step s (unlock_write t s)"
| sh_lost: "pcs s t = Sh_Locked \<Longrightarrow> registered s \<Longrightarrow> c_closed s \<Longrightarrow> work_step s (at t Sh_Closed s)"
| sh_won: "pcs s t = Sh_Locked \<Longrightarrow> registered s \<Longrightarrow> \<not> c_closed s \<Longrightarrow>
    work_step s (at t Sh_Won (s\<lparr>c_closed := True\<rparr>))"
| sh_cancel: "pcs s t = Sh_Won \<Longrightarrow> work_step s (at t Sh_Cancelled (s\<lparr>cancelled := True\<rparr>))"
| sh_wait: "pcs s t = Sh_Cancelled \<Longrightarrow> drain s = D_Exited \<Longrightarrow> work_step s (at t Sh_Waited s)"
| sh_done: "pcs s t = Sh_Waited \<Longrightarrow> work_step s (at t Sh_Done (s\<lparr>done_closes := Suc (done_closes s)\<rparr>))"
| sh_close: "pcs s t = Sh_Done \<Longrightarrow> work_step s (at t Sh_Closed (s\<lparr>ch_closes := Suc (ch_closes s)\<rparr>))"
| sh_delete: "pcs s t = Sh_Closed \<Longrightarrow> work_step s (unlock_write t (s\<lparr>registered := False\<rparr>))"
| d_pop: "drain s = D_Sweep \<Longrightarrow> work_step s (s\<lparr>drain := D_Hold\<rparr>)"
| d_empty: "drain s = D_Sweep \<Longrightarrow> work_step s (s\<lparr>drain := D_Wait\<rparr>)"
| d_send: "drain s = D_Hold \<Longrightarrow> work_step s ((send_ch s)\<lparr>drain := D_Sweep\<rparr>)"
| d_wake: "drain s = D_Wait \<Longrightarrow> work_step s (s\<lparr>drain := D_Sweep\<rparr>)"
| d_cancel: "drain s = D_Hold \<or> drain s = D_Wait \<Longrightarrow> cancelled s \<Longrightarrow> work_step s (s\<lparr>drain := D_Exited\<rparr>)"

inductive conc_reachable :: "conc \<Rightarrow> bool" where
  start: "conc_init s \<Longrightarrow> conc_reachable s"
| begins: "conc_reachable s \<Longrightarrow> begin_step s s' \<Longrightarrow> conc_reachable s'"
| works: "conc_reachable s \<Longrightarrow> work_step s s' \<Longrightarrow> conc_reachable s'"

inductive_cases begin_stepE: "begin_step s s'"
inductive_cases work_stepE: "work_step s s'"

section \<open>Invariant\<close>

definition reading :: "pc \<Rightarrow> bool" where
  "reading p \<longleftrightarrow> p \<in> {Pub_Locked, Pub_Found, Pub_Open, Pub_Received}"

definition writing :: "pc \<Rightarrow> bool" where
  "writing p \<longleftrightarrow> p \<in> {Cl_Locked, Cl_Deleted, Sh_Locked, Sh_Won, Sh_Cancelled, Sh_Waited, Sh_Done, Sh_Closed}"

text \<open>The goroutine that has won the compare-and-swap and has not closed the channel yet.\<close>

definition closing :: "pc \<Rightarrow> bool" where
  "closing p \<longleftrightarrow> p \<in> {Cl_Won, Cl_Cancelled, Cl_Waited, Cl_Done, Cl_Locked, Cl_Deleted,
     Sh_Won, Sh_Cancelled, Sh_Waited, Sh_Done}"

definition done_signalled :: "pc \<Rightarrow> bool" where
  "done_signalled p \<longleftrightarrow> p \<in> {Cl_Done, Cl_Locked, Cl_Deleted, Sh_Done}"

definition drained :: "pc \<Rightarrow> bool" where
  "drained p \<longleftrightarrow> p \<in> {Cl_Waited, Cl_Done, Cl_Locked, Cl_Deleted, Sh_Waited, Sh_Done}"

definition finding :: "pc \<Rightarrow> bool" where
  "finding p \<longleftrightarrow> p \<in> {Pub_Found, Pub_Open, Pub_Received}"

lemmas pc_sets = reading_def writing_def closing_def done_signalled_def drained_def finding_def

lemma reading_simps [simp]:
  "\<not> reading Idle" "reading Pub_Locked" "reading Pub_Found" "reading Pub_Open"
  "reading Pub_Received" "\<not> reading Cl_Start" "\<not> reading Cl_Won"
  "\<not> reading Cl_Cancelled" "\<not> reading Cl_Waited" "\<not> reading Cl_Done"
  "\<not> reading Cl_Locked" "\<not> reading Cl_Deleted" "\<not> reading Sh_Locked"
  "\<not> reading Sh_Won" "\<not> reading Sh_Cancelled" "\<not> reading Sh_Waited"
  "\<not> reading Sh_Done" "\<not> reading Sh_Closed"
  by (simp_all add: reading_def)

lemma writing_simps [simp]:
  "\<not> writing Idle" "\<not> writing Pub_Locked" "\<not> writing Pub_Found"
  "\<not> writing Pub_Open" "\<not> writing Pub_Received" "\<not> writing Cl_Start"
  "\<not> writing Cl_Won" "\<not> writing Cl_Cancelled" "\<not> writing Cl_Waited"
  "\<not> writing Cl_Done" "writing Cl_Locked" "writing Cl_Deleted" "writing Sh_Locked"
  "writing Sh_Won" "writing Sh_Cancelled" "writing Sh_Waited" "writing Sh_Done"
  "writing Sh_Closed"
  by (simp_all add: writing_def)

lemma closing_simps [simp]:
  "\<not> closing Idle" "\<not> closing Pub_Locked" "\<not> closing Pub_Found"
  "\<not> closing Pub_Open" "\<not> closing Pub_Received" "\<not> closing Cl_Start"
  "closing Cl_Won" "closing Cl_Cancelled" "closing Cl_Waited" "closing Cl_Done"
  "closing Cl_Locked" "closing Cl_Deleted" "\<not> closing Sh_Locked" "closing Sh_Won"
  "closing Sh_Cancelled" "closing Sh_Waited" "closing Sh_Done" "\<not> closing Sh_Closed"
  by (simp_all add: closing_def)

lemma done_signalled_simps [simp]:
  "\<not> done_signalled Idle" "\<not> done_signalled Pub_Locked"
  "\<not> done_signalled Pub_Found" "\<not> done_signalled Pub_Open"
  "\<not> done_signalled Pub_Received" "\<not> done_signalled Cl_Start"
  "\<not> done_signalled Cl_Won" "\<not> done_signalled Cl_Cancelled"
  "\<not> done_signalled Cl_Waited" "done_signalled Cl_Done" "done_signalled Cl_Locked"
  "done_signalled Cl_Deleted" "\<not> done_signalled Sh_Locked" "\<not> done_signalled Sh_Won"
  "\<not> done_signalled Sh_Cancelled" "\<not> done_signalled Sh_Waited" "done_signalled Sh_Done"
  "\<not> done_signalled Sh_Closed"
  by (simp_all add: done_signalled_def)

lemma drained_simps [simp]:
  "\<not> drained Idle" "\<not> drained Pub_Locked" "\<not> drained Pub_Found"
  "\<not> drained Pub_Open" "\<not> drained Pub_Received" "\<not> drained Cl_Start"
  "\<not> drained Cl_Won" "\<not> drained Cl_Cancelled" "drained Cl_Waited" "drained Cl_Done"
  "drained Cl_Locked" "drained Cl_Deleted" "\<not> drained Sh_Locked" "\<not> drained Sh_Won"
  "\<not> drained Sh_Cancelled" "drained Sh_Waited" "drained Sh_Done" "\<not> drained Sh_Closed"
  by (simp_all add: drained_def)

lemma finding_simps [simp]:
  "\<not> finding Idle" "\<not> finding Pub_Locked" "finding Pub_Found" "finding Pub_Open"
  "finding Pub_Received" "\<not> finding Cl_Start" "\<not> finding Cl_Won"
  "\<not> finding Cl_Cancelled" "\<not> finding Cl_Waited" "\<not> finding Cl_Done"
  "\<not> finding Cl_Locked" "\<not> finding Cl_Deleted" "\<not> finding Sh_Locked"
  "\<not> finding Sh_Won" "\<not> finding Sh_Cancelled" "\<not> finding Sh_Waited"
  "\<not> finding Sh_Done" "\<not> finding Sh_Closed"
  by (simp_all add: finding_def)

text \<open>The locks: who holds them follows from where the goroutines are.\<close>

definition locks_ok :: "conc \<Rightarrow> bool" where
  "locks_ok s \<longleftrightarrow> (\<forall>t. t \<in> readers s \<longleftrightarrow> reading (pcs s t)) \<and>
     (\<forall>t. writer s = Some t \<longleftrightarrow> writing (pcs s t)) \<and> (writer s \<noteq> None \<longrightarrow> readers s = {})"

text \<open>The three phases of the subscription's life.\<close>

definition open_phase :: "conc \<Rightarrow> bool" where
  "open_phase s \<longleftrightarrow> \<not> c_closed s \<and> (\<forall>t. \<not> closing (pcs s t)) \<and> ch_closes s = 0 \<and> done_closes s = 0"

definition closing_phase :: "nat \<Rightarrow> conc \<Rightarrow> bool" where
  "closing_phase t s \<longleftrightarrow> c_closed s \<and> closing (pcs s t) \<and> (\<forall>u. u \<noteq> t \<longrightarrow> \<not> closing (pcs s u)) \<and>
     ch_closes s = 0 \<and> done_closes s = (if done_signalled (pcs s t) then 1 else 0) \<and>
     (drained (pcs s t) \<longrightarrow> drain s = D_Exited) \<and>
     (pcs s t = Cl_Cancelled \<or> pcs s t = Sh_Cancelled \<longrightarrow> cancelled s)"

definition closed_phase :: "conc \<Rightarrow> bool" where
  "closed_phase s \<longleftrightarrow> c_closed s \<and> (\<forall>t. \<not> closing (pcs s t)) \<and> ch_closes s = 1 \<and> done_closes s = 1 \<and>
     drain s = D_Exited"

definition closing_ok :: "conc \<Rightarrow> bool" where
  "closing_ok s \<longleftrightarrow> open_phase s \<or> (\<exists>t. closing_phase t s) \<or> closed_phase s"

text \<open>The table: it leads to a closed channel only inside \<open>Shutdown\<close>, which holds the write lock.\<close>

definition table_ok :: "conc \<Rightarrow> bool" where
  "table_ok s \<longleftrightarrow> (0 < ch_closes s \<longrightarrow> registered s \<longrightarrow> (\<exists>t. pcs s t = Sh_Closed)) \<and>
     (\<forall>t. finding (pcs s t) \<longrightarrow> registered s) \<and> (\<forall>t. pcs s t = Cl_Deleted \<longrightarrow> \<not> registered s)"

definition conc_inv :: "conc \<Rightarrow> bool" where
  "conc_inv s \<longleftrightarrow> locks_ok s \<and> closing_ok s \<and> table_ok s \<and> \<not> bad_send s"

section \<open>Frame lemmas\<close>

lemma locks_frame [simp]:
  "locks_ok (s\<lparr>registered := r\<rparr>) = locks_ok s" "locks_ok (s\<lparr>c_closed := b\<rparr>) = locks_ok s"
  "locks_ok (s\<lparr>cancelled := b\<rparr>) = locks_ok s" "locks_ok (s\<lparr>drain := d\<rparr>) = locks_ok s"
  "locks_ok (s\<lparr>done_closes := n\<rparr>) = locks_ok s" "locks_ok (s\<lparr>ch_closes := n\<rparr>) = locks_ok s"
  "locks_ok (send_ch s) = locks_ok s"
  by (simp_all add: locks_ok_def send_ch_def)

lemma locks_at: "locks_ok s \<Longrightarrow> reading p = reading (pcs s t) \<Longrightarrow> writing p = writing (pcs s t) \<Longrightarrow>
    locks_ok (at t p s)"
  by (auto simp: locks_ok_def at_def)

lemma pc_kinds: "reading Idle = False" "writing Idle = False" "closing Idle = False" "finding Idle = False"
  by (auto simp: pc_sets)

lemma pc_excl: "reading p \<Longrightarrow> \<not> writing p" "finding p \<Longrightarrow> reading p" "reading p \<Longrightarrow> \<not> closing p"
  by (auto simp: pc_sets)

lemma locks_unlock_read: "locks_ok s \<Longrightarrow> reading (pcs s t) \<Longrightarrow> locks_ok (unlock_read t s)"
  by (auto simp: locks_ok_def unlock_read_def at_def pc_kinds)

lemma locks_unlock_write: "locks_ok s \<Longrightarrow> writing (pcs s t) \<Longrightarrow> locks_ok (unlock_write t s)"
  by (auto simp: locks_ok_def unlock_write_def at_def pc_kinds) (metis option.inject)

lemma locks_rlock: "locks_ok s \<Longrightarrow> \<not> reading (pcs s t) \<Longrightarrow> \<not> writing (pcs s t) \<Longrightarrow> writer s = None \<Longrightarrow>
    reading p \<Longrightarrow> locks_ok (at t p (s\<lparr>readers := insert t (readers s)\<rparr>))"
  by (auto simp: locks_ok_def at_def dest: pc_excl)

lemma locks_lock: "locks_ok s \<Longrightarrow> writer s = None \<Longrightarrow> readers s = {} \<Longrightarrow> writing p \<Longrightarrow> \<not> reading p \<Longrightarrow>
    locks_ok (at t p (s\<lparr>writer := Some t\<rparr>))"
  by (auto simp: locks_ok_def at_def)

lemma closing_frame [simp]:
  "closing_ok (s\<lparr>registered := r\<rparr>) = closing_ok s" "closing_ok (s\<lparr>readers := b\<rparr>) = closing_ok s"
  "closing_ok (s\<lparr>writer := w\<rparr>) = closing_ok s" "closing_ok (send_ch s) = closing_ok s"
  by (simp_all add: closing_ok_def open_phase_def closing_phase_def closed_phase_def send_ch_def)

lemma closing_at: "closing_ok s \<Longrightarrow> \<not> closing (pcs s t) \<Longrightarrow> \<not> closing p \<Longrightarrow> closing_ok (at t p s)"
proof -
  assume a: "closing_ok s" "\<not> closing (pcs s t)" "\<not> closing p"
  have "closing_phase u s \<Longrightarrow> closing_phase u (at t p s)" for u
    using a(2,3) by (auto simp: closing_phase_def at_def)
  moreover have "open_phase s \<Longrightarrow> open_phase (at t p s)" "closed_phase s \<Longrightarrow> closed_phase (at t p s)"
    using a(3) by (auto simp: open_phase_def closed_phase_def at_def)
  ultimately show ?thesis using a(1) by (auto simp: closing_ok_def)
qed

lemma the_closing: "closing_ok s \<Longrightarrow> closing (pcs s t) \<Longrightarrow> closing_phase t s"
  by (auto simp: closing_ok_def open_phase_def closed_phase_def) (metis closing_phase_def)

lemma closing_phase_ok: "closing_phase t s \<Longrightarrow> closing_ok s"
  by (auto simp: closing_ok_def)

lemma closing_drain: "closing_ok s \<Longrightarrow> drain s \<noteq> D_Exited \<Longrightarrow> closing_ok (s\<lparr>drain := d\<rparr>)"
  by (auto simp: closing_ok_def open_phase_def closing_phase_def closed_phase_def)

lemma table_frame [simp]:
  "table_ok (s\<lparr>readers := r\<rparr>) = table_ok s" "table_ok (s\<lparr>writer := w\<rparr>) = table_ok s"
  "table_ok (s\<lparr>c_closed := b\<rparr>) = table_ok s" "table_ok (s\<lparr>cancelled := b\<rparr>) = table_ok s"
  "table_ok (s\<lparr>drain := d\<rparr>) = table_ok s" "table_ok (s\<lparr>done_closes := n\<rparr>) = table_ok s"
  "table_ok (send_ch s) = table_ok s"
  by (simp_all add: table_ok_def send_ch_def)

lemma table_at: "table_ok s \<Longrightarrow> pcs s t \<noteq> Sh_Closed \<Longrightarrow> (finding p \<longrightarrow> registered s) \<Longrightarrow>
    (p = Cl_Deleted \<longrightarrow> \<not> registered s) \<Longrightarrow> table_ok (at t p s)"
  by (auto simp: table_ok_def at_def)

lemma table_registered: "table_ok s \<Longrightarrow> finding (pcs s t) \<Longrightarrow> registered s"
  by (auto simp: table_ok_def)

lemma upd_fields [simp]:
  "bad_send (at t p s) = bad_send s" "bad_send (unlock_read t s) = bad_send s"
  "bad_send (unlock_write t s) = bad_send s" "bad_send (send_ch s) \<longleftrightarrow> bad_send s \<or> 0 < ch_closes s"
  "pcs (send_ch s) = pcs s" "ch_closes (send_ch s) = ch_closes s" "pcs (at t p s) = (pcs s)(t := p)"
  by (simp_all add: at_def unlock_read_def unlock_write_def send_ch_def)

text \<open>While a goroutine delivers, and while the drain goroutine lives, the channel is open.\<close>

lemma delivering_open:
  assumes "conc_inv s" "finding (pcs s t)"
  shows "ch_closes s = 0"
proof (rule ccontr)
  assume "ch_closes s \<noteq> 0"
  with assms obtain u where "pcs s u = Sh_Closed" by (auto simp: conc_inv_def table_ok_def)
  then have "writing (pcs s u)" by (simp add: writing_def)
  with assms(1) have "readers s = {}" by (auto simp: conc_inv_def locks_ok_def)
  moreover have "t \<in> readers s" using assms by (auto simp: conc_inv_def locks_ok_def pc_excl)
  ultimately show False by simp
qed

lemma draining_open: "conc_inv s \<Longrightarrow> drain s \<noteq> D_Exited \<Longrightarrow> ch_closes s = 0"
  by (auto simp: conc_inv_def closing_ok_def open_phase_def closing_phase_def closed_phase_def)

section \<open>The invariant is inductive\<close>

lemma init_inv: "conc_init s \<Longrightarrow> conc_inv s"
  by (auto simp: conc_init.simps conc_inv_def locks_ok_def closing_ok_def open_phase_def table_ok_def pc_sets)

lemma begin_inv:
  assumes "begin_step s s'" "conc_inv s"
  shows "conc_inv s'"
  using assms(1)
proof (cases rule: begin_step.cases)
  case (pub_rlock t)
  then show ?thesis using assms(2)
    by (auto simp: conc_inv_def intro!: locks_rlock closing_at table_at)
next
  case (cl_load t)
  then show ?thesis using assms(2)
    by (auto simp: conc_inv_def intro!: locks_at closing_at table_at)
next
  case (sh_lock t)
  then show ?thesis using assms(2)
    by (auto simp: conc_inv_def intro!: locks_lock closing_at table_at)
qed

text \<open>The goroutine that closes goes from one stage to the next.\<close>

lemma winner_at:
  assumes "closing_phase t s" "closing p" "done_signalled p = done_signalled (pcs s t)"
    "drained p \<Longrightarrow> drain s = D_Exited" "p = Cl_Cancelled \<or> p = Sh_Cancelled \<Longrightarrow> cancelled s"
  shows "closing_phase t (at t p s)"
  using assms by (auto simp: closing_phase_def at_def)

lemma winner_done:
  assumes "closing_phase t s" "closing p" "\<not> done_signalled (pcs s t)" "done_signalled p"
    "drain s = D_Exited" "p \<noteq> Cl_Cancelled" "p \<noteq> Sh_Cancelled"
  shows "closing_phase t (at t p (s\<lparr>done_closes := Suc (done_closes s)\<rparr>))"
  using assms by (auto simp: closing_phase_def at_def)

lemma winner_closes:
  assumes "closing_phase t s" "\<not> closing p" "done_signalled (pcs s t)" "drained (pcs s t)"
  shows "closing_ok (at t p (s\<lparr>ch_closes := Suc (ch_closes s)\<rparr>))"
  using assms by (auto simp: closing_ok_def closed_phase_def closing_phase_def at_def)

lemma winner_starts:
  assumes "closing_ok s" "\<not> c_closed s" "closing p" "\<not> drained p" "\<not> done_signalled p"
    "p \<noteq> Cl_Cancelled" "p \<noteq> Sh_Cancelled"
  shows "closing_phase t (at t p (s\<lparr>c_closed := True\<rparr>))"
  using assms by (auto simp: closing_ok_def open_phase_def closed_phase_def closing_phase_def at_def)

lemma cancel_phase: "closing_phase t s \<Longrightarrow> closing_phase t (s\<lparr>cancelled := True\<rparr>)"
  by (simp add: closing_phase_def)

lemma phase_writer [simp]: "closing_phase t (s\<lparr>writer := w\<rparr>) = closing_phase t s"
  "closing_phase t (s\<lparr>registered := r\<rparr>) = closing_phase t s"
  by (simp_all add: closing_phase_def)

lemma work_inv:
  assumes step: "work_step s s'" and inv: "conc_inv s"
  shows "conc_inv s'"
proof -
  from inv have L: "locks_ok s" and C: "closing_ok s" and T: "table_ok s" and B: "\<not> bad_send s"
    by (auto simp: conc_inv_def)
  note ph = the_closing [OF C]
  from step show ?thesis
  proof (cases rule: work_step.cases)
    case (pub_absent t)
    then show ?thesis using L C T B
      by (simp add: conc_inv_def locks_unlock_read) (simp add: unlock_read_def closing_at table_at)
  next
    case (pub_found t)
    then show ?thesis using L C T B by (simp add: conc_inv_def locks_at closing_at table_at)
  next
    case (pub_closed t)
    then show ?thesis using L C T B
      by (simp add: conc_inv_def locks_unlock_read) (simp add: unlock_read_def closing_at table_at)
  next
    case (pub_open t)
    then have "registered s" using table_registered [OF T, of t] by simp
    with pub_open show ?thesis using L C T B by (simp add: conc_inv_def locks_at closing_at table_at)
  next
    case (pub_queue t)
    then show ?thesis using L C T B
      by (simp add: conc_inv_def locks_unlock_read) (simp add: unlock_read_def closing_at table_at)
  next
    case (pub_send t)
    then have "ch_closes s = 0" using delivering_open [OF inv, of t] by simp
    with pub_send show ?thesis using L C T B
      by (simp add: conc_inv_def locks_unlock_read) (simp add: unlock_read_def closing_at table_at)
  next
    case (pub_recv t)
    then have "registered s" using table_registered [OF T, of t] by simp
    with pub_recv show ?thesis using L C T B by (simp add: conc_inv_def locks_at closing_at table_at)
  next
    case (pub_resend t)
    then have "ch_closes s = 0" using delivering_open [OF inv, of t] by simp
    with pub_resend show ?thesis using L C T B
      by (simp add: conc_inv_def locks_unlock_read) (simp add: unlock_read_def closing_at table_at)
  next
    case (cl_lost t)
    then show ?thesis using L C T B by (simp add: conc_inv_def locks_at closing_at table_at)
  next
    case (cl_won t)
    then have "closing_phase t (at t Cl_Won (s\<lparr>c_closed := True\<rparr>))"
      using C by (intro winner_starts) simp_all
    with cl_won show ?thesis using L T B
      by (simp add: conc_inv_def locks_at table_at closing_phase_ok)
  next
    case (cl_cancel t)
    then have "closing_phase t (at t Cl_Cancelled (s\<lparr>cancelled := True\<rparr>))"
      by (intro winner_at cancel_phase ph) simp_all
    with cl_cancel show ?thesis using L T B
      by (simp add: conc_inv_def locks_at table_at closing_phase_ok)
  next
    case (cl_wait t)
    then have "closing_phase t (at t Cl_Waited s)" by (intro winner_at ph) simp_all
    with cl_wait show ?thesis using L T B
      by (simp add: conc_inv_def locks_at table_at closing_phase_ok)
  next
    case (cl_done t)
    then have w: "closing_phase t s" using ph [of t] by simp
    then have "drain s = D_Exited" using cl_done by (simp add: closing_phase_def)
    with cl_done w have "closing_phase t (at t Cl_Done (s\<lparr>done_closes := Suc (done_closes s)\<rparr>))"
      by (intro winner_done) simp_all
    with cl_done show ?thesis using L T B
      by (simp add: conc_inv_def locks_at table_at closing_phase_ok)
  next
    case (cl_lock t)
    then have w: "closing_phase t s" using ph [of t] by simp
    then have "drain s = D_Exited" using cl_lock by (simp add: closing_phase_def)
    with cl_lock w have "closing_phase t (at t Cl_Locked (s\<lparr>writer := Some t\<rparr>))"
      by (intro winner_at) simp_all
    with cl_lock show ?thesis using L T B
      by (simp add: conc_inv_def locks_lock table_at closing_phase_ok)
  next
    case (cl_delete t)
    then have "writer s = Some t" using L by (auto simp: locks_ok_def)
    then have "readers s = {}" using L by (auto simp: locks_ok_def)
    then have "\<not> finding (pcs s u)" for u using L pc_excl(2) by (auto simp: locks_ok_def)
    then have "table_ok (s\<lparr>registered := False\<rparr>)" by (simp add: table_ok_def)
    have w: "closing_phase t s" using cl_delete ph [of t] by simp
    then have "drain s = D_Exited" using cl_delete by (simp add: closing_phase_def)
    with cl_delete w have "closing_phase t (at t Cl_Deleted (s\<lparr>registered := False\<rparr>))"
      by (intro winner_at) simp_all
    with cl_delete \<open>table_ok (s\<lparr>registered := False\<rparr>)\<close> show ?thesis using L B
      by (simp add: conc_inv_def locks_at table_at closing_phase_ok)
  next
    case (cl_close t)
    then have "\<not> registered s" using T by (auto simp: table_ok_def)
    then have "table_ok (s\<lparr>ch_closes := Suc (ch_closes s), writer := None\<rparr>)" using T by (auto simp: table_ok_def)
    moreover have "closing_ok (at t Idle (s\<lparr>writer := None, ch_closes := Suc (ch_closes s)\<rparr>))"
      using winner_closes [of t "s\<lparr>writer := None\<rparr>" Idle] ph [of t] cl_close by simp
    moreover have "s\<lparr>writer := None, ch_closes := Suc (ch_closes s)\<rparr> =
        s\<lparr>ch_closes := Suc (ch_closes s), writer := None\<rparr>" by simp
    ultimately show ?thesis using cl_close L B
      by (simp only: conc_inv_def) (simp add: locks_unlock_write, simp add: unlock_write_def table_at)
  next
    case (sh_absent t)
    then show ?thesis using L C T B
      by (simp add: conc_inv_def locks_unlock_write) (simp add: unlock_write_def closing_at table_at)
  next
    case (sh_lost t)
    then show ?thesis using L C T B by (simp add: conc_inv_def locks_at closing_at table_at)
  next
    case (sh_won t)
    then have "closing_phase t (at t Sh_Won (s\<lparr>c_closed := True\<rparr>))"
      using C by (intro winner_starts) simp_all
    with sh_won show ?thesis using L T B
      by (simp add: conc_inv_def locks_at table_at closing_phase_ok)
  next
    case (sh_cancel t)
    then have "closing_phase t (at t Sh_Cancelled (s\<lparr>cancelled := True\<rparr>))"
      by (intro winner_at cancel_phase ph) simp_all
    with sh_cancel show ?thesis using L T B
      by (simp add: conc_inv_def locks_at table_at closing_phase_ok)
  next
    case (sh_wait t)
    then have "closing_phase t (at t Sh_Waited s)" by (intro winner_at ph) simp_all
    with sh_wait show ?thesis using L T B
      by (simp add: conc_inv_def locks_at table_at closing_phase_ok)
  next
    case (sh_done t)
    then have w: "closing_phase t s" using ph [of t] by simp
    then have "drain s = D_Exited" using sh_done by (simp add: closing_phase_def)
    with sh_done w have "closing_phase t (at t Sh_Done (s\<lparr>done_closes := Suc (done_closes s)\<rparr>))"
      by (intro winner_done) simp_all
    with sh_done show ?thesis using L T B
      by (simp add: conc_inv_def locks_at table_at closing_phase_ok)
  next
    case (sh_close t)
    then have "table_ok (at t Sh_Closed (s\<lparr>ch_closes := Suc (ch_closes s)\<rparr>))"
      using T by (auto simp: table_ok_def at_def)
    with sh_close show ?thesis using L B winner_closes [of t s Sh_Closed] ph [of t]
      by (simp add: conc_inv_def locks_at)
  next
    case (sh_delete t)
    then have "writer s = Some t" using L by (auto simp: locks_ok_def)
    then have "readers s = {}" using L by (auto simp: locks_ok_def)
    then have "\<not> finding (pcs s u)" for u using L pc_excl(2) by (auto simp: locks_ok_def)
    then have "table_ok (unlock_write t (s\<lparr>registered := False\<rparr>))"
      by (auto simp: table_ok_def unlock_write_def at_def)
    with sh_delete show ?thesis using L C B
      by (simp add: conc_inv_def locks_unlock_write) (simp add: unlock_write_def closing_at)
  next
    case d_send
    then have "send_ch s = s" using draining_open [OF inv] by (simp add: send_ch_def)
    with d_send show ?thesis using L C T B by (simp add: conc_inv_def closing_drain)
  qed (use L C T B in \<open>auto simp: conc_inv_def intro!: closing_drain\<close>)
qed

lemma reachable_inv: "conc_reachable s \<Longrightarrow> conc_inv s"
  by (induction rule: conc_reachable.induct) (auto intro: init_inv begin_inv work_inv)

section \<open>Properties\<close>

text \<open>
  C4: However the goroutines that publish, close the subscription and shut the bus down interleave
  with each other and with the drain goroutine, no event is ever sent on the closed channel and
  neither the channel nor the done signal is closed twice; and once the subscription is marked
  closed and all of them have returned, both are closed exactly once, the drain goroutine is gone
  and the table does not hold the subscription.
\<close>

theorem close_is_safe:
  assumes "conc_reachable s"
  shows "\<not> bad_send s \<and> ch_closes s \<le> 1 \<and> done_closes s \<le> 1 \<and>
    (c_closed s \<and> pcs s = (\<lambda>_. Idle) \<longrightarrow>
       ch_closes s = 1 \<and> done_closes s = 1 \<and> drain s = D_Exited \<and> \<not> registered s)"
proof -
  from reachable_inv [OF assms] have "closing_ok s" "table_ok s" "\<not> bad_send s"
    by (auto simp: conc_inv_def)
  then show ?thesis
    by (auto simp: closing_ok_def open_phase_def closing_phase_def closed_phase_def table_ok_def)
qed

text \<open>
  The bus does not deadlock: as long as some goroutine is inside \<open>publish\<close>, \<open>Close\<close> or
  \<open>Shutdown\<close>, one of the goroutines, or the drain goroutine they wait for, can take a step, although
  \<open>Shutdown\<close> waits for the drain goroutine while it holds the write lock.
\<close>

theorem close_never_deadlocks:
  assumes "conc_reachable s" and "pcs s t \<noteq> Idle"
  shows "\<exists>s'. work_step s s'"
proof -
  from reachable_inv [OF assms(1)] have L: "locks_ok s" and C: "closing_ok s" by (auto simp: conc_inv_def)
  have drain: "\<exists>s'. work_step s s'" if "closing_phase u s" "pcs s u = Cl_Cancelled \<or> pcs s u = Sh_Cancelled" for u
  proof -
    have c: "cancelled s" using that by (auto simp: closing_phase_def)
    show ?thesis
    proof (cases "drain s")
      case D_Sweep
      then show ?thesis by (blast intro: d_empty)
    next
      case D_Exited
      then show ?thesis using that(2) by (blast intro: cl_wait sh_wait)
    qed (use c in \<open>blast intro: d_cancel\<close>)+
  qed
  have work: "\<exists>s'. work_step s s'" if "reading (pcs s u) \<or> writing (pcs s u)" for u
  proof (cases "pcs s u = Sh_Cancelled")
    case True
    with drain [of u] the_closing [OF C, of u] show ?thesis by simp
  next
    case False
    with that show ?thesis
      by (cases "pcs s u"; cases "registered s"; cases "c_closed s") (auto intro: work_step.intros)
  qed
  show ?thesis
  proof (cases "pcs s t")
    case Cl_Start
    then show ?thesis by (cases "c_closed s") (blast intro: cl_lost cl_won)+
  next
    case Cl_Won
    then show ?thesis by (blast intro: cl_cancel)
  next
    case Cl_Cancelled
    with drain [of t] the_closing [OF C, of t] show ?thesis by simp
  next
    case Cl_Waited
    then show ?thesis by (blast intro: cl_done)
  next
    case Cl_Done
    show ?thesis
    proof (cases "writer s = None \<and> readers s = {}")
      case True
      with Cl_Done show ?thesis by (blast intro: cl_lock)
    next
      case False
      then obtain u where "reading (pcs s u) \<or> writing (pcs s u)" using L by (auto simp: locks_ok_def)
      then show ?thesis by (rule work)
    qed
  qed (use assms(2) work [of t] in simp_all)
qed

text \<open>A fresh subscription and one goroutine that has entered \<open>publish\<close>.\<close>

definition conc_example :: conc where
  "conc_example = \<lparr>pcs = (\<lambda>_. Idle)(0 := Pub_Locked), readers = {0}, writer = None, registered = True,
     c_closed = False, cancelled = False, drain = D_Sweep, done_closes = 0, ch_closes = 0, bad_send = False\<rparr>"

lemma conc_example_reachable: "conc_reachable conc_example"
proof -
  let ?s = "\<lparr>pcs = (\<lambda>_. Idle), readers = {}, writer = None, registered = True, c_closed = False,
    cancelled = False, drain = D_Sweep, done_closes = 0, ch_closes = 0, bad_send = False\<rparr>"
  have "conc_reachable ?s" by (rule start) (simp add: conc_init.simps)
  moreover have "begin_step ?s (at 0 Pub_Locked (?s\<lparr>readers := insert 0 (readers ?s)\<rparr>))"
    by (rule pub_rlock) simp_all
  moreover have "at 0 Pub_Locked (?s\<lparr>readers := insert 0 (readers ?s)\<rparr>) = conc_example"
    by (simp add: at_def conc_example_def)
  ultimately show ?thesis using begins by metis
qed

theorem close_is_safe_witness: "\<not> bad_send conc_example \<and> ch_closes conc_example \<le> 1"
  using close_is_safe [OF conc_example_reachable] by blast

theorem close_never_deadlocks_witness: "\<exists>s'. work_step conc_example s'"
  by (rule close_never_deadlocks [OF conc_example_reachable, of 0]) (simp add: conc_example_def)

end
