(* ===== verification/TermResize.thy ===== *)
theory TermResize
  imports GoStrings "HOL-Library.List_Lexorder" "HOL-Library.Char_ord"
begin

text \<open>
  Terminal resizing, \<open>internal/termresize\<close>: the session states, the modes and the manager that
  routes each resize request to the mode of its session. A mode is an interface value in Go and a
  record of its two methods here. \<open>'v\<close> is the type of metadata values (\<open>any\<close>); a nil map and an empty
  one are not told apart. \<open>handle\<close> gives up the lock while the mode decides, so it is two atomic
  steps, between which other calls may run.
\<close>

section \<open>Data\<close>

abbreviation source_host :: string where "source_host \<equiv> ''host''"
abbreviation source_client :: string where "source_client \<equiv> ''client''"

record viewport_size =
  cols :: int
  rows :: int

record 'v resize_request =
  req_session_id :: string
  req_source :: string
  req_client_id :: string
  req_size :: viewport_size
  req_sent_at :: time_ns
  req_metadata :: "string \<Rightarrow> 'v option"

record controller_ref =
  ctl_source :: string
  ctl_client_id :: string
  ctl_reason :: string
  ctl_updated_at :: time_ns

record broadcast_instruction =
  target_ids :: "string list"
  bc_size :: viewport_size
  bc_reason :: string

record 'v state_update =
  upd_controller :: "controller_ref option"
  upd_metadata :: "(string, 'v) gomap"

record 'v resize_decision =
  dec_session_id :: string
  dec_pty_size :: "viewport_size option"
  dec_broadcast :: "broadcast_instruction list"
  dec_notes :: "string list"
  dec_state :: "'v state_update"

record 'v viewport_snapshot =
  snap_size :: viewport_size
  snap_source :: string
  snap_client_id :: string
  snap_updated_at :: time_ns
  snap_metadata :: "string \<Rightarrow> 'v option"

record 'v client_registration =
  reg_client_id :: string
  reg_metadata :: "string \<Rightarrow> 'v option"
  reg_registered_at :: time_ns
  reg_updated_at :: time_ns

record 'v session_state =
  st_id :: string
  st_host :: "'v viewport_snapshot option"
  st_clients :: "string \<Rightarrow> 'v viewport_snapshot option"
  st_controller :: "controller_ref option"
  st_metadata :: "string \<Rightarrow> 'v option"
  st_connected :: "string \<Rightarrow> 'v client_registration option"

definition new_session_state :: "string \<Rightarrow> 'v session_state" where
  "new_session_state sid = \<lparr>st_id = sid, st_host = None, st_clients = (\<lambda>_. None), st_controller = None,
     st_metadata = (\<lambda>_. None), st_connected = (\<lambda>_. None)\<rparr>"

text \<open>\<open>Clone\<close> copies every level, so that a mode cannot change the shared state.\<close>

definition clone_snapshot :: "'v viewport_snapshot \<Rightarrow> 'v viewport_snapshot" where
  "clone_snapshot s = \<lparr>snap_size = snap_size s, snap_source = snap_source s,
     snap_client_id = snap_client_id s, snap_updated_at = snap_updated_at s, snap_metadata = snap_metadata s\<rparr>"

definition clone_registration :: "'v client_registration \<Rightarrow> 'v client_registration" where
  "clone_registration i = \<lparr>reg_client_id = reg_client_id i, reg_metadata = reg_metadata i,
     reg_registered_at = reg_registered_at i, reg_updated_at = reg_updated_at i\<rparr>"

definition clone_state :: "'v session_state \<Rightarrow> 'v session_state" where
  "clone_state s = \<lparr>st_id = st_id s, st_host = map_option clone_snapshot (st_host s),
     st_clients = (\<lambda>c. map_option clone_snapshot (st_clients s c)), st_controller = st_controller s,
     st_metadata = st_metadata s, st_connected = (\<lambda>c. map_option clone_registration (st_connected s c))\<rparr>"

definition record_request :: "'v resize_request \<Rightarrow> 'v session_state \<Rightarrow> 'v session_state" where
  "record_request req s =
     (let snapshot = \<lparr>snap_size = req_size req, snap_source = req_source req,
            snap_client_id = req_client_id req, snap_updated_at = req_sent_at req,
            snap_metadata = req_metadata req\<rparr>
      in if req_source req = source_host then s\<lparr>st_host := Some snapshot\<rparr>
         else if req_source req = source_client
         then s\<lparr>st_clients := (st_clients s)(req_client_id req \<mapsto> snapshot)\<rparr>
         else s)"

definition apply_state_update :: "'v state_update \<Rightarrow> 'v session_state \<Rightarrow> 'v session_state" where
  "apply_state_update u s =
     (let s1 = (case upd_controller u of None \<Rightarrow> s | Some c \<Rightarrow> s\<lparr>st_controller := Some c\<rparr>)
      in if upd_metadata u \<noteq> [] then s1\<lparr>st_metadata := st_metadata s1 ++ map_of (upd_metadata u)\<rparr> else s1)"

definition register_client_state ::
    "string \<Rightarrow> (string \<Rightarrow> 'v option) \<Rightarrow> time_ns \<Rightarrow> 'v session_state \<Rightarrow> 'v session_state" where
  "register_client_state client_id metadata registered_at s =
     s\<lparr>st_connected := (st_connected s)(client_id \<mapsto>
         \<lparr>reg_client_id = client_id, reg_metadata = metadata, reg_registered_at = registered_at,
          reg_updated_at = registered_at\<rparr>)\<rparr>"

definition unregister_client_state :: "string \<Rightarrow> 'v session_state \<Rightarrow> 'v session_state" where
  "unregister_client_state client_id s = s\<lparr>st_connected := (st_connected s)(client_id := None)\<rparr>"

section \<open>Modes\<close>

datatype resize_error =
    Nil_Mode | Empty_Mode_Name | Mode_Registered string | Unknown_Mode string | No_Active_Mode string
  | Mode_Failed string

text \<open>\<open>Name()\<close> and \<open>Handle(ctx)\<close>; the latter is given the time, for the modes that read the clock.\<close>

record 'v resize_mode =
  mode_name :: string
  mode_handle :: "time_ns \<Rightarrow> 'v resize_request \<Rightarrow> 'v session_state \<Rightarrow> resize_error + 'v resize_decision"

definition empty_update :: "'v state_update" where
  "empty_update = \<lparr>upd_controller = None, upd_metadata = []\<rparr>"

definition host_lock_handle ::
    "time_ns \<Rightarrow> 'v resize_request \<Rightarrow> 'v session_state \<Rightarrow> resize_error + 'v resize_decision" where
  "host_lock_handle now req state =
     (let decision = \<lparr>dec_session_id = req_session_id req, dec_pty_size = None, dec_broadcast = [],
            dec_notes = [], dec_state = empty_update\<rparr>
      in if req_source req = source_host
         then Inr (decision\<lparr>dec_pty_size := Some \<lparr>cols = cols (req_size req), rows = rows (req_size req)\<rparr>,
                dec_state := \<lparr>upd_controller = Some \<lparr>ctl_source = source_host, ctl_client_id = req_client_id req,
                    ctl_reason = ''host resize'', ctl_updated_at = now\<rparr>, upd_metadata = []\<rparr>,
                dec_broadcast := [\<lparr>target_ids = [], bc_size = req_size req, bc_reason = ''host_lock''\<rparr>]\<rparr>)
         else if req_source req = source_client
         then Inr (decision\<lparr>dec_notes := dec_notes decision @ [''host_lock: client resize ignored'']\<rparr>)
         else Inr decision)"

definition host_lock_mode :: "'v resize_mode" where
  "host_lock_mode = \<lparr>mode_name = ''host_lock'', mode_handle = host_lock_handle\<rparr>"

definition ignoring_handle ::
    "string \<Rightarrow> time_ns \<Rightarrow> 'v resize_request \<Rightarrow> 'v session_state \<Rightarrow> resize_error + 'v resize_decision" where
  "ignoring_handle note' now req state =
     Inr \<lparr>dec_session_id = req_session_id req, dec_pty_size = None, dec_broadcast = [],
          dec_notes = [note'], dec_state = empty_update\<rparr>"

definition noop_mode :: "'v resize_mode" where
  "noop_mode = \<lparr>mode_name = ''noop'', mode_handle = ignoring_handle ''noop mode: resize ignored''\<rparr>"

definition stub_mode :: "string \<Rightarrow> 'v resize_mode" where
  "stub_mode name = \<lparr>mode_name = name, mode_handle = ignoring_handle (name @ '' mode pending implementation'')\<rparr>"

section \<open>The manager\<close>

record 'v manager =
  sessions :: "string \<Rightarrow> 'v session_state option"
  modes :: "(string, 'v resize_mode) gomap"
  default_mode :: string
  session_modes :: "string \<Rightarrow> string option"

definition empty_manager :: "'v manager" where
  "empty_manager = \<lparr>sessions = (\<lambda>_. None), modes = [], default_mode = [], session_modes = (\<lambda>_. None)\<rparr>"

definition register_mode :: "'v resize_mode option \<Rightarrow> 'v manager \<Rightarrow> resize_error + 'v manager" where
  "register_mode mode m =
     (case mode of
        None \<Rightarrow> Inl Nil_Mode
      | Some md \<Rightarrow>
          let name = mode_name md
          in if name = [] then Inl Empty_Mode_Name
             else if map_of (modes m) name \<noteq> None then Inl (Mode_Registered name)
             else
               let m1 = m\<lparr>modes := mput name md (modes m)\<rparr>
               in Inr (if default_mode m1 = [] then m1\<lparr>default_mode := name\<rparr> else m1))"

fun register_modes :: "'v resize_mode option list \<Rightarrow> 'v manager \<Rightarrow> resize_error + 'v manager" where
  "register_modes [] m = Inr m"
| "register_modes (md # mds) m =
     (case register_mode md m of Inl e \<Rightarrow> Inl e | Inr m1 \<Rightarrow> register_modes mds m1)"

definition new_manager ::
    "'v resize_mode option \<Rightarrow> 'v resize_mode option list \<Rightarrow> resize_error + 'v manager" where
  "new_manager dflt others =
     (case dflt of
        None \<Rightarrow> register_modes others empty_manager
      | Some md \<Rightarrow>
          (case register_mode dflt empty_manager of
             Inl e \<Rightarrow> Inl e
           | Inr m \<Rightarrow> register_modes others (m\<lparr>default_mode := mode_name md\<rparr>)))"

definition available_modes :: "'v manager \<Rightarrow> string list" where
  "available_modes m = sort (keys (modes m))"

definition set_default_mode :: "string \<Rightarrow> 'v manager \<Rightarrow> resize_error option \<times> 'v manager" where
  "set_default_mode name m =
     (if map_of (modes m) name = None then (Some (Unknown_Mode name), m)
      else (None, m\<lparr>default_mode := name\<rparr>))"

definition new_manager_with_defaults :: "resize_error + 'v manager" where
  "new_manager_with_defaults =
     (case new_manager (Some host_lock_mode) [] of
        Inl e \<Rightarrow> Inl e
      | Inr m \<Rightarrow>
          (case set_default_mode (mode_name (host_lock_mode :: 'v resize_mode)) m of
             (Some e, _) \<Rightarrow> Inl e
           | (None, m1) \<Rightarrow> Inr m1))"

definition set_session_mode :: "string \<Rightarrow> string \<Rightarrow> 'v manager \<Rightarrow> resize_error option \<times> 'v manager" where
  "set_session_mode sid name m =
     (if map_of (modes m) name = None then (Some (Unknown_Mode name), m)
      else
        let m1 = m\<lparr>session_modes := (session_modes m)(sid \<mapsto> name)\<rparr>
        in (None, case sessions m1 sid of
                    None \<Rightarrow> m1\<lparr>sessions := (sessions m1)(sid \<mapsto> new_session_state sid)\<rparr>
                  | Some _ \<Rightarrow> m1))"

definition get_session_mode :: "string \<Rightarrow> 'v manager \<Rightarrow> string" where
  "get_session_mode sid m = (case session_modes m sid of Some name \<Rightarrow> name | None \<Rightarrow> default_mode m)"

definition forget_session :: "string \<Rightarrow> 'v manager \<Rightarrow> 'v manager" where
  "forget_session sid m =
     m\<lparr>sessions := (sessions m)(sid := None), session_modes := (session_modes m)(sid := None)\<rparr>"

definition ensure_state :: "string \<Rightarrow> 'v manager \<Rightarrow> 'v session_state \<times> 'v manager" where
  "ensure_state sid m =
     (case sessions m sid of
        Some s \<Rightarrow> (s, m)
      | None \<Rightarrow> (new_session_state sid, m\<lparr>sessions := (sessions m)(sid \<mapsto> new_session_state sid)\<rparr>))"

definition put_state :: "'v session_state \<Rightarrow> string \<Rightarrow> 'v manager \<Rightarrow> 'v manager" where
  "put_state s sid m = m\<lparr>sessions := (sessions m)(sid \<mapsto> s)\<rparr>"

definition register_client ::
    "time_ns \<Rightarrow> string \<Rightarrow> string \<Rightarrow> (string \<Rightarrow> 'v option) \<Rightarrow> 'v manager \<Rightarrow> 'v manager" where
  "register_client now sid client_id metadata m =
     (if client_id = [] then m
      else case ensure_state sid m of
             (s, m1) \<Rightarrow> put_state (register_client_state client_id metadata now s) sid m1)"

definition unregister_client :: "string \<Rightarrow> string \<Rightarrow> 'v manager \<Rightarrow> 'v manager" where
  "unregister_client sid client_id m =
     (if client_id = [] then m
      else case sessions m sid of
             None \<Rightarrow> m
           | Some s \<Rightarrow> put_state (unregister_client_state client_id s) sid m)"

definition snapshot :: "string \<Rightarrow> 'v manager \<Rightarrow> 'v session_state option" where
  "snapshot sid m = map_option clone_state (sessions m sid)"

definition normalize_request :: "time_ns \<Rightarrow> 'v resize_request \<Rightarrow> 'v resize_request" where
  "normalize_request now req = (if is_zero (req_sent_at req) then req\<lparr>req_sent_at := now\<rparr> else req)"

definition resolve_mode :: "string \<Rightarrow> 'v manager \<Rightarrow> 'v resize_mode option" where
  "resolve_mode sid m =
     (let name = (case session_modes m sid of Some explicit \<Rightarrow> explicit | None \<Rightarrow> default_mode m)
      in if name = [] then None else map_of (modes m) name)"

text \<open>The part of \<open>handle\<close> under the first lock and the mode's decision, then the part under the
  second lock.\<close>

definition handle_begin ::
    "time_ns \<Rightarrow> 'v resize_request \<Rightarrow> 'v manager \<Rightarrow> (resize_error + 'v resize_decision) \<times> 'v manager" where
  "handle_begin now req m =
     (let req = normalize_request now req;
          sid = req_session_id req;
          (s, m1) = ensure_state sid m;
          s1 = record_request req s;
          m2 = put_state s1 sid m1
      in case resolve_mode sid m2 of
           None \<Rightarrow> (Inl (No_Active_Mode sid), m2)
         | Some mode \<Rightarrow>
             (case mode_handle mode now req (clone_state s1) of
                Inl e \<Rightarrow> (Inl e, m2)
              | Inr decision \<Rightarrow>
                  (Inr (if dec_session_id decision = [] then decision\<lparr>dec_session_id := sid\<rparr> else decision), m2)))"

definition handle_end :: "string \<Rightarrow> 'v resize_decision \<Rightarrow> 'v manager \<Rightarrow> 'v manager" where
  "handle_end sid decision m =
     (case ensure_state sid m of
        (s, m1) \<Rightarrow> put_state (apply_state_update (dec_state decision) s) sid m1)"

definition handle_request ::
    "time_ns \<Rightarrow> 'v resize_request \<Rightarrow> 'v manager \<Rightarrow> (resize_error + 'v resize_decision) \<times> 'v manager" where
  "handle_request now req m =
     (case handle_begin now req m of
        (Inl e, m1) \<Rightarrow> (Inl e, m1)
      | (Inr decision, m1) \<Rightarrow> (Inr decision, handle_end (req_session_id req) decision m1))"

definition handle_host_resize ::
    "time_ns \<Rightarrow> string \<Rightarrow> viewport_size \<Rightarrow> (string \<Rightarrow> 'v option) \<Rightarrow> 'v manager \<Rightarrow>
     (resize_error + 'v resize_decision) \<times> 'v manager" where
  "handle_host_resize now sid size' metadata m =
     handle_request now \<lparr>req_session_id = sid, req_source = source_host, req_client_id = [],
       req_size = size', req_sent_at = now, req_metadata = metadata\<rparr> m"

definition handle_client_resize ::
    "time_ns \<Rightarrow> string \<Rightarrow> string \<Rightarrow> viewport_size \<Rightarrow> (string \<Rightarrow> 'v option) \<Rightarrow> 'v manager \<Rightarrow>
     (resize_error + 'v resize_decision) \<times> 'v manager" where
  "handle_client_resize now sid client_id size' metadata m =
     handle_request now \<lparr>req_session_id = sid, req_source = source_client, req_client_id = client_id,
       req_size = size', req_sent_at = now, req_metadata = metadata\<rparr> m"

section \<open>The modes an operation may run\<close>

text \<open>The calls of the manager, each a change of state; \<open>handle\<close> counts as its two halves.\<close>

datatype 'v resize_op =
    Op_Register_Mode "'v resize_mode option"
  | Op_Set_Default string
  | Op_Set_Session_Mode string string
  | Op_Forget string
  | Op_Register_Client time_ns string string "string \<Rightarrow> 'v option"
  | Op_Unregister_Client string string
  | Op_Handle_Begin time_ns "'v resize_request"
  | Op_Handle_End string "'v resize_decision"

fun resize_step :: "'v resize_op \<Rightarrow> 'v manager \<Rightarrow> 'v manager" where
  "resize_step (Op_Register_Mode md) m = (case register_mode md m of Inl _ \<Rightarrow> m | Inr m1 \<Rightarrow> m1)"
| "resize_step (Op_Set_Default name) m = snd (set_default_mode name m)"
| "resize_step (Op_Set_Session_Mode sid name) m = snd (set_session_mode sid name m)"
| "resize_step (Op_Forget sid) m = forget_session sid m"
| "resize_step (Op_Register_Client now sid c md) m = register_client now sid c md m"
| "resize_step (Op_Unregister_Client sid c) m = unregister_client sid c m"
| "resize_step (Op_Handle_Begin now req) m = snd (handle_begin now req m)"
| "resize_step (Op_Handle_End sid dec) m = handle_end sid dec m"

text \<open>Every mode a session can resolve to is registered, under its own name.\<close>

definition modes_ok :: "'v manager \<Rightarrow> bool" where
  "modes_ok m \<longleftrightarrow> default_mode m \<noteq> [] \<and> map_of (modes m) (default_mode m) \<noteq> None \<and>
     (\<forall>sid name. session_modes m sid = Some name \<longrightarrow> map_of (modes m) name \<noteq> None) \<and>
     (\<forall>name md. map_of (modes m) name = Some md \<longrightarrow> name = mode_name md \<and> name \<noteq> [])"

lemma ensure_state_frame [frame_simps]:
  "ensure_state sid m = (s, m1) \<Longrightarrow>
     modes m1 = modes m \<and> default_mode m1 = default_mode m \<and> session_modes m1 = session_modes m \<and>
     sessions m1 = (sessions m)(sid \<mapsto> s) \<and>
     s = (case sessions m sid of Some s0 \<Rightarrow> s0 | None \<Rightarrow> new_session_state sid)"
  by (auto simp: ensure_state_def split: option.splits)

lemma put_state_frame [simp]:
  "modes (put_state s sid m) = modes m" "default_mode (put_state s sid m) = default_mode m"
  "session_modes (put_state s sid m) = session_modes m"
  "sessions (put_state s sid m) = (sessions m)(sid \<mapsto> s)"
  by (simp_all add: put_state_def)

lemma handle_begin_frame:
  "modes (snd (handle_begin now req m)) = modes m \<and>
   default_mode (snd (handle_begin now req m)) = default_mode m \<and>
   session_modes (snd (handle_begin now req m)) = session_modes m"
  by (auto simp: handle_begin_def Let_def dest: ensure_state_frame split: prod.splits option.splits sum.splits)

lemma handle_end_frame:
  "modes (handle_end sid dec m) = modes m \<and> default_mode (handle_end sid dec m) = default_mode m \<and>
   session_modes (handle_end sid dec m) = session_modes m"
  by (auto simp: handle_end_def dest: ensure_state_frame split: prod.splits)

lemma modes_ok_frame:
  "modes m' = modes m \<Longrightarrow> default_mode m' = default_mode m \<Longrightarrow> session_modes m' = session_modes m \<Longrightarrow>
   modes_ok m \<Longrightarrow> modes_ok m'"
  by (simp add: modes_ok_def)

lemma register_mode_ok:
  assumes "modes_ok m" and "register_mode md m = Inr m1"
  shows "modes_ok m1"
  using assms by (fastforce simp: register_mode_def modes_ok_def Let_def split: option.splits if_splits)

lemma resize_step_ok: "modes_ok m \<Longrightarrow> modes_ok (resize_step op m)"
proof (cases op)
  case (Op_Register_Mode md)
  then show "modes_ok m \<Longrightarrow> modes_ok (resize_step op m)"
    by (auto intro: register_mode_ok split: sum.splits)
next
  case (Op_Set_Default name)
  then show "modes_ok m \<Longrightarrow> modes_ok (resize_step op m)"
    by (auto simp: set_default_mode_def modes_ok_def)
next
  case (Op_Set_Session_Mode sid name)
  then show "modes_ok m \<Longrightarrow> modes_ok (resize_step op m)"
    by (auto simp: set_session_mode_def modes_ok_def Let_def split: option.splits)
next
  case (Op_Forget sid)
  then show "modes_ok m \<Longrightarrow> modes_ok (resize_step op m)"
    by (auto simp: forget_session_def modes_ok_def)
next
  case (Op_Register_Client now sid c md)
  then show "modes_ok m \<Longrightarrow> modes_ok (resize_step op m)"
    by (auto simp: register_client_def elim!: modes_ok_frame [rotated 3] dest: ensure_state_frame split: prod.splits)
next
  case (Op_Unregister_Client sid c)
  then show "modes_ok m \<Longrightarrow> modes_ok (resize_step op m)"
    by (auto simp: unregister_client_def elim!: modes_ok_frame [rotated 3] split: option.splits)
next
  case (Op_Handle_Begin now req)
  then show "modes_ok m \<Longrightarrow> modes_ok (resize_step op m)"
    using handle_begin_frame [of now req m] by (auto elim!: modes_ok_frame [rotated 3])
next
  case (Op_Handle_End sid dec)
  then show "modes_ok m \<Longrightarrow> modes_ok (resize_step op m)"
    using handle_end_frame [of sid dec m] by (auto elim!: modes_ok_frame [rotated 3])
qed

interpretation rsz: op_machine resize_step "\<lambda>_. True" modes_ok
  by unfold_locales (rule resize_step_ok)

lemma host_lock_name [simp]: "mode_name host_lock_mode = ''host_lock''"
  by (simp add: host_lock_mode_def)

lemma new_manager_with_defaults_eq:
  "(new_manager_with_defaults :: resize_error + 'v manager) =
   Inr (empty_manager\<lparr>modes := [(''host_lock'', host_lock_mode)], default_mode := ''host_lock''\<rparr>)"
  by (simp add: new_manager_with_defaults_def new_manager_def register_mode_def set_default_mode_def
      empty_manager_def Let_def)

lemma new_manager_with_defaults_ok: "new_manager_with_defaults = Inr m \<Longrightarrow> modes_ok m"
  by (auto simp: new_manager_with_defaults_eq modes_ok_def empty_manager_def split: if_splits)

lemma resolve_mode_ok: "modes_ok m \<Longrightarrow> resolve_mode sid m \<noteq> None"
  by (auto simp: modes_ok_def resolve_mode_def Let_def split: option.splits)

lemma resolve_mode_name:
  "modes_ok m \<Longrightarrow> resolve_mode sid m = Some md \<Longrightarrow>
   map_of (modes m) (get_session_mode sid m) = Some md \<and> mode_name md = get_session_mode sid m"
  by (auto simp: modes_ok_def resolve_mode_def get_session_mode_def Let_def split: option.splits if_splits)

lemma resolve_mode_frame:
  "modes m' = modes m \<Longrightarrow> default_mode m' = default_mode m \<Longrightarrow> session_modes m' = session_modes m \<Longrightarrow>
   resolve_mode sid m' = resolve_mode sid m"
  by (auto simp: resolve_mode_def Let_def split: option.splits)

lemma clone_snapshot_id: "clone_snapshot = (\<lambda>s. s)"
  by (rule ext) (simp add: clone_snapshot_def)

lemma clone_registration_id: "clone_registration = (\<lambda>i. i)"
  by (rule ext) (simp add: clone_registration_def)

lemma clone_state_id [simp]: "clone_state s = s"
  by (simp add: clone_state_def clone_snapshot_id clone_registration_id option.map_ident)

lemma normalize_session [simp]: "req_session_id (normalize_request now req) = req_session_id req"
  by (simp add: normalize_request_def)

lemma source_ne: "source_host \<noteq> source_client"
  by simp

lemma handle_begin_eq:
  assumes "resolve_mode (req_session_id req) m = Some md" and "ensure_state (req_session_id req) m = (s, m1)"
  shows "handle_begin now req m =
    (case mode_handle md now (normalize_request now req) (record_request (normalize_request now req) s) of
       Inl e \<Rightarrow> Inl e
     | Inr d \<Rightarrow> Inr (if dec_session_id d = [] then d\<lparr>dec_session_id := req_session_id req\<rparr> else d),
     put_state (record_request (normalize_request now req) s) (req_session_id req) m1)"
proof -
  have "resolve_mode (req_session_id req) (put_state s' (req_session_id req) m1) = Some md" for s'
    using ensure_state_frame [OF assms(2)] assms(1)
    by (subst resolve_mode_frame [of _ m]) simp_all
  then show ?thesis using assms(2) by (auto simp: handle_begin_def Let_def split: sum.splits)
qed

lemma handle_request_result:
  assumes "resolve_mode (req_session_id req) m = Some md"
  shows "fst (handle_request now req m) =
      (case mode_handle md now (normalize_request now req)
          (record_request (normalize_request now req) (fst (ensure_state (req_session_id req) m))) of
         Inl e \<Rightarrow> Inl e
       | Inr d \<Rightarrow> Inr (if dec_session_id d = [] then d\<lparr>dec_session_id := req_session_id req\<rparr> else d))"
  using handle_begin_eq [OF assms surjective_pairing]
  by (auto simp: handle_request_def split: sum.splits prod.splits)

lemma handle_request_eq:
  assumes "resolve_mode (req_session_id req) m = Some md" and "ensure_state (req_session_id req) m = (s, m1)"
  shows "case mode_handle md now (normalize_request now req) (record_request (normalize_request now req) s) of
      Inl e \<Rightarrow> fst (handle_request now req m) = Inl e
    | Inr d \<Rightarrow> fst (handle_request now req m) =
          Inr (if dec_session_id d = [] then d\<lparr>dec_session_id := req_session_id req\<rparr> else d) \<and>
        sessions (snd (handle_request now req m)) = (sessions m)(req_session_id req \<mapsto>
          apply_state_update (dec_state d) (record_request (normalize_request now req) s))"
  using handle_begin_eq [OF assms, of now] ensure_state_frame [OF assms(2)]
  by (auto simp: handle_request_def handle_end_def ensure_state_def [of _ "put_state _ _ _"]
      split: sum.splits prod.splits)

text \<open>
  The two halves of \<open>handle\<close> lock separately, and the second one looks the session up again with
  \<open>ensureStateLocked\<close>: when the session is forgotten in between, it comes back, and nothing will forget it.
\<close>

lemma forget_during_handle:
  "sessions (handle_end sid d (forget_session sid m)) sid \<noteq> None"
  by (simp add: handle_end_def ensure_state_def forget_session_def)

section \<open>Properties\<close>

text \<open>
  Whatever is done with a manager that starts with the production defaults, by calls interleaved in any
  way, a resize request finds a mode: the one registered under the name that \<open>GetSessionMode\<close> reports,
  and the outcome of \<open>handle\<close> is what this mode decides on the session as it is after recording the
  request, with an empty session identifier filled in. \<open>handle\<close> never fails for want of a mode.
\<close>

theorem resize_finds_mode:
  assumes "new_manager_with_defaults = Inr m0" and "m = fold resize_step ops m0"
  shows "\<exists>md. map_of (modes m) (get_session_mode (req_session_id req) m) = Some md \<and>
    mode_name md = get_session_mode (req_session_id req) m \<and>
    fst (handle_request now req m) =
      (case mode_handle md now (normalize_request now req)
          (record_request (normalize_request now req) (fst (ensure_state (req_session_id req) m))) of
         Inl e \<Rightarrow> Inl e
       | Inr d \<Rightarrow> Inr (if dec_session_id d = [] then d\<lparr>dec_session_id := req_session_id req\<rparr> else d))"
proof -
  have ok: "modes_ok m"
    unfolding assms(2) by (rule rsz.inv_run) (simp_all add: new_manager_with_defaults_ok [OF assms(1)])
  from resolve_mode_ok [OF ok] obtain md where md: "resolve_mode (req_session_id req) m = Some md" by blast
  from resolve_mode_name [OF ok md] handle_request_result [OF md] show ?thesis by blast
qed

theorem resize_finds_mode_witness:
  "\<exists>m0. (new_manager_with_defaults :: resize_error + nat manager) = Inr m0 \<and>
     fst (handle_request 5 \<lparr>req_session_id = ''s'', req_source = source_client, req_client_id = ''c'',
       req_size = \<lparr>cols = 80, rows = 24\<rparr>, req_sent_at = 5, req_metadata = (\<lambda>_. None)\<rparr>
       (fold resize_step [Op_Set_Default ''zoom'', Op_Forget ''s''] m0)) \<noteq> Inl (No_Active_Mode ''s'')"
proof -
  obtain m0 where m0: "(new_manager_with_defaults :: resize_error + nat manager) = Inr m0"
    by (simp add: new_manager_with_defaults_eq)
  let ?m = "fold resize_step [Op_Set_Default ''zoom'', Op_Forget ''s''] m0"
  let ?req = "\<lparr>req_session_id = ''s'', req_source = source_client, req_client_id = ''c'',
       req_size = \<lparr>cols = 80, rows = 24\<rparr>, req_sent_at = 5, req_metadata = (\<lambda>_. None)\<rparr> :: nat resize_request"
  have m: "modes ?m = [(''host_lock'', host_lock_mode)]"
    using m0 by (auto simp: new_manager_with_defaults_eq set_default_mode_def forget_session_def)
  have sid: "req_session_id ?req = ''s''" by simp
  from resize_finds_mode [OF m0 refl, where ops = "[Op_Set_Default ''zoom'', Op_Forget ''s'']" and req = ?req and now = 5]
  obtain md where
    "map_of (modes ?m) (get_session_mode ''s'' ?m) = Some md"
    "fst (handle_request 5 ?req ?m) = (case mode_handle md 5 (normalize_request 5 ?req)
        (record_request (normalize_request 5 ?req) (fst (ensure_state ''s'' ?m))) of
         Inl e \<Rightarrow> Inl e | Inr d \<Rightarrow> Inr (if dec_session_id d = [] then d\<lparr>dec_session_id := ''s''\<rparr> else d))"
    unfolding sid by blast
  with m have "fst (handle_request 5 ?req ?m) \<noteq> Inl (No_Active_Mode ''s'')"
    by (auto simp: host_lock_mode_def host_lock_handle_def Let_def split: if_splits)
  with m0 show ?thesis by blast
qed

text \<open>
  Under the host lock the host alone decides the size of the terminal: a resize from the host asks for
  exactly its size, tells every listener and makes the host the controller of the session; a resize from
  a client changes neither the terminal nor the controller nor the host's viewport and tells nobody, but
  is remembered as the viewport of that client.
\<close>

theorem host_lock_authority:
  assumes "resolve_mode (req_session_id req) m = Some host_lock_mode"
    and "old = fst (ensure_state (req_session_id req) m)"
  shows "\<exists>d s. fst (handle_request now req m) = Inr d \<and>
    sessions (snd (handle_request now req m)) = (sessions m)(req_session_id req \<mapsto> s) \<and>
    (req_source req = source_host \<longrightarrow>
       dec_pty_size d = Some (req_size req) \<and>
       map target_ids (dec_broadcast d) = [[]] \<and> map bc_size (dec_broadcast d) = [req_size req] \<and>
       map_option ctl_source (st_controller s) = Some source_host \<and>
       map_option snap_size (st_host s) = Some (req_size req) \<and> st_clients s = st_clients old) \<and>
    (req_source req = source_client \<longrightarrow>
       dec_pty_size d = None \<and> dec_broadcast d = [] \<and>
       st_controller s = st_controller old \<and> st_host s = st_host old \<and>
       map_option snap_size (st_clients s (req_client_id req)) = Some (req_size req) \<and>
       (st_clients s)(req_client_id req := None) = (st_clients old)(req_client_id req := None))"
proof -
  obtain s m1 where e: "ensure_state (req_session_id req) m = (s, m1)" by (cases "ensure_state (req_session_id req) m")
  from assms(2) e have old: "old = s" by simp
  let ?req = "normalize_request now req"
  have n: "req_source ?req = req_source req" "req_size ?req = req_size req" "req_client_id ?req = req_client_id req"
    by (simp_all add: normalize_request_def)
  obtain d where d: "host_lock_handle now ?req (record_request ?req s) = Inr d"
    by (cases "host_lock_handle now ?req (record_request ?req s)")
      (auto simp: host_lock_handle_def Let_def split: if_splits)
  let ?s = "apply_state_update (dec_state d) (record_request ?req s)"
  from handle_request_eq [OF assms(1) e, of now] d
  have r: "fst (handle_request now req m) = Inr (if dec_session_id d = [] then d\<lparr>dec_session_id := req_session_id req\<rparr> else d)"
    "sessions (snd (handle_request now req m)) = (sessions m)(req_session_id req \<mapsto> ?s)"
    by (simp_all add: host_lock_mode_def)
  show ?thesis unfolding old
    by (rule exI [of _ "if dec_session_id d = [] then d\<lparr>dec_session_id := req_session_id req\<rparr> else d"], rule exI [of _ ?s],
        rule conjI [OF r(1) conjI [OF r(2)]])
      (use d n in \<open>auto simp: host_lock_handle_def record_request_def apply_state_update_def empty_update_def Let_def\<close>)
qed

theorem host_lock_authority_witness:
  "\<exists>m0 d. (new_manager_with_defaults :: resize_error + nat manager) = Inr m0 \<and>
     fst (handle_request 5 \<lparr>req_session_id = ''s'', req_source = source_host, req_client_id = [],
       req_size = \<lparr>cols = 80, rows = 24\<rparr>, req_sent_at = 5, req_metadata = (\<lambda>_. None)\<rparr> m0) = Inr d \<and>
     dec_pty_size d = Some \<lparr>cols = 80, rows = 24\<rparr>"
proof -
  obtain m0 where m0: "(new_manager_with_defaults :: resize_error + nat manager) = Inr m0"
    by (simp add: new_manager_with_defaults_eq)
  let ?req = "\<lparr>req_session_id = ''s'', req_source = source_host, req_client_id = [],
       req_size = \<lparr>cols = 80, rows = 24\<rparr>, req_sent_at = 5, req_metadata = (\<lambda>_. None)\<rparr> :: nat resize_request"
  have "resolve_mode (req_session_id ?req) m0 = Some host_lock_mode"
    using m0 by (auto simp: new_manager_with_defaults_eq resolve_mode_def empty_manager_def)
  from host_lock_authority [OF this refl, of 5] m0 show ?thesis by auto
qed

end
