(* ===== verification/AudioFormat.thy ===== *)
theory AudioFormat
  imports Prelude
begin

text \<open>
  The audio format that the audio components share (\<open>eventbus/types.go\<close>), and the integer arithmetic on it
  of \<open>internal/audio/audiofmt/math.go\<close>. An \<open>int\<close> of Go has 64 bits, which the products of format values
  do not exceed; the functions that convert to durations through \<open>float64\<close> are left out.
\<close>

record audio_format =
  encoding :: string
  sample_rate :: int
  channels :: int
  bit_depth :: int
  frame_duration :: duration

definition encoding_pcm16 :: string where "encoding_pcm16 = ''pcm_s16le''"

definition bytes_per_sample :: "audio_format \<Rightarrow> int" where
  "bytes_per_sample fmt =
     (if bit_depth fmt \<le> 0 then 0 else let bytes = bit_depth fmt div 8 in if bytes \<le> 0 then 0 else bytes)"

definition frame_size :: "audio_format \<Rightarrow> int" where
  "frame_size fmt =
     (if channels fmt \<le> 0 then 0
      else let b = bytes_per_sample fmt in if b \<le> 0 then 0 else channels fmt * b)"

definition bytes_per_second :: "audio_format \<Rightarrow> int" where
  "bytes_per_second fmt =
     (if sample_rate fmt \<le> 0 then 0
      else let n = frame_size fmt in if n \<le> 0 then 0 else sample_rate fmt * n)"

definition pcm_frame_count :: "audio_format \<Rightarrow> int \<Rightarrow> int" where
  "pcm_frame_count fmt data_len =
     (if data_len \<le> 0 then 0
      else let n = frame_size fmt in if n \<le> 0 then 0 else data_len div n)"

lemma bytes_per_sample_nonneg [simp]: "0 \<le> bytes_per_sample fmt"
  by (simp add: bytes_per_sample_def Let_def)

lemma frame_size_nonneg [simp]: "0 \<le> frame_size fmt"
  by (simp add: frame_size_def Let_def)

text \<open>The frames counted fit into the data, and no further frame does.\<close>

lemma pcm_frame_count_fits:
  assumes "0 < frame_size fmt" and "0 \<le> n"
  shows "pcm_frame_count fmt n * frame_size fmt \<le> n \<and> n < (pcm_frame_count fmt n + 1) * frame_size fmt"
proof -
  have e: "pcm_frame_count fmt n = n div frame_size fmt"
    using assms by (auto simp: pcm_frame_count_def Let_def)
  have "n div frame_size fmt * frame_size fmt + n mod frame_size fmt = n" by simp
  moreover have "0 \<le> n mod frame_size fmt" "n mod frame_size fmt < frame_size fmt" using assms by simp_all
  ultimately show ?thesis unfolding e distrib_right mult_1 by (intro conjI) linarith+
qed

end
