(* ===== verification/StreamManager.thy ===== *)
theory StreamManager
  imports GoStrings OverflowBuffer AudioFormat
begin

text \<open>
  The audio streams of \<open>internal/audio/streammanager\<close>: composite keys and retry settings (\<open>util.go\<close>),
  the manager of streams with its queues of pending items and their back-off
  (\<open>streammanager.go\<close>), the adapter that reconnects (\<open>retryable_adapter.go\<close>) and the queue of a worker
  (\<open>worker.go\<close>).

  A stream handle is an identity \<open>'h\<close>; the factory, the outcome of each \<open>Enqueue\<close> and the callbacks of
  the services are parameters. What the manager does to the outside (stopping a handle, enqueueing an
  item, arming a timer) is appended to the field \<open>effects\<close>. The manager has two locks and gives them
  up between its steps, so each critical section is a definition, and the methods compose them. The
  logger is left out. Stopping a timer is not an effect, because every queue whose timer is stopped is
  dropped at once, and a timer that has already gone off runs \<open>retryPending\<close> all the same: it may run for
  any key at any time.
\<close>

section \<open>Keys and settings (\<open>util.go\<close>)\<close>

record 'v session_params =
  sp_session_id :: string
  sp_stream_id :: string
  sp_format :: audio_format
  sp_metadata :: "string \<Rightarrow> string option"
  sp_adapter_id :: string
  sp_config :: "string \<Rightarrow> 'v option"

definition stream_key :: "string \<Rightarrow> string \<Rightarrow> string" where
  "stream_key session_id stream_id = session_id @ ''::'' @ stream_id"

definition split_stream_key :: "string \<Rightarrow> string \<times> string" where
  "split_stream_key key =
     (case index_of key ''::'' of Some i \<Rightarrow> (take i key, drop (i + 2) key) | None \<Rightarrow> (key, []))"

record retry_config =
  initial :: duration
  max_delay :: duration
  max_failures :: int
  max_duration :: duration

definition default_retry_config :: retry_config where
  "default_retry_config = \<lparr>initial = 200 * millisecond, max_delay = 5 * second, max_failures = 0, max_duration = 0\<rparr>"

definition validate_retry_config :: "retry_config \<Rightarrow> retry_config" where
  "validate_retry_config cfg =
     (let cfg = (if initial cfg \<le> 0 then cfg\<lparr>initial := initial default_retry_config\<rparr> else cfg)
      in if max_delay cfg < initial cfg then cfg\<lparr>max_delay := initial cfg\<rparr> else cfg)"

section \<open>The manager (\<open>streammanager.go\<close>)\<close>

text \<open>\<open>pq_timer\<close> tells whether the field \<open>timer\<close> is set.\<close>

record ('t, 'v) pending_queue =
  pq_params :: "'v session_params"
  pq_items :: "'t list"
  failure_count :: int
  first_failure_at :: time_ns
  pq_timer :: bool
  pq_delay :: duration

datatype ('h, 't) effect =
    Eff_Stop 'h | Eff_Enqueue 'h 't | Eff_After duration string

record ('h, 't, 'v) stream_manager =
  max_pending :: nat
  retry_cfg :: retry_config
  streams :: "(string, 'h) gomap"
  pending :: "(string, ('t, 'v) pending_queue) gomap"
  effects :: "('h, 't) effect list"

datatype 'e create_error = Factory_Nil | Factory_Error 'e

text \<open>What the services plug in: the factory and the two optional callbacks.\<close>

record ('h, 't, 'v, 'e) hooks =
  stream_factory :: "(string \<Rightarrow> 'v session_params \<Rightarrow> 'e + 'h) option"
  on_enqueue_error :: "(string \<Rightarrow> 't \<Rightarrow> 'e \<Rightarrow> ('h, 't, 'v) stream_manager \<Rightarrow> ('h, 't, 'v) stream_manager) option"
  classify_create_error :: "('e create_error \<Rightarrow> bool \<times> bool) option"

definition new_stream_manager :: "int \<Rightarrow> retry_config \<Rightarrow> ('h, 't, 'v) stream_manager" where
  "new_stream_manager max_items retry =
     \<lparr>max_pending = nat (if max_items \<le> 0 then 100 else max_items),
      retry_cfg = validate_retry_config retry, streams = [], pending = [], effects = []\<rparr>"

definition schedule_retry ::
    "string \<Rightarrow> ('t, 'v) pending_queue \<Rightarrow> ('h, 't, 'v) stream_manager \<Rightarrow> ('h, 't, 'v) stream_manager" where
  "schedule_retry key pq m =
     (if pq_timer pq then m\<lparr>pending := mput key pq (pending m)\<rparr>
      else
        let delay = (if pq_delay pq \<le> 0 then initial (retry_cfg m)
                     else if pq_delay pq * 2 > max_delay (retry_cfg m) then max_delay (retry_cfg m)
                     else pq_delay pq * 2)
        in m\<lparr>pending := mput key (pq\<lparr>pq_delay := delay, pq_timer := True\<rparr>) (pending m),
             effects := effects m @ [Eff_After delay key]\<rparr>)"

definition stream_of :: "string \<Rightarrow> ('h, 't, 'v) stream_manager \<Rightarrow> 'h option" where
  "stream_of key m = map_of (streams m) key"

definition buffer_pending ::
    "string \<Rightarrow> 'v session_params \<Rightarrow> 't \<Rightarrow> ('h, 't, 'v) stream_manager \<Rightarrow> ('h, 't, 'v) stream_manager" where
  "buffer_pending key params item m =
     (let pq = (case map_of (pending m) key of
                  Some pq \<Rightarrow> pq
                | None \<Rightarrow> \<lparr>pq_params = params, pq_items = [], failure_count = 0, first_failure_at = zero_time,
                           pq_timer = False, pq_delay = 0\<rparr>);
          pq = (if length (pq_items pq) \<ge> max_pending m then pq\<lparr>pq_items := tl (pq_items pq)\<rparr> else pq);
          pq = pq\<lparr>pq_items := pq_items pq @ [item]\<rparr>
      in schedule_retry key pq m)"

text \<open>\<open>FlushPending\<close>: taking the queue under the lock, then enqueueing item by item, where \<open>enq i\<close> is the
  outcome of the \<open>i\<close>-th \<open>Enqueue\<close>.\<close>

definition take_pending :: "string \<Rightarrow> ('h, 't, 'v) stream_manager \<Rightarrow> 't list \<times> ('h, 't, 'v) stream_manager" where
  "take_pending key m =
     (case map_of (pending m) key of
        Some pq \<Rightarrow> (pq_items pq, m\<lparr>pending := mdel key (pending m)\<rparr>)
      | None \<Rightarrow> ([], m))"

fun enqueue_all ::
    "('h, 't, 'v, 'e) hooks \<Rightarrow> string \<Rightarrow> 'h \<Rightarrow> (nat \<Rightarrow> 'e option) \<Rightarrow> nat \<Rightarrow> 't list \<Rightarrow>
     ('h, 't, 'v) stream_manager \<Rightarrow> ('h, 't, 'v) stream_manager" where
  "enqueue_all hk key handle enq i [] m = m"
| "enqueue_all hk key handle enq i (item # items) m =
     enqueue_all hk key handle enq (Suc i) items
       (case enq i of
          None \<Rightarrow> m\<lparr>effects := effects m @ [Eff_Enqueue handle item]\<rparr>
        | Some e \<Rightarrow>
            (case on_enqueue_error hk of Some cb \<Rightarrow> cb key item e m | None \<Rightarrow> m))"

definition flush_pending ::
    "('h, 't, 'v, 'e) hooks \<Rightarrow> string \<Rightarrow> 'h \<Rightarrow> (nat \<Rightarrow> 'e option) \<Rightarrow>
     ('h, 't, 'v) stream_manager \<Rightarrow> ('h, 't, 'v) stream_manager" where
  "flush_pending hk key handle enq m =
     (case take_pending key m of (items, m1) \<Rightarrow> enqueue_all hk key handle enq 0 items m1)"

text \<open>\<open>CreateStream\<close>: the second critical section registers the new handle, or stops it when another
  goroutine has been faster.\<close>

definition register_stream ::
    "string \<Rightarrow> 'h \<Rightarrow> ('h, 't, 'v) stream_manager \<Rightarrow> (bool \<times> 'h) \<times> ('h, 't, 'v) stream_manager" where
  "register_stream key handle m =
     (case map_of (streams m) key of
        Some existing \<Rightarrow> ((False, existing), m\<lparr>effects := effects m @ [Eff_Stop handle]\<rparr>)
      | None \<Rightarrow> ((True, handle), m\<lparr>streams := mput key handle (streams m)\<rparr>))"

definition create_stream ::
    "('h, 't, 'v, 'e) hooks \<Rightarrow> string \<Rightarrow> 'v session_params \<Rightarrow> (nat \<Rightarrow> 'e option) \<Rightarrow>
     ('h, 't, 'v) stream_manager \<Rightarrow> ('e create_error + 'h) \<times> ('h, 't, 'v) stream_manager" where
  "create_stream hk key params enq m =
     (case stream_factory hk of
        None \<Rightarrow> (Inl Factory_Nil, m)
      | Some create \<Rightarrow>
          (case stream_of key m of
             Some st \<Rightarrow> (Inr st, m)
           | None \<Rightarrow>
               (case create key params of
                  Inl e \<Rightarrow> (Inl (Factory_Error e), m)
                | Inr handle \<Rightarrow>
                    (case register_stream key handle m of
                       ((False, existing), m1) \<Rightarrow> (Inr existing, m1)
                     | ((True, h), m1) \<Rightarrow> (Inr h, flush_pending hk key h enq m1)))))"

definition remove_stream ::
    "string \<Rightarrow> 'h \<Rightarrow> ('h, 't, 'v) stream_manager \<Rightarrow> ('h, 't, 'v) stream_manager" where
  "remove_stream key handle m =
     (if map_of (streams m) key = Some handle then m\<lparr>streams := mdel key (streams m)\<rparr> else m)"

definition remove_stream_by_key ::
    "string \<Rightarrow> ('h, 't, 'v) stream_manager \<Rightarrow> ('h, 't, 'v) stream_manager" where
  "remove_stream_by_key key m =
     (case map_of (streams m) key of
        Some handle \<Rightarrow> m\<lparr>streams := mdel key (streams m), effects := effects m @ [Eff_Stop handle]\<rparr>
      | None \<Rightarrow> m)"

definition close_all_streams ::
    "('h, 't, 'v) stream_manager \<Rightarrow> 'h list \<times> ('h, 't, 'v) stream_manager" where
  "close_all_streams m =
     (map snd (streams m),
      m\<lparr>streams := [], effects := effects m @ map Eff_Stop (map snd (streams m))\<rparr>)"

text \<open>\<open>retryPending\<close>: what the timer runs.\<close>

definition retry_begin ::
    "string \<Rightarrow> ('h, 't, 'v) stream_manager \<Rightarrow> 'v session_params option \<times> ('h, 't, 'v) stream_manager" where
  "retry_begin key m =
     (case map_of (pending m) key of
        None \<Rightarrow> (None, m)
      | Some pq \<Rightarrow> (Some (pq_params pq), m\<lparr>pending := mput key (pq\<lparr>pq_timer := False\<rparr>) (pending m)\<rparr>))"

definition classify_error :: "('h, 't, 'v, 'e) hooks \<Rightarrow> 'e create_error \<Rightarrow> bool \<times> bool" where
  "classify_error hk e = (case classify_create_error hk of Some cb \<Rightarrow> cb e | None \<Rightarrow> (False, False))"

definition retry_unavailable ::
    "string \<Rightarrow> ('h, 't, 'v) stream_manager \<Rightarrow> ('h, 't, 'v) stream_manager" where
  "retry_unavailable key m =
     (case map_of (pending m) key of Some pq \<Rightarrow> schedule_retry key pq m | None \<Rightarrow> m)"

definition retry_failed ::
    "time_ns \<Rightarrow> string \<Rightarrow> ('h, 't, 'v) stream_manager \<Rightarrow> ('h, 't, 'v) stream_manager" where
  "retry_failed now key m =
     (case map_of (pending m) key of
        None \<Rightarrow> m
      | Some pq \<Rightarrow>
          let pq = pq\<lparr>failure_count := failure_count pq + 1\<rparr>;
              pq = (if is_zero (first_failure_at pq) then pq\<lparr>first_failure_at := now\<rparr> else pq);
              cfg = retry_cfg m;
              abandon = (max_failures cfg \<le> 0 \<or> failure_count pq \<ge> max_failures cfg);
              abandon = (abandon \<or> 0 < max_duration cfg \<and> now - first_failure_at pq \<ge> max_duration cfg)
          in if abandon then m\<lparr>pending := mdel key (pending m)\<rparr>
             else schedule_retry key pq m)"

definition retry_pending ::
    "('h, 't, 'v, 'e) hooks \<Rightarrow> time_ns \<Rightarrow> string \<Rightarrow> (nat \<Rightarrow> 'e option) \<Rightarrow>
     ('h, 't, 'v) stream_manager \<Rightarrow> ('h, 't, 'v) stream_manager" where
  "retry_pending hk now key enq m =
     (case retry_begin key m of
        (None, m1) \<Rightarrow> m1
      | (Some params, m1) \<Rightarrow>
          (case create_stream hk key params enq m1 of
             (Inr _, m2) \<Rightarrow> m2
           | (Inl e, m2) \<Rightarrow>
               if fst (classify_error hk e) then retry_unavailable key m2 else retry_failed now key m2))"

definition clear_pending :: "string \<Rightarrow> ('h, 't, 'v) stream_manager \<Rightarrow> ('h, 't, 'v) stream_manager" where
  "clear_pending key m =
     (case map_of (pending m) key of Some _ \<Rightarrow> m\<lparr>pending := mdel key (pending m)\<rparr> | None \<Rightarrow> m)"

definition shutdown_pending :: "('h, 't, 'v) stream_manager \<Rightarrow> ('h, 't, 'v) stream_manager" where
  "shutdown_pending m = m\<lparr>pending := []\<rparr>"

definition get_pending_queue ::
    "string \<Rightarrow> ('h, 't, 'v) stream_manager \<Rightarrow> ('t, 'v) pending_queue option" where
  "get_pending_queue key m = map_of (pending m) key"

definition pending_count :: "('h, 't, 'v) stream_manager \<Rightarrow> nat" where
  "pending_count m = length (pending m)"

section \<open>The adapter that reconnects (\<open>retryable_adapter.go\<close>)\<close>

text \<open>The callbacks of the configuration as events, in the order in which they are called. The
  functions of the configuration are optional in Go, and so here.\<close>

datatype ('a, 'o, 'e) adapter_event =
    Ev_Created 'a | Ev_Create_Error 'e | Ev_Reconnected | Ev_Publish 'o | Ev_Unavailable 'e
  | Ev_Process_Error 'e | Ev_Closed 'a duration | Ev_Close_Error string 'e

record ('a, 'o, 'e) adapter_config =
  cfg_close :: "('a \<Rightarrow> 'o list \<times> 'e option) option"
  cfg_unavailable :: "('e \<Rightarrow> bool) option"
  cfg_context_error :: "'e \<Rightarrow> bool"
  recovery_close_timeout :: duration

type_synonym ('a, 'o, 'e) retryable_adapter = "'a option \<times> ('a, 'o, 'e) adapter_event list"

definition is_adapter_unavailable :: "('a, 'o, 'e) adapter_config \<Rightarrow> 'e \<Rightarrow> bool" where
  "is_adapter_unavailable cfg e = (case cfg_unavailable cfg of Some p \<Rightarrow> p e | None \<Rightarrow> False)"

definition set_active :: "'a \<Rightarrow> ('a, 'o, 'e) retryable_adapter \<Rightarrow> ('a, 'o, 'e) retryable_adapter" where
  "set_active a r = (Some a, snd r)"

text \<open>\<open>created\<close> is the outcome of \<open>cfg.Create\<close>, \<open>None\<close> when there is no such function.\<close>

definition ensure_adapter ::
    "('a, 'o, 'e) adapter_config \<Rightarrow> ('e + 'a) option \<Rightarrow> ('a, 'o, 'e) retryable_adapter \<Rightarrow>
     'a option \<times> ('a, 'o, 'e) retryable_adapter" where
  "ensure_adapter cfg created r =
     (case fst r of
        Some a \<Rightarrow> (Some a, r)
      | None \<Rightarrow>
          (case created of
             None \<Rightarrow> (None, r)
           | Some (Inl e) \<Rightarrow>
               (None, if \<not> is_adapter_unavailable cfg e then (None, snd r @ [Ev_Create_Error e]) else r)
           | Some (Inr a) \<Rightarrow> (Some a, (Some a, snd r @ [Ev_Created a, Ev_Reconnected]))))"

definition close_adapter_now ::
    "('a, 'o, 'e) adapter_config \<Rightarrow> string \<Rightarrow> duration \<Rightarrow> bool \<Rightarrow>
     ('a, 'o, 'e) retryable_adapter \<Rightarrow> ('a, 'o, 'e) retryable_adapter" where
  "close_adapter_now cfg reason timeout publish r =
     (case fst r of
        None \<Rightarrow> r
      | Some a \<Rightarrow>
          (case cfg_close cfg of
             None \<Rightarrow> (None, snd r)
           | Some cl \<Rightarrow>
               let (outputs, err) = cl a;
                   es = snd r @ [Ev_Closed a timeout];
                   es = (case err of
                           Some e \<Rightarrow> if cfg_context_error cfg e then es else es @ [Ev_Close_Error reason e]
                         | None \<Rightarrow> es);
                   es = (if publish then es @ map Ev_Publish outputs else es)
               in (None, es)))"

definition close_for_recovery ::
    "('a, 'o, 'e) adapter_config \<Rightarrow> string \<Rightarrow> ('a, 'o, 'e) retryable_adapter \<Rightarrow> ('a, 'o, 'e) retryable_adapter" where
  "close_for_recovery cfg reason r =
     close_adapter_now cfg reason
       (if recovery_close_timeout cfg \<le> 0 then second else recovery_close_timeout cfg) False r"

definition close_adapter ::
    "('a, 'o, 'e) adapter_config \<Rightarrow> string \<Rightarrow> duration \<Rightarrow> bool \<Rightarrow>
     ('a, 'o, 'e) retryable_adapter \<Rightarrow> ('a, 'o, 'e) retryable_adapter" where
  "close_adapter cfg reason timeout publish r =
     close_adapter_now cfg reason (if timeout \<le> 0 then second else timeout) publish r"

definition process ::
    "('a, 'o, 'e) adapter_config \<Rightarrow> ('e + 'a) option \<Rightarrow> ('a \<Rightarrow> 'o list \<times> 'e option) option \<Rightarrow> bool \<Rightarrow>
     ('a, 'o, 'e) retryable_adapter \<Rightarrow> ('a, 'o, 'e) retryable_adapter" where
  "process cfg created proc publish r =
     (case proc of
        None \<Rightarrow> r
      | Some f \<Rightarrow>
          (case ensure_adapter cfg created r of
             (None, r1) \<Rightarrow> r1
           | (Some a, r1) \<Rightarrow>
               let (outputs, err) = f a;
                   r2 = (if publish then (fst r1, snd r1 @ map Ev_Publish outputs) else r1)
               in case err of
                    None \<Rightarrow> r2
                  | Some e \<Rightarrow>
                      if is_adapter_unavailable cfg e
                      then close_for_recovery cfg ''adapter unavailable'' (fst r2, snd r2 @ [Ev_Unavailable e])
                      else (fst r2, snd r2 @ [Ev_Process_Error e])))"

section \<open>The queue of a worker (\<open>worker.go\<close>)\<close>

record 't worker =
  wk_done :: bool
  wk_ch :: "'t chan"

definition new_worker :: "int \<Rightarrow> 't worker" where
  "new_worker buffer = \<lparr>wk_done = False, wk_ch = \<lparr>ch_cap = nat (if buffer \<le> 0 then 1 else buffer), ch_items = []\<rparr>\<rparr>"

text \<open>
  \<open>Enqueue\<close>: \<open>None\<close> while it blocks, otherwise whether the item was taken. When both the context is done
  and the channel has room at the second \<open>select\<close>, the runtime chooses (\<open>take\<close>); \<open>done1\<close> is whether the
  context is done at the first one.
\<close>

definition worker_enqueue :: "bool \<Rightarrow> bool \<Rightarrow> 't \<Rightarrow> 't worker \<Rightarrow> bool option \<times> 't worker" where
  "worker_enqueue done1 pick item w =
     (if done1 then (Some False, w)
      else case try_send item (wk_ch w) of
             (True, c) \<Rightarrow> if wk_done w \<and> \<not> pick then (Some False, w) else (Some True, w\<lparr>wk_ch := c\<rparr>)
           | (False, _) \<Rightarrow> if wk_done w then (Some False, w) else (None, w))"

definition worker_stop :: "'t worker \<Rightarrow> 't worker" where
  "worker_stop w = w\<lparr>wk_done := True\<rparr>"

text \<open>\<open>DrainNonBlocking\<close> empties the channel; it returns what it consumed.\<close>

function worker_drain :: "'t worker \<Rightarrow> 't list \<times> 't worker" where
  "worker_drain w =
     (case try_recv (wk_ch w) of
        (None, _) \<Rightarrow> ([], w)
      | (Some item, c) \<Rightarrow> (case worker_drain (w\<lparr>wk_ch := c\<rparr>) of (xs, w1) \<Rightarrow> (item # xs, w1)))"
  by pat_completeness auto
termination
  by (relation "measure (\<lambda>w. length (ch_items (wk_ch w)))")
    (auto simp: try_recv_def split: list.splits)

declare worker_drain.simps [simp del]

section \<open>Lemmas on the queues\<close>

lemma stream_key_split:
  assumes "\<not> contains (session_id @ '':'') ''::''"
  shows "split_stream_key (stream_key session_id stream_id) = (session_id, stream_id)"
proof -
  from assms have "\<not> sublist ''::'' (session_id @ butlast ''::'')" by (simp add: contains_sublist)
  from index_of_append [OF _ this, of stream_id]
  show ?thesis by (simp add: stream_key_def split_stream_key_def)
qed

lemma validate_retry_ok: "0 < initial (validate_retry_config cfg) \<and>
    initial (validate_retry_config cfg) \<le> max_delay (validate_retry_config cfg)"
  by (simp add: validate_retry_config_def default_retry_config_def Let_def)

lemma schedule_retry_frame [simp]:
  "streams (schedule_retry key pq m) = streams m" "max_pending (schedule_retry key pq m) = max_pending m"
  "retry_cfg (schedule_retry key pq m) = retry_cfg m"
  by (simp_all add: schedule_retry_def Let_def)

lemma schedule_retry_queue:
  "map_of (pending (schedule_retry key pq m)) k =
     (if k = key
      then Some (if pq_timer pq then pq
                 else pq\<lparr>pq_timer := True, pq_delay :=
                   (if pq_delay pq \<le> 0 then initial (retry_cfg m)
                    else min (pq_delay pq * 2) (max_delay (retry_cfg m)))\<rparr>)
      else map_of (pending m) k)"
  by (simp add: schedule_retry_def Let_def min_def)

lemma take_last_push:
  "0 < n \<Longrightarrow> (if n \<le> length (take_last n xs) then tl (take_last n xs) else take_last n xs) @ [x] =
     take_last n (xs @ [x])"
  by (auto simp: take_last_def drop_Suc tl_drop [symmetric] Suc_diff_le)

lemma buffer_pending_all:
  assumes "map_of (pending m) key = None" and "0 < max_pending m" and "xs \<noteq> []"
    and "m' = fold (buffer_pending key params) xs m"
  shows "map_of (pending m') key = Some \<lparr>pq_params = params, pq_items = take_last (max_pending m) xs,
      failure_count = 0, first_failure_at = 0, pq_timer = True, pq_delay =
        (initial (retry_cfg m))\<rparr> \<and>
    streams m' = streams m \<and> max_pending m' = max_pending m \<and> retry_cfg m' = retry_cfg m \<and>
    effects m' = effects m @ [Eff_After (initial (retry_cfg m)) key]"
  using assms(3) unfolding assms(4)
proof (induction xs rule: rev_nonempty_induct)
  case (single x)
  from assms(1,2) show ?case
    by (auto simp: buffer_pending_def schedule_retry_def Let_def take_last_def)
next
  case (snoc x xs)
  let ?m = "fold (buffer_pending key params) xs m"
  from snoc.IH have q: "map_of (pending ?m) key = Some \<lparr>pq_params = params, pq_items = take_last (max_pending m) xs,
      failure_count = 0, first_failure_at = 0, pq_timer = True, pq_delay = initial (retry_cfg m)\<rparr>"
    and r: "streams ?m = streams m" "max_pending ?m = max_pending m" "retry_cfg ?m = retry_cfg m"
      "effects ?m = effects m @ [Eff_After (initial (retry_cfg m)) key]" by simp_all
  from take_last_push [OF assms(2), of xs x] show ?case
    by (simp add: buffer_pending_def [of key params x ?m] q r schedule_retry_def Let_def split: if_splits)
qed

lemma enqueue_all_ok:
  "(\<And>j. j < length items \<Longrightarrow> enq (i + j) = None) \<Longrightarrow>
   enqueue_all hk key h enq i items m = m\<lparr>effects := effects m @ map (Eff_Enqueue h) items\<rparr>"
proof (induction items arbitrary: i m)
  case (Cons x items)
  from Cons.prems [of 0] have "enq i = None" by simp
  moreover have "enq (Suc i + j) = None" if "j < length items" for j
    using Cons.prems [of "Suc j"] that by simp
  ultimately show ?case using Cons.IH [of "Suc i"] by simp
qed simp

lemma retry_pending_error:
  assumes "map_of (pending m) key = Some pq" and "stream_of key m = None"
    and "stream_factory hk = Some create" and "create key (pq_params pq) = Inl e"
  shows "retry_pending hk now key enq m =
    (if fst (classify_error hk (Factory_Error e)) then retry_unavailable key else retry_failed now key)
      (m\<lparr>pending := mput key (pq\<lparr>pq_timer := False\<rparr>) (pending m)\<rparr>)"
  using assms by (simp add: retry_pending_def retry_begin_def create_stream_def stream_of_def)

lemma retry_unavailable_step:
  assumes "map_of (pending m) key = Some pq" and "stream_of key m = None"
    and "stream_factory hk = Some create" and "create key (pq_params pq) = Inl e"
    and "fst (classify_error hk (Factory_Error e))"
  shows "map_of (pending (retry_pending hk now key enq m)) key =
      Some (pq\<lparr>pq_timer := True, pq_delay := (if pq_delay pq \<le> 0 then initial (retry_cfg m)
        else min (pq_delay pq * 2) (max_delay (retry_cfg m)))\<rparr>) \<and>
    streams (retry_pending hk now key enq m) = streams m \<and> retry_cfg (retry_pending hk now key enq m) = retry_cfg m"
  unfolding retry_pending_error [OF assms(1-4)] using assms(5)
  by (simp add: retry_unavailable_def schedule_retry_queue)

lemma retry_failed_step:
  assumes "map_of (pending m) key = Some pq" and "stream_of key m = None"
    and "stream_factory hk = Some create" and "create key (pq_params pq) = Inl e"
    and "\<not> fst (classify_error hk (Factory_Error e))" and "max_duration (retry_cfg m) \<le> 0"
  shows "streams (retry_pending hk now key enq m) = streams m \<and>
    retry_cfg (retry_pending hk now key enq m) = retry_cfg m \<and>
    (if failure_count pq + 1 \<ge> max_failures (retry_cfg m) \<or> max_failures (retry_cfg m) \<le> 0
     then map_of (pending (retry_pending hk now key enq m)) key = None
     else \<exists>pq'. map_of (pending (retry_pending hk now key enq m)) key = Some pq' \<and>
       pq_params pq' = pq_params pq \<and> pq_items pq' = pq_items pq \<and> failure_count pq' = failure_count pq + 1)"
  unfolding retry_pending_error [OF assms(1-4)] using assms(5,6)
  by (auto simp: retry_failed_def schedule_retry_queue Let_def)

lemma retry_pending_none: "map_of (pending m) key = None \<Longrightarrow> retry_pending hk now key enq m = m"
  by (simp add: retry_pending_def retry_begin_def)

section \<open>Properties of the queues\<close>

text \<open>
  Items that arrive before their stream exists are not lost, up to the bound: when the factory succeeds,
  the new stream is registered and receives the last \<open>maxPending\<close> of them, in the order in which they
  came, and the queue is gone. Buffering arms one timer only, with the initial delay.
\<close>

theorem pending_replayed:
  assumes "stream_of key m = None" and "map_of (pending m) key = None" and "0 < max_pending m" and "xs \<noteq> []"
    and "stream_factory hk = Some create" and "create key params = Inr h"
    and "\<And>i. i < length xs \<Longrightarrow> enq i = None"
    and "m1 = fold (buffer_pending key params) xs m"
  shows "fst (create_stream hk key params enq m1) = Inr h \<and>
    stream_of key (snd (create_stream hk key params enq m1)) = Some h \<and>
    get_pending_queue key (snd (create_stream hk key params enq m1)) = None \<and>
    effects (snd (create_stream hk key params enq m1)) =
      effects m @ [Eff_After (initial (retry_cfg m)) key] @ map (Eff_Enqueue h) (take_last (max_pending m) xs)"
proof -
  note b = buffer_pending_all [OF assms(2-4,8)]
  let ?reg = "m1\<lparr>streams := mput key h (streams m1)\<rparr>"
  have "enqueue_all hk key h enq 0 (take_last (max_pending m) xs) (?reg\<lparr>pending := mdel key (pending m1)\<rparr>) =
      ?reg\<lparr>pending := mdel key (pending m1), effects := effects m1 @ map (Eff_Enqueue h) (take_last (max_pending m) xs)\<rparr>"
    by (subst enqueue_all_ok) (use assms(7) in auto)
  with b assms(1,5,6) show ?thesis
    by (simp add: create_stream_def stream_of_def register_stream_def flush_pending_def take_pending_def
        get_pending_queue_def)
qed

definition demo_params :: "unit session_params" where
  "demo_params = \<lparr>sp_session_id = ''s'', sp_stream_id = ''mic'',
     sp_format = \<lparr>encoding = ''pcm_s16le'', sample_rate = 16000, channels = 1, bit_depth = 16, frame_duration = 20 * millisecond\<rparr>,
     sp_metadata = (\<lambda>_. None), sp_adapter_id = [], sp_config = (\<lambda>_. None)\<rparr>"

definition demo_hooks :: "(string \<Rightarrow> string + nat) \<Rightarrow> bool \<Rightarrow> (nat, nat, unit, string) hooks" where
  "demo_hooks f unavailable = \<lparr>stream_factory = Some (\<lambda>key _. f key), on_enqueue_error = None,
     classify_create_error = Some (\<lambda>_. (unavailable, False))\<rparr>"

theorem pending_replayed_witness:
  "effects (snd (create_stream (demo_hooks (\<lambda>_. Inr 7) True) ''s::mic'' demo_params (\<lambda>_. None)
     (fold (buffer_pending ''s::mic'' demo_params) [1, 2, 3] (new_stream_manager 2 default_retry_config)))) =
   [Eff_After 200000000 ''s::mic'', Eff_Enqueue 7 2, Eff_Enqueue 7 3]"
proof -
  let ?m = "new_stream_manager 2 default_retry_config :: (nat, nat, unit) stream_manager"
  have m: "stream_of ''s::mic'' ?m = None" "map_of (pending ?m) ''s::mic'' = None" "0 < max_pending ?m"
    "max_pending ?m = 2" "effects ?m = []" "initial (retry_cfg ?m) = 200000000"
    by (simp_all add: new_stream_manager_def stream_of_def validate_retry_config_def default_retry_config_def Let_def)
  have "effects (snd (create_stream (demo_hooks (\<lambda>_. Inr 7) True) ''s::mic'' demo_params (\<lambda>_. None)
      (fold (buffer_pending ''s::mic'' demo_params) [1, 2, 3] ?m))) =
    effects ?m @ [Eff_After (initial (retry_cfg ?m)) ''s::mic''] @ map (Eff_Enqueue 7) (take_last (max_pending ?m) [1, 2, 3])"
    using pending_replayed [OF m(1-3), of "[1, 2, 3]" "demo_hooks (\<lambda>_. Inr 7) True" "\<lambda>_ _. Inr 7" demo_params 7 "\<lambda>_. None"]
    by (simp add: demo_hooks_def)
  then show ?thesis by (simp add: m take_last_def)
qed

text \<open>
  While the adapter is unavailable the queue is kept for ever and retried with exponential back-off: after
  any number \<open>n\<close> of retries the items are untouched, no failure is counted, a timer is armed, and the delay
  is \<open>2 ^ n\<close> times the initial one, capped.
\<close>

theorem backoff_doubles:
  assumes "map_of (pending m) key = Some pq" and "pq_timer pq" and "pq_delay pq = initial (retry_cfg m)"
    and "0 < initial (retry_cfg m)" and "initial (retry_cfg m) \<le> max_delay (retry_cfg m)"
    and "stream_of key m = None" and "stream_factory hk = Some create" and "create key (pq_params pq) = Inl e"
    and "fst (classify_error hk (Factory_Error e))"
  shows "map_of (pending (fold (\<lambda>now. retry_pending hk now key enq) nows m)) key =
    Some (pq\<lparr>pq_delay := min (initial (retry_cfg m) * 2 ^ length nows) (max_delay (retry_cfg m))\<rparr>)"
proof -
  let ?i = "initial (retry_cfg m)" and ?x = "max_delay (retry_cfg m)"
  have "map_of (pending (fold (\<lambda>now. retry_pending hk now key enq) nows m)) key =
      Some (pq\<lparr>pq_delay := min (?i * 2 ^ length nows) ?x\<rparr>) \<and>
    streams (fold (\<lambda>now. retry_pending hk now key enq) nows m) = streams m \<and>
    retry_cfg (fold (\<lambda>now. retry_pending hk now key enq) nows m) = retry_cfg m"
  proof (induction nows rule: rev_induct)
    case Nil
    from assms(1,3,5) show ?case by (cases pq) simp
  next
    case (snoc now nows)
    let ?m = "fold (\<lambda>now. retry_pending hk now key enq) nows m"
    have q: "map_of (pending ?m) key = Some (pq\<lparr>pq_delay := min (?i * 2 ^ length nows) ?x\<rparr>)"
      and r: "streams ?m = streams m" "retry_cfg ?m = retry_cfg m" using snoc by simp_all
    have st: "stream_of key ?m = None" using assms(6) r by (simp add: stream_of_def)
    have pos: "\<not> min (?i * 2 ^ length nows) ?x \<le> 0" using assms(4,5) by (simp add: min_le_iff_disj not_le)
    have two: "min (min (?i * 2 ^ length nows) ?x * 2) ?x = min (?i * 2 ^ length (nows @ [now])) ?x"
      using assms(4,5) by (auto simp: min_def algebra_simps)
    from retry_unavailable_step [OF q st assms(7) _ assms(9), of now enq] assms(2,8) pos
    show ?case by (simp add: r two [simplified])
  qed
  then show ?thesis by blast
qed

theorem backoff_doubles_witness:
  "\<exists>pq. map_of (pending (fold (\<lambda>now. retry_pending (demo_hooks (\<lambda>_. Inl ''down'') True) now ''k'' (\<lambda>_. None)) [1, 2, 3, 4, 5]
      (buffer_pending ''k'' demo_params 1 (new_stream_manager 2 default_retry_config)))) ''k'' = Some pq \<and>
    pq_delay pq = 5 * second \<and> pq_items pq = [1]"
proof -
  let ?m = "buffer_pending ''k'' demo_params 1 (new_stream_manager 2 default_retry_config) :: (nat, nat, unit) stream_manager"
  let ?pq = "\<lparr>pq_params = demo_params, pq_items = [1], failure_count = 0, first_failure_at = 0, pq_timer = True,
    pq_delay = 200000000\<rparr> :: (nat, unit) pending_queue"
  have m: "map_of (pending ?m) ''k'' = Some ?pq" "pq_timer ?pq" "pq_delay ?pq = initial (retry_cfg ?m)"
    "0 < initial (retry_cfg ?m)" "initial (retry_cfg ?m) \<le> max_delay (retry_cfg ?m)" "stream_of ''k'' ?m = None"
    "max_delay (retry_cfg ?m) = 5000000000" "initial (retry_cfg ?m) = 200000000"
    by (simp_all add: buffer_pending_def schedule_retry_def new_stream_manager_def stream_of_def
        validate_retry_config_def default_retry_config_def Let_def)
  show ?thesis
    using backoff_doubles [OF m(1-6), of "demo_hooks (\<lambda>_. Inl ''down'') True" "\<lambda>_ _. Inl ''down''" "''down''" "\<lambda>_. None" "[1, 2, 3, 4, 5]",
        unfolded m(7,8)]
    by (simp add: demo_hooks_def classify_error_def)
qed



text \<open>
  A queue can be stranded. \<open>CreateStream\<close> flushes the queue only when it registers the stream itself; on
  its fast path it does not. So when a queue exists while its stream is registered (an item buffered by
  a goroutine whose own \<open>CreateStream\<close> failed, just after another one created the stream and flushed),
  the retry succeeds without delivering anything: the items stay where they are, no timer is left, and
  further retries change nothing.
\<close>

theorem retry_strands_queue:
  assumes "stream_of key m = Some h" and "map_of (pending m) key = Some pq" and "stream_factory hk = Some create"
    and "m' = retry_pending hk now key enq m"
  shows "get_pending_queue key m' = Some (pq\<lparr>pq_timer := False\<rparr>) \<and> effects m' = effects m \<and>
    retry_pending hk later key enq m' = m'"
proof -
  have "retry_pending hk t key enq m = m\<lparr>pending := mput key (pq\<lparr>pq_timer := False\<rparr>) (pending m)\<rparr>" for t
    using assms(1-3) by (simp add: retry_pending_def retry_begin_def create_stream_def stream_of_def)
  moreover have "mput key v (mput key v ps) = mput key v ps" for v and ps :: "(string, ('b, 'c) pending_queue) gomap"
    by (induction ps) auto
  ultimately show ?thesis using assms
    by (simp add: get_pending_queue_def retry_pending_def retry_begin_def create_stream_def stream_of_def)
qed

theorem retry_strands_queue_witness:
  "get_pending_queue ''k'' (retry_pending (demo_hooks (\<lambda>_. Inl ''down'') True) 9 ''k'' (\<lambda>_. None)
     (buffer_pending ''k'' demo_params 5
       (snd (create_stream (demo_hooks (\<lambda>_. Inr 7) True) ''k'' demo_params (\<lambda>_. None)
         (new_stream_manager 2 default_retry_config))))) \<noteq> None"
proof -
  let ?base = "snd (create_stream (demo_hooks (\<lambda>_. Inr 7) True) ''k'' demo_params (\<lambda>_. None)
         (new_stream_manager 2 default_retry_config :: (nat, nat, unit) stream_manager))"
  let ?m = "buffer_pending ''k'' demo_params 5 ?base"
  have m0: "stream_of ''k'' ?base = Some 7" "map_of (pending ?base) ''k'' = None" "0 < max_pending ?base"
    by (simp_all add: create_stream_def demo_hooks_def stream_of_def new_stream_manager_def
        register_stream_def flush_pending_def take_pending_def)
  from buffer_pending_all [OF m0(2,3), of "[5]" ?m] m0(1)
  have m: "stream_of ''k'' ?m = Some 7" "map_of (pending ?m) ''k'' \<noteq> None"
    by (simp_all add: stream_of_def)
  then obtain pq where "map_of (pending ?m) ''k'' = Some pq" by blast
  moreover have "stream_factory (demo_hooks (\<lambda>_. Inl ''down'') True) = Some (\<lambda>_ _. Inl ''down'')"
    by (simp add: demo_hooks_def)
  ultimately show ?thesis using retry_strands_queue [OF m(1) _ _ refl] by blast
qed

section \<open>The adapter never leaks\<close>

datatype ('a, 'o, 'e) adapter_op =
    Op_Process "('e + 'a) option" "('a \<Rightarrow> 'o list \<times> 'e option) option" bool
  | Op_Recover string
  | Op_Close string duration bool

fun adapter_step ::
    "('a, 'o, 'e) adapter_config \<Rightarrow> ('a, 'o, 'e) adapter_op \<Rightarrow> ('a, 'o, 'e) retryable_adapter \<Rightarrow>
     ('a, 'o, 'e) retryable_adapter" where
  "adapter_step cfg (Op_Process created proc publish) r = process cfg created proc publish r"
| "adapter_step cfg (Op_Recover reason) r = close_for_recovery cfg reason r"
| "adapter_step cfg (Op_Close reason timeout publish) r = close_adapter cfg reason timeout publish r"

text \<open>The adapters that have been created and not closed yet, read off the events.\<close>

fun open_adapters :: "'a list \<Rightarrow> ('a, 'o, 'e) adapter_event list \<Rightarrow> 'a list" where
  "open_adapters as [] = as"
| "open_adapters as (Ev_Created a # es) = open_adapters (a # as) es"
| "open_adapters as (Ev_Closed a _ # es) = open_adapters (remove1 a as) es"
| "open_adapters as (_ # es) = open_adapters as es"

lemma open_adapters_append [simp]: "open_adapters as (es @ es') = open_adapters (open_adapters as es) es'"
proof (induction es arbitrary: as)
  case (Cons e es)
  then show ?case by (cases e) simp_all
qed simp

lemma open_adapters_publish [simp]: "open_adapters as (map Ev_Publish os) = as"
  by (induction os) simp_all

definition adapter_balanced :: "('a, 'o, 'e) retryable_adapter \<Rightarrow> bool" where
  "adapter_balanced r \<longleftrightarrow> open_adapters [] (snd r) = (case fst r of None \<Rightarrow> [] | Some a \<Rightarrow> [a])"

lemma snoc_balanced:
  "adapter_balanced r \<Longrightarrow> adapter_balanced (fst r, snd r @ [Ev_Process_Error e])"
  "adapter_balanced r \<Longrightarrow> adapter_balanced (fst r, snd r @ [Ev_Unavailable e])"
  by (simp_all add: adapter_balanced_def)

lemma close_balanced:
  "cfg_close cfg \<noteq> None \<Longrightarrow> adapter_balanced r \<Longrightarrow>
   adapter_balanced (close_adapter_now cfg reason timeout publish r)"
  by (auto simp: close_adapter_now_def adapter_balanced_def Let_def split: option.splits prod.splits)

lemma ensure_balanced:
  "adapter_balanced r \<Longrightarrow> ensure_adapter cfg created r = (a, r1) \<Longrightarrow> adapter_balanced r1 \<and> fst r1 = a"
  by (cases r; cases "fst r") (auto simp: ensure_adapter_def adapter_balanced_def split: option.splits sum.splits if_splits)

lemma adapter_step_balanced:
  assumes "cfg_close cfg \<noteq> None" and "adapter_balanced r"
  shows "adapter_balanced (adapter_step cfg op r)"
proof (cases op)
  case (Op_Process created proc publish)
  obtain a r1 where e: "ensure_adapter cfg created r = (a, r1)" by (rule prod.exhaust)
  from ensure_balanced [OF assms(2) e] have b: "adapter_balanced r1" "fst r1 = a" by simp_all
  let ?pub = "\<lambda>os. if publish then (fst r1, snd r1 @ map Ev_Publish os) else r1"
  have p: "adapter_balanced (?pub os)" "fst (?pub os) = a" for os
    using b by (auto simp: adapter_balanced_def)
  have ev: "adapter_balanced (fst (?pub os), snd (?pub os) @ [Ev_Process_Error e])"
    "adapter_balanced (close_for_recovery cfg reason (fst (?pub os), snd (?pub os) @ [Ev_Unavailable e]))" for os e reason
    using snoc_balanced [OF p(1) [of os]] close_balanced [OF assms(1) snoc_balanced(2) [OF p(1) [of os]]]
    unfolding close_for_recovery_def by blast+
  show ?thesis
    using assms(2) b(1) p ev by (auto simp: Op_Process process_def e Let_def split: option.splits prod.splits)
next
  case (Op_Recover reason)
  with close_balanced [OF assms] show ?thesis by (simp add: close_for_recovery_def)
next
  case (Op_Close reason timeout publish)
  with close_balanced [OF assms] show ?thesis by (simp add: close_adapter_def)
qed

interpretation ra: op_machine "adapter_step cfg" "\<lambda>_. cfg_close cfg \<noteq> None" adapter_balanced for cfg
  by unfold_locales (rule adapter_step_balanced)

text \<open>
  The reconnecting adapter never leaks and never closes twice: whatever a stream does with it, and
  whichever calls fail, the adapters created and not yet closed are exactly the one it holds, so that
  there is at most one, and after \<open>Close\<close> there is none.
\<close>

theorem adapter_never_leaks:
  assumes "cfg_close cfg \<noteq> None" and "r = fold (adapter_step cfg) ops (None, [])"
  shows "open_adapters [] (snd r) = (case fst r of None \<Rightarrow> [] | Some a \<Rightarrow> [a]) \<and>
    open_adapters [] (snd (close_adapter cfg reason timeout publish r)) = []"
proof -
  have b: "adapter_balanced (fold (adapter_step cfg) ops (None, []))"
    by (rule ra.inv_run) (use assms(1) in \<open>simp_all add: adapter_balanced_def\<close>)
  from close_balanced [OF assms(1) this] have "adapter_balanced (close_adapter cfg reason timeout publish r)"
    unfolding assms(2) close_adapter_def .
  moreover have "fst (close_adapter cfg reason timeout publish r) = None"
    by (simp add: close_adapter_def close_adapter_now_def Let_def split: option.splits prod.splits)
  ultimately show ?thesis using b unfolding assms(2) by (simp add: adapter_balanced_def)
qed

theorem adapter_never_leaks_witness:
  "\<exists>cfg. cfg_close cfg = Some (\<lambda>a :: nat. ([], None)) \<and>
     snd (fold (adapter_step cfg) [Op_Process (Some (Inr 1)) (Some (\<lambda>_. ([''x''], Some ''gone''))) True] (None, [])) =
       [Ev_Created 1, Ev_Reconnected, Ev_Publish ''x'', Ev_Unavailable ''gone'', Ev_Closed 1 second] \<and>
     open_adapters [] (snd (fold (adapter_step cfg)
       [Op_Process (Some (Inr 1)) (Some (\<lambda>_. ([''x''], Some ''gone''))) True] (None, []))) = []"
proof -
  let ?cfg = "\<lparr>cfg_close = Some (\<lambda>a :: nat. ([], None)), cfg_unavailable = Some (\<lambda>_. True),
    cfg_context_error = (\<lambda>_. False), recovery_close_timeout = 0\<rparr> :: (nat, string, string) adapter_config"
  let ?ops = "[Op_Process (Some (Inr 1)) (Some (\<lambda>_. ([''x''], Some ''gone''))) True] :: (nat, string, string) adapter_op list"
  have c: "cfg_close ?cfg \<noteq> None" by simp
  have t: "fold (adapter_step ?cfg) ?ops (None, []) =
      (None, [Ev_Created 1, Ev_Reconnected, Ev_Publish ''x'', Ev_Unavailable ''gone'', Ev_Closed 1 second])"
    by (simp add: process_def ensure_adapter_def is_adapter_unavailable_def close_for_recovery_def close_adapter_now_def)
  with adapter_never_leaks [OF c refl, of ?ops] show ?thesis by (intro exI [of _ ?cfg]) simp
qed

end
