(* ===== verification/GoNumbers.thy ===== *)
theory GoNumbers
  imports Complex_Main GoStrings
begin

text \<open>
  The numbers that the program prints with \<open>fmt.Sprintf\<close>: \<open>"%d"\<close> of a natural number and \<open>"%.3f"\<close> of a
  floating-point number, given as the rational that it stands for (NaN and the infinities are left out).
\<close>

text \<open>\<open>"%d"\<close>\<close>

fun decimal :: "nat \<Rightarrow> string" where
  "decimal n = (if n < 10 then [char_of (48 + n)] else decimal (n div 10) @ [char_of (48 + n mod 10)])"

declare decimal.simps [simp del]

text \<open>\<open>"%.3f"\<close>: the exact value rounded to thousandths, ties to even.\<close>

definition round_half_even :: "rat \<Rightarrow> int" where
  "round_half_even r =
     (let n = \<lfloor>r\<rfloor>; d = r - of_int n
      in if d < 1 / 2 then n else if d > 1 / 2 then n + 1 else if even n then n else n + 1)"

definition fixed3 :: "rat \<Rightarrow> string" where
  "fixed3 v =
     (let t = nat (round_half_even (\<bar>v\<bar> * 1000)); d = decimal (t mod 1000)
      in (if v < 0 then ''-'' else []) @ decimal (t div 1000) @ ''.'' @ replicate (3 - length d) (CHR ''0'') @ d)"

end
