(* ===== verification/Barge.thy ===== *)
theory Barge
  imports Utf8 GoNumbers StreamManager
begin

text \<open>
  The barge-in coordinator, \<open>internal/audio/barge\<close>: from voice activity, client interrupts and playback
  progress it decides when the speech output of a session is interrupted. A confidence (\<open>float32\<close>) is the
  rational it stands for, so NaN and the infinities are left out. The map \<open>playback\<close> is iterated and is
  therefore an association list in the order of the iteration. Published events are appended to the
  field \<open>published\<close>; the logger is left out, and a time difference that saturates Go's \<open>Duration\<close> (292
  years) does not occur.
\<close>

section \<open>Data\<close>

record vad_event =
  vad_session_id :: string
  vad_stream_id :: string
  vad_active :: bool
  vad_confidence :: rat
  vad_timestamp :: time_ns
  vad_metadata :: "(string, string) gomap"

record interrupt_event =
  int_session_id :: string
  int_stream_id :: string
  int_reason :: string
  int_timestamp :: time_ns
  int_metadata :: "(string, string) gomap"

record playback_event =
  pb_session_id :: string
  pb_stream_id :: string
  pb_final :: bool

record barge_in_event =
  bi_session_id :: string
  bi_stream_id :: string
  bi_reason :: string
  bi_timestamp :: time_ns
  bi_metadata :: "(string, string) gomap"

record playback_state =
  playing :: bool
  quiet_until :: time_ns

record barge =
  has_bus :: bool
  min_confidence :: rat
  cooldown :: duration
  quiet_period :: duration
  last_event :: "string \<Rightarrow> time_ns"
  playback :: "(string, playback_state) gomap"
  session_streams :: "string \<Rightarrow> string option"
  published :: "barge_in_event list"

datatype barge_option = With_Confidence_Threshold rat | With_Cooldown duration | With_Quiet_Period duration

fun apply_barge_option :: "barge_option \<Rightarrow> barge \<Rightarrow> barge" where
  "apply_barge_option (With_Confidence_Threshold t) s = (if 0 \<le> t \<and> t \<le> 1 then s\<lparr>min_confidence := t\<rparr> else s)"
| "apply_barge_option (With_Cooldown d) s = (if d \<ge> 0 then s\<lparr>cooldown := d\<rparr> else s)"
| "apply_barge_option (With_Quiet_Period d) s = (if d \<ge> 0 then s\<lparr>quiet_period := d\<rparr> else s)"

definition new_barge :: "bool \<Rightarrow> barge_option list \<Rightarrow> barge" where
  "new_barge bus opts = fold apply_barge_option opts
     \<lparr>has_bus = bus, min_confidence = 35 / 100, cooldown = 750 * millisecond, quiet_period = 500 * millisecond,
      last_event = (\<lambda>_. zero_time), playback = [], session_streams = (\<lambda>_. None), published = []\<rparr>"

section \<open>Helpers\<close>

definition format_float :: "rat \<Rightarrow> string" where
  "format_float v = trim_right (\<lambda>c. c = CHR ''.'') (trim_right (\<lambda>c. c = CHR ''0'') (fixed3 v))"

definition reason_or_default :: "string \<Rightarrow> string \<Rightarrow> string" where
  "reason_or_default reason fallback = (let reason = trim_space reason in if reason = [] then fallback else reason)"

definition trim_to_rune_limit :: "string \<Rightarrow> int \<Rightarrow> string" where
  "trim_to_rune_limit v limit =
     (if limit \<le> 0 then []
      else let rs = runes v in of_runes (if int (length rs) > limit then take (nat limit) rs else rs))"

definition sanitize_step ::
    "string \<times> string \<Rightarrow> nat \<times> (string, string) gomap \<Rightarrow> nat \<times> (string, string) gomap" where
  "sanitize_step kv acc =
     (case acc of (count, out) \<Rightarrow>
        if count \<ge> 32 then (count, out)
        else let key = trim_to_rune_limit (fst kv) 64
             in if key = [] then (count, out)
                else (count + 1, mput key (trim_to_rune_limit (snd kv) 512) out))"

definition sanitize_metadata :: "(string, string) gomap \<Rightarrow> (string, string) gomap" where
  "sanitize_metadata meta = snd (fold sanitize_step meta (0, []))"

section \<open>The service\<close>

definition handle_playback_event :: "playback_event \<Rightarrow> time_ns \<Rightarrow> barge \<Rightarrow> barge" where
  "handle_playback_event ev ts s =
     (let key = stream_key (pb_session_id ev) (pb_stream_id ev);
          state = (case map_of (playback s) key of Some st \<Rightarrow> st | None \<Rightarrow> \<lparr>playing = False, quiet_until = zero_time\<rparr>)
      in if pb_final ev
         then s\<lparr>playback := mput key (state\<lparr>playing := False, quiet_until := ts + quiet_period s\<rparr>) (playback s),
                session_streams := (if session_streams s (pb_session_id ev) = Some (pb_stream_id ev)
                  then (session_streams s)(pb_session_id ev := None) else session_streams s)\<rparr>
         else s\<lparr>playback := mput key (state\<lparr>playing := True, quiet_until := zero_time\<rparr>) (playback s),
                session_streams := (session_streams s)(pb_session_id ev \<mapsto> pb_stream_id ev)\<rparr>)"

text \<open>The iteration of \<open>targetStreamForSession\<close> over the playback states.\<close>

fun scan_playback :: "string \<Rightarrow> time_ns \<Rightarrow> (string, playback_state) gomap \<Rightarrow> string option" where
  "scan_playback sid ts [] = None"
| "scan_playback sid ts ((key, state) # rest) =
     (case split_stream_key key of (s, stream) \<Rightarrow>
        if s \<noteq> sid then scan_playback sid ts rest
        else if playing state then Some stream
        else if \<not> is_zero (quiet_until state) \<and> ts < quiet_until state then None
        else scan_playback sid ts rest)"

definition target_stream :: "string \<Rightarrow> time_ns \<Rightarrow> barge \<Rightarrow> string option \<times> barge" where
  "target_stream sid ts s =
     (let scan = (case scan_playback sid ts (playback s) of
                    Some stream \<Rightarrow> (Some stream, s\<lparr>session_streams := (session_streams s)(sid \<mapsto> stream)\<rparr>)
                  | None \<Rightarrow> (None, s))
      in case session_streams s sid of
           None \<Rightarrow> scan
         | Some stream \<Rightarrow>
             if stream = [] then scan
             else
               let state = (case map_of (playback s) (stream_key sid stream) of
                              Some st \<Rightarrow> st | None \<Rightarrow> \<lparr>playing = False, quiet_until = zero_time\<rparr>)
               in if playing state then (Some stream, s)
                  else if \<not> is_zero (quiet_until state) \<and> ts < quiet_until state then (None, s)
                  else scan)"

definition register_trigger :: "string \<Rightarrow> time_ns \<Rightarrow> barge \<Rightarrow> bool \<times> barge" where
  "register_trigger key ts s =
     (if \<not> is_zero (last_event s key) \<and> ts - last_event s key < cooldown s then (False, s)
      else (True, s\<lparr>last_event := (last_event s)(key := ts)\<rparr>))"

definition publish_barge_in ::
    "string \<Rightarrow> string \<Rightarrow> time_ns \<Rightarrow> string \<Rightarrow> rat \<Rightarrow> (string, string) gomap \<Rightarrow> barge \<Rightarrow> barge" where
  "publish_barge_in sid stream ts reason confidence meta s =
     (if \<not> has_bus s then s
      else
        let md = mput ''confidence'' (format_float confidence) (mput ''trigger'' reason (sanitize_metadata meta))
        in s\<lparr>published := published s @ [\<lparr>bi_session_id = sid, bi_stream_id = stream, bi_reason = reason,
              bi_timestamp = ts, bi_metadata = md\<rparr>]\<rparr>)"

definition handle_vad_event :: "time_ns \<Rightarrow> vad_event \<Rightarrow> barge \<Rightarrow> barge" where
  "handle_vad_event now ev s =
     (if \<not> vad_active ev then s
      else if vad_confidence ev < min_confidence s then s
      else
        let ts = (if is_zero (vad_timestamp ev) then now else vad_timestamp ev)
        in case target_stream (vad_session_id ev) ts s of
             (None, s1) \<Rightarrow> s1
           | (Some stream, s1) \<Rightarrow>
               (case register_trigger (stream_key (vad_session_id ev) stream) ts s1 of
                  (False, s2) \<Rightarrow> s2
                | (True, s2) \<Rightarrow>
                    publish_barge_in (vad_session_id ev) stream ts ''vad_detected'' (vad_confidence ev)
                      (if vad_stream_id ev \<noteq> [] then mput ''vad_stream_id'' (vad_stream_id ev) (vad_metadata ev)
                       else vad_metadata ev) s2))"

definition handle_client_event :: "time_ns \<Rightarrow> interrupt_event \<Rightarrow> barge \<Rightarrow> barge" where
  "handle_client_event now ev s =
     (if int_session_id ev = [] then s
      else
        let ts = (if is_zero (int_timestamp ev) then now else int_timestamp ev);
            given = trim_space (int_stream_id ev);
            (stream, s1) =
              (if given \<noteq> [] then (given, s)
               else case target_stream (int_session_id ev) ts s of
                      (Some r, s1) \<Rightarrow> (r, s1)
                    | (None, s1) \<Rightarrow> ([], s1))
        in if stream = [] then s1
           else case register_trigger (stream_key (int_session_id ev) stream) ts s1 of
                  (False, s2) \<Rightarrow> s2
                | (True, s2) \<Rightarrow>
                    publish_barge_in (int_session_id ev) stream ts
                      (reason_or_default (int_reason ev) ''client_interrupt'') 1 (int_metadata ev) s2)"

definition consume_playback :: "time_ns \<Rightarrow> time_ns \<Rightarrow> playback_event \<Rightarrow> barge \<Rightarrow> barge" where
  "consume_playback now ts ev s = handle_playback_event ev (if is_zero ts then now else ts) s"

datatype barge_op =
    Barge_VAD time_ns vad_event
  | Barge_Client time_ns interrupt_event
  | Barge_Playback time_ns time_ns playback_event

fun barge_step :: "barge_op \<Rightarrow> barge \<Rightarrow> barge" where
  "barge_step (Barge_VAD now ev) s = handle_vad_event now ev s"
| "barge_step (Barge_Client now ev) s = handle_client_event now ev s"
| "barge_step (Barge_Playback now ts ev) s = consume_playback now ts ev s"

section \<open>Lemmas\<close>

lemma split_stream_key_inv:
  "contains key ''::'' \<Longrightarrow> split_stream_key key = (a, b) \<Longrightarrow> key = stream_key a b"
proof -
  assume "contains key ''::''" and k: "split_stream_key key = (a, b)"
  then obtain i where i: "index_of key ''::'' = Some i" by (auto simp: contains_def)
  from index_of_Some_split [OF this] have "key = take i key @ ''::'' @ drop (i + 2) key" by simp
  with i k show ?thesis by (simp add: split_stream_key_def stream_key_def)
qed

lemma contains_stream_key [simp]: "contains (stream_key a b) ''::''"
  by (simp add: contains_sublist stream_key_def sublist_def) (metis append.assoc append_Cons append_Nil)

text \<open>The last thing that playback told about a stream.\<close>

fun report_of :: "string \<Rightarrow> barge_op \<Rightarrow> bool option" where
  "report_of key (Barge_Playback now ts ev) =
     (if stream_key (pb_session_id ev) (pb_stream_id ev) = key then Some (\<not> pb_final ev) else None)"
| "report_of key _ = None"

definition last_report :: "string \<Rightarrow> barge_op list \<Rightarrow> bool option" where
  "last_report key ops = fold (\<lambda>op r. case report_of key op of Some b \<Rightarrow> Some b | None \<Rightarrow> r) ops None"

lemma target_stream_frame:
  "target_stream sid ts s = (r, s1) \<Longrightarrow> \<exists>f. s1 = s\<lparr>session_streams := f\<rparr>"
proof -
  assume "target_stream sid ts s = (r, s1)"
  then have "s1 = s \<or> (\<exists>f. s1 = s\<lparr>session_streams := f\<rparr>)"
    by (auto simp: target_stream_def Let_def split: option.splits if_splits)
  moreover have "s = s\<lparr>session_streams := session_streams s\<rparr>" by simp
  ultimately show ?thesis by metis
qed

lemma register_trigger_cases:
  obtains "register_trigger key ts s = (False, s)" "last_event s key \<noteq> 0" "ts - last_event s key < cooldown s"
  | "register_trigger key ts s = (True, s\<lparr>last_event := (last_event s)(key := ts)\<rparr>)"
    "last_event s key = 0 \<or> cooldown s \<le> ts - last_event s key"
  by (cases "last_event s key \<noteq> 0 \<and> ts - last_event s key < cooldown s") (auto simp: register_trigger_def)

text \<open>
  What a step does: a playback report changes only the playback states; the others change the memory
  of streams and, when they trigger, record the time and publish one event.
\<close>

definition triggered :: "barge \<Rightarrow> string \<Rightarrow> string \<Rightarrow> time_ns \<Rightarrow> barge \<Rightarrow> bool" where
  "triggered s sid stream ts s' \<longleftrightarrow>
     (last_event s (stream_key sid stream) = 0 \<or> cooldown s \<le> ts - last_event s (stream_key sid stream)) \<and>
     (\<exists>f b. s' = s\<lparr>session_streams := f, last_event := (last_event s)(stream_key sid stream := ts),
          published := (if has_bus s then published s @ [b] else published s)\<rparr> \<and>
        bi_session_id b = sid \<and> bi_stream_id b = stream \<and> bi_timestamp b = ts)"

lemma trigger_cases:
  assumes "s1 = s\<lparr>session_streams := f\<rparr>"
  shows "(case register_trigger (stream_key sid stream) ts s1 of
      (False, s2) \<Rightarrow> s2 | (True, s2) \<Rightarrow> publish_barge_in sid stream ts reason c meta s2) = s1 \<or>
    triggered s sid stream ts (case register_trigger (stream_key sid stream) ts s1 of
      (False, s2) \<Rightarrow> s2 | (True, s2) \<Rightarrow> publish_barge_in sid stream ts reason c meta s2)"
proof (cases rule: register_trigger_cases [of "stream_key sid stream" ts s1])
  case 2
  let ?s2 = "s1\<lparr>last_event := (last_event s1)(stream_key sid stream := ts)\<rparr>"
  have "triggered s sid stream ts (publish_barge_in sid stream ts reason c meta ?s2)"
    using 2(2) unfolding assms triggered_def publish_barge_in_def Let_def
    by (intro conjI, simp) (rule exI [of _ f], rule exI, auto)
  with 2(1) show ?thesis by simp
qed simp

lemma vad_cases:
  obtains (idle) f where "handle_vad_event now ev s = s\<lparr>session_streams := f\<rparr>"
  | (trigger) stream where "vad_active ev" "min_confidence s \<le> vad_confidence ev"
      "fst (target_stream (vad_session_id ev) (if vad_timestamp ev = 0 then now else vad_timestamp ev) s) = Some stream"
      "triggered s (vad_session_id ev) stream (if vad_timestamp ev = 0 then now else vad_timestamp ev)
        (handle_vad_event now ev s)"
proof (cases "vad_active ev \<and> \<not> vad_confidence ev < min_confidence s")
  case False
  then have "handle_vad_event now ev s = s\<lparr>session_streams := session_streams s\<rparr>"
    by (auto simp: handle_vad_event_def)
  then show thesis by (rule idle)
next
  case True
  let ?ts = "if vad_timestamp ev = 0 then now else vad_timestamp ev"
  obtain r s1 where t: "target_stream (vad_session_id ev) ?ts s = (r, s1)" by (rule prod.exhaust)
  from target_stream_frame [OF t] obtain f where s1: "s1 = s\<lparr>session_streams := f\<rparr>" by blast
  show thesis
  proof (cases r)
    case None
    with True t s1 have "handle_vad_event now ev s = s\<lparr>session_streams := f\<rparr>" by (simp add: handle_vad_event_def Let_def)
    then show thesis by (rule idle)
  next
    case (Some stream)
    with True t have h: "handle_vad_event now ev s =
        (case register_trigger (stream_key (vad_session_id ev) stream) ?ts s1 of
          (False, s2) \<Rightarrow> s2
        | (True, s2) \<Rightarrow> publish_barge_in (vad_session_id ev) stream ?ts ''vad_detected'' (vad_confidence ev)
            (if vad_stream_id ev \<noteq> [] then mput ''vad_stream_id'' (vad_stream_id ev) (vad_metadata ev)
             else vad_metadata ev) s2)"
      by (simp add: handle_vad_event_def Let_def)
    from trigger_cases [OF s1] consider "handle_vad_event now ev s = s1"
      | "triggered s (vad_session_id ev) stream ?ts (handle_vad_event now ev s)"
      unfolding h by blast
    then show thesis
    proof cases
      case 1
      then show thesis using idle s1 by simp
    next
      case 2
      with True t Some show thesis by (intro trigger [of stream]) auto
    qed
  qed
qed

lemma client_cases:
  obtains (idle) f where "handle_client_event now ev s = s\<lparr>session_streams := f\<rparr>"
  | (trigger) stream where
      "triggered s (int_session_id ev) stream (if int_timestamp ev = 0 then now else int_timestamp ev)
        (handle_client_event now ev s)"
proof (cases "int_session_id ev = []")
  case True
  then have "handle_client_event now ev s = s\<lparr>session_streams := session_streams s\<rparr>"
    by (simp add: handle_client_event_def)
  then show thesis by (rule idle)
next
  case False
  let ?ts = "if int_timestamp ev = 0 then now else int_timestamp ev"
  let ?tgt = "if trim_space (int_stream_id ev) \<noteq> [] then (trim_space (int_stream_id ev), s)
      else case target_stream (int_session_id ev) ?ts s of (Some r, s1) \<Rightarrow> (r, s1) | (None, s1) \<Rightarrow> ([], s1)"
  obtain stream s1 where t: "?tgt = (stream, s1)" by (rule prod.exhaust)
  obtain r s2 where tt: "target_stream (int_session_id ev) ?ts s = (r, s2)" by (rule prod.exhaust)
  from target_stream_frame [OF tt] obtain g where g: "s2 = s\<lparr>session_streams := g\<rparr>" by blast
  have "s1 = s \<or> s1 = s2" using t unfolding tt by (auto split: if_splits option.splits)
  then have "\<exists>f. s1 = s\<lparr>session_streams := f\<rparr>"
    using g by (auto intro: exI [of _ "session_streams s"])
  then obtain f where s1: "s1 = s\<lparr>session_streams := f\<rparr>" by blast
  have h: "handle_client_event now ev s =
      (if stream = [] then s1
       else case register_trigger (stream_key (int_session_id ev) stream) ?ts s1 of
              (False, s2) \<Rightarrow> s2
            | (True, s2) \<Rightarrow> publish_barge_in (int_session_id ev) stream ?ts
                (reason_or_default (int_reason ev) ''client_interrupt'') 1 (int_metadata ev) s2)"
    using False t by (simp add: handle_client_event_def Let_def)
  consider "handle_client_event now ev s = s1"
    | "triggered s (int_session_id ev) stream ?ts (handle_client_event now ev s)"
  proof (cases "stream = []")
    case True
    then show thesis using that(1) h by simp
  next
    case False
    with h have e: "handle_client_event now ev s = (case register_trigger (stream_key (int_session_id ev) stream) ?ts s1 of
              (False, s2) \<Rightarrow> s2
            | (True, s2) \<Rightarrow> publish_barge_in (int_session_id ev) stream ?ts
                (reason_or_default (int_reason ev) ''client_interrupt'') 1 (int_metadata ev) s2)" by simp
    have "handle_client_event now ev s = s1 \<or>
        triggered s (int_session_id ev) stream ?ts (handle_client_event now ev s)"
      unfolding e by (rule trigger_cases [OF s1])
    then show thesis using that by (rule disjE)
  qed
  then show thesis using idle trigger s1 by cases auto
qed

section \<open>The invariant\<close>

definition times :: "string \<Rightarrow> barge \<Rightarrow> time_ns list" where
  "times key s = map bi_timestamp (filter (\<lambda>b. stream_key (bi_session_id b) (bi_stream_id b) = key) (published s))"

definition barge_ok :: "barge \<Rightarrow> bool" where
  "barge_ok s \<longleftrightarrow> 0 \<le> cooldown s \<and> mwf (playback s) \<and>
     (\<forall>key \<in> set (keys (playback s)). contains key ''::'') \<and>
     (\<not> has_bus s \<longrightarrow> published s = []) \<and>
     (\<forall>key. sorted_wrt (\<lambda>a b. a + cooldown s \<le> b) (times key s) \<and>
        (times key s \<noteq> [] \<longrightarrow> last (times key s) = last_event s key \<and> last_event s key \<noteq> 0))"

fun has_clock :: "barge_op \<Rightarrow> bool" where
  "has_clock (Barge_VAD now ev) \<longleftrightarrow> now \<noteq> 0"
| "has_clock (Barge_Client now ev) \<longleftrightarrow> now \<noteq> 0"
| "has_clock (Barge_Playback now ts ev) \<longleftrightarrow> True"

lemma sorted_gap_snoc:
  assumes "sorted_wrt (\<lambda>a b. a + c \<le> b) ts" and "ts \<noteq> [] \<longrightarrow> last ts + c \<le> t" and "0 \<le> (c :: int)"
  shows "sorted_wrt (\<lambda>a b. a + c \<le> b) (ts @ [t])"
proof -
  have "x + c \<le> t" if x: "x \<in> set ts" for x
  proof (cases ts rule: rev_exhaust)
    case Nil
    with x show ?thesis by simp
  next
    case (snoc us y)
    with assms(1) have "x = y \<or> x + c \<le> y" using x by (auto simp: sorted_wrt_append)
    with assms(2,3) snoc show ?thesis by auto
  qed
  with assms(1) show ?thesis by (auto simp: sorted_wrt_append)
qed

lemma triggered_ok:
  assumes "barge_ok s" and "triggered s sid stream ts s'" and "ts \<noteq> 0"
  shows "barge_ok s'"
proof -
  let ?k = "stream_key sid stream"
  from assms(2) obtain f b where s': "s' = s\<lparr>session_streams := f, last_event := (last_event s)(?k := ts),
      published := (if has_bus s then published s @ [b] else published s)\<rparr>"
    and b: "bi_session_id b = sid" "bi_stream_id b = stream" "bi_timestamp b = ts"
    and gap: "last_event s ?k = 0 \<or> cooldown s \<le> ts - last_event s ?k"
    by (auto simp: triggered_def)
  have t: "times key s' = (if has_bus s \<and> key = ?k then times key s @ [ts] else times key s)" for key
    using b by (auto simp: times_def s')
  have none: "times key s = []" if "\<not> has_bus s" for key
    using assms(1) that by (simp add: barge_ok_def times_def)
  show ?thesis
    unfolding barge_ok_def t
    using assms(1,3) gap none
    by (auto simp: barge_ok_def s' intro!: sorted_gap_snoc)
qed

lemma streams_ok: "barge_ok s \<Longrightarrow> barge_ok (s\<lparr>session_streams := f\<rparr>)"
  by (simp add: barge_ok_def times_def)

lemma playback_ok: "barge_ok s \<Longrightarrow> barge_ok (handle_playback_event ev ts s)"
  using set_mput_subset
  by (fastforce simp: handle_playback_event_def barge_ok_def times_def Let_def split: option.splits)

lemma barge_step_ok: "has_clock op \<Longrightarrow> barge_ok s \<Longrightarrow> barge_ok (barge_step op s)"
proof (cases op)
  case (Barge_VAD now ev)
  assume "has_clock op" and ok: "barge_ok s"
  with Barge_VAD have ts: "(if vad_timestamp ev = 0 then now else vad_timestamp ev) \<noteq> 0" by simp
  show ?thesis
    by (cases rule: vad_cases [of now ev s])
      (simp_all add: Barge_VAD streams_ok [OF ok] triggered_ok [OF ok _ ts])
next
  case (Barge_Client now ev)
  assume "has_clock op" and ok: "barge_ok s"
  with Barge_Client have ts: "(if int_timestamp ev = 0 then now else int_timestamp ev) \<noteq> 0" by simp
  show ?thesis
    by (cases rule: client_cases [of now ev s])
      (simp_all add: Barge_Client streams_ok [OF ok] triggered_ok [OF ok _ ts])
next
  case (Barge_Playback now ts ev)
  assume "barge_ok s"
  with Barge_Playback show ?thesis by (simp add: consume_playback_def playback_ok)
qed

interpretation brg: op_machine barge_step has_clock barge_ok
  by unfold_locales (rule barge_step_ok)

lemma apply_options_ok:
  "0 \<le> cooldown s \<Longrightarrow> playback s = [] \<Longrightarrow> published s = [] \<Longrightarrow>
   barge_ok (fold apply_barge_option opts s) \<and> playback (fold apply_barge_option opts s) = []"
proof (induction opts arbitrary: s)
  case (Cons opt opts)
  then show ?case by (cases opt) auto
qed (simp add: barge_ok_def times_def)

lemma new_barge_ok: "barge_ok (new_barge bus opts) \<and> playback (new_barge bus opts) = []"
  unfolding new_barge_def by (rule apply_options_ok) simp_all

section \<open>What the playback states say\<close>

lemma triggered_playback: "triggered s sid stream ts s' \<Longrightarrow> playback s' = playback s"
  by (auto simp: triggered_def)

lemma step_report:
  "map_option playing (map_of (playback (barge_step op s)) key) =
     (case report_of key op of Some b \<Rightarrow> Some b | None \<Rightarrow> map_option playing (map_of (playback s) key))"
proof (cases op)
  case (Barge_VAD now ev)
  then show ?thesis
    by (cases rule: vad_cases [of now ev s]) (simp_all add: triggered_playback)
next
  case (Barge_Client now ev)
  then show ?thesis
    by (cases rule: client_cases [of now ev s]) (simp_all add: triggered_playback)
next
  case (Barge_Playback now ts ev)
  then show ?thesis by (auto simp: consume_playback_def handle_playback_event_def Let_def)
qed

lemma playing_last_report:
  assumes "playback s = []"
  shows "map_option playing (map_of (playback (fold barge_step ops s)) key) = last_report key ops"
proof -
  have "map_option playing (map_of (playback (fold barge_step ops s)) key) =
      fold (\<lambda>op r. case report_of key op of Some b \<Rightarrow> Some b | None \<Rightarrow> r) ops
        (map_option playing (map_of (playback s) key))" for s
    by (induction ops arbitrary: s) (simp_all add: step_report)
  from this [of s] assms show ?thesis by (simp add: last_report_def)
qed

lemma scan_playing:
  assumes "scan_playback sid ts ps = Some stream" and "\<forall>key \<in> set (keys ps). contains key ''::''" and "mwf ps"
  shows "\<exists>st. map_of ps (stream_key sid stream) = Some st \<and> playing st"
  using assms
proof (induction ps)
  case (Cons p ps)
  obtain key st where p: "p = (key, st)" by (rule prod.exhaust)
  obtain a b where k: "split_stream_key key = (a, b)" by (rule prod.exhaust)
  from Cons.prems p have key: "key = stream_key a b" by (intro split_stream_key_inv [OF _ k]) simp
  have wf: "mwf ps" "key \<notin> set (keys ps)" using Cons.prems p by (auto simp: mwf_def)
  show ?case
  proof (cases "a = sid \<and> playing st")
    case True
    with Cons.prems p k key show ?thesis by simp
  next
    case False
    with Cons.prems p k have "scan_playback sid ts ps = Some stream" by (auto split: if_splits)
    with Cons.IH Cons.prems wf p obtain st' where m: "map_of ps (stream_key sid stream) = Some st'" "playing st'" by auto
    with wf p have "stream_key sid stream \<noteq> key" by (metis map_of_eq_None_iff option.distinct(1) list.set_map)
    with m p show ?thesis by simp
  qed
qed simp

lemma target_playing:
  assumes "barge_ok s" and "fst (target_stream sid ts s) = Some stream"
  shows "map_option playing (map_of (playback s) (stream_key sid stream)) = Some True"
proof -
  have "\<exists>st. map_of (playback s) (stream_key sid stream) = Some st \<and> playing st"
    using assms scan_playing [of sid ts "playback s"]
    by (auto simp: target_stream_def barge_ok_def Let_def split: option.splits if_splits)
  then show ?thesis by auto
qed

section \<open>Properties\<close>

text \<open>
  C38: Barge-ins of one stream are never closer together than the cooldown, in whatever order voice activity,
  client interrupts and playback reports arrive and whatever times they carry, even times that run
  backwards: any two published events of the stream, not only neighbours, are in order and at least the
  cooldown apart.
\<close>

theorem barge_in_cooldown:
  assumes "list_all has_clock ops" and "s = fold barge_step ops (new_barge bus opts)"
  shows "sorted_wrt (\<lambda>b1 b2. bi_timestamp b1 + cooldown s \<le> bi_timestamp b2)
    (filter (\<lambda>b. stream_key (bi_session_id b) (bi_stream_id b) = stream_key sid stream) (published s))"
proof -
  have "barge_ok s" unfolding assms(2)
    by (rule brg.inv_run) (use assms(1) new_barge_ok in \<open>auto simp: list_all_iff\<close>)
  then have "sorted_wrt (\<lambda>a b. a + cooldown s \<le> b) (times (stream_key sid stream) s)" by (simp add: barge_ok_def)
  then show ?thesis by (simp add: times_def sorted_wrt_map)
qed

definition demo_play :: "string \<Rightarrow> bool \<Rightarrow> barge_op" where
  "demo_play stream final = Barge_Playback 1 1000 \<lparr>pb_session_id = ''s'', pb_stream_id = stream, pb_final = final\<rparr>"

definition demo_interrupt :: "time_ns \<Rightarrow> barge_op" where
  "demo_interrupt ts = Barge_Client 1 \<lparr>int_session_id = ''s'', int_stream_id = [], int_reason = [],
     int_timestamp = ts, int_metadata = []\<rparr>"

theorem barge_in_cooldown_witness:
  "\<exists>s. s = fold barge_step [demo_play ''tts'' False, demo_interrupt (2 * second), demo_interrupt (3 * second)] (new_barge True []) \<and>
    sorted_wrt (\<lambda>b1 b2. bi_timestamp b1 + cooldown s \<le> bi_timestamp b2)
      (filter (\<lambda>b. stream_key (bi_session_id b) (bi_stream_id b) = stream_key ''s'' ''tts'') (published s))"
proof -
  have c: "list_all has_clock [demo_play ''tts'' False, demo_interrupt (2 * second), demo_interrupt (3 * second)]"
    by (simp add: demo_play_def demo_interrupt_def)
  show ?thesis by (intro exI conjI, rule refl, rule barge_in_cooldown [OF c refl])
qed

text \<open>
  Voice activity interrupts only what is playing: when a voice event leads to a barge-in, the event was
  active and confident enough, exactly one event is published, for a stream of the same session, and the
  last thing that playback reported about this stream is that it plays.
\<close>

theorem vad_interrupts_playing:
  assumes "list_all has_clock ops" and "s = fold barge_step ops (new_barge bus opts)"
    and "published (handle_vad_event now ev s) \<noteq> published s"
  shows "vad_active ev \<and> min_confidence s \<le> vad_confidence ev \<and>
    (\<exists>b. published (handle_vad_event now ev s) = published s @ [b] \<and>
       bi_session_id b = vad_session_id ev \<and>
       last_report (stream_key (vad_session_id ev) (bi_stream_id b)) ops = Some True)"
proof (cases rule: vad_cases [of now ev s])
  case (idle f)
  with assms(3) show ?thesis by simp
next
  case (trigger stream)
  have ok: "barge_ok s" unfolding assms(2)
    by (rule brg.inv_run) (use assms(1) new_barge_ok in \<open>auto simp: list_all_iff\<close>)
  have "last_report (stream_key (vad_session_id ev) stream) ops = Some True"
    using target_playing [OF ok trigger(3)] playing_last_report [of "new_barge bus opts" ops] new_barge_ok [of bus opts]
    unfolding assms(2) by metis
  moreover from trigger(4) assms(3) obtain b where "published (handle_vad_event now ev s) = published s @ [b]"
    "bi_session_id b = vad_session_id ev" "bi_stream_id b = stream"
    by (auto simp: triggered_def split: if_splits)
  ultimately show ?thesis using trigger(1,2) by auto
qed

definition demo_vad :: vad_event where
  "demo_vad = \<lparr>vad_session_id = ''s'', vad_stream_id = ''mic'', vad_active = True, vad_confidence = 1 / 2,
     vad_timestamp = 2 * second, vad_metadata = []\<rparr>"

theorem vad_interrupts_playing_witness:
  "\<exists>b. published (handle_vad_event 1 demo_vad (fold barge_step [demo_play ''tts'' False] (new_barge True []))) = [b] \<and>
    last_report (stream_key ''s'' (bi_stream_id b)) [demo_play ''tts'' False] = Some True"
proof -
  let ?s = "fold barge_step [demo_play ''tts'' False] (new_barge True [])"
  have p: "published ?s = []" "published (handle_vad_event 1 demo_vad ?s) \<noteq> published ?s"
    by (simp_all add: demo_play_def consume_playback_def handle_playback_event_def new_barge_def handle_vad_event_def
        demo_vad_def target_stream_def register_trigger_def publish_barge_in_def Let_def)
  have c: "list_all has_clock [demo_play ''tts'' False]" by (simp add: demo_play_def)
  from vad_interrupts_playing [OF c refl p(2)] p(1) show ?thesis by (auto simp: demo_vad_def)
qed

text \<open>
  With two streams in a session, one that plays and one in its quiet period, the answer of
  \<open>targetStreamForSession\<close> depends on the order in which the runtime happens to iterate the map: with the
  playing stream first it is the target, with the quiet one first there is none.
\<close>

theorem target_depends_on_order:
  assumes "split_stream_key k1 = (sid, a)" and "playing st1" and "split_stream_key k2 = (sid, b)"
    and "\<not> playing st2" and "quiet_until st2 \<noteq> 0" and "ts < quiet_until st2" and "session_streams s sid = None"
  shows "fst (target_stream sid ts (s\<lparr>playback := [(k1, st1), (k2, st2)]\<rparr>)) = Some a \<and>
    fst (target_stream sid ts (s\<lparr>playback := [(k2, st2), (k1, st1)]\<rparr>)) = None"
  using assms by (simp add: target_stream_def)

theorem target_depends_on_order_witness:
  "\<exists>s. s = fold barge_step [demo_play ''a'' False, demo_play ''b'' False, demo_play ''b'' True] (new_barge True []) \<and>
    fst (target_stream ''s'' 2000 s) \<noteq> fst (target_stream ''s'' 2000 (s\<lparr>playback := rev (playback s)\<rparr>))"
proof -
  let ?s = "fold barge_step [demo_play ''a'' False, demo_play ''b'' False, demo_play ''b'' True] (new_barge True [])"
  let ?a = "\<lparr>playing = True, quiet_until = 0\<rparr>" and ?b = "\<lparr>playing = False, quiet_until = 500001000\<rparr>"
  have s: "playback ?s = [(''s::a'', ?a), (''s::b'', ?b)]" "session_streams ?s ''s'' = None"
    by (simp_all add: demo_play_def consume_playback_def handle_playback_event_def new_barge_def stream_key_def Let_def)
  have k: "split_stream_key ''s::a'' = (''s'', ''a'')" "split_stream_key ''s::b'' = (''s'', ''b'')"
    by (simp_all add: split_stream_key_def)
  have st: "playing ?a" "\<not> playing ?b" "quiet_until ?b \<noteq> 0" "2000 < quiet_until ?b" by simp_all
  have "?s\<lparr>playback := [(''s::a'', ?a), (''s::b'', ?b)]\<rparr> = ?s"
  proof -
    have "x\<lparr>playback := playback x\<rparr> = x" for x :: barge by simp
    from this [of ?s] show ?thesis unfolding s(1) .
  qed
  with target_depends_on_order [OF k(1) st(1) k(2) st(2-4) s(2)] show ?thesis
    by (intro exI [of _ ?s]) (simp only: s(1) rev.simps append.simps, auto)
qed

end
