(* ===== verification/OutputBuffer.thy ===== *)
theory OutputBuffer
  imports Prelude
begin

text \<open>
  The buffer of \<open>internal/contentpipeline/buffer.go\<close> that collects the output of a session until it is
  idle. The mutex makes every method atomic; the methods that only read a field are that field.
\<close>

record output_buffer =
  buf_data :: string
  last_write :: time_ns
  idle_timeout :: duration
  max_size :: int
  overflowed :: bool
  generation :: uint64

definition new_output_buffer :: output_buffer where
  "new_output_buffer = \<lparr>buf_data = [], last_write = zero_time, idle_timeout = 500 * millisecond,
     max_size = 64 * 1024, overflowed = False, generation = 0\<rparr>"

datatype buffer_option = With_Idle_Timeout duration | With_Max_Size int

fun apply_buffer_option :: "buffer_option \<Rightarrow> output_buffer \<Rightarrow> output_buffer" where
  "apply_buffer_option (With_Idle_Timeout d) b = (if d > 0 then b\<lparr>idle_timeout := d\<rparr> else b)"
| "apply_buffer_option (With_Max_Size n) b = (if n > 0 then b\<lparr>max_size := n\<rparr> else b)"

definition new_output_buffer_with :: "buffer_option list \<Rightarrow> output_buffer" where
  "new_output_buffer_with opts = fold apply_buffer_option opts new_output_buffer"

definition buffer_write :: "time_ns \<Rightarrow> string \<Rightarrow> output_buffer \<Rightarrow> bool \<times> output_buffer" where
  "buffer_write now chunk b =
     (let b = b\<lparr>buf_data := buf_data b @ chunk, last_write := now, generation := generation b + 1\<rparr>
      in if int (length (buf_data b)) > max_size b
         then (True, b\<lparr>buf_data := drop (nat (int (length (buf_data b)) - max_size b)) (buf_data b), overflowed := True\<rparr>)
         else (False, b))"

definition time_since_last_write :: "time_ns \<Rightarrow> output_buffer \<Rightarrow> duration" where
  "time_since_last_write now b = (if is_zero (last_write b) then 0 else now - last_write b)"

definition is_idle_by_timeout :: "time_ns \<Rightarrow> output_buffer \<Rightarrow> bool" where
  "is_idle_by_timeout now b = (if is_zero (last_write b) then False else now - last_write b > idle_timeout b)"

definition buffer_flush :: "output_buffer \<Rightarrow> (string \<times> bool) \<times> output_buffer" where
  "buffer_flush b = ((buf_data b, overflowed b), b\<lparr>buf_data := [], overflowed := False\<rparr>)"

definition buffer_peek :: "output_buffer \<Rightarrow> string" where
  "buffer_peek b = buf_data b"

definition buffer_len :: "output_buffer \<Rightarrow> nat" where
  "buffer_len b = length (buf_data b)"

definition is_empty_buffer :: "output_buffer \<Rightarrow> bool" where
  "is_empty_buffer b \<longleftrightarrow> length (buf_data b) = 0"

definition buffer_reset :: "output_buffer \<Rightarrow> output_buffer" where
  "buffer_reset b = b\<lparr>buf_data := [], last_write := zero_time, overflowed := False, generation := 0\<rparr>"

section \<open>The buffer as the tail of a text\<close>

text \<open>
  Abstractly the buffer is everything written since the last flush, \<open>text\<close>, of which it keeps the last
  \<open>max_size\<close> bytes and remembers whether there was more.
\<close>

definition represents :: "output_buffer \<Rightarrow> string \<Rightarrow> bool" where
  "represents b w \<longleftrightarrow> 0 < max_size b \<and> buf_data b = take_last (nat (max_size b)) w \<and>
     overflowed b = (int (length w) > max_size b)"

lemma write_frame [simp]:
  "max_size (snd (buffer_write now c b)) = max_size b" "idle_timeout (snd (buffer_write now c b)) = idle_timeout b"
  "generation (snd (buffer_write now c b)) = generation b + 1"
  by (simp_all add: buffer_write_def Let_def)

lemma flush_frame [simp]:
  "max_size (snd (buffer_flush b)) = max_size b" "generation (snd (buffer_flush b)) = generation b"
  by (simp_all add: buffer_flush_def)

lemma represents_write:
  assumes "represents b w"
  shows "represents (snd (buffer_write now c b)) (w @ c)"
proof -
  let ?n = "nat (max_size b)"
  from assms have n: "0 < max_size b" and d: "buf_data b = take_last ?n w" and
    o: "overflowed b = (int (length w) > max_size b)" by (simp_all add: represents_def)
  have tail: "take_last ?n (take_last ?n w @ c) = take_last ?n (w @ c)" by (rule take_last_append)
  have "nat (int (length xs) - max_size b) = length xs - ?n" for xs :: string using n by linarith
  then have "drop (nat (int (length xs) - max_size b)) xs = take_last ?n xs" for xs :: string
    by (simp add: take_last_def)
  note drop_tail = this
  let ?x = "take_last ?n w @ c"
  have len: "int (length ?x) = min (max_size b) (int (length w)) + int (length c)" using n by auto
  show ?thesis
  proof (cases "int (length ?x) > max_size b")
    case True
    then have "buffer_write now c b = (True, b\<lparr>buf_data := take_last ?n ?x, last_write := now,
        generation := generation b + 1, overflowed := True\<rparr>)"
      using drop_tail [of ?x] unfolding buffer_write_def Let_def by (simp add: d)
    with tail n True len show ?thesis by (auto simp: represents_def)
  next
    case False
    then have "buffer_write now c b = (False, b\<lparr>buf_data := ?x, last_write := now, generation := generation b + 1\<rparr>)"
      unfolding buffer_write_def Let_def by (simp add: d)
    moreover have "take_last ?n ?x = ?x" using False n by (intro take_last_all) linarith
    ultimately show ?thesis using tail n False len o by (auto simp: represents_def)
  qed
qed

lemma represents_flush:
  "represents b w \<Longrightarrow> fst (buffer_flush b) = (take_last (nat (max_size b)) w, int (length w) > max_size b) \<and>
   represents (snd (buffer_flush b)) []"
  by (simp add: represents_def buffer_flush_def)

lemma represents_reset: "represents b w \<Longrightarrow> represents (buffer_reset b) []"
  by (simp add: represents_def buffer_reset_def)

lemma represents_new: "represents (new_output_buffer_with opts) []"
proof -
  have "represents b [] \<Longrightarrow> represents (fold apply_buffer_option opts b) []" for b
  proof (induction opts arbitrary: b)
    case (Cons opt opts)
    then show ?case by (cases opt) (auto simp: represents_def)
  qed simp
  then show ?thesis by (simp add: new_output_buffer_with_def represents_def new_output_buffer_def)
qed

text \<open>
  \<open>Reset\<close> sets the generation back to zero. That does not invalidate the idle timers that are pending:
  after the next writes the counter is where it was.
\<close>

lemma reset_revives_generation:
  "generation (snd (buffer_write t2 c2 (buffer_reset (snd (buffer_write t1 c1 new_output_buffer))))) =
   generation (snd (buffer_write t1 c1 new_output_buffer))"
  by (simp add: buffer_reset_def new_output_buffer_def)

datatype buffer_op = Buf_Write time_ns string | Buf_Flush | Buf_Reset

fun buffer_step :: "buffer_op \<Rightarrow> output_buffer \<Rightarrow> output_buffer" where
  "buffer_step (Buf_Write now chunk) b = snd (buffer_write now chunk b)"
| "buffer_step Buf_Flush b = snd (buffer_flush b)"
| "buffer_step Buf_Reset b = buffer_reset b"

fun spec_step :: "buffer_op \<Rightarrow> string \<Rightarrow> string" where
  "spec_step (Buf_Write now chunk) w = w @ chunk"
| "spec_step Buf_Flush w = []"
| "spec_step Buf_Reset w = []"

lemma represents_step: "represents b w \<Longrightarrow> represents (buffer_step op b) (spec_step op w)"
  by (cases op) (simp_all add: represents_write represents_flush represents_reset)

lemma represents_run: "represents b w \<Longrightarrow> represents (fold buffer_step ops b) (fold spec_step ops w)"
  by (induction ops arbitrary: b w) (simp_all add: represents_step)

text \<open>
  C40: The output buffer refines the text written since the last flush: after any operations, with any
  options, \<open>Flush\<close> returns the last \<open>maxSize\<close> bytes of that text, all of it when it fits, together with
  whether it did not fit; and the buffer never holds more than \<open>maxSize\<close> bytes.
\<close>

theorem output_buffer_refines:
  "let b = fold buffer_step ops (new_output_buffer_with opts); w = fold spec_step ops []
   in fst (buffer_flush b) = (take_last (nat (max_size b)) w, int (length w) > max_size b) \<and>
      int (buffer_len b) \<le> max_size b \<and> 0 < max_size b"
proof -
  have "represents (fold buffer_step ops (new_output_buffer_with opts)) (fold spec_step ops [])"
    by (rule represents_run [OF represents_new])
  then show ?thesis
    by (simp add: Let_def represents_flush) (auto simp: represents_def buffer_len_def min_def)
qed

end
