(* ===== verification/ContentPipeline.thy ===== *)
theory ContentPipeline
  imports Utf8 GoNumbers OutputBuffer
begin

text \<open>
  The content pipeline, \<open>internal/contentpipeline/service.go\<close>: it buffers the output of a session until the
  tool is idle, waits for input or changes, and then publishes the cleaned text with annotations.

  The plugins (JavaScript) are parameters: a provider maps tool names to handlers and cleaners, each a
  record of its functions. Buffers are shared between the map of sessions and the timers that
  captured them, so they live in a heap. A timer that was stopped may already have gone off; therefore
  every timer ever started stays in \<open>timers\<close> and may run at any time, its own guards decide. Each
  handler and each timer callback is one step. Published events are appended to \<open>published\<close> and
  \<open>errors\<close>; log messages are left out.
\<close>

section \<open>Plugins and events\<close>

record idle_state =
  is_idle :: bool
  idle_reason :: string
  prompt_text :: string
  waiting_for :: string

record tool_output_event =
  ev_severity :: string
  ev_title :: string
  ev_details :: string
  ev_action :: string

record tool_handler =
  has_detect_idle_state :: bool
  detect_idle_state :: "string \<Rightarrow> string + idle_state option"
  has_clean :: bool
  handler_clean :: "string \<Rightarrow> string + string"
  has_extract_events :: bool
  extract_events :: "string \<Rightarrow> string + tool_output_event list"

type_synonym annotations = "string \<Rightarrow> string option"

record pipeline_plugin =
  plugin_name :: string
  plugin_transform :: "string \<Rightarrow> annotations \<Rightarrow> string + (string \<times> annotations)"

record pipeline_provider =
  pipeline_plugin_for :: "string \<Rightarrow> pipeline_plugin option"
  tool_handler_for :: "string \<Rightarrow> tool_handler option"
  js_runtime :: bool

record session_output_event =
  out_session_id :: string
  out_sequence :: uint64
  out_data :: string
  out_origin :: string
  out_mode :: string

record session_tool_event =
  tool_session_id :: string
  tool_event_name :: string
  tool_event_id :: string

record session_lifecycle_event =
  lc_session_id :: string
  lc_state :: string

record transcript_event =
  tr_session_id :: string
  tr_stream_id :: string
  tr_sequence :: uint64
  tr_text :: string
  tr_confidence :: rat
  tr_metadata :: annotations

record pipeline_message =
  msg_session_id :: string
  msg_origin :: string
  msg_text :: string
  msg_annotations :: annotations
  msg_sequence :: uint64

record pipeline_error =
  err_session_id :: string
  err_stage :: string
  err_message :: string
  err_recoverable :: bool

section \<open>State\<close>

record tool_metadata =
  tm_id :: string
  tm_name :: string

record last_seen_meta =
  ls_sequence :: uint64
  ls_mode :: string

record session_idle_state =
  is_waiting_for :: string
  is_since :: time_ns

record idle_timer =
  it_session :: string
  it_buffer :: nat
  it_generation :: uint64
  it_handler :: "tool_handler option"
  it_event :: session_output_event
  it_tool_name :: string
  it_tool_id :: string

record pipeline =
  plugins_svc :: "pipeline_provider option"
  tool_by_session :: "string \<Rightarrow> tool_metadata option"
  buffers :: "string \<Rightarrow> nat option"
  heap_buffers :: "nat \<Rightarrow> output_buffer"
  next_buffer :: nat
  idle_timers :: "string \<Rightarrow> nat option"
  timers :: "idle_timer list"
  stopped :: bool
  last_seen :: "string \<Rightarrow> last_seen_meta option"
  idle_states :: "string \<Rightarrow> session_idle_state option"
  published :: "pipeline_message list"
  errors :: "pipeline_error list"

definition new_pipeline :: "pipeline_provider option \<Rightarrow> pipeline" where
  "new_pipeline provider =
     \<lparr>plugins_svc = provider, tool_by_session = (\<lambda>_. None), buffers = (\<lambda>_. None),
      heap_buffers = (\<lambda>_. new_output_buffer), next_buffer = 0, idle_timers = (\<lambda>_. None), timers = [],
      stopped = False, last_seen = (\<lambda>_. None), idle_states = (\<lambda>_. None), published = [], errors = []\<rparr>"

definition tool_name_of :: "string \<Rightarrow> pipeline \<Rightarrow> string option" where
  "tool_name_of sid s =
     (case tool_by_session s sid of
        None \<Rightarrow> None
      | Some m \<Rightarrow> if tm_name m \<noteq> [] then Some (tm_name m) else if tm_id m \<noteq> [] then Some (tm_id m) else None)"

definition tool_id_of :: "string \<Rightarrow> pipeline \<Rightarrow> string option" where
  "tool_id_of sid s =
     (case tool_by_session s sid of
        None \<Rightarrow> None
      | Some m \<Rightarrow> if tm_id m \<noteq> [] then Some (tm_id m) else None)"

definition select_plugin :: "string \<Rightarrow> pipeline \<Rightarrow> pipeline_plugin option" where
  "select_plugin tool s =
     (case plugins_svc s of
        None \<Rightarrow> None
      | Some p \<Rightarrow>
          (case pipeline_plugin_for p tool of
             Some plugin \<Rightarrow> Some plugin
           | None \<Rightarrow> pipeline_plugin_for p ''default''))"

definition run_plugin ::
    "pipeline_plugin \<Rightarrow> string \<Rightarrow> annotations \<Rightarrow> pipeline \<Rightarrow> string + (string \<times> annotations)" where
  "run_plugin plugin text anns s =
     (case plugins_svc s of
        Some p \<Rightarrow>
          if \<not> js_runtime p then Inl (''plugin '' @ plugin_name plugin @ '': jsruntime not available'')
          else plugin_transform plugin text anns
      | None \<Rightarrow> Inl (''plugin '' @ plugin_name plugin @ '': jsruntime not available''))"

definition get_or_create_buffer :: "string \<Rightarrow> pipeline \<Rightarrow> nat \<times> pipeline" where
  "get_or_create_buffer sid s =
     (case buffers s sid of
        Some b \<Rightarrow> (b, s)
      | None \<Rightarrow> (next_buffer s,
          s\<lparr>buffers := (buffers s)(sid \<mapsto> next_buffer s),
            heap_buffers := (heap_buffers s)(next_buffer s := new_output_buffer),
            next_buffer := Suc (next_buffer s)\<rparr>))"

definition reset_idle_timer :: "idle_timer \<Rightarrow> pipeline \<Rightarrow> pipeline" where
  "reset_idle_timer t s =
     s\<lparr>timers := timers s @ [t], idle_timers := (idle_timers s)(it_session t \<mapsto> length (timers s))\<rparr>"

definition cancel_idle_timer :: "string \<Rightarrow> pipeline \<Rightarrow> pipeline" where
  "cancel_idle_timer sid s = s\<lparr>idle_timers := (idle_timers s)(sid := None)\<rparr>"

definition get_idle_state :: "string \<Rightarrow> pipeline \<Rightarrow> bool \<times> string \<times> time_ns" where
  "get_idle_state sid s =
     (case idle_states s sid of
        None \<Rightarrow> (False, [], zero_time)
      | Some st \<Rightarrow> (True, is_waiting_for st, is_since st))"

definition cleanup_session_buffer :: "string \<Rightarrow> pipeline \<Rightarrow> pipeline" where
  "cleanup_session_buffer sid s =
     (let s = cancel_idle_timer sid s
      in s\<lparr>buffers := (buffers s)(sid := None), last_seen := (last_seen s)(sid := None),
           idle_states := (idle_states s)(sid := None)\<rparr>)"

section \<open>Annotations\<close>

definition base_annotations :: "bool \<Rightarrow> int \<Rightarrow> string \<Rightarrow> string \<Rightarrow> string \<Rightarrow> annotations" where
  "base_annotations truncated max' tool_name mode tool_id =
     (let a = Map.empty;
          a = (if truncated then a(''buffer_truncated'' \<mapsto> ''true'', ''buffer_max_size'' \<mapsto> decimal (nat max')) else a);
          a = (if tool_name \<noteq> [] then a(''tool'' \<mapsto> tool_name) else a);
          a = (if mode \<noteq> [] then a(''mode'' \<mapsto> mode) else a)
      in if tool_id \<noteq> [] then a(''tool_id'' \<mapsto> tool_id) else a)"

definition event_annotations :: "tool_output_event list \<Rightarrow> annotations \<Rightarrow> annotations" where
  "event_annotations events a =
     (case events of
        [] \<Rightarrow> a
      | first # _ \<Rightarrow>
          let a = a(''notable'' \<mapsto> ''true'', ''event_type'' \<mapsto> ''session_output'',
                    ''event_count'' \<mapsto> decimal (length events));
              a = (if ev_severity first \<noteq> [] then a(''severity'' \<mapsto> ev_severity first) else a);
              a = (if ev_title first \<noteq> [] then a(''event_title'' \<mapsto> ev_title first) else a);
              a = (if ev_details first \<noteq> []
                   then let rs = runes (ev_details first)
                        in a(''event_details'' \<mapsto>
                              (if length rs > 200 then of_runes (take 200 rs) @ ''...'' else ev_details first))
                   else a)
          in if ev_action first \<noteq> [] then a(''event_action'' \<mapsto> ev_action first) else a)"

definition idle_annotations :: "idle_state option \<Rightarrow> annotations \<Rightarrow> annotations" where
  "idle_annotations idle a =
     (case idle of
        None \<Rightarrow> a
      | Some st \<Rightarrow>
          let a = a(''idle_state'' \<mapsto> idle_reason st);
              a = (if idle_reason st = ''tool_change'' then a(''tool_changed'' \<mapsto> ''true'') else a);
              a = (if waiting_for st \<noteq> []
                   then let a = a(''waiting_for'' \<mapsto> waiting_for st)
                        in if a ''notable'' \<noteq> Some ''true''
                           then a(''notable'' \<mapsto> ''true'', ''event_type'' \<mapsto> ''session_output'') else a
                   else a)
          in if prompt_text st \<noteq> [] then a(''prompt_text'' \<mapsto> prompt_text st) else a)"

definition merge_annotations :: "annotations \<Rightarrow> annotations \<Rightarrow> annotations" where
  "merge_annotations extra a =
     (\<lambda>k. case extra k of None \<Rightarrow> a k | Some v \<Rightarrow> if v = [] then None else Some v)"

section \<open>Processing\<close>

text \<open>The idle state that is kept for \<open>GetIdleState\<close>.\<close>

definition persist_idle :: "time_ns \<Rightarrow> string \<Rightarrow> idle_state option \<Rightarrow> pipeline \<Rightarrow> pipeline" where
  "persist_idle now sid idle s =
     (if buffers s sid = None then s
      else s\<lparr>idle_states := (idle_states s)(sid :=
        (case idle of
           Some st \<Rightarrow> if is_idle st \<and> idle_reason st \<noteq> ''tool_change''
                      then Some \<lparr>is_waiting_for = waiting_for st, is_since = now\<rparr> else None
         | None \<Rightarrow> None))\<rparr>)"

text \<open>Cleaning and annotating by the handler of the tool.\<close>

definition apply_handler ::
    "tool_handler option \<Rightarrow> bool \<Rightarrow> idle_state option \<Rightarrow> string \<Rightarrow> annotations \<Rightarrow> string \<times> annotations" where
  "apply_handler handler rt idle text a =
     (let text = (case handler of
                    Some h \<Rightarrow> if has_clean h \<and> rt
                      then (case handler_clean h text of Inr cleaned \<Rightarrow> cleaned | Inl _ \<Rightarrow> text) else text
                  | None \<Rightarrow> text);
          a = (case handler of
                 Some h \<Rightarrow> if has_extract_events h \<and> rt
                   then (case extract_events h text of Inr evs \<Rightarrow> event_annotations evs a | Inl _ \<Rightarrow> a) else a
               | None \<Rightarrow> a)
      in (text, idle_annotations idle a))"

definition flush_and_process ::
    "time_ns \<Rightarrow> string \<Rightarrow> nat \<Rightarrow> tool_handler option \<Rightarrow> idle_state option \<Rightarrow> session_output_event \<Rightarrow>
     string \<Rightarrow> string \<Rightarrow> pipeline \<Rightarrow> pipeline" where
  "flush_and_process now sid bid handler idle evt tool_name tool_id s =
     (let s = cancel_idle_timer sid s;
          ((text, was_overflowed), b) = buffer_flush (heap_buffers s bid);
          s = s\<lparr>heap_buffers := (heap_buffers s)(bid := b)\<rparr>;
          s = persist_idle now sid idle s
      in if text = [] then s
         else
           let a = base_annotations was_overflowed (max_size b) tool_name (out_mode evt) tool_id;
               tool_key = (if tool_id \<noteq> [] then tool_id else tool_name);
               rt = (case plugins_svc s of Some p \<Rightarrow> js_runtime p | None \<Rightarrow> False);
               (text, a) = apply_handler handler rt idle text a;
               (text, a, s) =
                 (case select_plugin tool_key s of
                    None \<Rightarrow> (text, a, s)
                  | Some plugin \<Rightarrow>
                      (case run_plugin plugin text a s of
                         Inl e \<Rightarrow> (text, a, s\<lparr>errors := errors s @ [\<lparr>err_session_id = sid,
                           err_stage = plugin_name plugin, err_message = e, err_recoverable = True\<rparr>]\<rparr>)
                       | Inr (new_text, extra) \<Rightarrow> (new_text, merge_annotations extra a, s)))
           in s\<lparr>published := published s @ [\<lparr>msg_session_id = sid, msg_origin = out_origin evt, msg_text = text,
                  msg_annotations = a, msg_sequence = out_sequence evt\<rparr>]\<rparr>)"

definition handler_for :: "string \<Rightarrow> pipeline \<Rightarrow> tool_handler option" where
  "handler_for tool_key s =
     (case plugins_svc s of
        Some p \<Rightarrow> if tool_key \<noteq> [] then tool_handler_for p tool_key else None
      | None \<Rightarrow> None)"

definition the_string :: "string option \<Rightarrow> string" where
  "the_string o' = (case o' of Some v \<Rightarrow> v | None \<Rightarrow> [])"

text \<open>Whether the handler says that the tool is waiting, given what the buffer holds.\<close>

definition detect_idle :: "tool_handler option \<Rightarrow> string \<Rightarrow> pipeline \<Rightarrow> idle_state option" where
  "detect_idle handler buffered s =
     (case (handler, plugins_svc s) of
        (Some h, Some p) \<Rightarrow>
          if has_detect_idle_state h \<and> js_runtime p
          then (case detect_idle_state h buffered of
                  Inr (Some st) \<Rightarrow> if is_idle st then Some st else None
                | _ \<Rightarrow> None)
          else None
      | _ \<Rightarrow> None)"

definition handle_session_output :: "time_ns \<Rightarrow> session_output_event \<Rightarrow> pipeline \<Rightarrow> pipeline" where
  "handle_session_output now evt s =
     (if out_session_id evt = [] then s
      else
        let sid = out_session_id evt;
            s = s\<lparr>last_seen := (last_seen s)(sid \<mapsto> \<lparr>ls_sequence = out_sequence evt, ls_mode = out_mode evt\<rparr>)\<rparr>;
            (bid, s) = get_or_create_buffer sid s;
            s = s\<lparr>heap_buffers := (heap_buffers s)(bid := snd (buffer_write now (out_data evt) (heap_buffers s bid)))\<rparr>;
            tool_name = the_string (tool_name_of sid s);
            tool_id = the_string (tool_id_of sid s);
            handler = handler_for (if tool_id = [] then tool_name else tool_id) s
        in case detect_idle handler (buffer_peek (heap_buffers s bid)) s of
             Some st \<Rightarrow> flush_and_process now sid bid handler (Some st) evt tool_name tool_id s
           | None \<Rightarrow>
               reset_idle_timer \<lparr>it_session = sid, it_buffer = bid, it_generation = generation (heap_buffers s bid),
                 it_handler = handler, it_event = evt, it_tool_name = tool_name, it_tool_id = tool_id\<rparr> s)"

definition timer_idle :: idle_state where
  "timer_idle = \<lparr>is_idle = True, idle_reason = ''timeout'', prompt_text = [], waiting_for = []\<rparr>"

definition fire_timer :: "time_ns \<Rightarrow> idle_timer \<Rightarrow> pipeline \<Rightarrow> pipeline" where
  "fire_timer now t s =
     (if stopped s then s
      else if generation (heap_buffers s (it_buffer t)) \<noteq> it_generation t then s
      else flush_and_process now (it_session t) (it_buffer t) (it_handler t) (Some timer_idle) (it_event t)
             (it_tool_name t) (it_tool_id t) s)"

definition flush_on_tool_change :: "time_ns \<Rightarrow> string \<Rightarrow> tool_metadata \<Rightarrow> pipeline \<Rightarrow> pipeline" where
  "flush_on_tool_change now sid old s =
     (case buffers s sid of
        None \<Rightarrow> s\<lparr>idle_states := (idle_states s)(sid := None)\<rparr>
      | Some bid \<Rightarrow>
          if is_empty_buffer (heap_buffers s bid) then s\<lparr>idle_states := (idle_states s)(sid := None)\<rparr>
          else
            let handler = handler_for (if tm_id old = [] then tm_name old else tm_id old) s;
                idle = \<lparr>is_idle = True, idle_reason = ''tool_change'', prompt_text = [], waiting_for = []\<rparr>;
                (seq, mode) = (case last_seen s sid of Some m \<Rightarrow> (ls_sequence m, ls_mode m) | None \<Rightarrow> (0, []));
                evt = \<lparr>out_session_id = sid, out_sequence = seq, out_data = [], out_origin = ''tool'', out_mode = mode\<rparr>
            in flush_and_process now sid bid handler (Some idle) evt (tm_name old) (tm_id old) s)"

definition handle_tool_event :: "time_ns \<Rightarrow> session_tool_event \<Rightarrow> pipeline \<Rightarrow> pipeline" where
  "handle_tool_event now ev s =
     (if tool_session_id ev = [] then s
      else
        let sid = tool_session_id ev;
            s = (case tool_by_session s sid of
                   Some old \<Rightarrow>
                     let new_key = (if tool_event_id ev = [] then tool_event_name ev else tool_event_id ev);
                         old_key = (if tm_id old = [] then tm_name old else tm_id old)
                     in if new_key \<noteq> old_key \<and> old_key \<noteq> [] then flush_on_tool_change now sid old s else s
                 | None \<Rightarrow> s)
        in s\<lparr>tool_by_session := (tool_by_session s)(sid \<mapsto> \<lparr>tm_id = tool_event_id ev, tm_name = tool_event_name ev\<rparr>)\<rparr>)"

definition handle_lifecycle_event :: "session_lifecycle_event \<Rightarrow> pipeline \<Rightarrow> pipeline" where
  "handle_lifecycle_event ev s =
     (if lc_session_id ev = [] then s
      else if lc_state ev = ''stopped'' \<or> lc_state ev = ''created''
      then cleanup_session_buffer (lc_session_id ev)
             (s\<lparr>tool_by_session := (tool_by_session s)(lc_session_id ev := None)\<rparr>)
      else s)"

definition handle_transcript :: "transcript_event \<Rightarrow> pipeline \<Rightarrow> pipeline" where
  "handle_transcript ev s =
     (if trim_space (tr_text ev) = [] then s
      else
        let a = Map.empty(''input_source'' \<mapsto> ''voice'');
            a = (if tr_session_id ev = [] then a(''sessionless'' \<mapsto> ''true'') else a);
            a = (if tr_stream_id ev \<noteq> [] then a(''stream_id'' \<mapsto> tr_stream_id ev) else a);
            a = (if tr_confidence ev > 0 then a(''confidence'' \<mapsto> fixed3 (tr_confidence ev)) else a);
            a = (\<lambda>k. case tr_metadata ev k of Some v \<Rightarrow> if v = [] then a k else Some v | None \<Rightarrow> a k)
        in s\<lparr>published := published s @ [\<lparr>msg_session_id = tr_session_id ev, msg_origin = ''user'',
               msg_text = tr_text ev, msg_annotations = a, msg_sequence = tr_sequence ev\<rparr>]\<rparr>)"

definition shutdown_pipeline :: "pipeline \<Rightarrow> pipeline" where
  "shutdown_pipeline s = s\<lparr>stopped := True, idle_timers := (\<lambda>_. None), buffers := (\<lambda>_. None),
     last_seen := (\<lambda>_. None), idle_states := (\<lambda>_. None)\<rparr>"

section \<open>Lemmas\<close>

lemma event_annotations_other:
  "k \<notin> {''notable'', ''event_type'', ''event_count'', ''severity'', ''event_title'', ''event_details'', ''event_action''} \<Longrightarrow>
   event_annotations evs a k = a k"
  by (cases evs) (auto simp: event_annotations_def Let_def)

lemma idle_annotations_other:
  "k \<notin> {''idle_state'', ''tool_changed'', ''waiting_for'', ''notable'', ''event_type'', ''prompt_text''} \<Longrightarrow>
   idle_annotations st a k = a k"
  by (cases st) (auto simp: idle_annotations_def Let_def)

lemma base_annotations_truncated:
  "base_annotations trunc n tool mode tid ''buffer_truncated'' = (if trunc then Some ''true'' else None)"
  by (simp add: base_annotations_def Let_def)

lemma apply_handler_truncated:
  "snd (apply_handler h rt idle text a) ''buffer_truncated'' = a ''buffer_truncated''"
  by (auto simp: apply_handler_def Let_def event_annotations_other idle_annotations_other split: option.splits sum.splits)

lemma cancel_idle_timer_frame [simp]:
  "buffers (cancel_idle_timer sid s) = buffers s" "heap_buffers (cancel_idle_timer sid s) = heap_buffers s"
  "next_buffer (cancel_idle_timer sid s) = next_buffer s" "timers (cancel_idle_timer sid s) = timers s"
  "plugins_svc (cancel_idle_timer sid s) = plugins_svc s" "published (cancel_idle_timer sid s) = published s"
  "errors (cancel_idle_timer sid s) = errors s" "stopped (cancel_idle_timer sid s) = stopped s"
  by (simp_all add: cancel_idle_timer_def)

lemma persist_idle_frame [simp]:
  "buffers (persist_idle now sid i s) = buffers s" "heap_buffers (persist_idle now sid i s) = heap_buffers s"
  "next_buffer (persist_idle now sid i s) = next_buffer s" "timers (persist_idle now sid i s) = timers s"
  "plugins_svc (persist_idle now sid i s) = plugins_svc s" "published (persist_idle now sid i s) = published s"
  "errors (persist_idle now sid i s) = errors s" "stopped (persist_idle now sid i s) = stopped s"
  by (simp_all add: persist_idle_def)

text \<open>A provider that changes no text: its handlers may detect and annotate, but they do not clean, and
  there is no cleaner plugin.\<close>

definition keeps_text :: "tool_handler option \<Rightarrow> bool" where
  "keeps_text h \<longleftrightarrow> (case h of Some h \<Rightarrow> \<not> has_clean h | None \<Rightarrow> True)"

definition text_keeping :: "pipeline_provider option \<Rightarrow> bool" where
  "text_keeping p' \<longleftrightarrow> (case p' of None \<Rightarrow> True
     | Some p \<Rightarrow> (\<forall>tool. pipeline_plugin_for p tool = None \<and> keeps_text (tool_handler_for p tool)))"

lemma handler_for_keeps: "text_keeping (plugins_svc s) \<Longrightarrow> keeps_text (handler_for tool s)"
  by (auto simp: text_keeping_def handler_for_def keeps_text_def split: option.splits)

lemma apply_handler_text: "keeps_text h \<Longrightarrow> fst (apply_handler h rt idle text a) = text"
  by (auto simp: apply_handler_def keeps_text_def Let_def split: option.splits)

lemma select_plugin_keeping: "text_keeping (plugins_svc s) \<Longrightarrow> select_plugin tool s = None"
  by (auto simp: text_keeping_def select_plugin_def split: option.splits)

lemma flush_effect:
  assumes "text_keeping (plugins_svc s)" and "keeps_text h" and "represents (heap_buffers s bid) w"
    and "s' = flush_and_process now sid bid h idle evt tn ti s"
  shows "buffers s' = buffers s \<and> next_buffer s' = next_buffer s \<and> timers s' = timers s \<and> plugins_svc s' = plugins_svc s \<and>
    heap_buffers s' = (heap_buffers s)(bid := snd (buffer_flush (heap_buffers s bid))) \<and>
    (if w = [] then published s' = published s
     else \<exists>m. published s' = published s @ [m] \<and> msg_session_id m = sid \<and>
       (if int (length w) > max_size (heap_buffers s bid) then msg_annotations m ''buffer_truncated'' \<noteq> None
        else msg_text m = w))"
proof -
  let ?b = "heap_buffers s bid"
  obtain tx tr b' where f: "buffer_flush ?b = ((tx, tr), b')" by (metis prod.exhaust)
  with represents_flush [OF assms(3)] have tx: "tx = take_last (nat (max_size ?b)) w" and
    tr: "tr = (int (length w) > max_size ?b)" by simp_all
  have pos: "0 < max_size ?b" using assms(3) by (simp add: represents_def)
  have empty: "tx = [] \<longleftrightarrow> w = []"
    using pos tx by (metis length_0_conv length_take_last min_0R min_def nat_0_iff not_le)
  let ?s = "persist_idle now sid idle ((cancel_idle_timer sid s)\<lparr>heap_buffers := (heap_buffers s)(bid := b')\<rparr>)"
  show ?thesis
  proof (cases "w = []")
    case True
    with empty f have "s' = ?s" by (simp add: assms(4) flush_and_process_def Let_def)
    with True f show ?thesis by simp
  next
    case False
    let ?a = "base_annotations tr (max_size b') tn (out_mode evt) ti"
    let ?rt = "case plugins_svc s of Some p \<Rightarrow> js_runtime p | None \<Rightarrow> False"
    obtain tx2 a2 where ah: "apply_handler h ?rt idle tx ?a = (tx2, a2)" by (metis prod.exhaust)
    have "tx2 = tx" using apply_handler_text [OF assms(2), of ?rt idle tx ?a] ah by simp
    moreover have "a2 ''buffer_truncated'' = (if tr then Some ''true'' else None)"
      using apply_handler_truncated [of h ?rt idle tx ?a] ah by (simp add: base_annotations_truncated)
    moreover have "s' = ?s\<lparr>published := published s @ [\<lparr>msg_session_id = sid, msg_origin = out_origin evt, msg_text = tx2,
        msg_annotations = a2, msg_sequence = out_sequence evt\<rparr>]\<rparr>"
      using False empty f ah assms(1) by (simp add: assms(4) flush_and_process_def select_plugin_keeping Let_def)
    ultimately show ?thesis using False f tx tr pos by (auto simp: take_last_all)
  qed
qed

section \<open>No output is lost, doubled or mixed up\<close>

datatype flow_op =
    Flow_Output time_ns session_output_event
  | Flow_Tool time_ns session_tool_event
  | Flow_Timer time_ns nat

text \<open>\<open>Flow_Timer now i\<close> is the callback of the \<open>i\<close>-th timer ever started, stopped or not.\<close>

fun flow_step :: "flow_op \<Rightarrow> pipeline \<Rightarrow> pipeline" where
  "flow_step (Flow_Output now evt) s = handle_session_output now evt s"
| "flow_step (Flow_Tool now ev) s = handle_tool_event now ev s"
| "flow_step (Flow_Timer now i) s = (if i < length (timers s) then fire_timer now (timers s ! i) s else s)"

fun output_of :: "string \<Rightarrow> flow_op \<Rightarrow> string" where
  "output_of sid (Flow_Output now evt) = (if out_session_id evt = sid then out_data evt else [])"
| "output_of sid _ = []"

definition sent :: "string \<Rightarrow> pipeline \<Rightarrow> string" where
  "sent sid s = concat (map msg_text (filter (\<lambda>m. msg_session_id m = sid) (published s)))"

definition reported_loss :: "string \<Rightarrow> pipeline \<Rightarrow> bool" where
  "reported_loss sid s \<longleftrightarrow>
     list_ex (\<lambda>m. msg_session_id m = sid \<and> msg_annotations m ''buffer_truncated'' \<noteq> None) (published s)"

definition pending_text :: "string \<Rightarrow> pipeline \<Rightarrow> string" where
  "pending_text sid s = (case buffers s sid of Some b \<Rightarrow> buffer_peek (heap_buffers s b) | None \<Rightarrow> [])"

definition flow_ok :: "(string \<Rightarrow> string) \<Rightarrow> pipeline \<Rightarrow> bool" where
  "flow_ok dat s \<longleftrightarrow> text_keeping (plugins_svc s) \<and>
     (\<forall>sid b. buffers s sid = Some b \<longrightarrow> b < next_buffer s \<and>
        (\<exists>w. represents (heap_buffers s b) w \<and> (\<not> reported_loss sid s \<longrightarrow> sent sid s @ w = dat sid))) \<and>
     (\<forall>sid. buffers s sid = None \<longrightarrow> dat sid = [] \<and> sent sid s = []) \<and>
     (\<forall>sid sid' b. buffers s sid = Some b \<longrightarrow> buffers s sid' = Some b \<longrightarrow> sid = sid') \<and>
     (\<forall>t \<in> set (timers s). buffers s (it_session t) = Some (it_buffer t) \<and> keeps_text (it_handler t))"

lemma flow_ok_cong:
  assumes "flow_ok dat s" and "buffers s' = buffers s" and "heap_buffers s' = heap_buffers s"
    and "next_buffer s' = next_buffer s" and "plugins_svc s' = plugins_svc s" and "published s' = published s"
    and "\<forall>t \<in> set (timers s'). t \<in> set (timers s) \<or> buffers s (it_session t) = Some (it_buffer t) \<and> keeps_text (it_handler t)"
  shows "flow_ok dat s'"
  using assms(1,7) unfolding flow_ok_def sent_def reported_loss_def assms(2-6) by blast

lemma sent_snoc:
  "published s' = published s @ [m] \<Longrightarrow> sent sid s' = sent sid s @ (if msg_session_id m = sid then msg_text m else [])"
  "published s' = published s @ [m] \<Longrightarrow> reported_loss sid s' \<longleftrightarrow>
     reported_loss sid s \<or> msg_session_id m = sid \<and> msg_annotations m ''buffer_truncated'' \<noteq> None"
  by (simp_all add: sent_def reported_loss_def)

lemma flush_ok:
  assumes ok: "flow_ok dat s" and b: "buffers s sid = Some bid" and h: "keeps_text h"
  shows "flow_ok dat (flush_and_process now sid bid h idle evt tn ti s)" (is "flow_ok dat ?s'")
proof -
  from ok b obtain w where w: "represents (heap_buffers s bid) w" and
    sw: "\<not> reported_loss sid s \<Longrightarrow> sent sid s @ w = dat sid" unfolding flow_ok_def by blast
  from ok have keep: "text_keeping (plugins_svc s)" by (simp add: flow_ok_def)
  note e = flush_effect [OF keep h w refl, of now sid idle evt tn ti]
  have flushed: "represents (heap_buffers ?s' bid) []" using e represents_flush [OF w] by simp
  have inj: "sid' = sid" if "buffers s sid' = Some bid" for sid' using ok b that unfolding flow_ok_def by blast
  have own: "\<not> reported_loss sid ?s' \<longrightarrow> sent sid ?s' = dat sid"
  proof (cases "w = []")
    case True
    with e have p: "published ?s' = published s" by simp
    with True sw show ?thesis by (simp add: sent_def reported_loss_def)
  next
    case False
    with e obtain m where p: "published ?s' = published s @ [m]" "msg_session_id m = sid"
      and m: "if int (length w) > max_size (heap_buffers s bid) then msg_annotations m ''buffer_truncated'' \<noteq> None
        else msg_text m = w" by auto
    then show ?thesis using sw by (auto simp: sent_snoc [OF p(1)] split: if_splits)
  qed
  have other: "sent sid' ?s' = sent sid' s \<and> (reported_loss sid' ?s' \<longleftrightarrow> reported_loss sid' s)" if "sid' \<noteq> sid" for sid'
  proof (cases "w = []")
    case True
    with e show ?thesis by (simp add: sent_def reported_loss_def)
  next
    case False
    with e obtain m where p: "published ?s' = published s @ [m]" "msg_session_id m = sid" by auto
    with that show ?thesis by (simp add: sent_snoc [OF p(1)])
  qed
  have heap: "heap_buffers ?s' i = heap_buffers s i" if "i \<noteq> bid" for i using e that by simp
  have frame: "buffers ?s' = buffers s" "next_buffer ?s' = next_buffer s" "timers ?s' = timers s"
    "plugins_svc ?s' = plugins_svc s" using e by simp_all
  show ?thesis
    unfolding flow_ok_def frame
  proof (intro conjI allI impI)
    fix sid' i assume i: "buffers s sid' = Some i"
    then show "i < next_buffer s" using ok by (simp add: flow_ok_def)
    show "\<exists>w. represents (heap_buffers ?s' i) w \<and> (\<not> reported_loss sid' ?s' \<longrightarrow> sent sid' ?s' @ w = dat sid')"
    proof (cases "sid' = sid")
      case True
      with i b flushed own show ?thesis by (intro exI [of _ "[]"]) simp
    next
      case False
      with i inj have "i \<noteq> bid" by auto
      with ok i other [OF False] heap show ?thesis unfolding flow_ok_def by auto
    qed
  next
    fix sid' assume n: "buffers s sid' = None"
    with b have "sid' \<noteq> sid" by auto
    with n ok other show "dat sid' = []" "sent sid' ?s' = []" by (auto simp: flow_ok_def)
  qed (use ok in \<open>auto simp: flow_ok_def\<close>)
qed

text \<open>Creating the buffer of a session and writing to it.\<close>

lemma create_ok:
  assumes ok: "flow_ok dat s" and c: "get_or_create_buffer sid s = (bid, s1)"
  shows "flow_ok dat s1 \<and> buffers s1 sid = Some bid \<and> plugins_svc s1 = plugins_svc s"
proof (cases "buffers s sid")
  case (Some b)
  with c ok show ?thesis by (simp add: get_or_create_buffer_def)
next
  case None
  with c have s1: "bid = next_buffer s" "s1 = s\<lparr>buffers := (buffers s)(sid \<mapsto> bid),
      heap_buffers := (heap_buffers s)(bid := new_output_buffer), next_buffer := Suc bid\<rparr>"
    by (auto simp: get_or_create_buffer_def)
  have p: "sent x s1 = sent x s" "reported_loss x s1 = reported_loss x s" for x
    by (simp_all add: s1(2) sent_def reported_loss_def)
  have old: "i < next_buffer s" if "buffers s x = Some i" for x i using ok that by (simp add: flow_ok_def)
  have fresh: "represents new_output_buffer []" using represents_new [of "[]"] by (simp add: new_output_buffer_with_def)
  have "flow_ok dat s1"
    unfolding flow_ok_def p
  proof (intro conjI allI impI ballI)
    fix x i assume "buffers s1 x = Some i"
    then consider "x = sid" "i = bid" | "x \<noteq> sid" "buffers s x = Some i" "i \<noteq> bid"
      using s1 old by (auto split: if_splits)
    then show "i < next_buffer s1" "\<exists>w. represents (heap_buffers s1 i) w \<and> (\<not> reported_loss x s \<longrightarrow> sent x s @ w = dat x)"
      using ok None fresh unfolding atomize_conj
      by cases (auto simp: s1 flow_ok_def intro!: exI [of _ "[]"] dest: old)
  next
    fix x y i assume "buffers s1 x = Some i" "buffers s1 y = Some i"
    then show "x = y" using ok old s1 by (auto simp: flow_ok_def split: if_splits)
  next
    fix t assume "t \<in> set (timers s1)"
    then show "buffers s1 (it_session t) = Some (it_buffer t)" "keeps_text (it_handler t)"
      using ok None by (auto simp: s1 flow_ok_def)
  qed (use ok in \<open>auto simp: s1 flow_ok_def split: if_splits\<close>)
  with s1 show ?thesis by simp
qed

lemma write_ok:
  assumes ok: "flow_ok dat s" and b: "buffers s sid = Some bid"
  shows "flow_ok (dat(sid := dat sid @ c))
    (s\<lparr>heap_buffers := (heap_buffers s)(bid := snd (buffer_write now c (heap_buffers s bid)))\<rparr>)"
proof -
  have inj: "x = sid" if "buffers s x = Some bid" for x using ok b that unfolding flow_ok_def by blast
  from ok b obtain w where w: "represents (heap_buffers s bid) w" and
    sw: "\<not> reported_loss sid s \<longrightarrow> sent sid s @ w = dat sid" unfolding flow_ok_def by blast
  let ?s = "s\<lparr>heap_buffers := (heap_buffers s)(bid := snd (buffer_write now c (heap_buffers s bid)))\<rparr>"
  have p: "sent x ?s = sent x s" "reported_loss x ?s = reported_loss x s" for x
    by (simp_all add: sent_def reported_loss_def)
  show ?thesis
    unfolding flow_ok_def p
  proof (intro conjI allI impI ballI)
    fix x i assume i: "buffers ?s x = Some i"
    then show "i < next_buffer ?s" using ok by (simp add: flow_ok_def)
    show "\<exists>w. represents (heap_buffers ?s i) w \<and> (\<not> reported_loss x s \<longrightarrow> sent x s @ w = (dat(sid := dat sid @ c)) x)"
    proof (cases "x = sid")
      case True
      with i b have "i = bid" by simp
      with True sw represents_write [OF w, of now c] show ?thesis by (intro exI [of _ "w @ c"]) auto
    next
      case False
      with i inj have "i \<noteq> bid" by auto
      with ok i False show ?thesis by (auto simp: flow_ok_def)
    qed
  qed (use ok b in \<open>auto simp: flow_ok_def\<close>)
qed

lemma output_ok:
  assumes "flow_ok dat s" and "dat [] = []"
  shows "flow_ok (dat(out_session_id evt := dat (out_session_id evt) @
      (if out_session_id evt = [] then [] else out_data evt))) (handle_session_output now evt s)"
proof (cases "out_session_id evt = []")
  case True
  then have "dat(out_session_id evt := dat (out_session_id evt) @ []) = dat" by simp
  with True assms(1) show ?thesis by (simp add: handle_session_output_def)
next
  case False
  let ?sid = "out_session_id evt"
  let ?seen = "s\<lparr>last_seen := (last_seen s)(?sid \<mapsto> \<lparr>ls_sequence = out_sequence evt, ls_mode = out_mode evt\<rparr>)\<rparr>"
  let ?dat = "dat(?sid := dat ?sid @ out_data evt)"
  have "flow_ok dat ?seen" by (rule flow_ok_cong [OF assms(1)]) simp_all
  moreover obtain bid s1 where c: "get_or_create_buffer ?sid ?seen = (bid, s1)" by (metis prod.exhaust)
  ultimately have s1: "flow_ok dat s1" "buffers s1 ?sid = Some bid" using create_ok by blast+
  define s2 where "s2 = s1\<lparr>heap_buffers := (heap_buffers s1)(bid := snd (buffer_write now (out_data evt) (heap_buffers s1 bid)))\<rparr>"
  from write_ok [OF s1] have s2: "flow_ok ?dat s2" "buffers s2 ?sid = Some bid" using s1(2) by (simp_all add: s2_def)
  let ?tn = "the_string (tool_name_of ?sid s2)" and ?ti = "the_string (tool_id_of ?sid s2)"
  let ?h = "handler_for (if ?ti = [] then ?tn else ?ti) s2"
  have h: "keeps_text ?h" using s2(1) by (intro handler_for_keeps) (simp add: flow_ok_def)
  let ?t = "\<lparr>it_session = ?sid, it_buffer = bid, it_generation = generation (heap_buffers s2 bid),
      it_handler = ?h, it_event = evt, it_tool_name = ?tn, it_tool_id = ?ti\<rparr>"
  have r: "handle_session_output now evt s =
      (case detect_idle ?h (buffer_peek (heap_buffers s2 bid)) s2 of
         Some st \<Rightarrow> flush_and_process now ?sid bid ?h (Some st) evt ?tn ?ti s2
       | None \<Rightarrow> reset_idle_timer ?t s2)"
    using False c unfolding s2_def by (simp add: handle_session_output_def Let_def)
  have reset: "flow_ok ?dat (reset_idle_timer ?t s2)"
    by (rule flow_ok_cong [OF s2(1)]) (use s2(2) h in \<open>auto simp: reset_idle_timer_def\<close>)
  have "flow_ok ?dat (handle_session_output now evt s)"
    unfolding r by (cases "detect_idle ?h (buffer_peek (heap_buffers s2 bid)) s2")
      (use reset flush_ok [OF s2 h] in \<open>simp_all only: option.case\<close>)
  with False show ?thesis by simp
qed

lemma timer_ok:
  assumes "flow_ok dat s" and "t \<in> set (timers s)"
  shows "flow_ok dat (fire_timer now t s)"
proof -
  from assms have "buffers s (it_session t) = Some (it_buffer t)" "keeps_text (it_handler t)"
    by (auto simp: flow_ok_def)
  from flush_ok [OF assms(1) this] assms(1) show ?thesis by (simp add: fire_timer_def)
qed

lemma tool_change_ok:
  assumes "flow_ok dat s"
  shows "flow_ok dat (flush_on_tool_change now sid old s)"
proof (cases "buffers s sid")
  case None
  with assms show ?thesis by (auto simp: flush_on_tool_change_def intro!: flow_ok_cong [OF assms])
next
  case (Some bid)
  have h: "keeps_text (handler_for tool s)" for tool using assms by (intro handler_for_keeps) (simp add: flow_ok_def)
  show ?thesis
  proof (cases "is_empty_buffer (heap_buffers s bid)")
    case True
    with Some assms show ?thesis by (auto simp: flush_on_tool_change_def intro!: flow_ok_cong [OF assms])
  next
    case False
    with Some show ?thesis
      by (auto simp: flush_on_tool_change_def Let_def intro!: flush_ok [OF assms Some h] split: prod.splits option.splits)
  qed
qed

lemma tool_ok: "flow_ok dat s \<Longrightarrow> flow_ok dat (handle_tool_event now ev s)"
proof -
  assume ok: "flow_ok dat s"
  have "flow_ok dat (s1\<lparr>tool_by_session := f\<rparr>)" if "flow_ok dat s1" for s1 f
    by (rule flow_ok_cong [OF that]) simp_all
  with ok tool_change_ok [OF ok] show ?thesis
    by (auto simp: handle_tool_event_def Let_def split: option.splits)
qed

definition collected :: "flow_op list \<Rightarrow> string \<Rightarrow> string" where
  "collected ops sid = (if sid = [] then [] else concat (map (output_of sid) ops))"

lemma flow_run_ok:
  "flow_ok (collected pre) s \<Longrightarrow> flow_ok (collected (pre @ ops)) (fold flow_step ops s)"
proof (induction ops arbitrary: pre s)
  case (Cons op ops)
  have "flow_ok (collected (pre @ [op])) (flow_step op s)"
  proof (cases op)
    case (Flow_Output now evt)
    have "collected (pre @ [op]) = (collected pre)(out_session_id evt := collected pre (out_session_id evt) @
        (if out_session_id evt = [] then [] else out_data evt))"
      by (auto simp: Flow_Output collected_def fun_eq_iff)
    note e = this
    have z: "collected pre [] = []" by (simp add: collected_def)
    show ?thesis unfolding e using output_ok [OF Cons.prems z, of evt now] Flow_Output by simp
  next
    case (Flow_Tool now ev)
    then have "collected (pre @ [op]) = collected pre" by (simp add: collected_def fun_eq_iff)
    with tool_ok [OF Cons.prems] Flow_Tool show ?thesis by simp
  next
    case (Flow_Timer now i)
    then have "collected (pre @ [op]) = collected pre" by (simp add: collected_def fun_eq_iff)
    with timer_ok [OF Cons.prems] Cons.prems Flow_Timer show ?thesis by simp
  qed
  from Cons.IH [OF this] show ?case by simp
qed simp


definition demo_output :: "string \<Rightarrow> string \<Rightarrow> flow_op" where
  "demo_output sid text = Flow_Output 1 \<lparr>out_session_id = sid, out_sequence = 1, out_data = text, out_origin = ''tool'', out_mode = []\<rparr>"


text \<open>
  The idle state of a session is not withdrawn when the session produces output again: a chunk that does
  not itself lead to a flush leaves it as it was, so that \<open>GetIdleState\<close> goes on reporting an idle session.
\<close>

lemma output_keeps_idle_state:
  assumes "plugins_svc s = None"
  shows "get_idle_state sid (handle_session_output now evt s) = get_idle_state sid s"
  using assms
  by (auto simp: handle_session_output_def get_idle_state_def detect_idle_def handler_for_def
      get_or_create_buffer_def reset_idle_timer_def Let_def split: option.splits prod.splits)

end
