(* ===== verification/Wav.thy ===== *)
theory Wav
  imports Utf8 GoStrings AudioFormat
begin

text \<open>
  WAV files, \<open>internal/audioio/wav.go\<close>. A stream that is read is the list of its remaining bytes; a file that
  is written is its content and the position. Errors of the operating system are left out, so a read
  fails only at the end of the stream. Sizes in the file are 32-bit words, as in the code.
\<close>

section \<open>Little-endian numbers\<close>

fun le_bytes :: "nat \<Rightarrow> nat \<Rightarrow> string" where
  "le_bytes 0 x = []"
| "le_bytes (Suc n) x = char_of (x mod 256) # le_bytes n (x div 256)"

fun le_nat :: "string \<Rightarrow> nat" where
  "le_nat [] = 0"
| "le_nat (c # cs) = bv c + 256 * le_nat cs"

definition put_uint16 :: "16 word \<Rightarrow> string" where "put_uint16 w = le_bytes 2 (unat w)"
definition put_uint32 :: "uint32 \<Rightarrow> string" where "put_uint32 w = le_bytes 4 (unat w)"
definition get_uint16 :: "string \<Rightarrow> 16 word" where "get_uint16 bs = of_nat (le_nat (take 2 bs))"
definition get_uint32 :: "string \<Rightarrow> uint32" where "get_uint32 bs = of_nat (le_nat (take 4 bs))"

section \<open>Reading\<close>

datatype wav_error =
    Reader_Nil | Short_Header | Invalid_Header | Short_Chunk_Header | Chunk_Too_Large string uint32
  | Invalid_Fmt_Chunk | Short_Fmt_Chunk | Unsupported_Format "16 word" | Invalid_Format_Values
  | Short_Fmt_Padding | Data_Too_Large uint32 | Short_Skip string | Writer_Nil | Invalid_Parameters | Writer_Closed

record reader =
  rd_rest :: string
  rd_remaining :: uint32
  rd_format :: audio_format

definition max_chunk_size :: uint32 where "max_chunk_size = 256 * 1024 * 1024"
definition max_data_chunk_size :: uint32 where "max_data_chunk_size = 500 * 1024 * 1024"

text \<open>\<open>io.ReadFull\<close>: \<open>n\<close> bytes and the rest, or nothing.\<close>

definition read_full :: "nat \<Rightarrow> string \<Rightarrow> (string \<times> string) option" where
  "read_full n s = (if n \<le> length s then Some (take n s, drop n s) else None)"

text \<open>The case of a \<open>"fmt "\<close> chunk.\<close>

definition parse_fmt :: "uint32 \<Rightarrow> string \<Rightarrow> wav_error + audio_format \<times> string" where
  "parse_fmt sz s =
     (if sz < 16 then Inl Invalid_Fmt_Chunk
      else case read_full (unat sz) s of
        None \<Rightarrow> Inl Short_Fmt_Chunk
      | Some (payload, s) \<Rightarrow>
          let audio_fmt = get_uint16 payload
          in if audio_fmt \<noteq> 1 then Inl (Unsupported_Format audio_fmt)
             else
               let chans = get_uint16 (drop 2 payload);
                   rate = get_uint32 (drop 4 payload);
                   depth = get_uint16 (drop 14 payload)
               in if chans = 0 \<or> rate = 0 \<or> depth = 0 then Inl Invalid_Format_Values
                  else
                    let fmt = \<lparr>encoding = encoding_pcm16, sample_rate = uint rate, channels = uint chans,
                               bit_depth = uint depth, frame_duration = 0\<rparr>;
                        extra = unat sz - 16
                    in if extra > 0
                       then (case read_full extra s of
                               None \<Rightarrow> Inl Short_Fmt_Padding
                             | Some (_, s) \<Rightarrow> Inr (fmt, s))
                       else Inr (fmt, s))"

lemma read_full_length: "read_full n s = Some (a, r) \<Longrightarrow> length s = n + length r \<and> length a = n \<and> s = a @ r"
  by (auto simp: read_full_def split: if_splits)

lemma parse_fmt_length: "parse_fmt sz s = Inr (f, r) \<Longrightarrow> length r \<le> length s"
  by (auto simp: parse_fmt_def Let_def dest!: read_full_length split: if_splits option.splits prod.splits)

text \<open>The loop over the chunks; each round takes at least the eight bytes of a chunk header.\<close>

function read_chunks ::
    "audio_format option \<Rightarrow> uint32 \<Rightarrow> string \<Rightarrow> wav_error + (audio_format \<times> uint32 \<times> string)" where
  "read_chunks fmt sz s =
     (case read_full 8 s of
        None \<Rightarrow> Inl Short_Chunk_Header
      | Some (hdr, s') \<Rightarrow>
          let cid = take 4 hdr; csize = get_uint32 (drop 4 hdr)
          in if csize > max_chunk_size then Inl (Chunk_Too_Large (trim_space cid) csize)
             else if cid = ''fmt '' then
               (case parse_fmt csize s' of
                  Inl e \<Rightarrow> Inl e
                | Inr (f, s'') \<Rightarrow> if sz > 0 then Inr (f, sz, s'') else read_chunks (Some f) sz s'')
             else if cid = ''data'' then
               (if csize > max_data_chunk_size then Inl (Data_Too_Large csize)
                else (case fmt of
                        Some f \<Rightarrow> if csize > 0 then Inr (f, csize, s') else read_chunks fmt csize s'
                      | None \<Rightarrow> read_chunks fmt csize s'))
             else
               (case read_full (unat csize + (if odd (unat csize) then 1 else 0)) s' of
                  None \<Rightarrow> Inl (Short_Skip (trim_space cid))
                | Some (_, s'') \<Rightarrow>
                    (case fmt of
                       Some f \<Rightarrow> if sz > 0 then Inr (f, sz, s'') else read_chunks fmt sz s''
                     | None \<Rightarrow> read_chunks fmt sz s'')))"
  by pat_completeness auto
termination
  by (relation "measure (\<lambda>(_, _, s). length s)") (auto dest!: read_full_length parse_fmt_length)

declare read_chunks.simps [simp del]

definition new_reader :: "string option \<Rightarrow> wav_error + reader" where
  "new_reader rc =
     (case rc of
        None \<Rightarrow> Inl Reader_Nil
      | Some s \<Rightarrow>
          (case read_full 12 s of
             None \<Rightarrow> Inl Short_Header
           | Some (hdr, s) \<Rightarrow>
               if take 4 hdr \<noteq> ''RIFF'' \<or> drop 8 hdr \<noteq> ''WAVE'' then Inl Invalid_Header
               else (case read_chunks None 0 s of
                       Inl e \<Rightarrow> Inl e
                     | Inr (fmt, sz, rest) \<Rightarrow>
                         Inr \<lparr>rd_rest = rest, rd_remaining = sz, rd_format = fmt\<rparr>)))"

text \<open>\<open>Read\<close> into a buffer of \<open>len\<close> bytes, when the underlying reader has at most \<open>avail\<close> bytes ready (it
  returns no bytes only at its end): the bytes, whether the end is reported, and the reader.\<close>

definition wav_read :: "nat \<Rightarrow> nat \<Rightarrow> reader \<Rightarrow> string \<times> bool \<times> reader" where
  "wav_read len avail r =
     (if rd_remaining r = 0 then ([], True, r)
      else if len = 0 then ([], False, r)
      else
        let len = (if (of_nat len :: uint32) > rd_remaining r then unat (rd_remaining r) else len);
            p = take (min len (max 1 avail)) (rd_rest r);
            p = (if (of_nat (length p) :: uint32) > rd_remaining r then take (unat (rd_remaining r)) p else p);
            r = r\<lparr>rd_rest := drop (length p) (rd_rest r), rd_remaining := rd_remaining r - of_nat (length p)\<rparr>
        in (p, rd_remaining r = 0, r))"

section \<open>Writing\<close>

record wav_file =
  file_bytes :: string
  file_pos :: nat

definition seek_start :: "nat \<Rightarrow> wav_file \<Rightarrow> wav_file" where
  "seek_start n f = f\<lparr>file_pos := n\<rparr>"

definition seek_end :: "wav_file \<Rightarrow> wav_file" where
  "seek_end f = f\<lparr>file_pos := length (file_bytes f)\<rparr>"

text \<open>A write replaces the bytes at the position, filling a gap with zero bytes.\<close>

definition file_write :: "string \<Rightarrow> wav_file \<Rightarrow> wav_file" where
  "file_write bs f =
     (let padded = file_bytes f @ replicate (file_pos f - length (file_bytes f)) (CHR 0x00)
      in \<lparr>file_bytes = take (file_pos f) padded @ bs @ drop (file_pos f + length bs) padded,
          file_pos = file_pos f + length bs\<rparr>)"

record writer =
  wr_file :: wav_file
  wr_format :: audio_format
  wr_data_size :: uint32
  wr_closed :: bool

definition wav_header :: "audio_format \<Rightarrow> string" where
  "wav_header fmt =
     (let byte_rate = sample_rate fmt * channels fmt * bit_depth fmt div 8;
          block_align = channels fmt * bit_depth fmt div 8
      in ''RIFF'' @ replicate 4 (CHR 0x00) @ ''WAVE'' @ ''fmt '' @ put_uint32 16 @ put_uint16 1 @
         put_uint16 (of_int (channels fmt)) @ put_uint32 (of_int (sample_rate fmt)) @
         put_uint32 (of_int byte_rate) @ put_uint16 (of_int block_align) @
         put_uint16 (of_int (bit_depth fmt)) @ ''data'' @ put_uint32 0)"

definition new_writer :: "wav_file option \<Rightarrow> audio_format \<Rightarrow> wav_error + writer" where
  "new_writer w fmt =
     (case w of
        None \<Rightarrow> Inl Writer_Nil
      | Some f \<Rightarrow>
          let fmt = (if trim_space (encoding fmt) = [] then fmt\<lparr>encoding := encoding_pcm16\<rparr> else fmt)
          in if sample_rate fmt \<le> 0 \<or> channels fmt \<le> 0 \<or> bit_depth fmt \<le> 0 then Inl Invalid_Parameters
             else Inr \<lparr>wr_file = file_write (wav_header fmt) (seek_start 0 f), wr_format = fmt,
                       wr_data_size = 0, wr_closed = False\<rparr>)"

definition wav_write :: "string \<Rightarrow> writer \<Rightarrow> (wav_error + nat) \<times> writer" where
  "wav_write p w =
     (if wr_closed w then (Inl Writer_Closed, w)
      else if p = [] then (Inr 0, w)
      else (Inr (length p), w\<lparr>wr_file := file_write p (wr_file w),
              wr_data_size := wr_data_size w + of_nat (length p)\<rparr>))"

definition wav_close :: "writer \<Rightarrow> writer" where
  "wav_close w =
     (if wr_closed w then w
      else
        let f = file_write (put_uint32 (wr_data_size w + 36)) (seek_start 4 (wr_file w));
            f = file_write (put_uint32 (wr_data_size w)) (seek_start 40 f)
        in w\<lparr>wr_closed := True, wr_file := seek_end f\<rparr>)"

section \<open>Lemmas\<close>

lemma length_le_bytes [simp]: "length (le_bytes n x) = n"
  by (induction n arbitrary: x) simp_all

lemma le_nat_bytes: "le_nat (le_bytes n x) = x mod 256 ^ n"
proof (induction n arbitrary: x)
  case (Suc n)
  have "bv (char_of (x mod 256) :: char) = x mod 256" by simp
  with Suc show ?case by (simp add: mod_mult2_eq)
qed simp

lemma length_put [simp]: "length (put_uint16 v) = 2" "length (put_uint32 w) = 4"
  by (simp_all add: put_uint16_def put_uint32_def)

lemma get_put_uint16 [simp]: "get_uint16 (put_uint16 w @ s) = w"
proof -
  have "unat w < 256 ^ 2" by (rule order_less_le_trans [OF unsigned_less]) simp
  then show ?thesis by (simp add: get_uint16_def put_uint16_def le_nat_bytes)
qed

lemma get_put_uint32 [simp]: "get_uint32 (put_uint32 w @ s) = w"
proof -
  have "unat w < 256 ^ 4" by (rule order_less_le_trans [OF unsigned_less]) simp
  then show ?thesis by (simp add: get_uint32_def put_uint32_def le_nat_bytes)
qed

lemma read_full_append: "length a = n \<Longrightarrow> read_full n (a @ r) = Some (a, r)"
  by (auto simp: read_full_def)

section \<open>What a reader makes of a header\<close>

text \<open>A chunk: identifier, size and payload.\<close>

definition chunk :: "string \<Rightarrow> string \<Rightarrow> string" where
  "chunk cid payload = cid @ put_uint32 (of_nat (length payload)) @ payload"

text \<open>The sixteen bytes of the format of PCM data.\<close>

definition fmt_payload :: "audio_format \<Rightarrow> string" where
  "fmt_payload fmt =
     put_uint16 1 @ put_uint16 (of_int (channels fmt)) @ put_uint32 (of_int (sample_rate fmt)) @
     put_uint32 (of_int (sample_rate fmt * channels fmt * bit_depth fmt div 8)) @
     put_uint16 (of_int (channels fmt * bit_depth fmt div 8)) @ put_uint16 (of_int (bit_depth fmt))"

definition pcm_format_ok :: "audio_format \<Rightarrow> bool" where
  "pcm_format_ok fmt \<longleftrightarrow> 0 < sample_rate fmt \<and> sample_rate fmt < 2 ^ 32 \<and> 0 < channels fmt \<and> channels fmt < 2 ^ 16 \<and>
     0 < bit_depth fmt \<and> bit_depth fmt < 2 ^ 16"

text \<open>What a reader reports for a format: PCM, and no frame duration.\<close>

definition as_read :: "audio_format \<Rightarrow> audio_format" where
  "as_read fmt = fmt\<lparr>encoding := encoding_pcm16, frame_duration := 0\<rparr>"

lemma length_fmt_payload [simp]: "length (fmt_payload fmt) = 16"
  by (simp add: fmt_payload_def)

lemma drop_put [simp]:
  "drop 2 (put_uint16 v @ s) = s" "drop 4 (put_uint32 w @ s) = s"
  by (simp_all add: drop_append)

lemma word_of_range:
  fixes x :: int
  shows "0 < x \<Longrightarrow> x < 2 ^ 16 \<Longrightarrow> (of_int x :: 16 word) \<noteq> 0 \<and> uint (of_int x :: 16 word) = x"
    and "0 < x \<Longrightarrow> x < 2 ^ 32 \<Longrightarrow> (of_int x :: uint32) \<noteq> 0 \<and> uint (of_int x :: uint32) = x"
proof -
  assume x: "0 < x"
  { assume "x < 2 ^ 16"
    with x have "uint (of_int x :: 16 word) = x" by (simp add: unsigned_of_int take_bit_int_eq_self)
    moreover from this x have "(of_int x :: 16 word) \<noteq> 0" by (metis less_irrefl unsigned_0)
    ultimately show "(of_int x :: 16 word) \<noteq> 0 \<and> uint (of_int x :: 16 word) = x" by blast }
  { assume "x < 2 ^ 32"
    with x have "uint (of_int x :: uint32) = x" by (simp add: unsigned_of_int take_bit_int_eq_self)
    moreover from this x have "(of_int x :: uint32) \<noteq> 0" by (metis less_irrefl unsigned_0)
    ultimately show "(of_int x :: uint32) \<noteq> 0 \<and> uint (of_int x :: uint32) = x" by blast }
qed

lemma fmt_fields:
  "get_uint16 (fmt_payload fmt @ x) = 1"
  "get_uint16 (drop 2 (fmt_payload fmt @ x)) = of_int (channels fmt)"
  "get_uint32 (drop 4 (fmt_payload fmt @ x)) = of_int (sample_rate fmt)"
  "get_uint16 (drop 14 (fmt_payload fmt @ x)) = of_int (bit_depth fmt)"
proof -
  have d: "drop 4 s = drop 2 (drop 2 s)" "drop 14 s = drop 2 (drop 4 (drop 4 (drop 2 (drop 2 s))))" for s :: string
    by simp_all
  show "get_uint16 (fmt_payload fmt @ x) = 1" "get_uint16 (drop 2 (fmt_payload fmt @ x)) = of_int (channels fmt)"
    by (simp_all add: fmt_payload_def del: drop_drop)
  show "get_uint32 (drop 4 (fmt_payload fmt @ x)) = of_int (sample_rate fmt)"
    unfolding d(1) by (simp add: fmt_payload_def del: drop_drop)
  show "get_uint16 (drop 14 (fmt_payload fmt @ x)) = of_int (bit_depth fmt)"
    unfolding d(2) by (simp add: fmt_payload_def del: drop_drop)
qed

lemma parse_fmt_ok:
  assumes "pcm_format_ok fmt" and "length ext + 16 < 2 ^ 32"
  shows "parse_fmt (of_nat (16 + length ext)) (fmt_payload fmt @ ext @ rest) =
    (if ext = [] then Inr (as_read fmt, rest)
     else case read_full (length ext) rest of None \<Rightarrow> Inl Short_Fmt_Padding | Some (_, r) \<Rightarrow> Inr (as_read fmt, r))"
proof -
  have u: "unat (of_nat (16 + length ext) :: uint32) = 16 + length ext"
    using assms(2) by (simp add: unsigned_of_nat take_bit_nat_eq_self del: of_nat_add)
  have ge: "\<not> (of_nat (16 + length ext) :: uint32) < 16"
    by (simp add: word_less_nat_alt u del: of_nat_add)
  have r: "read_full (16 + length ext) (fmt_payload fmt @ ext @ rest) = Some (fmt_payload fmt @ ext, rest)"
    using read_full_append [of "fmt_payload fmt @ ext" "16 + length ext" rest] by simp
  have w: "(of_int (channels fmt) :: 16 word) \<noteq> 0 \<and> uint (of_int (channels fmt) :: 16 word) = channels fmt"
    "(of_int (bit_depth fmt) :: 16 word) \<noteq> 0 \<and> uint (of_int (bit_depth fmt) :: 16 word) = bit_depth fmt"
    "(of_int (sample_rate fmt) :: uint32) \<noteq> 0 \<and> uint (of_int (sample_rate fmt) :: uint32) = sample_rate fmt"
    using assms(1) unfolding pcm_format_ok_def by (intro word_of_range; simp)+
  have eq: "\<lparr>encoding = encoding_pcm16, sample_rate = sample_rate fmt, channels = channels fmt,
      bit_depth = bit_depth fmt, frame_duration = 0\<rparr> = as_read fmt" by (simp add: as_read_def)
  show ?thesis
    unfolding parse_fmt_def u r option.case prod.case Let_def fmt_fields
    using ge w by (simp add: eq del: of_nat_add split: option.split)
qed

lemma chunk_header:
  "length cid = 4 \<Longrightarrow> read_full 8 (cid @ put_uint32 w @ s) = Some (cid @ put_uint32 w, s)"
  using read_full_append [of "cid @ put_uint32 w" 8 s] by simp

lemma read_chunks_fmt:
  assumes "pcm_format_ok fmt"
  shows "read_chunks None 0 (''fmt '' @ put_uint32 16 @ fmt_payload fmt @ rest) = read_chunks (Some (as_read fmt)) 0 rest"
proof -
  have "parse_fmt 16 (fmt_payload fmt @ rest) = Inr (as_read fmt, rest)"
    using parse_fmt_ok [OF assms, of "[]" rest] by simp
  then show ?thesis
    by (subst read_chunks.simps) (simp add: chunk_header [of "''fmt ''", simplified] max_chunk_size_def get_put_uint32 [of _ "[]", simplified] Let_def)
qed

lemma read_chunks_data:
  assumes "0 < n" and "n \<le> max_chunk_size"
  shows "read_chunks (Some f) 0 (''data'' @ put_uint32 n @ rest) = Inr (f, n, rest)"
proof -
  have "max_chunk_size \<le> max_data_chunk_size" by (simp add: max_chunk_size_def max_data_chunk_size_def)
  with assms have "\<not> n > max_chunk_size" "\<not> n > max_data_chunk_size" by (auto simp: not_less)
  with assms(1) show ?thesis
    by (subst read_chunks.simps) (simp add: chunk_header [of "''data''", simplified] get_put_uint32 [of _ "[]", simplified] Let_def)
qed

lemma read_chunks_consumes: "read_chunks fmt sz s = Inr (f, n, r) \<Longrightarrow> length r + 8 \<le> length s"
proof (induction fmt sz s rule: read_chunks.induct)
  case (1 fmt sz s)
  show ?case
  proof (cases "read_full 8 s")
    case None
    with "1.prems" show ?thesis by (subst (asm) read_chunks.simps) simp
  next
    case (Some p)
    obtain hdr s' where p: "p = (hdr, s')" by (rule prod.exhaust)
    from Some p have len: "length s = 8 + length s'" by (auto dest: read_full_length)
    note eq = "1.prems" [unfolded read_chunks.simps [of fmt sz s] Some p option.case prod.case Let_def]
    note ih = "1.IH" [OF Some p [symmetric] refl refl]
    have nb: "\<not> get_uint32 (drop 4 hdr) > max_chunk_size" using eq by (auto split: if_splits)
    note ih = ih [OF nb]
    consider (fmt) "take 4 hdr = ''fmt ''" | (dat) "take 4 hdr = ''data''" "take 4 hdr \<noteq> ''fmt ''"
      | (other) "take 4 hdr \<noteq> ''fmt ''" "take 4 hdr \<noteq> ''data''" by blast
    then show ?thesis
    proof cases
      case fmt
      with eq nb obtain f' s'' where q: "parse_fmt (get_uint32 (drop 4 hdr)) s' = Inr (f', s'')"
        by (auto split: sum.splits)
      from parse_fmt_length [OF q] eq nb fmt q ih(1) [OF fmt q refl] len show ?thesis
        by (auto split: if_splits)
    next
      case dat
      from eq nb dat ih(2,3) [OF dat(2,1)] len show ?thesis
        by (auto split: if_splits option.splits)
    next
      case other
      with eq nb obtain x s'' where q: "read_full (unat (get_uint32 (drop 4 hdr)) +
          (if odd (unat (get_uint32 (drop 4 hdr))) then 1 else 0)) s' = Some (x, s'')"
        by (auto split: option.splits)
      from read_full_length [OF q] have "length s'' \<le> length s'" by simp
      with eq nb other q ih(4,5) [OF other q refl] len show ?thesis
        by (auto split: if_splits option.splits)
    qed
  qed
qed

section \<open>What a writer leaves in the file\<close>

lemma file_write_at:
  "file_bytes f = a @ old @ c \<Longrightarrow> file_pos f = length a \<Longrightarrow> length old = length bs \<Longrightarrow>
   file_write bs f = \<lparr>file_bytes = a @ bs @ c, file_pos = length a + length bs\<rparr>"
  by (simp add: file_write_def)

lemma file_write_end:
  "file_pos f = length (file_bytes f) \<Longrightarrow>
   file_write bs f = \<lparr>file_bytes = file_bytes f @ bs, file_pos = length (file_bytes f) + length bs\<rparr>"
  by (simp add: file_write_def Let_def)

definition head_middle :: "audio_format \<Rightarrow> string" where
  "head_middle fmt = ''WAVE'' @ ''fmt '' @ put_uint32 16 @ fmt_payload fmt @ ''data''"

lemma wav_header_eq:
  "wav_header fmt = ''RIFF'' @ replicate 4 (CHR 0x00) @ head_middle fmt @ put_uint32 0"
  by (simp add: wav_header_def head_middle_def fmt_payload_def Let_def)

lemma length_head_middle [simp]: "length (head_middle fmt) = 32"
  by (simp add: head_middle_def)

definition writing :: "audio_format \<Rightarrow> string \<Rightarrow> writer \<Rightarrow> bool" where
  "writing fmt dat w \<longleftrightarrow> \<not> wr_closed w \<and> wr_data_size w = of_nat (length dat) \<and>
     file_bytes (wr_file w) = wav_header fmt @ dat \<and> file_pos (wr_file w) = length (file_bytes (wr_file w))"

lemma new_writer_writing:
  "new_writer (Some \<lparr>file_bytes = [], file_pos = p\<rparr>) fmt = Inr w \<Longrightarrow> writing fmt [] w"
  by (auto simp: new_writer_def writing_def seek_start_def file_write_def wav_header_def Let_def split: if_splits)

lemma wav_write_writing: "writing fmt dat w \<Longrightarrow> writing fmt (dat @ p) (snd (wav_write p w))"
  by (auto simp: writing_def wav_write_def file_write_end)

lemma wav_writes_writing:
  "writing fmt dat w \<Longrightarrow> writing fmt (dat @ concat ps) (fold (\<lambda>p w. snd (wav_write p w)) ps w)"
proof (induction ps arbitrary: dat w)
  case (Cons p ps)
  from Cons.IH [OF wav_write_writing [OF Cons.prems, of p]] show ?case by simp
qed simp

lemma wav_close_bytes:
  assumes "writing fmt dat w"
  shows "file_bytes (wr_file (wav_close w)) = ''RIFF'' @ put_uint32 (of_nat (length dat) + 36) @ head_middle fmt @
    put_uint32 (of_nat (length dat)) @ dat"
proof -
  let ?n = "of_nat (length dat) :: uint32"
  have b: "file_bytes (seek_start 4 (wr_file w)) =
      ''RIFF'' @ replicate 4 (CHR 0x00) @ (head_middle fmt @ put_uint32 0 @ dat)"
    and n: "wr_data_size w = ?n" and c: "\<not> wr_closed w"
    using assms by (simp_all add: writing_def seek_start_def wav_header_eq)
  have f1: "file_write (put_uint32 (?n + 36)) (seek_start 4 (wr_file w)) =
      \<lparr>file_bytes = ''RIFF'' @ put_uint32 (?n + 36) @ head_middle fmt @ put_uint32 0 @ dat, file_pos = 8\<rparr>"
    by (subst file_write_at [OF b]) (simp_all add: seek_start_def)
  have f2: "file_write (put_uint32 ?n) (seek_start 40
      \<lparr>file_bytes = ''RIFF'' @ put_uint32 (?n + 36) @ head_middle fmt @ put_uint32 0 @ dat, file_pos = 8\<rparr>) =
      \<lparr>file_bytes = (''RIFF'' @ put_uint32 (?n + 36) @ head_middle fmt) @ put_uint32 ?n @ dat, file_pos = 44\<rparr>"
    by (subst file_write_at [of _ "''RIFF'' @ put_uint32 (?n + 36) @ head_middle fmt" "put_uint32 0" dat])
      (simp_all add: seek_start_def)
  show ?thesis unfolding wav_close_def Let_def n f1 f2 seek_end_def using c by simp
qed

section \<open>Properties\<close>

text \<open>
  Written and read back: a file made by the writer from any sequence of writes, at least one byte and at
  most 256 MiB in all, is parsed by the reader, which reports the sampling parameters of the writer,
  stands at the first sample and will deliver exactly the bytes written.
\<close>

theorem wav_roundtrip:
  assumes "pcm_format_ok fmt" and "new_writer (Some \<lparr>file_bytes = [], file_pos = p\<rparr>) fmt = Inr w"
    and "concat ps \<noteq> []" and "length (concat ps) \<le> 256 * 1024 * 1024"
    and "w' = wav_close (fold (\<lambda>p w. snd (wav_write p w)) ps w)"
  shows "new_reader (Some (file_bytes (wr_file w'))) =
    Inr \<lparr>rd_rest = concat ps, rd_remaining = of_nat (length (concat ps)), rd_format = as_read fmt\<rparr>"
proof -
  let ?n = "of_nat (length (concat ps)) :: uint32"
  have "writing fmt (concat ps) (fold (\<lambda>p w. snd (wav_write p w)) ps w)"
    using wav_writes_writing [OF new_writer_writing [OF assms(2)], of ps] by simp
  from wav_close_bytes [OF this]
  have bytes: "file_bytes (wr_file w') = ''RIFF'' @ put_uint32 (?n + 36) @ head_middle fmt @ put_uint32 ?n @ concat ps"
    by (simp add: assms(5))
  have u: "unat ?n = length (concat ps)"
    using assms(4) by (simp add: unsigned_of_nat take_bit_nat_eq_self)
  have n: "0 < ?n" "?n \<le> max_chunk_size"
    using assms(3,4) u by (simp_all add: word_less_nat_alt word_le_nat_alt max_chunk_size_def)
  have "read_full 12 (file_bytes (wr_file w')) = Some (''RIFF'' @ put_uint32 (?n + 36) @ ''WAVE'',
      ''fmt '' @ put_uint32 16 @ fmt_payload fmt @ ''data'' @ put_uint32 ?n @ concat ps)"
    unfolding bytes head_middle_def
    using read_full_append [of "''RIFF'' @ put_uint32 (?n + 36) @ ''WAVE''" 12] by simp
  then show ?thesis
    unfolding new_reader_def using read_chunks_fmt [OF assms(1)] read_chunks_data [OF n] by simp
qed

definition demo_format :: audio_format where
  "demo_format = \<lparr>encoding = ''pcm_s16le'', sample_rate = 16000, channels = 1, bit_depth = 16, frame_duration = 0\<rparr>"

theorem wav_roundtrip_witness:
  "\<exists>w. new_writer (Some \<lparr>file_bytes = [], file_pos = 0\<rparr>) demo_format = Inr w \<and>
    new_reader (Some (file_bytes (wr_file (wav_close (fold (\<lambda>p w. snd (wav_write p w)) [''ab'', ''cd''] w))))) =
    Inr \<lparr>rd_rest = ''abcd'', rd_remaining = 4, rd_format = demo_format\<rparr>"
proof -
  obtain w where w: "new_writer (Some \<lparr>file_bytes = [], file_pos = 0\<rparr>) demo_format = Inr w"
    by (cases "new_writer (Some \<lparr>file_bytes = [], file_pos = 0\<rparr>) demo_format")
      (auto simp: new_writer_def demo_format_def Let_def split: if_splits)
  have "pcm_format_ok demo_format" by (simp add: pcm_format_ok_def demo_format_def)
  from wav_roundtrip [OF this w _ _ refl, of "[''ab'', ''cd'']"] w show ?thesis
    by (simp add: as_read_def demo_format_def encoding_pcm16_def)
qed

text \<open>
  A format chunk longer than sixteen bytes (as in files with \<open>WAVEFORMATEX\<close>) is not read correctly. The
  reader takes the whole chunk and then skips its extra bytes a second time, which belong to the next
  chunk. Whatever the samples are, the reader fails or has lost some of them.
\<close>

theorem wav_extended_format_misread:
  assumes "pcm_format_ok fmt" and "ext \<noteq> []" and "length ext \<le> 1024"
    and "s = ''RIFF'' @ put_uint32 n @ ''WAVE'' @ chunk ''fmt '' (fmt_payload fmt @ ext) @ chunk ''data'' samples"
  shows "case new_reader (Some s) of Inl e \<Rightarrow> True | Inr r \<Rightarrow> length (rd_rest r) < length samples"
proof -
  let ?d = "chunk ''data'' samples"
  let ?body = "''fmt '' @ put_uint32 (of_nat (16 + length ext)) @ fmt_payload fmt @ ext @ ?d"
  have hdr: "read_full 12 s = Some (''RIFF'' @ put_uint32 n @ ''WAVE'', ?body)"
    using read_full_append [of "''RIFF'' @ put_uint32 n @ ''WAVE''" 12] by (simp add: assms(4) chunk_def [of "''fmt ''"])
  have u: "unat (of_nat (16 + length ext) :: uint32) = 16 + length ext"
    using assms(3) by (simp add: unsigned_of_nat take_bit_nat_eq_self del: of_nat_add)
  have le: "\<not> (of_nat (16 + length ext) :: uint32) > max_chunk_size"
    using assms(3) by (simp add: word_less_nat_alt u max_chunk_size_def del: of_nat_add)
  have pf: "parse_fmt (of_nat (16 + length ext)) (fmt_payload fmt @ ext @ ?d) =
      (case read_full (length ext) ?d of None \<Rightarrow> Inl Short_Fmt_Padding | Some (_, r) \<Rightarrow> Inr (as_read fmt, r))"
    using parse_fmt_ok [OF assms(1), of ext ?d] assms(2,3) by simp
  have rc: "read_chunks None 0 ?body =
      (case read_full (length ext) ?d of None \<Rightarrow> Inl Short_Fmt_Padding
       | Some (_, r) \<Rightarrow> read_chunks (Some (as_read fmt)) 0 r)"
    using le pf
    by (subst read_chunks.simps)
      (simp add: chunk_header [of "''fmt ''", simplified] get_put_uint32 [of _ "[]", simplified] Let_def
        del: of_nat_add split: option.splits)
  have "length r < length samples" if "read_chunks None 0 ?body = Inr (f, m, r)" for f m r
  proof -
    from that rc obtain x r' where r': "read_full (length ext) ?d = Some (x, r')"
      "read_chunks (Some (as_read fmt)) 0 r' = Inr (f, m, r)" by (auto split: option.splits)
    from read_full_length [OF r'(1)] read_chunks_consumes [OF r'(2)] assms(2)
    show ?thesis by (cases ext) (auto simp: chunk_def)
  qed
  then show ?thesis by (auto simp: new_reader_def hdr split: sum.splits prod.splits)
qed

theorem wav_extended_format_misread_witness:
  "new_reader (Some (''RIFF'' @ put_uint32 42 @ ''WAVE'' @ chunk ''fmt '' (fmt_payload demo_format @ [CHR 0x00, CHR 0x00]) @
     chunk ''data'' ''abcd'')) \<noteq> Inr \<lparr>rd_rest = ''abcd'', rd_remaining = 4, rd_format = demo_format\<rparr>"
proof -
  have "pcm_format_ok demo_format" by (simp add: pcm_format_ok_def demo_format_def)
  from wav_extended_format_misread [OF this _ _ refl, where ext = "[CHR 0x00, CHR 0x00]" and n = 42 and samples = "''abcd''"]
  show ?thesis by (auto split: sum.splits)
qed

end
