(* ===== verification/Conversation.thy ===== *)
theory Conversation
  imports MetadataSanitize GoNumbers
begin

text \<open>
  The conversation service, \<open>internal/conversation/service.go\<close>: it turns cleaned pipeline messages and
  replies of the AI into dialogue turns, decides which of them prompt the AI, limits the rate of prompts
  from tool output, and forgets a session when it stops or stays detached. The bus is present (without
  one the service does nothing); what it publishes is appended to \<open>turns\<close> and \<open>prompts\<close>. A prompt
  identifier (a UUID) is given to each call. A detach timer that was stopped may already have gone off:
  every timer ever started stays in \<open>timers\<close> and may run at any time. The sanitiser of metadata is the
  model of \<open>internal/sanitize\<close>.
\<close>

section \<open>Events\<close>

record cleaned_message =
  cm_session_id :: string
  cm_origin :: string
  cm_text :: string
  cm_annotations :: "(string, string) gomap"

record conversation_action =
  act_type :: string
  act_target :: string
  act_args :: "(string, string) gomap"

record reply_event =
  rp_session_id :: string
  rp_prompt_id :: string
  rp_text :: string
  rp_actions :: "conversation_action list"
  rp_metadata :: "(string, string) gomap"

record conversation_turn =
  turn_origin :: string
  turn_text :: string
  turn_at :: time_ns
  turn_meta :: "(string, string) gomap"

record prompt_event =
  pr_session_id :: string
  pr_prompt_id :: string
  pr_message :: conversation_turn
  pr_metadata :: "string \<Rightarrow> string option"

record conversation =
  detach_ttl :: duration
  detach_timers :: "string \<Rightarrow> nat option"
  timers :: "string list"
  tool_cache :: "string \<Rightarrow> string option"
  last_session_output :: "string \<Rightarrow> time_ns option"
  last_bypass :: "string \<Rightarrow> time_ns option"
  shutting_down :: bool
  turns :: "(string \<times> conversation_turn) list"
  prompts :: "prompt_event list"

definition new_conversation :: "duration list \<Rightarrow> conversation" where
  "new_conversation ttls =
     \<lparr>detach_ttl = fold (\<lambda>ttl d. if ttl \<ge> 0 then ttl else d) ttls (300 * second), detach_timers = (\<lambda>_. None),
      timers = [], tool_cache = (\<lambda>_. None), last_session_output = (\<lambda>_. None), last_bypass = (\<lambda>_. None),
      shutting_down = False, turns = [], prompts = []\<rparr>"

section \<open>Constants\<close>

definition session_output_min_interval :: duration where "session_output_min_interval = 2 * second"
definition waiting_for_bypass_min_interval :: duration where "waiting_for_bypass_min_interval = 500 * millisecond"

definition valid_event_types :: "string list" where
  "valid_event_types = [''user_intent'', ''session_output'', ''clarification'', ''onboarding'', ''heartbeat'',
     ''journal_compaction'', ''conversation_compaction'']"

definition is_valid_waiting_for :: "string \<Rightarrow> bool" where
  "is_valid_waiting_for v \<longleftrightarrow> v \<in> {''user_input'', ''confirmation'', ''choice''}"

text \<open>The keys of the \<open>switch\<close> in \<open>publishPrompt\<close>, case by case.\<close>

definition prompt_keys :: "string list" where
  "prompt_keys =
     [''tool'', ''tool_id'', ''confidence'', ''stream_id'', ''event_type'', ''session_output'',
      ''clarification_question'', ''severity''] @
     [''input_source'', ''mode'', ''sessionless'', ''adapter'', ''language'', ''model'', ''provider'', ''priority'',
      ''context_window''] @
     [''notable'', ''idle_state'', ''waiting_for'', ''prompt_text'', ''event_count'', ''event_title'', ''event_details'',
      ''event_action'', ''summarized'', ''original_length'', ''buffer_truncated'', ''buffer_max_size'', ''tool_changed'']"

definition propagated :: "string \<Rightarrow> bool" where
  "propagated key \<longleftrightarrow> key \<in> set prompt_keys \<or> prefix ''nupi.lang.'' key"

section \<open>Sessions\<close>

definition update_tool_cache :: "string \<Rightarrow> string \<Rightarrow> conversation \<Rightarrow> conversation" where
  "update_tool_cache sid tool s = (if sid = [] then s else s\<lparr>tool_cache := (tool_cache s)(sid \<mapsto> tool)\<rparr>)"

definition clear_session :: "string \<Rightarrow> conversation \<Rightarrow> conversation" where
  "clear_session sid s =
     (if sid = [] then s
      else s\<lparr>tool_cache := (tool_cache s)(sid := None), detach_timers := (detach_timers s)(sid := None),
             last_session_output := (last_session_output s)(sid := None),
             last_bypass := (last_bypass s)(sid := None)\<rparr>)"

definition clear_tool_cache :: "string \<Rightarrow> conversation \<Rightarrow> conversation" where
  "clear_tool_cache sid s = (if sid = [] then s else s\<lparr>tool_cache := (tool_cache s)(sid := None)\<rparr>)"

definition schedule_detach_cleanup :: "string \<Rightarrow> conversation \<Rightarrow> conversation" where
  "schedule_detach_cleanup sid s =
     (if sid = [] \<or> detach_ttl s \<le> 0 then s
      else s\<lparr>detach_timers := (detach_timers s)(sid \<mapsto> length (timers s)), timers := timers s @ [sid]\<rparr>)"

definition cancel_detach_cleanup :: "string \<Rightarrow> conversation \<Rightarrow> conversation" where
  "cancel_detach_cleanup sid s = (if sid = [] then s else s\<lparr>detach_timers := (detach_timers s)(sid := None)\<rparr>)"

text \<open>The callback of a detach timer.\<close>

definition detach_expired :: "string \<Rightarrow> conversation \<Rightarrow> conversation" where
  "detach_expired sid s = (if shutting_down s then s else clear_session sid s)"

definition handle_lifecycle :: "string \<Rightarrow> string \<Rightarrow> conversation \<Rightarrow> conversation" where
  "handle_lifecycle sid state s =
     (if state = ''stopped'' then clear_session sid s
      else if state = ''detached'' then schedule_detach_cleanup sid (clear_tool_cache sid s)
      else if state = ''running'' \<or> state = ''created'' then cancel_detach_cleanup sid s
      else s)"

section \<open>Rate limits\<close>

definition should_trigger_session_output :: "time_ns \<Rightarrow> string \<Rightarrow> conversation \<Rightarrow> bool \<times> conversation" where
  "should_trigger_session_output now sid s =
     (case last_session_output s sid of
        Some prev \<Rightarrow>
          if now - prev < session_output_min_interval then (False, s)
          else (True, s\<lparr>last_session_output := (last_session_output s)(sid \<mapsto> now)\<rparr>)
      | None \<Rightarrow> (True, s\<lparr>last_session_output := (last_session_output s)(sid \<mapsto> now)\<rparr>))"

definition should_bypass_for_waiting_for :: "time_ns \<Rightarrow> string \<Rightarrow> conversation \<Rightarrow> bool \<times> conversation" where
  "should_bypass_for_waiting_for now sid s =
     (case last_bypass s sid of
        Some prev \<Rightarrow>
          if now - prev < waiting_for_bypass_min_interval then (False, s)
          else (True, s\<lparr>last_bypass := (last_bypass s)(sid \<mapsto> now),
                  last_session_output := (last_session_output s)(sid \<mapsto> now)\<rparr>)
      | None \<Rightarrow> (True, s\<lparr>last_bypass := (last_bypass s)(sid \<mapsto> now),
                  last_session_output := (last_session_output s)(sid \<mapsto> now)\<rparr>))"

section \<open>Turns and prompts\<close>

definition publish_turn :: "string \<Rightarrow> conversation_turn \<Rightarrow> conversation \<Rightarrow> conversation" where
  "publish_turn sid t s = s\<lparr>turns := turns s @ [(sid, t)]\<rparr>"

definition prompt_metadata :: "string \<Rightarrow> conversation_turn \<Rightarrow> conversation \<Rightarrow> string \<Rightarrow> string option" where
  "prompt_metadata sid t s =
     (let md = (\<lambda>key. if propagated key then map_of (turn_meta t) key else None);
          md = (if sid \<noteq> []
                then (case tool_cache s sid of
                        Some tool \<Rightarrow>
                          if tool \<noteq> []
                          then let md = (if md ''current_tool'' = None then md(''current_tool'' \<mapsto> tool) else md)
                               in if md ''tool'' = None then md(''tool'' \<mapsto> tool) else md
                          else md
                      | None \<Rightarrow> md)
                else md)
      in case md ''event_type'' of
           Some event_type \<Rightarrow>
             let md = (if event_type \<notin> set valid_event_types then md(''event_type'' \<mapsto> ''user_intent'') else md)
             in if event_type = ''session_output'' then md(''session_output'' \<mapsto> turn_text t) else md
         | None \<Rightarrow> md(''event_type'' \<mapsto> ''user_intent''))"

definition publish_prompt :: "string \<Rightarrow> string \<Rightarrow> conversation_turn \<Rightarrow> conversation \<Rightarrow> conversation" where
  "publish_prompt pid sid t s =
     s\<lparr>prompts := prompts s @ [\<lparr>pr_session_id = sid, pr_prompt_id = pid, pr_message = t,
         pr_metadata = prompt_metadata sid t s\<rparr>]\<rparr>"

definition message_turn :: "time_ns \<Rightarrow> cleaned_message \<Rightarrow> conversation_turn" where
  "message_turn ts msg =
     (let user = (cm_origin msg = ''user'');
          notable = (map_of (cm_annotations msg) ''notable'' = Some ''true'');
          event_type = (if user then ''user_intent'' else if notable then ''session_output'' else ''user_intent'');
          meta = acc_merge (cm_annotations msg) (new_accumulator [] default_metadata_limits);
          meta = (if user \<or> notable then acc_merge [(''event_type'', event_type)] meta else meta)
      in \<lparr>turn_origin = cm_origin msg, turn_text = cm_text msg, turn_at = ts, turn_meta = acc_result meta\<rparr>)"

definition is_session_output :: "cleaned_message \<Rightarrow> bool" where
  "is_session_output msg \<longleftrightarrow> cm_origin msg \<noteq> ''user'' \<and> map_of (cm_annotations msg) ''notable'' = Some ''true''"

definition wants_bypass :: "cleaned_message \<Rightarrow> bool" where
  "wants_bypass msg \<longleftrightarrow>
     (case map_of (cm_annotations msg) ''waiting_for'' of Some v \<Rightarrow> v \<noteq> [] \<and> is_valid_waiting_for v | None \<Rightarrow> False)"

definition handle_pipeline_message ::
    "time_ns \<Rightarrow> string \<Rightarrow> time_ns \<Rightarrow> cleaned_message \<Rightarrow> conversation \<Rightarrow> conversation" where
  "handle_pipeline_message now pid ts msg s =
     (let ts = (if is_zero ts then now else ts);
          t = message_turn ts msg;
          sid = cm_session_id msg;
          user = (cm_origin msg = ''user'')
      in if sid = []
         then let s = publish_turn [] t s in if user then publish_prompt pid [] t s else s
         else
           let s = cancel_detach_cleanup sid s;
               (trigger, s) =
                 (if is_session_output msg
                  then if wants_bypass msg then should_bypass_for_waiting_for now sid s
                       else should_trigger_session_output now sid s
                  else (user, s));
               s = publish_turn sid t s
           in if trigger then publish_prompt pid sid t s else s)"

text \<open>\<open>json.Marshal\<close> of a map of strings: sorted keys, and the escapes of \<open>encoding/json\<close> (HTML characters,
  control characters, the line separators, and bytes that are not UTF-8).\<close>

definition hex_digit :: "nat \<Rightarrow> char" where
  "hex_digit n = (if n < 10 then char_of (48 + n) else char_of (87 + n))"

definition json_seg :: "nat \<times> string \<Rightarrow> string" where
  "json_seg seg =
     (let r = fst seg
      in if \<not> valid_seg seg then CHR 0x5C # ''ufffd''
         else if r = 0x22 \<or> r = 0x5C then CHR 0x5C # snd seg
         else if r = 0x08 then CHR 0x5C # ''b'' else if r = 0x0C then CHR 0x5C # ''f''
         else if r = 0x0A then CHR 0x5C # ''n'' else if r = 0x0D then CHR 0x5C # ''r''
         else if r = 0x09 then CHR 0x5C # ''t''
         else if r < 0x20 \<or> r \<in> {0x3C, 0x3E, 0x26} then CHR 0x5C # ''u00'' @ [hex_digit (r div 16), hex_digit (r mod 16)]
         else if r \<in> {0x2028, 0x2029} then CHR 0x5C # ''u202'' @ [hex_digit (r mod 16)]
         else snd seg)"

definition json_string :: "string \<Rightarrow> string" where
  "json_string s = CHR 0x22 # concat (map json_seg (segs s)) @ [CHR 0x22]"

definition json_map :: "(string, string) gomap \<Rightarrow> string" where
  "json_map m = ''{'' @ join '','' (map (\<lambda>k. json_string k @ '':'' @ json_string (the (map_of m k))) (sort (keys m))) @ ''}''"

fun add_actions :: "nat \<Rightarrow> conversation_action list \<Rightarrow> accumulator \<Rightarrow> accumulator" where
  "add_actions idx [] m = m"
| "add_actions idx (a # as) m =
     (let base = ''action_'' @ decimal idx;
          m = acc_add (base @ ''.type'') (act_type a) m;
          m = (if act_target a \<noteq> [] then acc_add (base @ ''.target'') (act_target a) m else m);
          m = (if act_args a \<noteq> [] then acc_add (base @ ''.args'') (json_map (act_args a)) m else m)
      in add_actions (Suc idx) as m)"

definition is_compaction_reply :: "reply_event \<Rightarrow> bool" where
  "is_compaction_reply msg \<longleftrightarrow>
     map_of (rp_metadata msg) ''event_type'' \<in> {Some ''conversation_compaction'', Some ''journal_compaction''}"

definition handle_reply_message :: "time_ns \<Rightarrow> time_ns \<Rightarrow> reply_event \<Rightarrow> conversation \<Rightarrow> conversation" where
  "handle_reply_message now ts msg s =
     (let ts = (if is_zero ts then now else ts)
      in if is_compaction_reply msg then s
         else
           let m = add_actions 0 (rp_actions msg) (new_accumulator (rp_metadata msg) default_metadata_limits);
               m = (if rp_prompt_id msg \<noteq> [] then acc_add ''prompt_id'' (rp_prompt_id msg) m else m);
               t = \<lparr>turn_origin = ''ai'', turn_text = rp_text msg, turn_at = ts, turn_meta = acc_result m\<rparr>
           in if rp_session_id msg = [] then publish_turn [] t s
              else publish_turn (rp_session_id msg) t (cancel_detach_cleanup (rp_session_id msg) s))"

datatype conversation_op =
    Conv_Message time_ns string time_ns cleaned_message
  | Conv_Reply time_ns time_ns reply_event
  | Conv_Lifecycle time_ns string string
  | Conv_Tool time_ns string string
  | Conv_Timer time_ns nat

fun conversation_step :: "conversation_op \<Rightarrow> conversation \<Rightarrow> conversation" where
  "conversation_step (Conv_Message now pid ts msg) s = handle_pipeline_message now pid ts msg s"
| "conversation_step (Conv_Reply now ts msg) s = handle_reply_message now ts msg s"
| "conversation_step (Conv_Lifecycle now sid state) s = handle_lifecycle sid state s"
| "conversation_step (Conv_Tool now sid tool) s = update_tool_cache sid tool s"
| "conversation_step (Conv_Timer now i) s =
     (if i < length (timers s) then detach_expired (timers s ! i) s else s)"

section \<open>Every prompt is well formed\<close>

text \<open>
  The metadata of a prompt: only the keys on the list, language keys and the current tool; an event type
  that the prompt engine knows; and the text as \<open>session_output\<close> exactly of that event. The metadata of
  the turn is within the limits.
\<close>

definition prompt_ok :: "prompt_event \<Rightarrow> bool" where
  "prompt_ok p \<longleftrightarrow>
     (\<forall>key. pr_metadata p key \<noteq> None \<longrightarrow> propagated key \<or> key = ''current_tool'') \<and>
     (\<exists>et \<in> set valid_event_types. pr_metadata p ''event_type'' = Some et) \<and>
     (pr_metadata p ''event_type'' = Some ''session_output'' \<longrightarrow>
        pr_metadata p ''session_output'' = Some (turn_text (pr_message p))) \<and>
     within_limits default_metadata_limits (turn_meta (pr_message p))"

lemma propagated_keys [simp]:
  "propagated ''tool''" "propagated ''event_type''" "propagated ''session_output''"
  by (simp_all add: propagated_def prompt_keys_def)

lemma prompt_metadata_ok:
  assumes "md = prompt_metadata sid t s"
  shows "(\<forall>key. md key \<noteq> None \<longrightarrow> propagated key \<or> key = ''current_tool'') \<and>
     (\<exists>et \<in> set valid_event_types. md ''event_type'' = Some et) \<and>
     (md ''event_type'' = Some ''session_output'' \<longrightarrow> md ''session_output'' = Some (turn_text t))"
proof -
  define base where "base = (\<lambda>key. if propagated key then map_of (turn_meta t) key else None)"
  define tooled where "tooled = (if sid \<noteq> []
      then (case tool_cache s sid of
              Some tool \<Rightarrow>
                if tool \<noteq> []
                then let md = (if base ''current_tool'' = None then base(''current_tool'' \<mapsto> tool) else base)
                     in if md ''tool'' = None then md(''tool'' \<mapsto> tool) else md
                else base
            | None \<Rightarrow> base)
      else base)"
  have dom: "propagated key \<or> key = ''current_tool''" if "tooled key \<noteq> None" for key
    using that by (auto simp: tooled_def base_def Let_def split: if_splits option.splits)
  have md: "md = (case tooled ''event_type'' of
           Some et \<Rightarrow>
             let md = (if et \<notin> set valid_event_types then tooled(''event_type'' \<mapsto> ''user_intent'') else tooled)
             in if et = ''session_output'' then md(''session_output'' \<mapsto> turn_text t) else md
         | None \<Rightarrow> tooled(''event_type'' \<mapsto> ''user_intent''))"
    unfolding assms prompt_metadata_def tooled_def base_def Let_def by simp
  have u: "''user_intent'' \<in> set valid_event_types" "''session_output'' \<in> set valid_event_types"
    by (simp_all add: valid_event_types_def)
  show ?thesis
  proof (cases "tooled ''event_type''")
    case None
    with md have "md = tooled(''event_type'' \<mapsto> ''user_intent'')" by simp
    with dom u show ?thesis by auto
  next
    case (Some et)
    with md have e: "md = (let md = (if et \<notin> set valid_event_types then tooled(''event_type'' \<mapsto> ''user_intent'') else tooled)
             in if et = ''session_output'' then md(''session_output'' \<mapsto> turn_text t) else md)" by simp
    show ?thesis
    proof (cases "et \<in> set valid_event_types")
      case True
      with e Some dom show ?thesis by (auto simp: Let_def)
    next
      case False
      with e u have "md = tooled(''event_type'' \<mapsto> ''user_intent'')" by (auto simp: Let_def)
      with dom u show ?thesis by auto
    qed
  qed
qed

lemma acc_inv_limits: "acc_inv m \<Longrightarrow> limits m = default_metadata_limits \<Longrightarrow>
   within_limits default_metadata_limits (acc_result m)"
  by (simp add: acc_inv_def acc_result_def)

lemma message_turn_ok: "within_limits default_metadata_limits (turn_meta (message_turn ts msg))"
  by (auto simp: message_turn_def Let_def new_accumulator_def intro!: acc_inv_limits acc_merge_inv)
    (simp_all add: acc_inv_def)

lemma message_turn_text [simp]: "turn_text (message_turn ts msg) = cm_text msg" "turn_origin (message_turn ts msg) = cm_origin msg"
  by (simp_all add: message_turn_def Let_def)

lemma publish_prompt_ok:
  "list_all prompt_ok (prompts s) \<Longrightarrow> within_limits default_metadata_limits (turn_meta t) \<Longrightarrow>
   list_all prompt_ok (prompts (publish_prompt pid sid t s))"
  using prompt_metadata_ok [OF refl, of sid t s] by (simp add: publish_prompt_def prompt_ok_def)

lemma session_frames [simp]:
  "prompts (publish_turn sid t s) = prompts s" "prompts (cancel_detach_cleanup sid s) = prompts s"
  "prompts (schedule_detach_cleanup sid s) = prompts s" "prompts (clear_session sid s) = prompts s"
  "prompts (clear_tool_cache sid s) = prompts s" "prompts (update_tool_cache sid tool s) = prompts s"
  "prompts (detach_expired sid s) = prompts s" "prompts (handle_lifecycle sid state s) = prompts s"
  "prompts (snd (should_trigger_session_output now sid s)) = prompts s"
  "prompts (snd (should_bypass_for_waiting_for now sid s)) = prompts s"
  by (simp_all add: publish_turn_def cancel_detach_cleanup_def schedule_detach_cleanup_def clear_session_def
      clear_tool_cache_def update_tool_cache_def detach_expired_def handle_lifecycle_def
      should_trigger_session_output_def should_bypass_for_waiting_for_def split: option.split)

text \<open>A reply of the AI never prompts the AI again: it adds one turn, or none for a compaction.\<close>

lemma reply_never_prompts:
  "prompts (handle_reply_message now ts msg s) = prompts s \<and>
   length (turns (handle_reply_message now ts msg s)) = length (turns s) + (if is_compaction_reply msg then 0 else 1)"
  by (simp add: handle_reply_message_def publish_turn_def cancel_detach_cleanup_def Let_def)

text \<open>What a message does, in terms of the decision to trigger.\<close>

definition decide :: "time_ns \<Rightarrow> cleaned_message \<Rightarrow> conversation \<Rightarrow> bool \<times> conversation" where
  "decide now msg s =
     (if is_session_output msg
      then if wants_bypass msg then should_bypass_for_waiting_for now (cm_session_id msg) s
           else should_trigger_session_output now (cm_session_id msg) s
      else (cm_origin msg = ''user'', s))"

lemma handle_message_eq:
  assumes "cm_session_id msg \<noteq> []" and "decide now msg (cancel_detach_cleanup (cm_session_id msg) s) = (b, s1)"
  shows "handle_pipeline_message now pid ts msg s =
    (let t = message_turn (if ts = 0 then now else ts) msg; s2 = publish_turn (cm_session_id msg) t s1
     in if b then publish_prompt pid (cm_session_id msg) t s2 else s2)"
  using assms by (simp add: handle_pipeline_message_def decide_def Let_def)

lemma decide_prompts: "decide now msg s = (b, s1) \<Longrightarrow> prompts s1 = prompts s"
  by (metis decide_def session_frames(9,10) snd_conv)

lemma message_prompts_ok:
  assumes "list_all prompt_ok (prompts s)"
  shows "list_all prompt_ok (prompts (handle_pipeline_message now pid ts msg s))"
proof (cases "cm_session_id msg = []")
  case True
  with assms show ?thesis
    by (auto simp: handle_pipeline_message_def Let_def intro!: publish_prompt_ok message_turn_ok)
next
  case False
  obtain b s1 where d: "decide now msg (cancel_detach_cleanup (cm_session_id msg) s) = (b, s1)" by (metis prod.exhaust)
  have p: "prompts s1 = prompts s" using decide_prompts [OF d] by simp
  show ?thesis
    unfolding handle_message_eq [OF False d] Let_def
    using assms by (auto simp: p intro!: publish_prompt_ok message_turn_ok)
qed

lemma conversation_step_prompts: "list_all prompt_ok (prompts s) \<Longrightarrow> list_all prompt_ok (prompts (conversation_step op s))"
  by (cases op) (auto simp: message_prompts_ok reply_never_prompts)

interpretation conv: op_machine conversation_step "\<lambda>_. True" "\<lambda>s. list_all prompt_ok (prompts s)"
  by unfold_locales (rule conversation_step_prompts)

section \<open>The rate limits\<close>

fun op_time :: "conversation_op \<Rightarrow> time_ns" where
  "op_time (Conv_Message now pid ts msg) = now"
| "op_time (Conv_Reply now ts msg) = now"
| "op_time (Conv_Lifecycle now sid state) = now"
| "op_time (Conv_Tool now sid tool) = now"
| "op_time (Conv_Timer now i) = now"

text \<open>The operations that do not forget the session: it does not stop, and no detach timer goes off.\<close>

fun keeps_session :: "string \<Rightarrow> conversation_op \<Rightarrow> bool" where
  "keeps_session sid (Conv_Lifecycle now sid' state) \<longleftrightarrow> sid' \<noteq> sid \<or> state \<noteq> ''stopped''"
| "keeps_session sid (Conv_Timer now i) \<longleftrightarrow> False"
| "keeps_session sid _ \<longleftrightarrow> True"

text \<open>The prompts that tool output of the session causes: when, and whether by a valid \<open>waiting_for\<close>.\<close>

fun prompt_of :: "string \<Rightarrow> conversation_op \<Rightarrow> conversation \<Rightarrow> (time_ns \<times> bool) list" where
  "prompt_of sid (Conv_Message now pid ts msg) s =
     (if cm_session_id msg = sid \<and> is_session_output msg \<and>
         length (prompts (handle_pipeline_message now pid ts msg s)) > length (prompts s)
      then [(now, wants_bypass msg)] else [])"
| "prompt_of sid _ s = []"

fun prompt_log :: "string \<Rightarrow> conversation_op list \<Rightarrow> conversation \<Rightarrow> (time_ns \<times> bool) list" where
  "prompt_log sid [] s = []"
| "prompt_log sid (op # ops) s = prompt_of sid op s @ prompt_log sid ops (conversation_step op s)"

definition spaced :: "time_ns \<times> bool \<Rightarrow> time_ns \<times> bool \<Rightarrow> bool" where
  "spaced e1 e2 \<longleftrightarrow>
     (if snd e2 then snd e1 \<longrightarrow> fst e1 + waiting_for_bypass_min_interval \<le> fst e2
      else fst e1 + session_output_min_interval \<le> fst e2)"

definition remembered :: "string \<Rightarrow> (time_ns \<times> bool) list \<Rightarrow> conversation \<Rightarrow> bool" where
  "remembered sid L s \<longleftrightarrow>
     (\<forall>e \<in> set L. (\<exists>t. last_session_output s sid = Some t \<and> fst e \<le> t) \<and>
        (snd e \<longrightarrow> (\<exists>t. last_bypass s sid = Some t \<and> fst e \<le> t)))"

lemma remembered_frame:
  "remembered sid L s \<Longrightarrow> last_session_output s' sid = last_session_output s sid \<Longrightarrow>
   last_bypass s' sid = last_bypass s sid \<Longrightarrow> remembered sid L s'"
  by (simp add: remembered_def)

lemma limits_frames [simp]:
  "last_session_output (publish_turn sid t s) = last_session_output s"
  "last_bypass (publish_turn sid t s) = last_bypass s"
  "last_session_output (publish_prompt pid sid t s) = last_session_output s"
  "last_bypass (publish_prompt pid sid t s) = last_bypass s"
  "last_session_output (cancel_detach_cleanup sid s) = last_session_output s"
  "last_bypass (cancel_detach_cleanup sid s) = last_bypass s"
  by (simp_all add: publish_turn_def publish_prompt_def cancel_detach_cleanup_def)

lemma other_ops_remember:
  assumes "keeps_session sid op" and "remembered sid L s"
    and "\<And>now pid ts msg. op = Conv_Message now pid ts msg \<Longrightarrow> cm_session_id msg \<noteq> sid"
  shows "remembered sid L (conversation_step op s)"
proof (rule remembered_frame [OF assms(2)])
  have m: "last_session_output (handle_pipeline_message now pid ts msg s) sid = last_session_output s sid \<and>
      last_bypass (handle_pipeline_message now pid ts msg s) sid = last_bypass s sid"
    if "cm_session_id msg \<noteq> sid" for now pid ts msg
    using that
    by (auto simp: handle_pipeline_message_def should_trigger_session_output_def should_bypass_for_waiting_for_def
        Let_def split: option.splits if_splits)
  show "last_session_output (conversation_step op s) sid = last_session_output s sid"
    "last_bypass (conversation_step op s) sid = last_bypass s sid"
    using assms(1,3) m
    by (cases op; auto simp: handle_reply_message_def handle_lifecycle_def clear_session_def clear_tool_cache_def
        schedule_detach_cleanup_def update_tool_cache_def Let_def)+
qed

lemma message_step:
  assumes "remembered sid L s" and "sorted_wrt spaced L" and "\<And>e. e \<in> set L \<Longrightarrow> fst e \<le> now"
    and "cm_session_id msg = sid" and "sid \<noteq> []"
    and "op = Conv_Message now pid ts msg"
  shows "remembered sid (L @ prompt_of sid op s) (conversation_step op s) \<and> sorted_wrt spaced (L @ prompt_of sid op s)"
proof -
  let ?c = "cancel_detach_cleanup sid s"
  obtain b s1 where d: "decide now msg ?c = (b, s1)" by (metis prod.exhaust)
  note h = handle_message_eq [of msg now s b s1 pid ts, OF _ d [folded assms(4)]]
  have p: "prompts s1 = prompts s" using decide_prompts [OF d] by simp
  have trig: "prompt_of sid op s = (if b \<and> is_session_output msg then [(now, wants_bypass msg)] else [])"
    using assms(4-6) h p by (simp add: Let_def publish_prompt_def)
  have fr: "last_session_output (conversation_step op s) = last_session_output s1"
    "last_bypass (conversation_step op s) = last_bypass s1"
    using assms(4-6) h by (simp_all add: Let_def)
  consider (quiet) "\<not> (b \<and> is_session_output msg)" "last_session_output s1 = last_session_output s" "last_bypass s1 = last_bypass s"
    | (bypass) "b" "is_session_output msg" "wants_bypass msg" "last_bypass s1 sid = Some now" "last_session_output s1 sid = Some now"
        "\<And>t. last_bypass s sid = Some t \<Longrightarrow> t + waiting_for_bypass_min_interval \<le> now"
    | (normal) "b" "is_session_output msg" "\<not> wants_bypass msg" "last_bypass s1 = last_bypass s" "last_session_output s1 sid = Some now"
        "\<And>t. last_session_output s sid = Some t \<Longrightarrow> t + session_output_min_interval \<le> now"
    using d assms(4)
    by (auto simp: decide_def should_bypass_for_waiting_for_def should_trigger_session_output_def
        split: if_splits option.splits)
  then show ?thesis
  proof cases
    case quiet
    then have "prompt_of sid op s = []" using trig by simp
    with assms(1,2) quiet fr show ?thesis by (simp add: remembered_def)
  next
    case bypass
    then have e: "prompt_of sid op s = [(now, True)]" using trig by simp
    have "spaced e (now, True)" if "e \<in> set L" for e
      using assms(1) that bypass(6) unfolding remembered_def spaced_def by fastforce
    moreover have "remembered sid (L @ [(now, True)]) (conversation_step op s)"
      using assms(3) bypass(4,5) by (auto simp: remembered_def fr)
    ultimately show ?thesis using assms(2) e by (simp add: sorted_wrt_append)
  next
    case normal
    then have e: "prompt_of sid op s = [(now, False)]" using trig by simp
    have "spaced e (now, False)" if "e \<in> set L" for e
      using assms(1) that normal(6) unfolding remembered_def spaced_def by fastforce
    moreover have "remembered sid (L @ [(now, False)]) (conversation_step op s)"
      using assms(1,3) normal(4,5) by (auto simp: remembered_def fr)
    ultimately show ?thesis using assms(2) e by (simp add: sorted_wrt_append)
  qed
qed

lemma prompt_log_spaced:
  assumes "sid \<noteq> []" and "list_all (keeps_session sid) ops" and "sorted (map op_time ops)"
    and "remembered sid L s" and "sorted_wrt spaced L"
    and "\<And>e op. e \<in> set L \<Longrightarrow> op \<in> set ops \<Longrightarrow> fst e \<le> op_time op"
  shows "sorted_wrt spaced (L @ prompt_log sid ops s)"
  using assms(2-)
proof (induction ops arbitrary: L s)
  case (Cons op ops)
  have "remembered sid (L @ prompt_of sid op s) (conversation_step op s) \<and> sorted_wrt spaced (L @ prompt_of sid op s)"
  proof (cases "\<exists>now pid ts msg. op = Conv_Message now pid ts msg \<and> cm_session_id msg = sid")
    case True
    then obtain now pid ts msg where op: "op = Conv_Message now pid ts msg" "cm_session_id msg = sid" by blast
    show ?thesis
      by (rule message_step [OF Cons.prems(3,4) _ op(2) assms(1) op(1)]) (use Cons.prems(5) op in force)
  next
    case False
    then have "prompt_of sid op s = []" by (cases op) auto
    with False Cons.prems show ?thesis using other_ops_remember [of sid op L s] by auto
  qed
  moreover have "fst e \<le> op_time op'" if "e \<in> set (L @ prompt_of sid op s)" "op' \<in> set ops" for e op'
  proof -
    have "fst e \<le> op_time op" if "e \<in> set (prompt_of sid op s)"
      using that by (cases op) (auto split: if_splits)
    with that Cons.prems(2,5) show ?thesis by fastforce
  qed
  ultimately have "sorted_wrt spaced ((L @ prompt_of sid op s) @ prompt_log sid ops (conversation_step op s))"
    using Cons.prems(1,2) by (intro Cons.IH) auto
  then show ?case by simp
qed simp

section \<open>Properties\<close>

text \<open>
  Every prompt that the service ever publishes, whatever messages, replies, tool events, lifecycle
  events and timers arrive, is well formed: its metadata has only the keys on the list, language keys
  and the current tool; its event type is one that the prompt engine knows; a prompt for session output
  carries the text as \<open>session_output\<close>; and the metadata of its message is within the limits.
\<close>

theorem prompts_well_formed:
  "list_all prompt_ok (prompts (fold conversation_step ops (new_conversation ttls)))"
  by (rule conv.inv_run) (simp_all add: new_conversation_def)


definition demo_notable :: "(string \<times> string) list \<Rightarrow> time_ns \<Rightarrow> conversation_op" where
  "demo_notable extra now = Conv_Message now ''p'' now \<lparr>cm_session_id = ''s'', cm_origin = ''tool'', cm_text = ''out'',
     cm_annotations = (''notable'', ''true'') # extra\<rparr>"


text \<open>
  The event type is merged into the metadata of the turn after the annotations, so it is lost when they
  already fill the metadata; the prompt for tool output then claims to be an intent of the user.
\<close>

lemma trim_event_type: "trim_to_runes ''event_type'' 64 = ''event_type''"
  by (simp add: trim_to_runes_def trim_space_def trim_segs_def segs.simps(2) decode_rune_ascii seg_space_def
      is_space_def rune_count_def Let_def)

lemma event_type_lost_when_full:
  assumes "m = acc_merge (cm_annotations msg) (new_accumulator [] default_metadata_limits)"
    and "length (entries m) = 32" and "map_of (entries m) ''event_type'' = None" and "is_session_output msg"
  shows "prompt_metadata sid (message_turn ts msg) s ''event_type'' = Some ''user_intent''"
proof -
  have lim: "limits m = default_metadata_limits" by (simp add: assms(1) new_accumulator_def)
  then have "acc_merge [(''event_type'', ''session_output'')] m = m"
    using assms(2,3) by (simp add: acc_merge_def acc_add_def trim_event_type Let_def)
  then have "turn_meta (message_turn ts msg) = entries m"
    using assms(1,4) by (simp add: message_turn_def is_session_output_def acc_result_def Let_def)
  with assms(3) show ?thesis
    by (simp add: prompt_metadata_def Let_def split: option.split)
qed

end
