(* ===== verification/GoTime.thy ===== *)
theory GoTime
  imports GoNumbers Prelude
begin

text \<open>
  What the program uses of Go's package \<open>time\<close>: a \<open>time.Time\<close> is an instant (nanoseconds since the zero
  time, midnight of the first of January of the year 1, UTC) together with the offset of its zone in seconds, and
  \<open>Format\<close> and \<open>Parse\<close> for the layouts \<open>15:04:05\<close>, \<open>2006-01-02\<close> and RFC 3339. Instants before the zero
  time do not occur.
\<close>

record go_time =
  instant :: time_ns
  zone :: int

definition utc :: "time_ns \<Rightarrow> go_time" where
  "utc t = \<lparr>instant = t, zone = 0\<rparr>"

text \<open>\<open>UnixNano\<close>; the second of January 1970 and so on are positive.\<close>

definition unix_epoch :: time_ns where
  "unix_epoch = 719162 * 86400 * second"

definition unix_nano :: "time_ns \<Rightarrow> int" where
  "unix_nano t = t - unix_epoch"

section \<open>Clock and calendar\<close>

text \<open>Seconds and days since the zero time, on the clock of the zone.\<close>

definition local_seconds :: "go_time \<Rightarrow> nat" where
  "local_seconds t = nat (instant t div second + zone t)"

definition day_of :: "go_time \<Rightarrow> nat" where
  "day_of t = local_seconds t div 86400"

definition clock_of :: "go_time \<Rightarrow> nat \<times> nat \<times> nat" where
  "clock_of t = (let s = local_seconds t mod 86400 in (s div 3600, s div 60 mod 60, s mod 60))"

text \<open>The Gregorian calendar: the year (counted from 0) and the day in the year of a day number.\<close>

definition is_leap :: "nat \<Rightarrow> bool" where
  "is_leap y \<longleftrightarrow> y mod 4 = 0 \<and> (y mod 100 \<noteq> 0 \<or> y mod 400 = 0)"

definition days_before_year :: "nat \<Rightarrow> nat" where
  "days_before_year y0 = 365 * y0 + y0 div 4 - y0 div 100 + y0 div 400"

definition year_day :: "nat \<Rightarrow> nat \<times> nat" where
  "year_day d =
     (let n400 = d div 146097; d = d mod 146097;
          n100 = d div 36524 - d div 36524 div 4; d = d - 36524 * n100;
          n4 = d div 1461; d = d mod 1461;
          n1 = d div 365 - d div 365 div 4
      in (400 * n400 + 100 * n100 + 4 * n4 + n1, d - 365 * n1))"

definition month_lengths :: "nat \<Rightarrow> nat list" where
  "month_lengths y = [31, if is_leap y then 29 else 28, 31, 30, 31, 30, 31, 31, 30, 31, 30, 31]"

fun month_day :: "nat list \<Rightarrow> nat \<Rightarrow> nat \<times> nat" where
  "month_day [] n = (0, n)"
| "month_day (l # ls) n = (if n < l then (0, n) else (case month_day ls (n - l) of (m, k) \<Rightarrow> (Suc m, k)))"

definition civil :: "nat \<Rightarrow> nat \<times> nat \<times> nat" where
  "civil d = (let (y0, n) = year_day d; (m, k) = month_day (month_lengths (Suc y0)) n in (Suc y0, Suc m, Suc k))"

text \<open>The day number of a date, as \<open>time.Date\<close> computes it for a date in range.\<close>

definition day_number :: "nat \<times> nat \<times> nat \<Rightarrow> nat" where
  "day_number = (\<lambda>(y, m, k). days_before_year (y - 1) + sum_list (take (m - 1) (month_lengths y)) + (k - 1))"

section \<open>Printing\<close>

definition two_digits :: "nat \<Rightarrow> string" where
  "two_digits n = [char_of (48 + n div 10), char_of (48 + n mod 10)]"

definition pad_year :: "nat \<Rightarrow> string" where
  "pad_year n = (let s = decimal n in replicate (4 - length s) (CHR ''0'') @ s)"

definition clock_text :: "nat \<times> nat \<times> nat \<Rightarrow> string" where
  "clock_text = (\<lambda>(h, m, s). two_digits h @ '':'' @ two_digits m @ '':'' @ two_digits s)"

definition format_clock :: "go_time \<Rightarrow> string" where
  "format_clock t = clock_text (clock_of t)"

definition date_text :: "nat \<times> nat \<times> nat \<Rightarrow> string" where
  "date_text = (\<lambda>(y, m, k). pad_year y @ ''-'' @ two_digits m @ ''-'' @ two_digits k)"

definition format_date :: "go_time \<Rightarrow> string" where
  "format_date t = date_text (civil (day_of t))"

definition zone_text :: "int \<Rightarrow> string" where
  "zone_text z =
     (if z = 0 then ''Z''
      else let m = nat \<bar>z\<bar> div 60 in (if z < 0 then ''-'' else ''+'') @ two_digits (m div 60) @ '':'' @ two_digits (m mod 60))"

definition format_rfc3339 :: "go_time \<Rightarrow> string" where
  "format_rfc3339 t = format_date t @ ''T'' @ format_clock t @ zone_text (zone t)"

section \<open>Parsing\<close>

definition digit_value :: "char \<Rightarrow> nat option" where
  "digit_value c = (let n = of_char c in if 48 \<le> n \<and> n \<le> (57 :: nat) then Some (n - 48) else None)"

fun digits_value :: "nat \<Rightarrow> string \<Rightarrow> nat option" where
  "digits_value acc [] = Some acc"
| "digits_value acc (c # s) =
     (case digit_value c of None \<Rightarrow> None | Some n \<Rightarrow> digits_value (10 * acc + n) s)"

text \<open>\<open>time.Parse\<close> with the layout \<open>15:04:05\<close> on a string of eight bytes: any other shape is an error, since a shorter hour leaves a byte over.\<close>

definition parse_clock :: "string \<Rightarrow> (nat \<times> nat \<times> nat) option" where
  "parse_clock s =
     (case s of
        [a, b, c, d, e, f, g, h] \<Rightarrow>
          (case (digits_value 0 [a, b], digits_value 0 [d, e], digits_value 0 [g, h]) of
             (Some x, Some y, Some z) \<Rightarrow>
               if c = CHR '':'' \<and> f = CHR '':'' \<and> x < 24 \<and> y < 60 \<and> z < 60 then Some (x, y, z) else None
           | _ \<Rightarrow> None)
      | _ \<Rightarrow> None)"

text \<open>The layout \<open>2006-01-02\<close> on a string of ten bytes.\<close>

definition parse_date :: "string \<Rightarrow> (nat \<times> nat \<times> nat) option" where
  "parse_date s =
     (case s of
        [y1, y2, y3, y4, p, m1, m2, q, k1, k2] \<Rightarrow>
          (case (digits_value 0 [y1, y2, y3, y4], digits_value 0 [m1, m2], digits_value 0 [k1, k2]) of
             (Some y, Some m, Some k) \<Rightarrow>
               if p = CHR ''-'' \<and> q = CHR ''-'' \<and> 1 \<le> m \<and> m \<le> 12 \<and> 1 \<le> k \<and> k \<le> month_lengths y ! (m - 1)
               then Some (y, m, k) else None
           | _ \<Rightarrow> None)
      | _ \<Rightarrow> None)"

section \<open>Round trips\<close>

lemma digit_value_char [simp]: "n < 10 \<Longrightarrow> digit_value (char_of (48 + n)) = Some n"
  by (simp add: digit_value_def)

lemma digits_value_two [simp]: "n < 100 \<Longrightarrow> digits_value 0 (two_digits n) = Some n"
  by (simp add: two_digits_def)

lemmas digits_value_expanded = digits_value_two [unfolded two_digits_def]

lemma clock_of_bounds: "clock_of t = (h, m, s) \<Longrightarrow> h < 24 \<and> m < 60 \<and> s < 60"
  by (auto simp: clock_of_def Let_def less_mult_imp_div_less)

lemma length_clock_text [simp]: "length (clock_text x) = 8"
  by (simp add: clock_text_def two_digits_def split: prod.splits)

lemma length_format_clock [simp]: "length (format_clock t) = 8"
  by (simp add: format_clock_def)

lemma parse_clock_text: "h < 24 \<Longrightarrow> m < 60 \<Longrightarrow> s < 60 \<Longrightarrow> parse_clock (clock_text (h, m, s)) = Some (h, m, s)"
  by (simp add: parse_clock_def clock_text_def two_digits_def)

lemma parse_format_clock: "parse_clock (format_clock t) = Some (clock_of t)"
  by (cases "clock_of t") (simp add: format_clock_def clock_of_bounds parse_clock_text)

lemma zero_char: "CHR ''0'' = char_of (48 :: nat)"
  using char_of_char [where 'a = nat, of "CHR ''0''"] by simp

lemma replicate_small: "replicate 3 x = [x, x, x]" "replicate 2 x = [x, x]"
  by (simp_all add: eval_nat_numeral)

lemma pad_year_digits:
  assumes "n < 10000"
  shows "pad_year n = [char_of (48 + n div 1000), char_of (48 + n div 100 mod 10), char_of (48 + n div 10 mod 10),
    char_of (48 + n mod 10)]"
proof -
  consider "n < 10" | "10 \<le> n \<and> n < 100" | "100 \<le> n \<and> n < 1000" | "1000 \<le> n" by linarith
  then show ?thesis
  proof cases
    case 1
    then show ?thesis by (simp add: pad_year_def decimal.simps [of n] zero_char replicate_small)
  next
    case 2
    then have "n div 10 < 10" by auto
    with 2 show ?thesis
      by (simp add: pad_year_def decimal.simps [of n] decimal.simps [of "n div 10"] zero_char replicate_small)
  next
    case 3
    then have "n div 10 \<ge> 10" "n div 10 div 10 < 10" by auto
    with 3 show ?thesis
      by (simp add: pad_year_def decimal.simps [of n] decimal.simps [of "n div 10"] decimal.simps [of "n div 100"]
          div_mult2_eq [symmetric] zero_char)
  next
    case 4
    with assms have "n div 10 \<ge> 10" "n div 100 \<ge> 10" "n div 1000 < 10" by auto
    with 4 show ?thesis
      by (simp add: pad_year_def decimal.simps [of n] decimal.simps [of "n div 10"] decimal.simps [of "n div 100"]
          decimal.simps [of "n div 1000"] div_mult2_eq [symmetric])
  qed
qed

lemma digits_value_four:
  "a < 10 \<Longrightarrow> b < 10 \<Longrightarrow> c < 10 \<Longrightarrow> d < 10 \<Longrightarrow>
    digits_value 0 [char_of (48 + a), char_of (48 + b), char_of (48 + c), char_of (48 + d)] =
      Some (10 * (10 * (10 * a + b) + c) + d)"
  by simp

lemma year_digits_value: "n < 10000 \<Longrightarrow> digits_value 0 (pad_year n) = Some n"
proof -
  assume n: "n < 10000"
  define p q where "p = n div 10" and "q = p div 10"
  have eqs: "n div 100 = q" "n div 1000 = q div 10" "n div 10 = p"
    unfolding p_def q_def by (simp_all only: div_mult2_eq [symmetric]) simp_all
  have "q div 10 < 10" unfolding eqs(2) [symmetric] using n by simp
  moreover have "10 * (q div 10) + q mod 10 = q" "10 * q + p mod 10 = p" "10 * p + n mod 10 = n"
    unfolding q_def p_def by (rule mult_div_mod_eq)+
  ultimately show ?thesis
    unfolding pad_year_digits [OF n] eqs by (subst digits_value_four) simp_all
qed

text \<open>The calendar divides by a hundred years or by a year at most four times, and the fourth part may be one day longer.\<close>

lemma quarter:
  assumes "(t :: nat) \<le> 4 * n" "0 < n"
  defines "b \<equiv> t div n - t div n div 4"
  shows "b \<le> 3 \<and> n * b \<le> t \<and> t - n * b \<le> n \<and> (b = 3 \<or> t - n * b < n)"
proof (cases "t = 4 * n")
  case True
  with assms show ?thesis by simp
next
  case False
  with assms have "t < n * 4" by simp
  then have "t div n < 4" by (simp add: less_mult_imp_div_less mult.commute)
  then have "t div n \<le> 3" by simp
  then have "b = t div n" by (simp add: b_def)
  moreover have "t - n * (t div n) < n" using assms by (simp add: minus_mult_div_eq_mod)
  ultimately show ?thesis using \<open>t div n \<le> 3\<close> by simp
qed

lemma year_day_bounds:
  assumes "year_day d = (y0, n)"
  shows "days_before_year y0 + n = d \<and> n < (if is_leap (Suc y0) then 366 else 365)"
proof -
  define a b c e where "a = d div 146097"
    and "b = d mod 146097 div 36524 - d mod 146097 div 36524 div 4"
    and "c = (d mod 146097 - 36524 * b) div 1461"
    and "e = (d mod 146097 - 36524 * b) mod 1461 div 365 - (d mod 146097 - 36524 * b) mod 1461 div 365 div 4"
  have y: "y0 = 400 * a + 100 * b + 4 * c + e" and n: "n = (d mod 146097 - 36524 * b) mod 1461 - 365 * e"
    using assms unfolding year_day_def Let_def a_def b_def c_def e_def by (simp_all only: prod.inject)
  define r where "r = d mod 146097 - 36524 * b"
  have t: "d mod 146097 \<le> 4 * 36524" by (simp add: less_Suc_eq_le [symmetric])
  have b3: "b \<le> 3 \<and> 36524 * b \<le> d mod 146097 \<and> r \<le> 36524 \<and> (b = 3 \<or> r < 36524)"
    unfolding r_def b_def by (rule quarter [OF t]) simp
  define u where "u = r mod 1461"
  have rc: "r = 1461 * c + u" "u < 1461" unfolding u_def c_def r_def [symmetric] by simp_all
  then have c24: "c \<le> 24 \<and> (c = 24 \<and> b < 3 \<longrightarrow> u < 1460)" using b3 by linarith
  have e3: "e \<le> 3 \<and> 365 * e \<le> u \<and> u - 365 * e \<le> 365 \<and> (e = 3 \<or> u - 365 * e < 365)"
    using quarter [of u 365] rc unfolding e_def r_def [symmetric] u_def [symmetric] by auto
  have q4: "y0 div 4 = 100 * a + 25 * b + c" using y e3 by linarith
  have q100: "y0 div 100 = 4 * a + b" using y e3 c24 by linarith
  have q400: "y0 div 400 = a" using y e3 c24 b3 by linarith
  have dd: "d = 146097 * a + 36524 * b + r" using b3 unfolding r_def a_def by simp
  have nu: "n = u - 365 * e" using n unfolding u_def r_def .
  have "days_before_year y0 + n = d"
    unfolding days_before_year_def q4 q100 q400 using y dd rc e3 nu by simp
  moreover have "n < (if is_leap (Suc y0) then 366 else 365)"
  proof (cases "n = 365")
    case True
    with nu e3 have e: "e = 3" and u: "u = 1460" using rc by auto
    with c24 have bc: "c < 24 \<or> c = 24 \<and> b = 3" using b3 by auto
    have s: "Suc y0 = 100 * (4 * a + b) + 4 * (c + 1)" using y e by simp
    have "is_leap (Suc y0)"
    proof (cases "c < 24")
      case True
      then have "Suc y0 mod 100 = 4 * (c + 1)" unfolding s mod_mult_self4 by simp
      moreover have "Suc y0 mod 4 = 0" unfolding s by presburger
      ultimately show ?thesis by (simp add: is_leap_def)
    next
      case False
      with bc have "Suc y0 = 400 * (a + 1)" unfolding s by simp
      then have "400 dvd Suc y0" "4 dvd Suc y0" by (simp_all only: dvd_triv_left) (simp add: dvd_mult2)
      then show ?thesis by (simp add: is_leap_def dvd_eq_mod_eq_0 [symmetric])
    qed
    with True show ?thesis by simp
  next
    case False
    with nu e3 show ?thesis by auto
  qed
  ultimately show ?thesis by blast
qed

lemma month_day_spec:
  "month_day ls n = (m, k) \<Longrightarrow> n < sum_list ls \<Longrightarrow> m < length ls \<and> k < ls ! m \<and> sum_list (take m ls) + k = n"
proof (induction ls arbitrary: n m k)
  case (Cons l ls)
  show ?case
  proof (cases "n < l")
    case False
    obtain m' k' where mk: "month_day ls (n - l) = (m', k')" by fastforce
    have "n - l < sum_list ls" using Cons.prems(2) False by simp
    from Cons.IH [OF mk this] show ?thesis using Cons.prems(1) mk False by auto
  qed (use Cons.prems in auto)
qed simp

lemma civil_spec:
  assumes "civil d = (y, m, k)"
  shows "1 \<le> y \<and> 1 \<le> m \<and> m \<le> 12 \<and> 1 \<le> k \<and> k \<le> month_lengths y ! (m - 1) \<and> day_number (y, m, k) = d"
proof -
  obtain y0 n where yn: "year_day d = (y0, n)" by fastforce
  obtain m0 k0 where mk: "month_day (month_lengths (Suc y0)) n = (m0, k0)" by fastforce
  have "n < sum_list (month_lengths (Suc y0))"
    using year_day_bounds [OF yn] by (simp add: month_lengths_def split: if_splits)
  from month_day_spec [OF mk this] year_day_bounds [OF yn] show ?thesis
    using assms yn mk by (auto simp: civil_def day_number_def month_lengths_def Suc_le_eq)
qed

lemma month_lengths_le: "m < 12 \<Longrightarrow> month_lengths y ! m \<le> 31"
  by (auto simp: month_lengths_def less_Suc_eq numeral_eq_Suc)

text \<open>Until the year 9999 the printed date is read back as itself.\<close>

theorem date_roundtrip:
  assumes "fst (civil (day_of t)) < 10000"
  shows "\<exists>x. parse_date (format_date t) = Some x \<and> day_number x = day_of t"
proof -
  obtain y m k where c: "civil (day_of t) = (y, m, k)" by (cases "civil (day_of t)") auto
  note sp = civil_spec [OF c]
  with month_lengths_le [of "m - 1" y] have "m < 100" "k < 100" by linarith+
  moreover have "y < 10000" using assms c by simp
  note year_digits_value [OF this, unfolded pad_year_digits [OF this]] pad_year_digits [OF this]
  ultimately have "parse_date (format_date t) = Some (y, m, k)"
    using c sp by (simp add: format_date_def date_text_def parse_date_def two_digits_def digits_value_expanded del: digits_value.simps)
  with sp show ?thesis by simp
qed

end
