(* ===== verification/Journal.thy ===== *)
theory Journal
  imports Compaction GoTime
begin

text \<open>
  The journal service, \<open>internal/awareness/journal.go\<close>: one rolling log per session, an append-only audit
  file per session and day, and the compaction of the older half of a log by an AI adapter that answers
  later, once, or never. A handler is one step. The goroutines that call them (one per topic) and the
  logging of errors are left out; every failure of the file system is an argument of the handler.
\<close>

section \<open>Time ranges\<close>

text \<open>The regular expression \<open>timestampRe\<close> at the start of a string; every match has eight bytes.\<close>

definition char_in :: "char \<Rightarrow> string \<Rightarrow> bool" where
  "char_in c cs \<longleftrightarrow> c \<in> set cs"

fun clock_match :: "string \<Rightarrow> bool" where
  "clock_match (h1 # h2 # c1 # m1 # m2 # c2 # s1 # s2 # rest) \<longleftrightarrow>
     (char_in h1 ''01'' \<and> char_in h2 ''0123456789'' \<or> h1 = CHR ''2'' \<and> char_in h2 ''0123'') \<and> c1 = CHR '':'' \<and>
     char_in m1 ''012345'' \<and> char_in m2 ''0123456789'' \<and> c2 = CHR '':'' \<and>
     char_in s1 ''012345'' \<and> char_in s2 ''0123456789''"
| "clock_match s \<longleftrightarrow> False"

function find_clocks :: "string \<Rightarrow> string list" where
  "find_clocks s =
     (if s = [] then []
      else if clock_match s then take 8 s # find_clocks (drop 8 s)
      else find_clocks (tl s))"
  by pat_completeness auto
termination by (relation "measure length") auto

declare find_clocks.simps [simp del]

definition unknown_time :: string where
  "unknown_time = ''??:??:??''"

definition extract_time_range :: "string \<Rightarrow> string \<times> string" where
  "extract_time_range s =
     (case find_clocks s of [] \<Rightarrow> (unknown_time, unknown_time) | m # ms \<Rightarrow> (m, last (m # ms)))"

section \<open>State\<close>

text \<open>Rolling logs are shared by reference: \<open>activeLogs\<close> and a pending compaction may hold the same one. They
  live in a heap; \<open>next_log\<close> is the next unused reference.\<close>

record journal_pending_compaction =
  pc_session :: string
  pc_log :: nat
  pc_start :: string
  pc_end :: string

datatype journal_event =
    Compaction_Prompt (prompt_session: string) (prompt_id: string) (prompt_text: string)
  | Awareness_Sync string sync_type

record journal =
  journal_base :: string
  stale_timeout :: duration
  journal_started :: bool
  active_logs :: "string \<rightharpoonup> nat"
  log_heap :: "nat \<rightharpoonup> rolling_log"
  next_log :: nat
  cached_tools :: "string \<rightharpoonup> string"
  log_dirs_created :: "string set"
  log_files :: "string \<rightharpoonup> string"
  pending_compactions :: "(string, journal_pending_compaction) gomap"
  compaction_in_flight :: "string set"
  compaction_started_at :: "string \<rightharpoonup> int"
  journal_disk :: disk
  journal_events :: "journal_event list"

definition default_stale_timeout :: duration where
  "default_stale_timeout = 5 * 60 * second"

text \<open>\<open>NewJournalService\<close> panics on a relative path (\<open>None\<close>).\<close>

definition new_journal_service :: "string \<Rightarrow> disk \<Rightarrow> journal option" where
  "new_journal_service base d =
     (if \<not> is_abs base then None
      else Some \<lparr>journal_base = base, stale_timeout = default_stale_timeout, journal_started = False,
        active_logs = Map.empty, log_heap = Map.empty, next_log = 0, cached_tools = Map.empty,
        log_dirs_created = {}, log_files = Map.empty, pending_compactions = [], compaction_in_flight = {},
        compaction_started_at = Map.empty, journal_disk = d, journal_events = []\<rparr>)"

text \<open>An operation on a rolling log of the heap, over the disk.\<close>

definition on_log :: "nat \<Rightarrow> (rolling_log \<times> disk \<Rightarrow> 'e \<times> rolling_log \<times> disk) \<Rightarrow> journal \<Rightarrow> 'e \<times> journal" where
  "on_log h f j =
     (case f (the (log_heap j h), journal_disk j) of
        (e, r, d) \<Rightarrow> (e, j\<lparr>log_heap := (log_heap j)(h \<mapsto> r), journal_disk := d\<rparr>))"

section \<open>The audit files\<close>

text \<open>The outcome of the calls of one write: \<open>MkdirAll\<close>, \<open>OpenFile\<close>, the second attempt at both after the
  directory has vanished, and the write itself (\<open>None\<close>: it succeeds; otherwise it stops after some bytes).\<close>

datatype open_result = Open_Ok | Open_Not_Exist | Open_Error

record log_io =
  mkdir_fails :: bool
  open_result :: open_result
  remkdir_fails :: bool
  reopen_fails :: bool
  write_stops :: "nat option"

definition no_faults :: log_io where
  "no_faults = \<lparr>mkdir_fails = False, open_result = Open_Ok, remkdir_fails = False, reopen_fails = False, write_stops = None\<rparr>"

datatype log_error = Create_Dir_Failed | Open_Log_Failed | Mkdir_Retry_Failed | Reopen_Failed | Write_Log_Failed

definition audit_dir :: "string \<Rightarrow> string \<Rightarrow> string" where
  "audit_dir base sid = join_path (join_path base ''logs'') sid"

definition audit_file :: "string \<Rightarrow> string \<Rightarrow> string \<Rightarrow> string" where
  "audit_file base sid date = join_path (audit_dir base sid) (date @ ''.md'')"

text \<open>Opening with \<open>O_CREATE\<close> leaves an empty file where there was none.\<close>

definition touch_file :: "string \<Rightarrow> disk \<Rightarrow> disk" where
  "touch_file f d = d(f \<mapsto> (case d f of None \<Rightarrow> [] | Some s \<Rightarrow> s))"

definition extend_file :: "string \<Rightarrow> string \<Rightarrow> disk \<Rightarrow> disk" where
  "extend_file f s d = d(f \<mapsto> (case d f of None \<Rightarrow> [] | Some old \<Rightarrow> old) @ s)"

definition open_log_file :: "log_io \<Rightarrow> string \<Rightarrow> disk \<Rightarrow> log_error option \<times> disk" where
  "open_log_file io f d =
     (case open_result io of
        Open_Ok \<Rightarrow> (None, touch_file f d)
      | Open_Error \<Rightarrow> (Some Open_Log_Failed, d)
      | Open_Not_Exist \<Rightarrow>
          if remkdir_fails io then (Some Mkdir_Retry_Failed, d)
          else if reopen_fails io then (Some Reopen_Failed, d)
          else (None, touch_file f d))"

definition get_log_file :: "log_io \<Rightarrow> string \<Rightarrow> string \<Rightarrow> journal \<Rightarrow> log_error option \<times> journal" where
  "get_log_file io sid date j =
     (if log_files j sid = Some date then (None, j)
      else
        let j = j\<lparr>log_files := (log_files j)(sid := None)\<rparr>
        in case open_log_file io (audit_file (journal_base j) sid date) (journal_disk j) of
             (Some e, d) \<Rightarrow> (Some e, j)
           | (None, d) \<Rightarrow> (None, j\<lparr>log_files := (log_files j)(sid \<mapsto> date), journal_disk := d\<rparr>))"

definition write_string :: "log_io \<Rightarrow> string \<Rightarrow> string \<Rightarrow> disk \<Rightarrow> log_error option \<times> disk" where
  "write_string io f s d =
     (case write_stops io of
        None \<Rightarrow> (None, extend_file f s d)
      | Some n \<Rightarrow> (Some Write_Log_Failed, extend_file f (take n s) d))"

definition write_log_entry :: "log_io \<Rightarrow> string \<Rightarrow> string \<Rightarrow> go_time \<Rightarrow> journal \<Rightarrow> log_error option \<times> journal" where
  "write_log_entry io sid entry ts j =
     (if sid \<notin> log_dirs_created j \<and> mkdir_fails io then (Some Create_Dir_Failed, j)
      else
        let j = j\<lparr>log_dirs_created := insert sid (log_dirs_created j)\<rparr>;
            date = format_date ts
        in if active_logs j sid = None then (None, j)
           else case get_log_file io sid date j of
                  (Some e, j) \<Rightarrow> (Some e, j)
                | (None, j) \<Rightarrow>
                    (case write_string io (audit_file (journal_base j) sid date) (entry @ [NL]) (journal_disk j) of
                       (e, d) \<Rightarrow> (e, j\<lparr>journal_disk := d\<rparr>)))"

definition write_fallback_log_entry ::
    "log_io \<Rightarrow> string \<Rightarrow> string \<Rightarrow> go_time \<Rightarrow> journal \<Rightarrow> log_error option \<times> journal" where
  "write_fallback_log_entry io sid entry ts j =
     (if mkdir_fails io then (Some Create_Dir_Failed, j)
      else if open_result io \<noteq> Open_Ok then (Some Open_Log_Failed, j)
      else case write_string io (audit_file (journal_base j) sid (format_date ts)) (entry @ [NL]) (journal_disk j) of
             (e, d) \<Rightarrow> (e, j\<lparr>journal_disk := d\<rparr>))"

text \<open>Closing the handle cannot fail in a way that the caller sees.\<close>

definition close_log_file :: "string \<Rightarrow> journal \<Rightarrow> journal" where
  "close_log_file sid j = j\<lparr>log_files := (log_files j)(sid := None)\<rparr>"

section \<open>Compaction\<close>

definition drop_pending :: "string \<Rightarrow> (string, journal_pending_compaction) gomap \<Rightarrow> (string, journal_pending_compaction) gomap" where
  "drop_pending sid m = filter (\<lambda>(k, pc). pc_session pc \<noteq> sid) m"

text \<open>\<open>clock\<close> is the reading of \<open>time.Now()\<close>.\<close>

definition check_stale_compaction :: "time_ns \<Rightarrow> string \<Rightarrow> journal \<Rightarrow> journal" where
  "check_stale_compaction clock sid j =
     (case compaction_started_at j sid of
        None \<Rightarrow> j
      | Some started_at \<Rightarrow>
          if started_at = 0 then j
          else if unix_nano clock - started_at < stale_timeout j then j
          else j\<lparr>pending_compactions := drop_pending sid (pending_compactions j),
                 compaction_in_flight := compaction_in_flight j - {sid},
                 compaction_started_at := (compaction_started_at j)(sid := None)\<rparr>)"

definition int_text :: "int \<Rightarrow> string" where
  "int_text n = (if n < 0 then ''-'' else []) @ decimal (nat \<bar>n\<bar>)"

definition journal_prompt_id :: "string \<Rightarrow> time_ns \<Rightarrow> string" where
  "journal_prompt_id sid clock = ''journal-compact-'' @ sid @ ''-'' @ int_text (unix_nano clock)"

record compaction_clock =
  stale_check_at :: time_ns
  started_reading :: time_ns
  prompt_reading :: time_ns

definition trigger_compaction ::
    "os_fault option \<Rightarrow> compaction_clock \<Rightarrow> string \<Rightarrow> nat \<Rightarrow> journal \<Rightarrow> journal" where
  "trigger_compaction fault ck sid h j =
     (let j = (if sid \<in> compaction_in_flight j then check_stale_compaction (stale_check_at ck) sid j else j)
      in if sid \<in> compaction_in_flight j then j
         else
           let j = j\<lparr>compaction_in_flight := insert sid (compaction_in_flight j),
                     compaction_started_at := (compaction_started_at j)(sid \<mapsto> unix_nano (started_reading ck))\<rparr>
           in case on_log h (older_half fault) j of
                (Inl e, j) \<Rightarrow> j\<lparr>compaction_in_flight := compaction_in_flight j - {sid}\<rparr>
              | (Inr older, j) \<Rightarrow>
                  if older = [] then j\<lparr>compaction_in_flight := compaction_in_flight j - {sid}\<rparr>
                  else
                    let (start_time, end_time) = extract_time_range older;
                        pid = journal_prompt_id sid (prompt_reading ck);
                        pc = \<lparr>pc_session = sid, pc_log = h, pc_start = start_time, pc_end = end_time\<rparr>
                    in j\<lparr>pending_compactions := mput pid pc (pending_compactions j),
                         journal_events := journal_events j @ [Compaction_Prompt sid pid older]\<rparr>)"

text \<open>The faults and readings of one handler.\<close>

record env =
  read_fails :: bool
  raw_fault :: "os_fault option"
  compact_fault :: "os_fault option"
  summary_fault :: "os_fault option"
  archive_fault :: "os_fault option"
  commit_fault :: "os_fault option"
  audit_io :: log_io
  now :: go_time
  archive_now :: go_time
  readings :: compaction_clock

section \<open>Handlers\<close>

definition journal_path :: "string \<Rightarrow> string \<Rightarrow> string" where
  "journal_path base sid = join_path base (sid @ ''.md'')"

definition session_start_entry :: "go_time \<Rightarrow> string \<Rightarrow> string \<Rightarrow> string \<Rightarrow> string" where
  "session_start_entry t sid label tool =
     format_clock t @ '' [session_start] Session: '' @ sid @ '', Command: '' @ sanitize_for_rolling_log label @
     '', Started: '' @ format_rfc3339 t @
     (if tool = [] then [] else '', Tool: '' @ sanitize_for_rolling_log tool)"

definition handle_session_created :: "env \<Rightarrow> string \<Rightarrow> string \<Rightarrow> journal \<Rightarrow> journal" where
  "handle_session_created e sid label j =
     (if sid = [] then j
      else case new_rolling_log (read_fails e) (journal_path (journal_base j) sid) [] (journal_disk j) of
             Inl err \<Rightarrow> j
           | Inr r \<Rightarrow>
               let h = next_log j;
                   j = j\<lparr>log_heap := (log_heap j)(h \<mapsto> r), next_log := Suc h\<rparr>;
                   tool_name = (case cached_tools j sid of None \<Rightarrow> [] | Some t \<Rightarrow> t);
                   entry = session_start_entry (now e) sid label tool_name
               in case on_log h (append_raw (raw_fault e) entry) j of
                    (Some err, j) \<Rightarrow> j
                  | (None, j) \<Rightarrow>
                      let j = j\<lparr>active_logs := (active_logs j)(sid \<mapsto> h)\<rparr>
                      in snd (write_log_entry (audit_io e) sid entry (now e) j))"

definition session_stop_entry :: "go_time \<Rightarrow> string \<Rightarrow> int option \<Rightarrow> string \<Rightarrow> string" where
  "session_stop_entry t sid exit_code reason =
     format_clock t @ '' [session_stop] Session: '' @ sid @
     (case exit_code of None \<Rightarrow> [] | Some c \<Rightarrow> '', ExitCode: '' @ int_text c) @
     (if reason = [] then [] else '', Reason: '' @ sanitize_for_rolling_log reason)"

definition min_finalization_tail_size :: int where
  "min_finalization_tail_size = 1000"

definition handle_session_stopped :: "env \<Rightarrow> string \<Rightarrow> int option \<Rightarrow> string \<Rightarrow> journal \<Rightarrow> journal" where
  "handle_session_stopped e sid exit_code reason j =
     (if sid = [] then j
      else case active_logs j sid of
             None \<Rightarrow> j
           | Some h \<Rightarrow>
               let r = the (log_heap j h);
                   j = (if should_compact r \<and> raw_bytes r > min_finalization_tail_size
                        then trigger_compaction (compact_fault e) (readings e) sid h j else j);
                   entry = session_stop_entry (now e) sid exit_code reason;
                   j = snd (on_log h (append_raw (raw_fault e) entry) j);
                   j = snd (write_log_entry (audit_io e) sid entry (now e) j);
                   j = j\<lparr>active_logs := (active_logs j)(sid := None),
                         cached_tools := (cached_tools j)(sid := None),
                         log_dirs_created := log_dirs_created j - {sid},
                         compaction_in_flight := compaction_in_flight j - {sid},
                         compaction_started_at := (compaction_started_at j)(sid := None)\<rparr>
               in close_log_file sid j)"

definition max_entry_text_bytes :: nat where
  "max_entry_text_bytes = 65536"

definition capped_text :: "string \<Rightarrow> string" where
  "capped_text text =
     (let s = sanitize_for_rolling_log text
      in if length s > max_entry_text_bytes
         then take max_entry_text_bytes s @ NL # ''[truncated: '' @ decimal (length text) @ '' bytes original]''
         else s)"

text \<open>\<open>waiting_for\<close> is the annotation of that name, empty when there is none.\<close>

definition output_entry :: "go_time \<Rightarrow> string \<Rightarrow> string \<Rightarrow> string" where
  "output_entry t text waiting_for =
     (if waiting_for \<noteq> [] then format_clock t @ '' [idle] Waiting for: '' @ sanitize_for_rolling_log waiting_for
      else format_clock t @ '' [output] '' @ capped_text text)"

text \<open>What \<open>handleOutput\<close> and \<open>handleToolChanged\<close> do with their entry.\<close>

definition record_entry :: "env \<Rightarrow> string \<Rightarrow> nat \<Rightarrow> string \<Rightarrow> go_time \<Rightarrow> journal \<Rightarrow> journal" where
  "record_entry e sid h entry t j =
     (let j = snd (on_log h (append_raw (raw_fault e) entry) j);
          j = (if should_compact (the (log_heap j h))
               then trigger_compaction (compact_fault e) (readings e) sid h j else j)
      in snd (write_log_entry (audit_io e) sid entry t j))"

definition handle_output :: "env \<Rightarrow> string \<Rightarrow> string \<Rightarrow> string \<Rightarrow> journal \<Rightarrow> journal" where
  "handle_output e sid text waiting_for j =
     (if sid = [] then j
      else if text = [] \<and> waiting_for = [] then j
      else case active_logs j sid of
             None \<Rightarrow> j
           | Some h \<Rightarrow> record_entry e sid h (output_entry (now e) text waiting_for) (now e) j)"

definition tool_change_entry :: "go_time \<Rightarrow> string \<Rightarrow> string \<Rightarrow> string" where
  "tool_change_entry t old_tool new_tool =
     format_clock t @ '' [tool_change] '' @ sanitize_for_rolling_log old_tool @ '' -> '' @ sanitize_for_rolling_log new_tool"

text \<open>The event carries the time stamp of the tool handler, in the zone of that handler.\<close>

definition handle_tool_changed :: "env \<Rightarrow> string \<Rightarrow> string \<Rightarrow> string \<Rightarrow> go_time \<Rightarrow> journal \<Rightarrow> journal" where
  "handle_tool_changed e sid old_tool new_tool stamp j =
     (if sid = [] then j
      else
        let j = j\<lparr>cached_tools := (cached_tools j)(sid \<mapsto> new_tool)\<rparr>
        in case active_logs j sid of
             None \<Rightarrow> j
           | Some h \<Rightarrow>
               let ts = (if is_zero (instant stamp) then now e else stamp)
               in record_entry e sid h (tool_change_entry ts old_tool new_tool) ts j)"

definition fallback_entry :: "journal_pending_compaction \<Rightarrow> string \<Rightarrow> string" where
  "fallback_entry pc reply =
     ''[compaction-fallback] '' @ summary_header (pc_start pc) (pc_end pc) @ NL # sanitize_for_summary reply"

definition archival_step :: "env \<Rightarrow> string \<Rightarrow> nat \<Rightarrow> journal \<Rightarrow> journal" where
  "archival_step e sid h j =
     (case on_log h (trigger_archival (journal_base j) sid (format_date (archive_now e)) (archive_fault e) (commit_fault e)) j of
        (None, j) \<Rightarrow> j
      | (Some (file, ty), j) \<Rightarrow> j\<lparr>journal_events := journal_events j @ [Awareness_Sync file ty]\<rparr>)"

definition handle_compaction_reply :: "env \<Rightarrow> string \<Rightarrow> string \<Rightarrow> journal \<Rightarrow> journal" where
  "handle_compaction_reply e pid text j =
     (if pid = [] then j
      else case map_of (pending_compactions j) pid of
             None \<Rightarrow> j
           | Some pc \<Rightarrow>
               let j = j\<lparr>pending_compactions := mdel pid (pending_compactions j)\<rparr>;
                   j = (if trim_space text = [] then j
                        else case on_log (pc_log pc)
                                (append_summary (summary_fault e) (format_summary (pc_start pc) (pc_end pc) text)) j of
                               (Some err, j) \<Rightarrow>
                                 snd (write_fallback_log_entry (audit_io e) (pc_session pc) (fallback_entry pc text) (now e) j)
                             | (None, j) \<Rightarrow>
                                 if should_archive (the (log_heap j (pc_log pc)))
                                 then archival_step e (pc_session pc) (pc_log pc) j else j)
               in j\<lparr>compaction_in_flight := compaction_in_flight j - {pc_session pc},
                    compaction_started_at := (compaction_started_at j)(pc_session pc := None)\<rparr>)"

definition journal_get_context :: "string \<Rightarrow> journal \<Rightarrow> string \<times> string" where
  "journal_get_context sid j =
     (case active_logs j sid of None \<Rightarrow> ([], []) | Some h \<Rightarrow> get_context (the (log_heap j h)))"

text \<open>\<open>Start\<close> fails when the service is running; \<open>Shutdown\<close>, once the consumers have stopped, forgets everything but the disk.\<close>

definition journal_start :: "journal \<Rightarrow> bool \<times> journal" where
  "journal_start j = (if journal_started j then (False, j) else (True, j\<lparr>journal_started := True\<rparr>))"

definition journal_shutdown :: "journal \<Rightarrow> journal" where
  "journal_shutdown j =
     (if \<not> journal_started j then j
      else j\<lparr>journal_started := False, active_logs := Map.empty, log_files := Map.empty,
             pending_compactions := [], compaction_in_flight := {}, compaction_started_at := Map.empty,
             log_dirs_created := {}, cached_tools := Map.empty\<rparr>)"

end
