(* ===== verification/GoPaths.thy ===== *)
theory GoPaths
  imports RollingLog
begin

text \<open>
  Paths below a base directory. \<open>filepath.Join\<close> of an absolute path and a plain name appends the name, and
  the path determines its components; so files with different names or at different depths are different.
\<close>

definition plain :: "string \<Rightarrow> bool" where
  "plain x \<longleftrightarrow> x \<noteq> [] \<and> x \<noteq> ''.'' \<and> x \<noteq> ''..'' \<and> CHR ''/'' \<notin> set x"

definition abs_path :: "string list \<Rightarrow> string" where
  "abs_path cs = ''/'' @ join ''/'' cs"

definition clean_base :: "string \<Rightarrow> bool" where
  "clean_base b \<longleftrightarrow> (\<exists>cs. b = abs_path cs \<and> list_all plain cs)"

lemma sublist_slash: "sublist ''/'' x \<longleftrightarrow> CHR ''/'' \<in> set x"
  by (metis in_set_conv_decomp list.set_intros(1) append_Cons append_Nil sublist_def set_mono_sublist subset_code(1))

lemma split_path: "cs \<noteq> [] \<Longrightarrow> list_all plain cs \<Longrightarrow> split (join ''/'' cs) ''/'' = cs"
  by (rule split_join) (auto simp: sublist_slash plain_def list_all_iff dest: in_set_butlastD)

lemma abs_path_split: "list_all plain cs \<Longrightarrow> cs \<noteq> [] \<Longrightarrow> split (abs_path cs) ''/'' = [] # cs"
  using split_step [of "''/''" "[]" "join ''/'' cs"] split_path [of cs] by (simp add: abs_path_def sublist_slash)

lemma abs_path_inj:
  assumes "list_all plain cs" "list_all plain ds" "abs_path cs = abs_path ds"
  shows "cs = ds"
proof (cases "cs = [] \<or> ds = []")
  case True
  have ne: "join ''/'' xs = [] \<longleftrightarrow> xs = []" if "list_all plain xs" for xs
  proof (cases "xs = []")
    case False
    with that have "plain (last xs)" by (simp add: list_all_iff)
    with False show ?thesis using join_ne [of xs "''/''"] by (simp add: plain_def)
  qed simp
  have "join ''/'' cs = join ''/'' ds" using assms(3) by (simp add: abs_path_def)
  then have "cs = [] \<longleftrightarrow> ds = []" using ne [OF assms(1)] ne [OF assms(2)] by (simp only:)
  with True show ?thesis by (cases "cs = []") simp_all
next
  case False
  then have "[] # cs = split (abs_path cs) ''/''" "split (abs_path ds) ''/'' = [] # ds"
    using abs_path_split [OF assms(1)] abs_path_split [OF assms(2)] by simp_all
  then have "[] # cs = [] # ds" by (simp only: assms(3))
  then show ?thesis by simp
qed

lemma clean_fold: "list_all plain cs \<Longrightarrow> foldl clean_step acc cs = acc @ cs"
  by (induction cs arbitrary: acc) (auto simp: clean_step_def plain_def)

lemma join_path_abs:
  assumes "list_all plain cs" "plain x"
  shows "join_path (abs_path cs) x = abs_path (cs @ [x])"
proof (cases "cs = []")
  case True
  have "split (''/'' @ ''/'' @ x) ''/'' = [[], [], x]"
    using split_step [of "''/''" "[]" "''/'' @ x"] split_step [of "''/''" "[]" x] assms(2)
    by (simp add: sublist_slash split_None plain_def)
  then show ?thesis using True assms(2) clean_fold [of "[x]" "[]"]
    by (simp add: join_path_def abs_path_def clean_step_def)
next
  case False
  have e: "abs_path cs @ ''/'' @ x = abs_path (cs @ [x])" using False by (simp add: abs_path_def join_append)
  have "split (abs_path (cs @ [x])) ''/'' = [] # cs @ [x]" using assms by (intro abs_path_split) auto
  then show ?thesis unfolding join_path_def e using assms clean_fold [of "cs @ [x]" "[]"]
    by (simp add: clean_step_def abs_path_def)
qed

lemma abs_path_snoc_append: "abs_path (cs @ [x]) @ y = abs_path (cs @ [x @ y])"
  by (cases "cs = []") (auto simp: abs_path_def join_append)

lemma plain_suffix: "CHR ''/'' \<notin> set x \<Longrightarrow> plain (x @ ''.md'')" "CHR ''/'' \<notin> set x \<Longrightarrow> plain (x @ ''.md.tmp'')"
  by (auto simp: plain_def append_eq_Cons_conv)

lemma plain_names [simp]: "plain ''logs''" "plain ''archives''"
  by (auto simp: plain_def)

end
