(* ===== verification/JournalSafety.thy ===== *)
theory JournalSafety
  imports Journal GoPaths
begin

text \<open>
  The safety of the journal service over any history of its handlers, with any failure of the file system: every
  log that is still referenced agrees with its file, no raw entry disappears before it has been handed to the
  AI adapter, and a session has at most one compaction in flight.
\<close>

section \<open>A rolling log in the hands of the journal\<close>

text \<open>The journal only appends summaries with a title, so that its files can always be read back.\<close>

definition log_ok :: "string \<Rightarrow> rolling_log \<times> disk \<Rightarrow> bool" where
  "log_ok p = (\<lambda>(r, d). rl_inv p (r, d) \<and> list_all titled (summaries r))"

definition file_wf :: "disk \<Rightarrow> string \<Rightarrow> bool" where
  "file_wf d p \<longleftrightarrow>
     (case d p of
        None \<Rightarrow> True
      | Some c \<Rightarrow> (\<exists>ss rs. c = render_file ss rs \<and> list_all summary_ok ss \<and> list_all titled ss \<and> list_all raw_entry_ok rs))"

definition raw_on_disk :: "disk \<Rightarrow> string \<Rightarrow> string list" where
  "raw_on_disk d p = (case d p of None \<Rightarrow> [] | Some c \<Rightarrow> snd (parse_rolling_log_file c))"

lemma render_parse:
  "list_all summary_ok ss \<Longrightarrow> list_all titled ss \<Longrightarrow> list_all raw_entry_ok rs \<Longrightarrow>
    parse_rolling_log_file (render_file ss rs) = (ss, rs)"
  by (rule parse_render) (cases ss; auto simp: list_all_iff)+

lemma log_ok_file:
  assumes "log_ok p (r, d)"
  shows "file_wf d p \<and> raw_on_disk d p = raw_tail r"
  using assms
  by (auto simp: log_ok_def rl_inv_def entries_ok_def in_sync_def file_wf_def raw_on_disk_def render_parse list_all_iff
      split: option.splits intro!: exI)

lemma log_ok_disk: "log_ok p (r, d) \<Longrightarrow> d' p = d p \<Longrightarrow> log_ok p (r, d')"
  by (auto simp: log_ok_def rl_inv_def in_sync_def)

lemma file_wf_disk: "file_wf d p \<Longrightarrow> d' p = d p \<Longrightarrow> file_wf d' p"
  by (simp add: file_wf_def)

lemma raw_on_disk_disk: "d' p = d p \<Longrightarrow> raw_on_disk d' p = raw_on_disk d p"
  by (simp add: raw_on_disk_def)

text \<open>Opening a log on a well-formed file.\<close>

lemma open_log_ok:
  assumes "file_wf d p" "new_rolling_log b p [] d = Inr r"
  shows "log_ok p (r, d)"
proof -
  have "load_from_file b d (initial_log p) = Inr r" using assms(2) by (simp add: new_rolling_log_def split: if_splits)
  then show ?thesis using assms(1)
    by (auto simp: load_from_file_def initial_log_def log_ok_def rl_inv_def counts_ok_def entries_ok_def in_sync_def
        file_wf_def render_parse list_all_iff Let_def split: option.splits if_splits)
qed

text \<open>
  What the journal relies on when it runs an operation on a log: it keeps \<open>log_ok\<close>, it changes only the live
  file, its temporary file and perhaps a file in \<open>extra\<close>, and it changes the raw entries as \<open>tail\<close> says.
\<close>

locale log_operation =
  fixes run :: "rolling_log \<times> disk \<Rightarrow> 'e \<times> rolling_log \<times> disk"
    and pre :: "string \<Rightarrow> rolling_log \<Rightarrow> bool"
    and extra :: "string set"
    and tail :: "'e \<Rightarrow> string list \<Rightarrow> string list \<Rightarrow> bool"
  assumes keeps: "pre p r \<Longrightarrow> log_ok p (r, d) \<Longrightarrow> run (r, d) = (e, r', d') \<Longrightarrow> log_ok p (r', d')"
    and frame: "pre p r \<Longrightarrow> log_ok p (r, d) \<Longrightarrow> run (r, d) = (e, r', d') \<Longrightarrow> q \<notin> {p, p @ ''.tmp''} \<union> extra \<Longrightarrow> d' q = d q"
    and effect: "pre p r \<Longrightarrow> log_ok p (r, d) \<Longrightarrow> run (r, d) = (e, r', d') \<Longrightarrow> tail e (raw_tail r) (raw_tail r')"
begin

lemma other_log:
  assumes "pre p r" "log_ok p (r, d)" "run (r, d) = (e, r', d')" "q \<notin> {p, p @ ''.tmp''} \<union> extra"
  shows "log_ok q (s, d) \<Longrightarrow> log_ok q (s, d')" "file_wf d q \<Longrightarrow> file_wf d' q" "raw_on_disk d' q = raw_on_disk d q"
proof -
  have q: "d' q = d q" by (rule frame [OF assms])
  show "log_ok q (s, d) \<Longrightarrow> log_ok q (s, d')" using log_ok_disk [of q s d d'] q by simp
  show "file_wf d q \<Longrightarrow> file_wf d' q" using file_wf_disk [of d q d'] q by simp
  show "raw_on_disk d' q = raw_on_disk d q" using raw_on_disk_disk [of d' q d] q by simp
qed

lemma own_file:
  assumes "pre p r" "log_ok p (r, d)" "run (r, d) = (e, r', d')"
  shows "file_wf d' p \<and> tail e (raw_on_disk d p) (raw_on_disk d' p)"
  using log_ok_file [OF keeps [OF assms]] log_ok_file [OF assms(2)] effect [OF assms] by simp

end

text \<open>Nothing but a live file and its temporary file has changed.\<close>

definition kept_but :: "string \<Rightarrow> disk \<Rightarrow> disk \<Rightarrow> bool" where
  "kept_but p d d' \<longleftrightarrow> (\<forall>q. q \<notin> {p, p @ ''.tmp''} \<longrightarrow> d' q = d q)"

lemma kept_but_refl [intro]: "kept_but p d d"
  by (simp add: kept_but_def)

lemma persist_kept: "persist_to_file f r d = (e, d1) \<Longrightarrow> base_path r = p \<Longrightarrow> kept_but p d d1"
  by (auto simp: kept_but_def persist_to_file_def Let_def split: option.splits os_fault.splits)

lemma append_raw_kept: "append_raw f t (r, d) = (e, r', d') \<Longrightarrow> kept_but (base_path r) d d'"
  by (auto simp: append_raw_def Let_def split: if_splits prod.splits option.splits intro: persist_kept)

lemma append_summary_kept: "append_summary f t (r, d) = (e, r', d') \<Longrightarrow> kept_but (base_path r) d d'"
  by (auto simp: append_summary_def Let_def split: if_splits prod.splits option.splits intro: persist_kept)

lemma older_half_kept: "older_half f (r, d) = (e, r', d') \<Longrightarrow> kept_but (base_path r) d d'"
  by (auto simp: older_half_def Let_def split: if_splits prod.splits option.splits intro: persist_kept)

lemma commit_archival_kept: "commit_archival f n (r, d) = (e, r', d') \<Longrightarrow> kept_but (base_path r) d d'"
  by (auto simp: commit_archival_def Let_def split: if_splits prod.splits option.splits intro: persist_kept)

lemma log_ok_path: "log_ok p (r, d) \<Longrightarrow> base_path r = p"
  by (simp add: log_ok_def rl_inv_def)

lemma trim_nl_header: "trim_nl (CHR ''#'' # y) = CHR ''#'' # trim_right (\<lambda>c. c = NL) y"
  using trim_right_append [of "''#''" "\<lambda>c. c = NL" y] by (simp add: trim_def)

lemma titled_summary: "titled (trim_nl (''### [summary] '' @ a))"
proof -
  have t: "trim_right (\<lambda>c. c = NL) (c # y) = c # trim_right (\<lambda>c. c = NL) y" if "c \<noteq> NL" for c y
    using trim_right_append [of "[c]" "\<lambda>c. c = NL" y] that by simp
  show ?thesis unfolding append_Cons append_Nil trim_nl_header by (subst t, simp)+ (simp add: titled_def)
qed

interpretation raw: log_operation "append_raw f t" "\<lambda>p r. True" "{}"
  "\<lambda>e xs ys. \<exists>x. ys = xs @ x \<and> (e \<noteq> None \<longrightarrow> x = [])" for f t
proof (unfold_locales, goal_cases)
  case (1 p r d e r' d')
  then show ?case using append_raw_inv [of p r d f t e r' d']
    by (auto simp: log_ok_def append_raw_def Let_def split: if_splits prod.splits option.splits)
next
  case (2 p r d e r' d' q)
  then show ?case using append_raw_kept [of f t r d e r' d'] log_ok_path [of p r d] by (auto simp: kept_but_def)
qed (auto simp: append_raw_def Let_def split: if_splits prod.splits option.splits)

interpretation summary: log_operation "append_summary f (format_summary a b t)" "\<lambda>p r. True" "{}"
  "\<lambda>e xs ys. ys = xs" for f a b t
proof (unfold_locales, goal_cases)
  case (1 p r d e r' d')
  have "titled (trim_nl (format_summary a b t))"
    using titled_summary by (simp add: format_summary_def summary_header_def)
  with 1 append_summary_inv [of p r d f "format_summary a b t" e r' d'] show ?case
    by (auto simp: log_ok_def append_summary_def Let_def split: if_splits prod.splits option.splits)
next
  case (2 p r d e r' d' q)
  then show ?case using append_summary_kept [of f "format_summary a b t" r d e r' d'] log_ok_path [of p r d]
    by (auto simp: kept_but_def)
qed (auto simp: append_summary_def Let_def split: if_splits prod.splits option.splits)

text \<open>Taking the older half returns it, joined; a log without entries returns the empty text.\<close>

definition handed_over :: "rl_error + string \<Rightarrow> string list \<Rightarrow> string list \<Rightarrow> bool" where
  "handed_over e xs ys \<longleftrightarrow>
     (case e of
        Inl _ \<Rightarrow> ys = xs
      | Inr t \<Rightarrow> if t = [] then ys = xs else \<exists>old. old \<noteq> [] \<and> xs = old @ ys \<and> t = join para old)"

lemma half_point_pos: "0 < half_point n"
  by (simp add: half_point_def Let_def)

lemma older_half_hands_over:
  assumes "log_ok p (r, d)" "older_half f (r, d) = (e, r', d')"
  shows "handed_over e (raw_tail r) (raw_tail r')"
proof (cases "raw_tail r = []")
  case False
  let ?old = "take (half_point (length (raw_tail r))) (raw_tail r)"
  have o: "?old \<noteq> []" using False half_point_pos by simp
  then have "last ?old \<in> set (raw_tail r)" by (meson last_in_set in_set_takeD)
  then have "last ?old \<noteq> []" using assms(1) by (auto simp: log_ok_def rl_inv_def entries_ok_def raw_entry_ok_def)
  with o have "join para ?old \<noteq> []" by (rule join_ne)
  with False o assms(2) show ?thesis
    by (auto simp: handed_over_def older_half_def Let_def split: prod.splits option.splits intro!: exI [of _ ?old])
qed (use assms(2) in \<open>auto simp: handed_over_def older_half_def\<close>)

interpretation older: log_operation "older_half f" "\<lambda>p r. True" "{}" handed_over for f
proof (unfold_locales, goal_cases)
  case (1 p r d e r' d')
  then show ?case using older_half_inv [of p r d f e r' d']
    by (auto simp: log_ok_def older_half_def list_all_iff Let_def split: if_splits prod.splits option.splits)
next
  case (2 p r d e r' d' q)
  then show ?case using older_half_kept [of f r d e r' d'] log_ok_path [of p r d] by (auto simp: kept_but_def)
qed (rule older_half_hands_over)

lemma list_all_drop: "list_all P xs \<Longrightarrow> list_all P (drop n xs)"
  by (auto simp: list_all_iff dest: in_set_dropD)

interpretation commit: log_operation "commit_archival f n" "\<lambda>p r. True" "{}" "\<lambda>e xs ys. ys = xs" for f n
proof (unfold_locales, goal_cases)
  case (1 p r d e r' d')
  then show ?case using commit_archival_inv [of p r d f n e r' d']
    by (auto simp: log_ok_def commit_archival_def Let_def intro: list_all_drop
        split: if_splits prod.splits option.splits)
next
  case (2 p r d e r' d' q)
  then show ?case using commit_archival_kept [of f n r d e r' d'] log_ok_path [of p r d] by (auto simp: kept_but_def)
qed (auto simp: commit_archival_def Let_def split: if_splits prod.splits option.splits)

definition archive_file :: "string \<Rightarrow> string \<Rightarrow> string \<Rightarrow> string" where
  "archive_file base sid date = join_path (join_path (join_path base ''archives'') sid) (date @ ''.md'')"

text \<open>The workflow of archival: nothing, or the archive alone, or the archive and then the commit.\<close>

lemma trigger_archival_steps:
  assumes "trigger_archival base sid date f1 f2 (r, d) = (ev, r', d')"
  obtains d1 where "\<forall>q. q \<noteq> archive_file base sid date \<longrightarrow> d1 q = d q"
    "r' = r \<and> d' = d1 \<or> (\<exists>n e. commit_archival f2 n (r, d1) = (e, r', d'))"
proof (cases "older_summaries r = []")
  case True
  with assms that [of d] show thesis by (auto simp: trigger_archival_def)
next
  case False
  obtain e1 d1 where a: "archive f1 (join_path (join_path base ''archives'') sid) (older_summaries r) date d = (e1, d1)"
    by (metis surj_pair)
  have "\<forall>q. q \<noteq> archive_file base sid date \<longrightarrow> d1 q = d q"
    using archive_other [OF a] by (simp add: archive_file_def)
  moreover have "r' = r \<and> d' = d1 \<or> (\<exists>n e. commit_archival f2 n (r, d1) = (e, r', d'))"
    using assms a False by (auto simp: trigger_archival_def Let_def split: option.splits prod.splits)
  ultimately show thesis by (rule that)
qed

interpretation archival: log_operation "trigger_archival base sid date f1 f2"
  "\<lambda>p r. archive_file base sid date \<notin> {p, p @ ''.tmp''}" "{archive_file base sid date}" "\<lambda>e xs ys. ys = xs"
  for base sid date f1 f2
proof (unfold_locales, goal_cases)
  case (1 p r d e r' d')
  obtain d1 where d1: "\<forall>q. q \<noteq> archive_file base sid date \<longrightarrow> d1 q = d q"
    and s: "r' = r \<and> d' = d1 \<or> (\<exists>n e. commit_archival f2 n (r, d1) = (e, r', d'))"
    by (rule trigger_archival_steps [OF 1(3)])
  have "p \<noteq> archive_file base sid date" using 1(1) by auto
  with d1 have "d1 p = d p" by simp
  with log_ok_disk [of p r d d1] 1(2) have "log_ok p (r, d1)" by simp
  with s show ?case using commit.keeps by blast
next
  case (2 p r d e r' d' q)
  obtain d1 where d1: "\<forall>q. q \<noteq> archive_file base sid date \<longrightarrow> d1 q = d q"
    and s: "r' = r \<and> d' = d1 \<or> (\<exists>n e. commit_archival f2 n (r, d1) = (e, r', d'))"
    by (rule trigger_archival_steps [OF 2(3)])
  have "p \<noteq> archive_file base sid date" using 2(1) by auto
  with d1 have "d1 p = d p" by simp
  with log_ok_disk [of p r d d1] 2(2) have "log_ok p (r, d1)" by simp
  moreover have "q \<notin> {p, p @ ''.tmp''} \<union> {}" using 2(4) by blast
  ultimately have "d' q = d1 q" using s commit.frame by blast
  with d1 2(4) show ?case by simp
next
  case (3 p r d e r' d')
  obtain d1 where d1: "\<forall>q. q \<noteq> archive_file base sid date \<longrightarrow> d1 q = d q"
    and s: "r' = r \<and> d' = d1 \<or> (\<exists>n e. commit_archival f2 n (r, d1) = (e, r', d'))"
    by (rule trigger_archival_steps [OF 3(3)])
  have "p \<noteq> archive_file base sid date" using 3(1) by auto
  with d1 have "d1 p = d p" by simp
  with log_ok_disk [of p r d d1] 3(2) have "log_ok p (r, d1)" by simp
  with s show ?case using commit.effect by blast
qed

section \<open>Files of different sessions\<close>

lemma journal_path_abs: "list_all plain cs \<Longrightarrow> CHR ''/'' \<notin> set sid \<Longrightarrow> journal_path (abs_path cs) sid = abs_path (cs @ [sid @ ''.md''])"
  by (simp add: journal_path_def join_path_abs plain_suffix)

lemma journal_path_inj:
  assumes "clean_base base" "plain a" "plain b" "journal_path base a = journal_path base b"
  shows "a = b"
proof -
  obtain cs where "base = abs_path cs" and cs: "list_all plain cs" using assms(1) by (auto simp: clean_base_def)
  with assms journal_path_abs [OF cs]
  have "abs_path (cs @ [a @ ''.md'']) = abs_path (cs @ [b @ ''.md''])" by (simp add: plain_def)
  then have "cs @ [a @ ''.md''] = cs @ [b @ ''.md'']"
    using abs_path_inj [of "cs @ [a @ ''.md'']" "cs @ [b @ ''.md'']"] cs assms(2,3) by (simp add: plain_suffix plain_def)
  then show ?thesis by simp
qed

lemma journal_path_tmp:
  assumes "clean_base base" "plain a" "plain b"
  shows "journal_path base a \<noteq> journal_path base b @ ''.tmp''"
proof
  obtain cs where "base = abs_path cs" and cs: "list_all plain cs" using assms(1) by (auto simp: clean_base_def)
  moreover assume "journal_path base a = journal_path base b @ ''.tmp''"
  ultimately have "abs_path (cs @ [a @ ''.md'']) = abs_path (cs @ [b @ ''.md.tmp''])"
    using assms journal_path_abs [OF cs] by (simp add: plain_def abs_path_snoc_append)
  then have "cs @ [a @ ''.md''] = cs @ [b @ ''.md.tmp'']"
    using abs_path_inj [of "cs @ [a @ ''.md'']" "cs @ [b @ ''.md.tmp'']"] cs assms(2,3) by (simp add: plain_suffix plain_def)
  then have "last (a @ ''.md'') = last (b @ ''.md.tmp'')" by simp
  then show False by simp
qed

lemma deep_path:
  assumes "clean_base base" "plain a" "plain b" "plain x" "CHR ''/'' \<notin> set y"
  shows "join_path (join_path (join_path base x) a) (y @ ''.md'') \<notin> {journal_path base b, journal_path base b @ ''.tmp''}"
proof -
  obtain cs where b: "base = abs_path cs" and cs: "list_all plain cs" using assms(1) by (auto simp: clean_base_def)
  let ?l = "cs @ [x, a, y @ ''.md'']"
  have l: "join_path (join_path (join_path base x) a) (y @ ''.md'') = abs_path ?l"
    using assms cs unfolding b by (simp add: join_path_abs plain_suffix)
  have s: "CHR ''/'' \<notin> set b" using assms(3) by (simp add: plain_def)
  have "list_all plain ?l" using assms cs by (simp add: plain_suffix)
  then have "abs_path ?l \<noteq> abs_path (cs @ [b @ ''.md''])" "abs_path ?l \<noteq> abs_path (cs @ [b @ ''.md.tmp''])"
    using abs_path_inj [of ?l "cs @ [b @ ''.md'']"] abs_path_inj [of ?l "cs @ [b @ ''.md.tmp'']"] cs s
    by (auto simp: plain_suffix)
  with s cs show ?thesis unfolding l unfolding b by (simp add: journal_path_abs abs_path_snoc_append)
qed

lemma decimal_no_slash: "CHR ''/'' \<notin> set (decimal n)"
proof (induction n rule: decimal.induct)
  case (1 n)
  have "CHR ''/'' \<noteq> char_of (48 + k)" if "k < 10" for k :: nat
  proof
    assume "CHR ''/'' = char_of (48 + k)"
    then have "(of_char (CHR ''/'') :: nat) = of_char (char_of (48 + k) :: char)" by simp
    with that show False by simp
  qed
  from this [of n] this [of "n mod 10"] show ?case using 1 by (subst decimal.simps) auto
qed

section \<open>The invariant\<close>

text \<open>The logs that the journal can still use for a session: the active one and those of pending compactions.\<close>

definition refers :: "journal \<Rightarrow> string \<Rightarrow> nat \<Rightarrow> bool" where
  "refers j sid h \<longleftrightarrow>
     active_logs j sid = Some h \<or>
     (\<exists>pid pc. map_of (pending_compactions j) pid = Some pc \<and> pc_session pc = sid \<and> pc_log pc = h)"

definition session_file :: "journal \<Rightarrow> string \<Rightarrow> string" where
  "session_file j sid = journal_path (journal_base j) sid"

lemma session_file_simps [simp]:
  "session_file (j\<lparr>active_logs := a\<rparr>) = session_file j"
  "session_file (j\<lparr>pending_compactions := p\<rparr>) = session_file j"
  "session_file (j\<lparr>journal_events := es\<rparr>) = session_file j"
  "session_file (j\<lparr>log_heap := hp\<rparr>) = session_file j"
  "session_file (j\<lparr>journal_disk := d\<rparr>) = session_file j"
  "session_file (j\<lparr>compaction_in_flight := fl\<rparr>) = session_file j"
  "session_file (j\<lparr>compaction_started_at := st\<rparr>) = session_file j"
  "session_file (j\<lparr>next_log := n\<rparr>) = session_file j"
  by (simp_all add: session_file_def fun_eq_iff)

definition refs_ok :: "journal \<Rightarrow> bool" where
  "refs_ok j \<longleftrightarrow>
     (\<forall>sid h. refers j sid h \<longrightarrow> plain sid \<and> h < next_log j \<and>
        (\<exists>r. log_heap j h = Some r \<and> log_ok (session_file j sid) (r, journal_disk j))) \<and>
     (\<forall>sid h h'. refers j sid h \<longrightarrow> refers j sid h' \<longrightarrow> h = h')"

definition files_ok :: "journal \<Rightarrow> bool" where
  "files_ok j \<longleftrightarrow> (\<forall>sid. plain sid \<longrightarrow> file_wf (journal_disk j) (session_file j sid))"

definition pending_for :: "journal \<Rightarrow> string \<Rightarrow> string \<Rightarrow> bool" where
  "pending_for j sid pid \<longleftrightarrow> (\<exists>pc. map_of (pending_compactions j) pid = Some pc \<and> pc_session pc = sid)"

text \<open>At most one compaction per session, and the guard is up while it is pending and the session is active.\<close>

definition guard_ok :: "journal \<Rightarrow> bool" where
  "guard_ok j \<longleftrightarrow> mwf (pending_compactions j) \<and>
     (\<forall>sid pid pid'. pending_for j sid pid \<longrightarrow> pending_for j sid pid' \<longrightarrow> pid = pid') \<and>
     (\<forall>sid pid. active_logs j sid \<noteq> None \<longrightarrow> pending_for j sid pid \<longrightarrow> sid \<in> compaction_in_flight j)"

definition journal_inv :: "journal \<Rightarrow> bool" where
  "journal_inv j \<longleftrightarrow> clean_base (journal_base j) \<and> refs_ok j \<and> files_ok j \<and> guard_ok j"

text \<open>What the outside has seen of the raw entries of a session: the texts handed to the AI adapter, then the entries in its file.\<close>

definition prompt_texts :: "string \<Rightarrow> journal_event list \<Rightarrow> string list" where
  "prompt_texts sid es = map prompt_text (filter (\<lambda>ev. case ev of Compaction_Prompt s _ _ \<Rightarrow> s = sid | _ \<Rightarrow> False) es)"

definition journal_story :: "journal \<Rightarrow> string \<Rightarrow> string" where
  "journal_story j sid =
     join para (prompt_texts sid (journal_events j) @ raw_on_disk (journal_disk j) (session_file j sid))"

definition grows :: "journal \<Rightarrow> journal \<Rightarrow> bool" where
  "grows j j' \<longleftrightarrow> (\<forall>sid. plain sid \<longrightarrow> prefix (journal_story j sid) (journal_story j' sid))"

lemma grows_refl [simp]: "grows j j"
  by (simp add: grows_def)

lemma grows_trans: "grows j j1 \<Longrightarrow> grows j1 j2 \<Longrightarrow> grows j j2"
  by (auto simp: grows_def intro: prefix_order.order_trans)

lemma prefix_join: "prefix (join sep xs) (join sep (xs @ ys))"
  by (cases "xs = []"; cases "ys = []") (simp_all add: join_append)

lemma join_nested:
  "old \<noteq> [] \<Longrightarrow> join sep (xs @ [join sep old] @ ys) = join sep (xs @ old @ ys)"
  by (cases "xs = []"; cases "ys = []") (simp_all add: join_append join_Cons)

text \<open>A step that keeps the maps, the events and every journal file.\<close>

definition same_maps :: "journal \<Rightarrow> journal \<Rightarrow> bool" where
  "same_maps j j' \<longleftrightarrow> journal_base j' = journal_base j \<and> active_logs j' = active_logs j \<and>
     pending_compactions j' = pending_compactions j \<and> compaction_in_flight j' = compaction_in_flight j \<and>
     next_log j' = next_log j \<and> journal_events j' = journal_events j"

lemma same_maps_refl [simp]: "same_maps j j"
  by (simp add: same_maps_def)

lemma same_maps_trans: "same_maps j j1 \<Longrightarrow> same_maps j1 j2 \<Longrightarrow> same_maps j j2"
  by (simp add: same_maps_def)

lemma same_maps_simps:
  assumes "same_maps j j'"
  shows "refers j' = refers j" "session_file j' = session_file j" "pending_for j' = pending_for j"
    "guard_ok j' = guard_ok j"
  using assms by (auto simp: same_maps_def refers_def session_file_def pending_for_def guard_ok_def fun_eq_iff)

context log_operation
begin

lemma on_log_inv:
  assumes inv: "journal_inv j" and h: "refers j sid h"
    and pre: "pre (session_file j sid) (the (log_heap j h))"
    and extra: "\<And>s. plain s \<Longrightarrow> session_file j s \<notin> extra"
    and run: "on_log h run j = (e, j')"
  shows "journal_inv j' \<and> same_maps j j' \<and>
    (\<forall>s. plain s \<longrightarrow> s \<noteq> sid \<longrightarrow> raw_on_disk (journal_disk j') (session_file j s) = raw_on_disk (journal_disk j) (session_file j s)) \<and>
    tail e (raw_on_disk (journal_disk j) (session_file j sid)) (raw_on_disk (journal_disk j') (session_file j sid))"
proof -
  let ?p = "session_file j"
  obtain r where r: "log_heap j h = Some r" "log_ok (?p sid) (r, journal_disk j)" "plain sid"
    using inv h unfolding journal_inv_def refs_ok_def by blast
  obtain r' d' where o: "run (r, journal_disk j) = (e, r', d')" and j': "j' = j\<lparr>log_heap := (log_heap j)(h \<mapsto> r'), journal_disk := d'\<rparr>"
    using run r(1) by (auto simp: on_log_def split: prod.splits)
  have p: "pre (?p sid) r" using pre r(1) by simp
  note ok = keeps [OF p r(2) o] and own = own_file [OF p r(2) o]
  have sm: "same_maps j j'" by (simp add: j' same_maps_def)
  have q: "?p s \<notin> {?p sid, ?p sid @ ''.tmp''} \<union> extra" if "plain s" "s \<noteq> sid" for s
    using that r(3) inv extra [OF that(1)] journal_path_inj [of "journal_base j" s sid] journal_path_tmp [of "journal_base j" s sid]
    by (auto simp: session_file_def journal_inv_def)
  note other = other_log [OF p r(2) o q]
  have "refs_ok j'"
    unfolding refs_ok_def same_maps_simps [OF sm]
  proof (intro conjI allI impI)
    fix s k assume k: "refers j s k"
    then obtain r2 where r2: "plain s" "k < next_log j" "log_heap j k = Some r2" "log_ok (?p s) (r2, journal_disk j)"
      using inv unfolding journal_inv_def refs_ok_def by blast
    show "plain s" by fact
    show "k < next_log j'" using r2(2) by (simp add: j')
    show "\<exists>r. log_heap j' k = Some r \<and> log_ok (?p s) (r, journal_disk j')"
    proof (cases "s = sid")
      case True
      then have "k = h" using inv h k by (auto simp: journal_inv_def refs_ok_def)
      with ok True show ?thesis by (simp add: j')
    next
      case False
      have "k \<noteq> h"
      proof
        assume "k = h"
        then have "?p s = ?p sid" using r2 r log_ok_path [OF r2(4)] log_ok_path [OF r(2)] by simp
        with q [OF r2(1) False] show False by simp
      qed
      with other(1) [OF r2(1) False r2(4)] r2(3) show ?thesis by (simp add: j')
    qed
  next
    fix s k k' assume "refers j s k" "refers j s k'"
    with inv show "k = k'" unfolding journal_inv_def refs_ok_def by blast
  qed
  moreover have "files_ok j'"
    unfolding files_ok_def same_maps_simps [OF sm] using inv own other(2)
    by (auto simp: journal_inv_def files_ok_def j')
  ultimately have "journal_inv j'"
    using inv sm by (simp add: journal_inv_def same_maps_simps) (simp add: same_maps_def)
  with sm own other(3) show ?thesis by (auto simp: j')
qed

end

section \<open>Steps that leave the logs alone\<close>

text \<open>Only files that are not journals have changed.\<close>

definition quiet :: "journal \<Rightarrow> journal \<Rightarrow> bool" where
  "quiet j j' \<longleftrightarrow> same_maps j j' \<and> log_heap j' = log_heap j \<and>
     (\<forall>sid. plain sid \<longrightarrow> journal_disk j' (session_file j sid) = journal_disk j (session_file j sid))"

lemma quiet_refl [simp]: "quiet j j"
  by (simp add: quiet_def)

lemma quiet_trans: "quiet j j1 \<Longrightarrow> quiet j1 j2 \<Longrightarrow> quiet j j2"
  by (auto simp: quiet_def same_maps_simps intro: same_maps_trans)

lemma same_story:
  assumes "journal_base j' = journal_base j" "journal_events j' = journal_events j"
    "\<forall>sid. plain sid \<longrightarrow> journal_disk j' (session_file j sid) = journal_disk j (session_file j sid)"
  shows "grows j j'"
proof -
  have "session_file j' = session_file j" using assms(1) by (simp add: session_file_def fun_eq_iff)
  with assms(2,3) show ?thesis by (simp add: grows_def journal_story_def raw_on_disk_def)
qed

text \<open>Only bookkeeping has changed, and no reference is new.\<close>

lemma bookkeeping:
  assumes inv: "journal_inv j"
    and same: "journal_base j' = journal_base j" "journal_events j' = journal_events j" "log_heap j' = log_heap j"
      "next_log j' = next_log j"
    and disk: "\<forall>sid. plain sid \<longrightarrow> journal_disk j' (session_file j sid) = journal_disk j (session_file j sid)"
    and refs: "\<And>sid h. refers j' sid h \<Longrightarrow> refers j sid h"
    and guard: "guard_ok j'"
  shows "journal_inv j' \<and> grows j j'"
proof
  have sf: "session_file j' = session_file j" using same(1) by (simp add: session_file_def fun_eq_iff)
  have "refs_ok j'" unfolding refs_ok_def sf same
  proof (intro conjI allI impI)
    fix sid h assume "refers j' sid h"
    then have "refers j sid h" by (rule refs)
    then obtain r where "plain sid" "h < next_log j" "log_heap j h = Some r" "log_ok (session_file j sid) (r, journal_disk j)"
      using inv unfolding journal_inv_def refs_ok_def by blast
    then show "plain sid" "h < next_log j" "\<exists>r. log_heap j h = Some r \<and> log_ok (session_file j sid) (r, journal_disk j')"
      using disk log_ok_disk [of "session_file j sid" r "journal_disk j" "journal_disk j'"] by auto
  next
    fix sid h h' assume "refers j' sid h" "refers j' sid h'"
    then have "refers j sid h" "refers j sid h'" using refs by blast+
    with inv show "h = h'" unfolding journal_inv_def refs_ok_def by blast
  qed
  moreover have "files_ok j'" using inv disk unfolding journal_inv_def files_ok_def sf by (auto simp: file_wf_def)
  ultimately show "journal_inv j'" using inv guard same(1) by (simp add: journal_inv_def)
  show "grows j j'" by (rule same_story [OF same(1,2) disk])
qed

lemma quiet_inv:
  assumes "journal_inv j" "quiet j j'"
  shows "journal_inv j' \<and> grows j j'"
proof (rule bookkeeping [OF assms(1)])
  show "refers j' sid h \<Longrightarrow> refers j sid h" for sid h using assms(2) same_maps_simps(1) [of j j'] by (simp add: quiet_def)
  show "guard_ok j'" using assms same_maps_simps(4) [of j j'] by (simp add: quiet_def journal_inv_def)
qed (use assms(2) in \<open>auto simp: quiet_def same_maps_def\<close>)

subsection \<open>The audit files\<close>

lemma pad_year_no_slash: "CHR ''/'' \<notin> set (pad_year n)"
  by (simp add: pad_year_def Let_def decimal_no_slash)

lemma two_digits_no_slash: "n < 100 \<Longrightarrow> CHR ''/'' \<notin> set (two_digits n)"
proof -
  have "CHR ''/'' \<noteq> char_of (48 + k)" if "k < 10" for k :: nat
    using decimal_no_slash [of k] that by (simp add: decimal.simps [of k])
  moreover assume "n < 100"
  ultimately show ?thesis by (simp add: two_digits_def)
qed

lemma format_date_no_slash: "CHR ''/'' \<notin> set (format_date t)"
proof -
  obtain y m k where c: "civil (day_of t) = (y, m, k)" by (cases "civil (day_of t)") auto
  note sp = civil_spec [OF c]
  with month_lengths_le [of "m - 1" y] have "m < 100" "k < 100" by linarith+
  then show ?thesis using c by (simp add: format_date_def date_text_def pad_year_no_slash two_digits_no_slash)
qed

lemma audit_file_other:
  assumes "journal_inv j" "plain sid" "plain s"
  shows "session_file j s \<noteq> audit_file (journal_base j) sid (format_date t)"
  using deep_path [of "journal_base j" sid s "''logs''" "format_date t"] assms format_date_no_slash
  by (auto simp: journal_inv_def session_file_def audit_file_def audit_dir_def)

lemma file_updates [simp]:
  "q \<noteq> f \<Longrightarrow> touch_file f d q = d q" "q \<noteq> f \<Longrightarrow> extend_file f t d q = d q"
  by (simp_all add: touch_file_def extend_file_def)

lemma open_log_file_other: "open_log_file io f d = (e, d') \<Longrightarrow> q \<noteq> f \<Longrightarrow> d' q = d q"
  by (auto simp: open_log_file_def split: open_result.splits if_splits)

lemma write_string_other: "write_string io f t d = (e, d') \<Longrightarrow> q \<noteq> f \<Longrightarrow> d' q = d q"
  by (auto simp: write_string_def split: option.splits)

definition only_file :: "string \<Rightarrow> journal \<Rightarrow> journal \<Rightarrow> bool" where
  "only_file f j j' \<longleftrightarrow> same_maps j j' \<and> log_heap j' = log_heap j \<and>
     (\<forall>q. q \<noteq> f \<longrightarrow> journal_disk j' q = journal_disk j q)"

lemma get_log_file_only:
  "get_log_file io sid date j = (e, j') \<Longrightarrow> only_file (audit_file (journal_base j) sid date) j j'"
  by (auto simp: get_log_file_def only_file_def same_maps_def Let_def split: prod.splits option.splits if_splits
      dest: open_log_file_other)

lemma write_log_entry_only: "only_file (audit_file (journal_base j) sid (format_date t)) j (snd (write_log_entry io sid entry t j))"
proof (cases "sid \<notin> log_dirs_created j \<and> mkdir_fails io \<or> active_logs j sid = None")
  case True
  then show ?thesis by (auto simp: write_log_entry_def only_file_def same_maps_def Let_def)
next
  case False
  let ?j = "j\<lparr>log_dirs_created := insert sid (log_dirs_created j)\<rparr>"
  obtain e j1 where g: "get_log_file io sid (format_date t) ?j = (e, j1)" by fastforce
  note o = get_log_file_only [OF g]
  show ?thesis
  proof (cases e)
    case (Some err)
    with False g o show ?thesis by (auto simp: write_log_entry_def only_file_def same_maps_def Let_def)
  next
    case None
    obtain e2 d where w: "write_string io (audit_file (journal_base j1) sid (format_date t)) (entry @ [NL]) (journal_disk j1) = (e2, d)"
      by fastforce
    have "snd (write_log_entry io sid entry t j) = j1\<lparr>journal_disk := d\<rparr>"
      using False g None w by (auto simp: write_log_entry_def Let_def)
    with o write_string_other [OF w] show ?thesis by (auto simp: only_file_def same_maps_def)
  qed
qed

lemma only_file_quiet:
  "only_file (audit_file (journal_base j) sid (format_date t)) j j' \<Longrightarrow> journal_inv j \<Longrightarrow> plain sid \<Longrightarrow> quiet j j'"
  using audit_file_other [of j sid _ t] by (simp add: only_file_def quiet_def)

lemma write_log_entry_quiet: "journal_inv j \<Longrightarrow> plain sid \<Longrightarrow> quiet j (snd (write_log_entry io sid entry t j))"
  by (rule only_file_quiet [OF write_log_entry_only])

lemma write_fallback_quiet:
  assumes "journal_inv j" "plain sid"
  shows "quiet j (snd (write_fallback_log_entry io sid entry t j))"
proof (rule only_file_quiet [OF _ assms])
  show "only_file (audit_file (journal_base j) sid (format_date t)) j (snd (write_fallback_log_entry io sid entry t j))"
    by (auto simp: write_fallback_log_entry_def only_file_def same_maps_def split: prod.splits dest: write_string_other)
qed

section \<open>Compaction\<close>

lemma map_of_filter_values:
  "mwf m \<Longrightarrow> map_of (filter (\<lambda>(k, v). P v) m) k = (case map_of m k of None \<Rightarrow> None | Some v \<Rightarrow> if P v then Some v else None)"
proof (induction m)
  case (Cons a m)
  obtain k' v where [simp]: "a = (k', v)" by (cases a)
  from Cons.prems have "map_of m k' = None" "mwf m" by (auto simp: mwf_def map_of_eq_None_iff)
  with Cons.IH show ?case by auto
qed simp

lemma mwf_drop_pending: "mwf m \<Longrightarrow> mwf (drop_pending sid m)"
  unfolding mwf_def drop_pending_def by (rule distinct_map_filter)

lemma map_of_drop_pending:
  "mwf m \<Longrightarrow> map_of (drop_pending sid m) pid = Some pc \<longleftrightarrow> map_of m pid = Some pc \<and> pc_session pc \<noteq> sid"
  by (auto simp: drop_pending_def map_of_filter_values split: option.splits)

lemma check_stale_safe:
  assumes inv: "journal_inv j"
  shows "journal_inv (check_stale_compaction ck sid j) \<and> grows j (check_stale_compaction ck sid j) \<and>
    active_logs (check_stale_compaction ck sid j) = active_logs j"
proof (cases "check_stale_compaction ck sid j = j")
  case False
  then have j': "check_stale_compaction ck sid j = j\<lparr>pending_compactions := drop_pending sid (pending_compactions j),
      compaction_in_flight := compaction_in_flight j - {sid},
      compaction_started_at := (compaction_started_at j)(sid := None)\<rparr>" (is "_ = ?j")
    unfolding check_stale_compaction_def by (cases "compaction_started_at j sid") (simp_all only: option.case if_True if_False simp_thms split: if_split_asm)
  have m: "mwf (pending_compactions j)" and g: "guard_ok j" using inv by (auto simp: journal_inv_def guard_ok_def)
  have "pending_for ?j s pid \<longleftrightarrow> pending_for j s pid \<and> s \<noteq> sid" for s pid
    by (auto simp: pending_for_def map_of_drop_pending [OF m])
  then have "guard_ok ?j" using g by (auto simp: guard_ok_def mwf_drop_pending)
  moreover have "refers ?j s h \<Longrightarrow> refers j s h" for s h
    by (auto simp: refers_def map_of_drop_pending [OF m])
  ultimately have "journal_inv ?j \<and> grows j ?j" by (intro bookkeeping [OF inv]) auto
  then show ?thesis unfolding j' by simp
qed (use inv in simp)

text \<open>Taking the older half and publishing it is one change of the story: what leaves the file is in the prompt.\<close>

lemma publish_safe:
  assumes inv: "journal_inv j" and active: "active_logs j sid = Some h" and none: "\<And>pid. \<not> pending_for j sid pid"
    and flag: "sid \<in> compaction_in_flight j"
    and run: "on_log h (older_half f) j = (Inr older, j1)" and ne: "older \<noteq> []"
    and pc: "pc_session pc = sid" "pc_log pc = h"
  shows "journal_inv (j1\<lparr>pending_compactions := mput pid pc (pending_compactions j1),
      journal_events := journal_events j1 @ [Compaction_Prompt sid pid older]\<rparr>) \<and>
    grows j (j1\<lparr>pending_compactions := mput pid pc (pending_compactions j1),
      journal_events := journal_events j1 @ [Compaction_Prompt sid pid older]\<rparr>)"
    (is "journal_inv ?j \<and> grows j ?j")
proof
  have ref: "refers j sid h" using active by (simp add: refers_def)
  then have sid: "plain sid" using inv by (auto simp: journal_inv_def refs_ok_def)
  have r: "journal_inv j1" "same_maps j j1"
    "\<And>s. plain s \<Longrightarrow> s \<noteq> sid \<Longrightarrow> raw_on_disk (journal_disk j1) (session_file j s) = raw_on_disk (journal_disk j) (session_file j s)"
    "handed_over (Inr older) (raw_on_disk (journal_disk j) (session_file j sid)) (raw_on_disk (journal_disk j1) (session_file j sid))"
    using older.on_log_inv [OF inv ref _ _ run] by auto
  note sm = r(2)
  note same = same_maps_simps [OF sm]
  have refs: "refers j s k" if "refers ?j s k" for s k
    using that active pc sm by (auto simp: refers_def same_maps_def split: if_splits)
  have sf: "session_file ?j = session_file j" using same(2) by (simp add: session_file_def fun_eq_iff)
  have "refs_ok ?j"
    using r(1) refs unfolding journal_inv_def refs_ok_def sf same by simp blast
  moreover have "files_ok ?j" using r(1) by (simp add: journal_inv_def files_ok_def sf same)
  moreover have "guard_ok ?j"
  proof -
    have p: "pending_for ?j s q \<longleftrightarrow> q = pid \<and> s = sid \<or> q \<noteq> pid \<and> pending_for j s q" for s q
      using pc sm by (auto simp: pending_for_def same_maps_def)
    have g: "guard_ok j" using inv by (simp add: journal_inv_def)
    have f: "mwf (pending_compactions ?j)" "active_logs ?j = active_logs j" "compaction_in_flight ?j = compaction_in_flight j"
      using sm g by (auto simp: same_maps_def guard_ok_def)
    show ?thesis unfolding guard_ok_def p f(2,3)
      using f(1) g none flag unfolding guard_ok_def by blast
  qed
  ultimately show "journal_inv ?j" using r(1) by (simp add: journal_inv_def)
  obtain old where old: "old \<noteq> []" "older = join para old"
    "raw_on_disk (journal_disk j) (session_file j sid) = old @ raw_on_disk (journal_disk j1) (session_file j sid)"
    using r(4) ne by (auto simp: handed_over_def)
  show "grows j ?j" unfolding grows_def
  proof (intro allI impI)
    fix s assume s: "plain s"
    show "prefix (journal_story j s) (journal_story ?j s)"
    proof (cases "s = sid")
      case True
      have "journal_story ?j sid = journal_story j sid"
        using sm old join_nested [OF old(1), of para "prompt_texts sid (journal_events j)"]
        by (simp add: journal_story_def same(2) prompt_texts_def same_maps_def)
      with True show ?thesis by simp
    next
      case False
      with r(3) [OF s] sm have "journal_story ?j s = journal_story j s"
        by (simp add: journal_story_def same(2) prompt_texts_def same_maps_def)
      then show ?thesis by simp
    qed
  qed
qed

lemma bump_started:
  assumes "journal_inv j" "fl = insert sid (compaction_in_flight j) \<or>
    fl = compaction_in_flight j - {sid} \<and> (active_logs j sid = None \<or> (\<forall>pid. \<not> pending_for j sid pid))"
  shows "journal_inv (j\<lparr>compaction_in_flight := fl, compaction_started_at := st\<rparr>) \<and>
    grows j (j\<lparr>compaction_in_flight := fl, compaction_started_at := st\<rparr>)"
proof (rule bookkeeping [OF assms(1)])
  let ?j = "j\<lparr>compaction_in_flight := fl, compaction_started_at := st\<rparr>"
  have "pending_for ?j = pending_for j" by (simp add: pending_for_def fun_eq_iff)
  then show "guard_ok ?j" using assms unfolding journal_inv_def guard_ok_def by auto
qed (auto simp: refers_def)

lemma drop_flag:
  assumes "journal_inv j" "active_logs j sid = None \<or> (\<forall>pid. \<not> pending_for j sid pid)"
  shows "journal_inv (j\<lparr>compaction_in_flight := compaction_in_flight j - {sid}\<rparr>) \<and>
    grows j (j\<lparr>compaction_in_flight := compaction_in_flight j - {sid}\<rparr>)"
  using bump_started [OF assms(1), of "compaction_in_flight j - {sid}" sid "compaction_started_at j"] assms(2) by simp

lemma grows_by_files:
  assumes "same_maps j j'"
    and "\<And>s. plain s \<Longrightarrow> prefix (journal_story j s) (join para (prompt_texts s (journal_events j) @
      raw_on_disk (journal_disk j') (session_file j s)))"
  shows "grows j j'"
  using assms(2) assms(1) [unfolded same_maps_def] same_maps_simps(2) [OF assms(1)]
  by (simp add: grows_def journal_story_def)

lemma trigger_safe:
  assumes inv: "journal_inv j" and active: "active_logs j sid = Some h"
  shows "journal_inv (trigger_compaction f ck sid h j) \<and> grows j (trigger_compaction f ck sid h j) \<and>
    active_logs (trigger_compaction f ck sid h j) = active_logs j"
proof -
  define j1 where "j1 = (if sid \<in> compaction_in_flight j then check_stale_compaction (stale_check_at ck) sid j else j)"
  have s1: "journal_inv j1" "grows j j1" "active_logs j1 = active_logs j"
    using check_stale_safe [OF inv] inv by (auto simp: j1_def)
  show ?thesis
  proof (cases "sid \<in> compaction_in_flight j1")
    case True
    then have "trigger_compaction f ck sid h j = j1" by (simp add: trigger_compaction_def j1_def Let_def)
    with s1 show ?thesis by simp
  next
    case False
    define j2 where "j2 = j1\<lparr>compaction_in_flight := insert sid (compaction_in_flight j1),
      compaction_started_at := (compaction_started_at j1)(sid \<mapsto> unix_nano (started_reading ck))\<rparr>"
    have "pending_for j2 = pending_for j1" by (simp add: j2_def pending_for_def fun_eq_iff)
    moreover have "guard_ok j1" "active_logs j1 sid \<noteq> None" using s1 active by (simp_all add: journal_inv_def)
    ultimately have none: "\<not> pending_for j2 sid pid" for pid
      using False unfolding guard_ok_def by metis
    have s2: "journal_inv j2" "grows j j2" "active_logs j2 = active_logs j" "sid \<in> compaction_in_flight j2"
      using bump_started [OF s1(1), of "insert sid (compaction_in_flight j1)" sid] s1 unfolding j2_def
      by (auto intro: grows_trans)
    obtain e j3 where run: "on_log h (older_half f) j2 = (e, j3)" by fastforce
    have ref: "refers j2 sid h" using active s2(3) by (simp add: refers_def)
    have s3: "journal_inv j3" "same_maps j2 j3"
      "\<And>s. plain s \<Longrightarrow> s \<noteq> sid \<Longrightarrow> raw_on_disk (journal_disk j3) (session_file j2 s) = raw_on_disk (journal_disk j2) (session_file j2 s)"
      "handed_over e (raw_on_disk (journal_disk j2) (session_file j2 sid)) (raw_on_disk (journal_disk j3) (session_file j2 sid))"
      using older.on_log_inv [OF s2(1) ref _ _ run] by auto
    have none3: "\<forall>pid. \<not> pending_for j3 sid pid" using none s3(2) by (simp add: same_maps_simps)
    show ?thesis
    proof (cases "\<exists>older. e = Inr older \<and> older \<noteq> []")
      case True
      then obtain older where e: "e = Inr older" "older \<noteq> []" by blast
      obtain a b where ab: "extract_time_range older = (a, b)" by fastforce
      have t: "trigger_compaction f ck sid h j =
          j3\<lparr>pending_compactions := mput (journal_prompt_id sid (prompt_reading ck))
               \<lparr>pc_session = sid, pc_log = h, pc_start = a, pc_end = b\<rparr> (pending_compactions j3),
             journal_events := journal_events j3 @ [Compaction_Prompt sid (journal_prompt_id sid (prompt_reading ck)) older]\<rparr>"
        using False run e ab by (simp add: trigger_compaction_def j1_def [symmetric] j2_def [symmetric] Let_def)
      show ?thesis
        using publish_safe [OF s2(1) _ none s2(4) run [unfolded e(1)] e(2), of "\<lparr>pc_session = sid, pc_log = h, pc_start = a, pc_end = b\<rparr>"]
          s2 s3(2) active grows_trans [OF s2(2)]
        unfolding t by (simp add: same_maps_def)
    next
      case no: False
      have t: "trigger_compaction f ck sid h j = j3\<lparr>compaction_in_flight := compaction_in_flight j3 - {sid}\<rparr>"
        using False run no by (cases e) (auto simp: trigger_compaction_def j1_def [symmetric] j2_def [symmetric] Let_def)
      have "raw_on_disk (journal_disk j3) (session_file j2 s) = raw_on_disk (journal_disk j2) (session_file j2 s)" if "plain s" for s
        using s3(3) [OF that] s3(4) no by (cases "s = sid") (auto simp: handed_over_def split: sum.splits if_splits)
      then have "grows j2 j3" by (intro grows_by_files [OF s3(2)]) (simp add: journal_story_def)
      with drop_flag [OF s3(1)] none3 s2 s3(2) show ?thesis
        unfolding t by (auto simp: same_maps_def intro: grows_trans)
    qed
  qed
qed

section \<open>Handlers\<close>

lemma prefix_join_append: "prefix xs ys \<Longrightarrow> prefix (join sep (zs @ xs)) (join sep (zs @ ys))"
  using prefix_join [of sep "zs @ xs"] by (auto elim!: prefixE)

context log_operation
begin

lemma on_log_grows:
  assumes "journal_inv j" "refers j sid h" "pre (session_file j sid) (the (log_heap j h))"
    "\<And>s. plain s \<Longrightarrow> session_file j s \<notin> extra" "on_log h run j = (e, j')"
    and tail: "\<And>e xs ys. tail e xs ys \<Longrightarrow> prefix xs ys"
  shows "journal_inv j' \<and> same_maps j j' \<and> grows j j'"
proof -
  note o = on_log_inv [OF assms(1-5)]
  have "prefix (raw_on_disk (journal_disk j) (session_file j s)) (raw_on_disk (journal_disk j') (session_file j s))"
    if "plain s" for s
    using o that tail by (cases "s = sid") auto
  then have "grows j j'"
    using o by (intro grows_by_files) (auto simp: journal_story_def intro: prefix_join_append)
  with o show ?thesis by blast
qed

end

lemma append_safe:
  assumes "journal_inv j" "refers j sid h" "on_log h (append_raw f t) j = (e, j')"
  shows "journal_inv j' \<and> same_maps j j' \<and> grows j j'"
  using raw.on_log_grows [OF assms(1,2) _ _ assms(3)] by fastforce

lemma plain_active: "journal_inv j \<Longrightarrow> active_logs j sid = Some h \<Longrightarrow> plain sid"
  unfolding journal_inv_def refs_ok_def refers_def by blast

lemma record_entry_safe:
  assumes inv: "journal_inv j" and active: "active_logs j sid = Some h"
  shows "journal_inv (record_entry e sid h entry t j) \<and> grows j (record_entry e sid h entry t j)"
proof -
  obtain err j1 where a: "on_log h (append_raw (raw_fault e) entry) j = (err, j1)" by fastforce
  have "refers j sid h" using active by (simp add: refers_def)
  note s1 = append_safe [OF inv this a]
  then have act1: "active_logs j1 sid = Some h" using active by (simp add: same_maps_def)
  define j2 where "j2 = (if should_compact (the (log_heap j1 h)) then trigger_compaction (compact_fault e) (readings e) sid h j1 else j1)"
  have s2: "journal_inv j2" "grows j1 j2"
    using trigger_safe [OF _ act1] s1 by (auto simp: j2_def)
  have "record_entry e sid h entry t j = snd (write_log_entry (audit_io e) sid entry t j2)"
    by (simp add: record_entry_def a j2_def Let_def)
  with quiet_inv [OF s2(1) write_log_entry_quiet [OF s2(1) plain_active [OF inv active]]] s1 s2 show ?thesis
    by (auto intro: grows_trans)
qed

lemma handle_output_safe:
  "journal_inv j \<Longrightarrow> journal_inv (handle_output e sid text w j) \<and> grows j (handle_output e sid text w j)"
  using record_entry_safe by (simp add: handle_output_def split: option.split)

lemma handle_tool_changed_safe:
  assumes inv: "journal_inv j"
  shows "journal_inv (handle_tool_changed e sid a b stamp j) \<and> grows j (handle_tool_changed e sid a b stamp j)"
proof -
  let ?j = "j\<lparr>cached_tools := (cached_tools j)(sid \<mapsto> b)\<rparr>"
  have q: "quiet j ?j" by (simp add: quiet_def same_maps_def session_file_def)
  note s = quiet_inv [OF inv q]
  show ?thesis using s inv record_entry_safe [of ?j]
    by (auto simp: handle_tool_changed_def Let_def split: option.split intro: grows_trans)
qed

text \<open>Stopping a session.\<close>

lemma deactivate_safe:
  assumes inv: "journal_inv j"
  shows "journal_inv (close_log_file sid (j\<lparr>active_logs := (active_logs j)(sid := None),
      cached_tools := ct, log_dirs_created := ld, compaction_in_flight := compaction_in_flight j - {sid},
      compaction_started_at := st\<rparr>)) \<and>
    grows j (close_log_file sid (j\<lparr>active_logs := (active_logs j)(sid := None),
      cached_tools := ct, log_dirs_created := ld, compaction_in_flight := compaction_in_flight j - {sid},
      compaction_started_at := st\<rparr>))" (is "journal_inv ?j \<and> grows j ?j")
proof (rule bookkeeping [OF inv])
  have "pending_for ?j = pending_for j" by (simp add: pending_for_def close_log_file_def fun_eq_iff)
  then show "guard_ok ?j" using inv unfolding journal_inv_def guard_ok_def by (auto simp: close_log_file_def)
  show "refers ?j s h \<Longrightarrow> refers j s h" for s h by (auto simp: refers_def close_log_file_def split: if_splits)
qed (simp_all add: close_log_file_def)

lemma handle_session_stopped_safe:
  assumes inv: "journal_inv j"
  shows "journal_inv (handle_session_stopped e sid x reason j) \<and> grows j (handle_session_stopped e sid x reason j)"
proof (cases "sid = [] \<or> active_logs j sid = None")
  case True
  with inv show ?thesis by (auto simp: handle_session_stopped_def)
next
  case False
  then obtain h where act: "active_logs j sid = Some h" and ne: "sid \<noteq> []" by auto
  let ?entry = "session_stop_entry (now e) sid x reason"
  define j1 where "j1 = (if should_compact (the (log_heap j h)) \<and> raw_bytes (the (log_heap j h)) > min_finalization_tail_size
    then trigger_compaction (compact_fault e) (readings e) sid h j else j)"
  have s1: "journal_inv j1" "grows j j1" "active_logs j1 sid = Some h"
    using trigger_safe [OF inv act] inv act by (auto simp: j1_def)
  obtain err j2 where a: "on_log h (append_raw (raw_fault e) ?entry) j1 = (err, j2)" by fastforce
  have "refers j1 sid h" using s1(3) by (simp add: refers_def)
  note s2 = append_safe [OF s1(1) this a]
  define j3 where "j3 = snd (write_log_entry (audit_io e) sid ?entry (now e) j2)"
  have s3: "journal_inv j3 \<and> grows j2 j3"
    using quiet_inv [OF _ write_log_entry_quiet] s2 plain_active [OF inv act] unfolding j3_def by blast
  have "handle_session_stopped e sid x reason j = close_log_file sid (j3\<lparr>active_logs := (active_logs j3)(sid := None),
      cached_tools := (cached_tools j3)(sid := None), log_dirs_created := log_dirs_created j3 - {sid},
      compaction_in_flight := compaction_in_flight j3 - {sid},
      compaction_started_at := (compaction_started_at j3)(sid := None)\<rparr>)"
    using act ne a by (simp add: handle_session_stopped_def j1_def [symmetric] j3_def Let_def)
  moreover have "grows j j3" using s1(2) s2 s3 grows_trans by blast
  ultimately show ?thesis using deactivate_safe [of j3 sid] s3 by (auto intro: grows_trans)
qed

text \<open>Creating a session: a new log on the file of the session.\<close>

lemma allocate_safe:
  assumes inv: "journal_inv j"
  shows "journal_inv (j\<lparr>log_heap := (log_heap j)(next_log j \<mapsto> r), next_log := Suc (next_log j)\<rparr>) \<and>
    grows j (j\<lparr>log_heap := (log_heap j)(next_log j \<mapsto> r), next_log := Suc (next_log j)\<rparr>)"
proof
  let ?j = "j\<lparr>log_heap := (log_heap j)(next_log j \<mapsto> r), next_log := Suc (next_log j)\<rparr>"
  have r: "refers ?j = refers j" by (simp add: refers_def fun_eq_iff)
  have p: "pending_for ?j = pending_for j" by (simp add: pending_for_def fun_eq_iff)
  have "refs_ok ?j" using inv unfolding journal_inv_def refs_ok_def r by (auto intro: less_SucI)
  then show "journal_inv ?j" using inv p by (simp add: journal_inv_def files_ok_def guard_ok_def)
  show "grows j ?j" by (rule same_story) simp_all
qed

lemma activate_inv:
  assumes inv: "journal_inv j" and sid: "plain sid" and none: "\<And>pid. \<not> pending_for j sid pid"
    and log: "log_ok (session_file j sid) (r, journal_disk j)"
  shows "journal_inv (j\<lparr>log_heap := (log_heap j)(next_log j \<mapsto> r), next_log := Suc (next_log j),
    active_logs := (active_logs j)(sid \<mapsto> next_log j)\<rparr>)" (is "journal_inv ?j")
proof -
  have r: "refers ?j s h \<longleftrightarrow> (if s = sid then h = next_log j else refers j s h)" for s h
    using none by (auto simp: refers_def pending_for_def)
  have p: "pending_for ?j = pending_for j" by (simp add: pending_for_def fun_eq_iff)
  have ok: "plain s \<and> h < next_log j \<and> (\<exists>r. log_heap j h = Some r \<and> log_ok (session_file j s) (r, journal_disk j))"
    if "refers j s h" for s h using inv that unfolding journal_inv_def refs_ok_def by blast
  have "refs_ok ?j" unfolding refs_ok_def r
  proof (intro conjI allI impI)
    fix s h assume a: "if s = sid then h = next_log j else refers j s h"
    then show "plain s" "h < next_log ?j" using sid ok by (auto split: if_splits intro: less_SucI)
    show "\<exists>r. log_heap ?j h = Some r \<and> log_ok (session_file ?j s) (r, journal_disk ?j)"
      using a log ok [of s h] by (auto split: if_splits)
  next
    fix s h h' assume "if s = sid then h = next_log j else refers j s h" "if s = sid then h' = next_log j else refers j s h'"
    with inv show "h = h'" unfolding journal_inv_def refs_ok_def by (metis (full_types))
  qed
  moreover have "guard_ok ?j" using inv none p by (auto simp: journal_inv_def guard_ok_def)
  ultimately show ?thesis using inv by (simp add: journal_inv_def files_ok_def)
qed

lemma append_raw_error:
  "append_raw f t (r, d) = (Some e, r', d') \<Longrightarrow> r' = r \<and> d' (base_path r) = d (base_path r)"
  by (auto simp: append_raw_def Let_def dest!: persist_error split: if_splits prod.splits option.splits)

lemma handle_session_created_safe:
  assumes inv: "journal_inv j" and sid: "plain sid" and none: "\<And>pid. \<not> pending_for j sid pid"
  shows "journal_inv (handle_session_created e sid label j) \<and> grows j (handle_session_created e sid label j)"
proof (cases "new_rolling_log (read_fails e) (session_file j sid) [] (journal_disk j)")
  case (Inl err)
  with inv show ?thesis by (simp add: handle_session_created_def session_file_def)
next
  case (Inr r)
  define h where "h = next_log j"
  define j1 where "j1 = j\<lparr>log_heap := (log_heap j)(h \<mapsto> r), next_log := Suc h\<rparr>"
  define entry where "entry = session_start_entry (now e) sid label (case cached_tools j sid of None \<Rightarrow> [] | Some t \<Rightarrow> t)"
  define jA where "jA = j1\<lparr>active_logs := (active_logs j)(sid \<mapsto> h)\<rparr>"
  have log: "log_ok (session_file j sid) (r, journal_disk j)"
    using inv sid open_log_ok [OF _ Inr] by (auto simp: journal_inv_def files_ok_def)
  obtain err j2 where a: "on_log h (append_raw (raw_fault e) entry) j1 = (err, j2)" by fastforce
  have ne: "sid \<noteq> []" using sid by (simp add: plain_def)
  have ct: "cached_tools j1 = cached_tools j" by (simp add: j1_def)
  have h: "handle_session_created e sid label j = (case err of Some _ \<Rightarrow> j2
      | None \<Rightarrow> snd (write_log_entry (audit_io e) sid entry (now e) (j2\<lparr>active_logs := (active_logs j2)(sid \<mapsto> h)\<rparr>)))"
    using ne Inr a by (cases err) (simp_all add: handle_session_created_def session_file_def h_def [symmetric] j1_def [symmetric] entry_def [symmetric] ct Let_def)
  show ?thesis
  proof (cases err)
    case None
    have iA: "journal_inv jA" using activate_inv [OF inv sid none log] by (simp add: jA_def j1_def h_def)
    have gA: "grows j jA" by (rule same_story) (simp_all add: jA_def j1_def)
    have aA: "on_log h (append_raw (raw_fault e) entry) jA = (None, j2\<lparr>active_logs := (active_logs j2)(sid \<mapsto> h)\<rparr>)"
      using a None by (auto simp: on_log_def jA_def j1_def split: prod.splits)
    have "refers jA sid h" by (simp add: refers_def jA_def)
    note s = append_safe [OF iA this aA]
    note q = quiet_inv [OF _ write_log_entry_quiet [OF _ sid]]
    show ?thesis using h None s q gA by (auto intro: grows_trans)
  next
    case (Some x)
    obtain r' d' where rd: "append_raw (raw_fault e) entry (r, journal_disk j) = (Some x, r', d')"
      and j2: "j2 = j1\<lparr>log_heap := (log_heap j1)(h \<mapsto> r'), journal_disk := d'\<rparr>"
      using a Some by (auto simp: on_log_def j1_def split: prod.splits)
    note e1 = append_raw_error [OF rd]
    have j2': "j2 = j1\<lparr>journal_disk := d'\<rparr>" using j2 e1 by (simp add: j1_def)
    have "d' (session_file j s) = journal_disk j (session_file j s)" if s: "plain s" for s
    proof (cases "s = sid")
      case True
      with e1 log_ok_path [OF log] show ?thesis by simp
    next
      case False
      have "session_file j s \<notin> {session_file j sid, session_file j sid @ ''.tmp''}"
        using s False sid inv journal_path_inj [of "journal_base j" s sid] journal_path_tmp [of "journal_base j" s sid]
        by (auto simp: session_file_def journal_inv_def)
      with append_raw_kept [OF rd] log_ok_path [OF log] show ?thesis by (auto simp: kept_but_def)
    qed
    then have "quiet j1 j2" by (simp add: j2' quiet_def same_maps_def j1_def)
    with allocate_safe [OF inv, of r] quiet_inv [of j1 j2] show ?thesis
      using h Some by (auto simp: j1_def h_def intro: grows_trans)
  qed
qed

text \<open>A reply: the log of the compaction may be known only through the pending entry, so the entry is removed last here.\<close>

lemma on_log_pending: "on_log h run (j\<lparr>pending_compactions := p\<rparr>) = (case on_log h run j of (e, j1) \<Rightarrow> (e, j1\<lparr>pending_compactions := p\<rparr>))"
  by (simp add: on_log_def split: prod.split)

lemma fallback_pending:
  "snd (write_fallback_log_entry io sid entry t (j\<lparr>pending_compactions := p\<rparr>)) =
    (snd (write_fallback_log_entry io sid entry t j))\<lparr>pending_compactions := p\<rparr>"
  by (simp add: write_fallback_log_entry_def split: prod.split)

lemma archival_step_pending:
  "archival_step e sid h (j\<lparr>pending_compactions := p\<rparr>) = (archival_step e sid h j)\<lparr>pending_compactions := p\<rparr>"
  by (simp add: archival_step_def on_log_pending split: prod.split option.split)

lemma archive_file_other:
  assumes "journal_inv j" "plain sid" "plain s"
  shows "archive_file (journal_base j) sid (format_date t) \<notin> {session_file j s, session_file j s @ ''.tmp''}"
  using deep_path [of "journal_base j" sid s "''archives''" "format_date t"] assms format_date_no_slash
  by (auto simp: journal_inv_def session_file_def archive_file_def)

lemma archival_step_safe:
  assumes inv: "journal_inv j" and ref: "refers j sid h"
  shows "journal_inv (archival_step e sid h j) \<and> grows j (archival_step e sid h j) \<and>
    pending_compactions (archival_step e sid h j) = pending_compactions j \<and>
    active_logs (archival_step e sid h j) = active_logs j \<and>
    compaction_in_flight (archival_step e sid h j) = compaction_in_flight j"
proof -
  have sid: "plain sid" using inv ref unfolding journal_inv_def refs_ok_def by blast
  obtain ev j1 where run: "on_log h (trigger_archival (journal_base j) sid (format_date (archive_now e)) (archive_fault e) (commit_fault e)) j = (ev, j1)"
    by fastforce
  have s: "journal_inv j1 \<and> same_maps j j1 \<and> grows j j1"
    using archive_file_other [OF inv sid] sid by (intro archival.on_log_grows [OF inv ref _ _ run]) fastforce+
  show ?thesis
  proof (cases ev)
    case None
    with run s show ?thesis by (simp add: archival_step_def same_maps_def)
  next
    case (Some x)
    obtain p ty where "x = (p, ty)" by (cases x)
    with run Some have a: "archival_step e sid h j = j1\<lparr>journal_events := journal_events j1 @ [Awareness_Sync p ty]\<rparr>" (is "_ = ?j")
      by (simp add: archival_step_def)
    have "refers ?j = refers j1" "pending_for ?j = pending_for j1" by (simp_all add: refers_def pending_for_def fun_eq_iff)
    then have "journal_inv ?j" using s by (simp add: journal_inv_def refs_ok_def files_ok_def guard_ok_def)
    moreover have "grows j1 ?j" by (simp add: grows_def journal_story_def prompt_texts_def)
    ultimately show ?thesis using s unfolding a by (auto simp: same_maps_def intro: grows_trans)
  qed
qed

text \<open>What the handler does with the log, on the state that still has the pending entry.\<close>

definition store_summary :: "env \<Rightarrow> journal_pending_compaction \<Rightarrow> string \<Rightarrow> journal \<Rightarrow> journal" where
  "store_summary e pc reply j =
     (if trim_space reply = [] then j
      else case on_log (pc_log pc) (append_summary (summary_fault e) (format_summary (pc_start pc) (pc_end pc) reply)) j of
             (Some err, j) \<Rightarrow> snd (write_fallback_log_entry (audit_io e) (pc_session pc) (fallback_entry pc reply) (now e) j)
           | (None, j) \<Rightarrow> if should_archive (the (log_heap j (pc_log pc))) then archival_step e (pc_session pc) (pc_log pc) j else j)"

lemma store_summary_pending: "store_summary e pc reply (j\<lparr>pending_compactions := p\<rparr>) = (store_summary e pc reply j)\<lparr>pending_compactions := p\<rparr>"
proof -
  obtain err j1 where "on_log (pc_log pc) (append_summary (summary_fault e) (format_summary (pc_start pc) (pc_end pc) reply)) j = (err, j1)"
    by fastforce
  then show ?thesis
    by (cases err) (simp_all add: store_summary_def on_log_pending fallback_pending archival_step_pending)
qed

lemma reply_stored:
  assumes "pid \<noteq> []" "map_of (pending_compactions j) pid = Some pc"
  shows "handle_compaction_reply e pid reply j =
    (let j1 = store_summary e pc reply j
     in j1\<lparr>pending_compactions := mdel pid (pending_compactions j), compaction_in_flight := compaction_in_flight j1 - {pc_session pc},
           compaction_started_at := (compaction_started_at j1)(pc_session pc := None)\<rparr>)"
  using assms unfolding Let_def
  by (simp add: handle_compaction_reply_def store_summary_def [symmetric] Let_def store_summary_pending)

lemma store_summary_safe:
  assumes inv: "journal_inv j" and ref: "refers j (pc_session pc) (pc_log pc)"
  shows "journal_inv (store_summary e pc reply j) \<and> grows j (store_summary e pc reply j) \<and>
    pending_compactions (store_summary e pc reply j) = pending_compactions j \<and>
    active_logs (store_summary e pc reply j) = active_logs j \<and>
    compaction_in_flight (store_summary e pc reply j) = compaction_in_flight j"
proof (cases "trim_space reply = []")
  case False
  let ?sid = "pc_session pc"
  have sid: "plain ?sid" using inv ref unfolding journal_inv_def refs_ok_def by blast
  obtain err j1 where run: "on_log (pc_log pc) (append_summary (summary_fault e) (format_summary (pc_start pc) (pc_end pc) reply)) j = (err, j1)"
    by fastforce
  have s: "journal_inv j1 \<and> same_maps j j1 \<and> grows j j1"
    by (rule summary.on_log_grows [OF inv ref _ _ run]) auto
  have ref1: "refers j1 ?sid (pc_log pc)" using ref s same_maps_simps(1) [of j j1] by simp
  show ?thesis
  proof (cases err)
    case None
    with False run have "store_summary e pc reply j = (if should_archive (the (log_heap j1 (pc_log pc))) then archival_step e ?sid (pc_log pc) j1 else j1)"
      by (simp add: store_summary_def)
    with s archival_step_safe [OF _ ref1] show ?thesis by (auto simp: same_maps_def intro: grows_trans)
  next
    case (Some x)
    define j2 where "j2 = snd (write_fallback_log_entry (audit_io e) ?sid (fallback_entry pc reply) (now e) j1)"
    have q: "quiet j1 j2" unfolding j2_def using s sid by (intro write_fallback_quiet) auto
    have "store_summary e pc reply j = j2" using False run Some by (simp add: store_summary_def j2_def)
    moreover have "same_maps j j2" using s q by (auto simp: quiet_def intro: same_maps_trans)
    moreover have "journal_inv j2 \<and> grows j j2" using quiet_inv [OF _ q] s by (auto intro: grows_trans)
    ultimately show ?thesis by (simp add: same_maps_def)
  qed
qed (use inv in \<open>simp add: store_summary_def\<close>)

lemma handle_compaction_reply_safe:
  assumes inv: "journal_inv j"
  shows "journal_inv (handle_compaction_reply e pid reply j) \<and> grows j (handle_compaction_reply e pid reply j)"
proof (cases "pid = [] \<or> map_of (pending_compactions j) pid = None")
  case True
  with inv show ?thesis by (auto simp: handle_compaction_reply_def)
next
  case False
  then obtain pc where pc: "pid \<noteq> []" "map_of (pending_compactions j) pid = Some pc" by auto
  define j1 where "j1 = store_summary e pc reply j"
  let ?j = "j1\<lparr>pending_compactions := mdel pid (pending_compactions j), compaction_in_flight := compaction_in_flight j1 - {pc_session pc},
    compaction_started_at := (compaction_started_at j1)(pc_session pc := None)\<rparr>"
  have "refers j (pc_session pc) (pc_log pc)" using pc by (auto simp: refers_def)
  note s = store_summary_safe [OF inv this, of e reply, folded j1_def]
  have "journal_inv ?j \<and> grows j1 ?j"
  proof (rule bookkeeping)
    show "journal_inv j1" using s by blast
    show "refers ?j s h \<Longrightarrow> refers j1 s h" for s h using s by (auto simp: refers_def split: if_splits)
    have g: "guard_ok j1" using s by (simp add: journal_inv_def)
    have mine: "pending_for j1 (pc_session pc) pid" using s pc by (simp add: pending_for_def)
    have p: "pending_for ?j s q \<longleftrightarrow> q \<noteq> pid \<and> pending_for j1 s q" for s q
      using s by (simp add: pending_for_def)
    have m: "mwf (pending_compactions ?j)" using g s by (simp add: guard_ok_def)
    have f: "active_logs ?j = active_logs j1" "compaction_in_flight ?j = compaction_in_flight j1 - {pc_session pc}" by simp_all
    show "guard_ok ?j" unfolding guard_ok_def p f using m g mine unfolding guard_ok_def by blast
  qed simp_all
  with s reply_stored [OF pc, of e reply, folded j1_def] show ?thesis by (auto simp: Let_def intro: grows_trans)
qed

lemma journal_shutdown_safe:
  assumes inv: "journal_inv j"
  shows "journal_inv (journal_shutdown j) \<and> grows j (journal_shutdown j)"
proof (cases "journal_started j")
  case True
  let ?j = "journal_shutdown j"
  have e: "active_logs ?j = Map.empty" "pending_compactions ?j = []" using True by (simp_all add: journal_shutdown_def)
  show ?thesis
  proof (rule bookkeeping [OF inv])
    show "refers ?j s h \<Longrightarrow> refers j s h" for s h by (simp add: refers_def e)
    show "guard_ok ?j" by (simp add: guard_ok_def pending_for_def e)
  qed (simp_all add: journal_shutdown_def)
qed (use inv in \<open>simp add: journal_shutdown_def\<close>)

lemma journal_start_safe: "journal_inv j \<Longrightarrow> journal_inv (snd (journal_start j)) \<and> grows j (snd (journal_start j))"
  by (rule quiet_inv) (simp_all add: journal_start_def quiet_def same_maps_def session_file_def)

section \<open>Histories\<close>

text \<open>
  What can happen to the service: its handlers are called while it is started, with any session identifier
  that is a plain name. A session is not created while a compaction for the same identifier is still pending.
\<close>

inductive journal_step :: "journal \<Rightarrow> journal \<Rightarrow> bool" where
  started: "journal_step j (snd (journal_start j))"
| stopped: "journal_step j (journal_shutdown j)"
| created: "journal_started j \<Longrightarrow> plain sid \<Longrightarrow> (\<And>pid. \<not> pending_for j sid pid) \<Longrightarrow>
    journal_step j (handle_session_created e sid label j)"
| ended: "journal_started j \<Longrightarrow> journal_step j (handle_session_stopped e sid x reason j)"
| printed: "journal_started j \<Longrightarrow> journal_step j (handle_output e sid reply waiting_for j)"
| tool: "journal_started j \<Longrightarrow> journal_step j (handle_tool_changed e sid old_tool new_tool stamp j)"
| replied: "journal_started j \<Longrightarrow> journal_step j (handle_compaction_reply e pid reply j)"

inductive_cases journal_stepE: "journal_step j j'"

lemma journal_step_safe: "journal_step j j' \<Longrightarrow> journal_inv j \<Longrightarrow> journal_inv j' \<and> grows j j'"
  by (induction rule: journal_step.induct)
    (simp_all add: journal_start_safe journal_shutdown_safe handle_session_created_safe handle_session_stopped_safe
      handle_output_safe handle_tool_changed_safe handle_compaction_reply_safe)

lemma journal_steps_safe: "journal_step\<^sup>*\<^sup>* j j' \<Longrightarrow> journal_inv j \<Longrightarrow> journal_inv j' \<and> grows j j'"
  by (induction rule: rtranclp_induct) (auto dest: journal_step_safe intro: grows_trans)

lemma new_journal_inv:
  assumes "new_journal_service base d = Some j" "clean_base base"
    "\<And>sid. plain sid \<Longrightarrow> file_wf d (journal_path base sid)"
  shows "journal_inv j"
  using assms
  by (auto simp: new_journal_service_def journal_inv_def refs_ok_def files_ok_def guard_ok_def refers_def
      pending_for_def session_file_def split: if_splits)

end
