(* ===== verification/JournalProperties.thy ===== *)
theory JournalProperties
  imports JournalSafety
begin

text \<open>
  What the journal service promises (\<open>internal/awareness/journal.go\<close>): nothing is lost unseen, the files agree with
  the memory, one compaction per session, a reply is kept; and two of its gaps.
\<close>

section \<open>Replies\<close>

lemma append_summary_stored:
  assumes "append_summary f s (r, d) = (None, r', d')" "trim_nl s \<noteq> []"
  shows "trim_nl s \<in> set (summaries r')"
  using assms by (auto simp: append_summary_def Let_def split: if_splits prod.splits option.splits)

lemma log_ok_parse: "log_ok p (r, d) \<Longrightarrow> d p = Some c \<Longrightarrow> parse_rolling_log_file c = (summaries r, raw_tail r)"
  by (auto simp: log_ok_def rl_inv_def entries_ok_def in_sync_def list_all_iff intro!: render_parse)

text \<open>A summary is on the disk when it is in the file of its session or in the text of an archive.\<close>

definition summary_on_disk :: "string \<Rightarrow> disk \<Rightarrow> string \<Rightarrow> string \<Rightarrow> bool" where
  "summary_on_disk s d p a \<longleftrightarrow>
     (\<exists>c. d p = Some c \<and> s \<in> set (fst (parse_rolling_log_file c))) \<or> (\<exists>c. d a = Some c \<and> sublist s c)"

lemma log_summary_on_disk:
  assumes "log_ok p (r, d)" "s \<in> set (summaries r)"
  shows "summary_on_disk s d p a"
proof (cases "d p")
  case None
  with assms show ?thesis by (auto simp: log_ok_def rl_inv_def in_sync_def)
next
  case (Some c)
  with assms log_ok_parse [OF assms(1) Some] show ?thesis by (simp add: summary_on_disk_def)
qed

lemma sublist_join_member: "s \<in> set xs \<Longrightarrow> sublist s (join sep xs)"
proof (induction xs)
  case (Cons x xs)
  show ?case
  proof (cases "xs = []")
    case False
    then have j: "join sep (x # xs) = x @ sep @ join sep xs" by (rule join_Cons)
    show ?thesis
    proof (cases "s = x")
      case False
      with Cons have "sublist s (join sep xs)" by simp
      then show ?thesis unfolding j by (metis sublist_appendI sublist_order.order.trans append_Nil2 append_assoc)
    qed (auto simp: j)
  qed (use Cons in auto)
qed simp

lemma archived_on_disk:
  assumes ok: "log_ok p (r, d)" and s: "s \<in> set (summaries r)" and a: "archive_file base sid date \<notin> {p, p @ ''.tmp''}"
    and run: "trigger_archival base sid date f1 f2 (r, d) = (ev, r', d')"
  shows "summary_on_disk s d' p (archive_file base sid date)"
proof -
  have ok': "log_ok p (r', d')" by (rule archival.keeps [OF a ok run])
  have inv: "rl_inv p (r, d)" using ok by (simp add: log_ok_def)
  note al = archival_loses_nothing [OF inv a [unfolded archive_file_def] run]
  show ?thesis
  proof (cases ev)
    case None
    with al log_summary_on_disk [OF ok'] s show ?thesis by simp
  next
    case (Some x)
    obtain p1 ty where x: "x = (p1, ty)" by (cases x)
    with al Some obtain moved c where m: "summaries r = moved @ summaries r'" "d' p1 = Some (c @ archive_text moved)"
      by auto
    have p1: "p1 = archive_file base sid date"
      using run Some x by (auto simp: trigger_archival_def archive_file_def Let_def split: if_splits option.splits prod.splits)
    show ?thesis
    proof (cases "s \<in> set (summaries r')")
      case True
      then show ?thesis by (rule log_summary_on_disk [OF ok'])
    next
      case False
      with s m have "sublist s (join para moved)" by (simp add: sublist_join_member)
      then have "sublist s (c @ archive_text moved)"
        unfolding archive_text_def by (metis sublist_appendI sublist_order.order.trans append_assoc)
      with m(2) p1 show ?thesis by (auto simp: summary_on_disk_def)
    qed
  qed
qed

lemma session_of_pending: "journal_inv j \<Longrightarrow> map_of (pending_compactions j) pid = Some pc \<Longrightarrow> refers j (pc_session pc) (pc_log pc)"
  by (auto simp: refers_def)

lemma summary_ne: "trim_nl (format_summary a b t) \<noteq> []"
  unfolding format_summary_def summary_header_def append_Cons append_assoc trim_nl_header by simp

lemma store_summary_on_disk:
  assumes inv: "journal_inv j" and ref: "refers j (pc_session pc) (pc_log pc)" and t: "trim_space t \<noteq> []"
  shows "summary_on_disk (trim_nl (format_summary (pc_start pc) (pc_end pc) t)) (journal_disk (store_summary e pc t j))
      (session_file j (pc_session pc)) (archive_file (journal_base j) (pc_session pc) (format_date (archive_now e))) \<or>
    (\<exists>c. journal_disk (store_summary e pc t j) (audit_file (journal_base j) (pc_session pc) (format_date (now e))) =
      Some (c @ fallback_entry pc t @ [NL])) \<or>
    mkdir_fails (audit_io e) \<or> open_result (audit_io e) \<noteq> Open_Ok \<or> write_stops (audit_io e) \<noteq> None"
proof -
  let ?sid = "pc_session pc" and ?s = "trim_nl (format_summary (pc_start pc) (pc_end pc) t)"
  let ?a = "archive_file (journal_base j) ?sid (format_date (archive_now e))"
  obtain r where r: "log_heap j (pc_log pc) = Some r" "log_ok (session_file j ?sid) (r, journal_disk j)" and sid: "plain ?sid"
    using inv ref unfolding journal_inv_def refs_ok_def by blast
  obtain err r1 d1 where run: "append_summary (summary_fault e) (format_summary (pc_start pc) (pc_end pc) t) (r, journal_disk j) = (err, r1, d1)"
    by (metis prod_cases3)
  define j1 where "j1 = j\<lparr>log_heap := (log_heap j)(pc_log pc \<mapsto> r1), journal_disk := d1\<rparr>"
  have o: "on_log (pc_log pc) (append_summary (summary_fault e) (format_summary (pc_start pc) (pc_end pc) t)) j = (err, j1)"
    using run r by (simp add: on_log_def j1_def)
  show ?thesis
  proof (cases err)
    case None
    have ok1: "log_ok (session_file j ?sid) (r1, d1)" using summary.keeps [OF _ r(2) run] by simp
    have s: "?s \<in> set (summaries r1)" using append_summary_stored [OF run [unfolded None] summary_ne] .
    show ?thesis
    proof (cases "should_archive r1")
      case False
      with o t None have "store_summary e pc t j = j1" by (simp add: store_summary_def j1_def)
      with log_summary_on_disk [OF ok1 s] show ?thesis by (simp add: j1_def)
    next
      case True
      obtain ev r2 d2 where ar: "trigger_archival (journal_base j) ?sid (format_date (archive_now e)) (archive_fault e) (commit_fault e) (r1, d1) = (ev, r2, d2)"
        by (metis prod_cases3)
      have "journal_disk (store_summary e pc t j) = d2"
        using o t None True ar by (cases ev) (auto simp: store_summary_def archival_step_def on_log_def j1_def)
      with archived_on_disk [OF ok1 s archive_file_other [OF inv sid sid] ar] show ?thesis by simp
    qed
  next
    case (Some x)
    with o t have st: "store_summary e pc t j = snd (write_fallback_log_entry (audit_io e) ?sid (fallback_entry pc t) (now e) j1)"
      by (simp add: store_summary_def)
    show ?thesis
      unfolding st by (auto simp: write_fallback_log_entry_def write_string_def extend_file_def j1_def)
  qed
qed

section \<open>Text that is rejected\<close>

lemma absent_clean: "CHR 0x0D \<notin> set s \<Longrightarrow> CHR ''<'' \<notin> set s \<Longrightarrow> strip_tags (normalize_cr s) = s"
proof -
  assume cr: "CHR 0x0D \<notin> set s" and lt: "CHR ''<'' \<notin> set s"
  have "\<not> sublist p s" if "c \<in> set p" "c \<notin> set s" for c p using that set_mono_sublist by blast
  from this [of "CHR 0x0D" "[CR, NL]"] this [of "CHR 0x0D" "[CR]"] have "normalize_cr s = s"
    using cr by (simp add: normalize_cr_def replace_all_absent)
  moreover have "\<not> contains_format_delimiters s"
    using lt by (auto simp: contains_format_delimiters_def contains_sublist tag_defs dest!: set_mono_sublist)
  ultimately show ?thesis by (simp add: strip_tags_absent)
qed

lemma collapse_line: "NL \<notin> set a \<Longrightarrow> a \<noteq> [] \<Longrightarrow> collapse_loop n (a @ s) = a @ collapse_loop 0 s"
proof (induction a arbitrary: n)
  case (Cons c a)
  then show ?case by (cases "a = []") (auto simp: Let_def)
qed simp

text \<open>
  Truncation undoes the cleaning: when the cut falls right behind an empty line, the annotation adds a third newline.
\<close>

lemma truncated_output_rejected:
  assumes "length a = 65534" "NL \<notin> set a" "CHR 0x0D \<notin> set a" "CHR ''<'' \<notin> set a"
    and "b \<noteq> []" "NL \<notin> set b" "CHR 0x0D \<notin> set b" "CHR ''<'' \<notin> set b"
  shows "append_raw f (output_entry t (a @ para @ b) []) (r, d) = (Some Triple_Newlines, r, d)"
proof -
  have ne: "a \<noteq> []" using assms(1) by auto
  have "sanitize_for_rolling_log (a @ para @ b) = a @ para @ b"
    using absent_clean [of "a @ para @ b"] assms collapse_line [OF assms(2) ne, of 0 "para @ b"] collapse_line [OF assms(6,5), of "Suc (Suc 0)" "[]"]
    by (simp add: sanitize_for_rolling_log_def collapse_excessive_newlines_def Let_def)
  then have "capped_text (a @ para @ b) = a @ triple @ ''[truncated: '' @ decimal (length (a @ para @ b)) @ '' bytes original]''"
    using assms(1,5) by (simp add: capped_text_def max_entry_text_bytes_def Let_def)
  then obtain x y where e: "output_entry t (a @ para @ b) [] = x @ triple @ y" and x: "x = format_clock t @ '' [output] '' @ a"
    and y: "y = ''[truncated: '' @ decimal (length (a @ para @ b)) @ '' bytes original]''"
    by (simp add: output_entry_def)
  obtain c w where x': "x = c # w" by (cases x) (use x in auto)
  have c: "c \<noteq> NL"
  proof -
    have "c = hd (format_clock t)" using x x' length_format_clock [of t] by (cases "format_clock t") auto
    moreover obtain h m s where "clock_of t = (h, m, s)" by (cases "clock_of t") auto
    ultimately have "c = char_of (48 + h div 10)" "h < 24"
      using clock_of_bounds by (auto simp: format_clock_def clock_text_def two_digits_def)
    moreover have "char_of (48 + k) \<noteq> NL" if "k < 10" for k :: nat
    proof
      assume "char_of (48 + k) = NL"
      then have "(of_char (char_of (48 + k) :: char) :: nat) = of_char NL" by simp
      with that show False by simp
    qed
    ultimately show ?thesis by simp
  qed
  have "trimmed (\<lambda>c. c = NL) (x @ triple @ y)" using c by (simp add: trimmed_def x' y)
  then have "trim_nl (x @ triple @ y) = x @ triple @ y" by (rule trim_id)
  moreover have "contains (x @ triple @ y) triple" unfolding contains_sublist by (rule sublist_appendI)
  ultimately show ?thesis unfolding e using x' by (simp add: append_raw_def Let_def)
qed

section \<open>Properties\<close>

text \<open>No call fails; used where a concrete run is wanted.\<close>

definition calm :: env where
  "calm = \<lparr>read_fails = False, raw_fault = None, compact_fault = None, summary_fault = None, archive_fault = None,
     commit_fault = None, audit_io = no_faults, now = utc 0, archive_now = utc 0,
     readings = \<lparr>stale_check_at = 0, started_reading = 0, prompt_reading = 0\<rparr>\<rparr>"


lemma base_witness: "clean_base ''/j''" "plain ''s''" "is_abs ''/j''"
proof -
  have "''/j'' = abs_path [''j''] \<and> list_all plain [''j'']" by (simp add: abs_path_def plain_def)
  then show "clean_base ''/j''" unfolding clean_base_def by blast
qed (simp_all add: plain_def is_abs_def has_prefix_def)






text \<open>
  C2: A summary that the AI adapter sends back is never lost while one of its three places can be written. After the
  reply to a pending compaction with a text that is not blank, the summary is in the journal file of the session, or
  in its archive, or its text ends the audit file of the day, or the audit file could not be written either.
\<close>

theorem reply_is_kept:
  assumes "new_journal_service base d = Some j0" "clean_base base"
    "\<And>sid. plain sid \<Longrightarrow> file_wf d (journal_path base sid)" "journal_step\<^sup>*\<^sup>* j0 j"
    and "pid \<noteq> []" "map_of (pending_compactions j) pid = Some pc" "trim_space t \<noteq> []"
  shows "map_of (pending_compactions (handle_compaction_reply e pid t j)) pid = None \<and>
    (summary_on_disk (trim_nl (format_summary (pc_start pc) (pc_end pc) t)) (journal_disk (handle_compaction_reply e pid t j))
      (journal_path (journal_base j) (pc_session pc))
      (archive_file (journal_base j) (pc_session pc) (format_date (archive_now e))) \<or>
    (\<exists>c. journal_disk (handle_compaction_reply e pid t j) (audit_file (journal_base j) (pc_session pc) (format_date (now e))) =
      Some (c @ fallback_entry pc t @ [NL])) \<or>
    mkdir_fails (audit_io e) \<or> open_result (audit_io e) \<noteq> Open_Ok \<or> write_stops (audit_io e) \<noteq> None)"
proof -
  have inv: "journal_inv j" using journal_steps_safe [OF assms(4) new_journal_inv [OF assms(1-3)]] by simp
  note st = store_summary_on_disk [OF inv session_of_pending [OF inv assms(6)] assms(7), of e]
  then show ?thesis unfolding reply_stored [OF assms(5,6)] Let_def session_file_def by simp
qed

lemma append_raw_accepts:
  assumes "trim_nl t = t" "t \<noteq> []" "\<not> contains t triple" "\<not> contains_format_delimiters t"
  shows "\<exists>d'. append_raw None t (r, d) = (None, r\<lparr>raw_tail := raw_tail r @ [t], raw_bytes := raw_bytes r + int (length t)\<rparr>, d')"
  using assms by (simp add: append_raw_def persist_to_file_def Let_def)

lemma created_active:
  assumes "sid \<noteq> []" "new_rolling_log (read_fails e) (journal_path (journal_base j) sid) [] (journal_disk j) = Inr r"
    "cached_tools j sid = None" "append_raw (raw_fault e) (session_start_entry (now e) sid label []) (r, journal_disk j) = (None, r1, d1)"
  shows "active_logs (handle_session_created e sid label j) sid = Some (next_log j) \<and>
    log_heap (handle_session_created e sid label j) (next_log j) = Some r1 \<and>
    compaction_in_flight (handle_session_created e sid label j) = compaction_in_flight j \<and>
    journal_started (handle_session_created e sid label j) = journal_started j"
proof -
  let ?entry = "session_start_entry (now e) sid label []"
  let ?j = "j\<lparr>next_log := Suc (next_log j), log_heap := (log_heap j)(next_log j \<mapsto> r1), journal_disk := d1,
    active_logs := (active_logs j)(sid \<mapsto> next_log j)\<rparr>"
  have h: "handle_session_created e sid label j = snd (write_log_entry (audit_io e) sid ?entry (now e) ?j)"
    using assms by (simp add: handle_session_created_def on_log_def Let_def)
  have st: "journal_started (snd (write_log_entry io sid t k j)) = journal_started j" for io t k j
    by (auto simp: write_log_entry_def get_log_file_def Let_def split: prod.splits option.splits)
  from write_log_entry_only [of ?j sid "now e" "audit_io e" ?entry] st show ?thesis
    unfolding h by (simp add: only_file_def same_maps_def)
qed

lemma stop_leaves_pending:
  assumes inv: "journal_inv j" and "active_logs j sid = Some h" "log_heap j h = Some r" "sid \<noteq> []"
    "should_compact r" "raw_bytes r > min_finalization_tail_size" "compact_fault e = None" "sid \<notin> compaction_in_flight j"
  shows "\<exists>pid pc. pid \<noteq> [] \<and> map_of (pending_compactions (handle_session_stopped e sid x reason j)) pid = Some pc"
proof -
  let ?entry = "session_stop_entry (now e) sid x reason"
  have ref: "refers j sid h" using assms(2) by (simp add: refers_def)
  obtain ok: "log_ok (session_file j sid) (r, journal_disk j)"
    using inv ref assms(3) unfolding journal_inv_def refs_ok_def by (metis option.inject)
  then have c: "raw_bytes r = total_len (raw_tail r)" by (simp add: log_ok_def rl_inv_def counts_ok_def)
  have ne: "raw_tail r \<noteq> []" using c assms(6) by (auto simp: min_finalization_tail_size_def)
  obtain ee r1 d1 where oh: "older_half (compact_fault e) (r, journal_disk j) = (ee, r1, d1)" by (metis prod_cases3)
  obtain older where ee: "ee = Inr older"
    using oh ne assms(7) by (auto simp: older_half_def Let_def persist_to_file_def split: if_splits)
  have "handed_over ee (raw_tail r) (raw_tail r1)" by (rule older_half_hands_over [OF ok oh])
  moreover have "raw_tail r1 \<noteq> raw_tail r"
  proof -
    have "raw_tail r1 = drop (half_point (length (raw_tail r))) (raw_tail r)"
      using oh ne assms(7) by (auto simp: older_half_def Let_def persist_to_file_def split: if_splits)
    then have "length (raw_tail r1) < length (raw_tail r)" using ne half_point_pos by simp
    then show ?thesis by auto
  qed
  ultimately have older: "older \<noteq> []" using ee by (auto simp: handed_over_def)
  obtain a b where ab: "extract_time_range older = (a, b)" by fastforce
  define j1 where "j1 = trigger_compaction (compact_fault e) (readings e) sid h j"
  have p1: "pending_compactions j1 = mput (journal_prompt_id sid (prompt_reading (readings e)))
      \<lparr>pc_session = sid, pc_log = h, pc_start = a, pc_end = b\<rparr> (pending_compactions j)"
    using oh ee older ab assms(3,8) by (simp add: j1_def trigger_compaction_def on_log_def Let_def)
  obtain err j2 where a2: "on_log h (append_raw (raw_fault e) ?entry) j1 = (err, j2)" by fastforce
  then have p2: "pending_compactions j2 = pending_compactions j1" by (auto simp: on_log_def split: prod.splits)
  have "pending_compactions (handle_session_stopped e sid x reason j) =
      pending_compactions (snd (write_log_entry (audit_io e) sid ?entry (now e) j2))"
    using assms(2-6) a2 by (simp add: handle_session_stopped_def j1_def [symmetric] close_log_file_def Let_def)
  also have "\<dots> = pending_compactions j2" using write_log_entry_only [of j2 sid "now e" "audit_io e" ?entry] by (simp add: only_file_def same_maps_def)
  finally show ?thesis using p1 p2 by (intro exI [of _ "journal_prompt_id sid (prompt_reading (readings e))"]) (simp add: journal_prompt_id_def)
qed

lemma one_char: "char_of (49 :: nat) = CHR ''1''"
  using char_of_char [where 'a = nat, of "CHR ''1''"] by simp

text \<open>A session with a long command line, stopped at once, leaves a compaction pending.\<close>

lemma pending_reachable:
  assumes j0: "new_journal_service ''/j'' (\<lambda>_. None) = Some j0"
  shows "\<exists>j pid pc. journal_step\<^sup>*\<^sup>* j0 j \<and> pid \<noteq> [] \<and> map_of (pending_compactions j) pid = Some pc"
proof -
  define j1 where "j1 = snd (journal_start j0)"
  define label where "label = replicate 16001 (CHR ''a'')"
  define j2 where "j2 = handle_session_created calm ''s'' label j1"
  have f: "journal_started j1" "pending_compactions j1 = []" "cached_tools j1 = Map.empty" "compaction_in_flight j1 = {}"
    "journal_base j1 = ''/j''" "journal_disk j1 = (\<lambda>_. None)"
    using j0 by (auto simp: new_journal_service_def journal_start_def j1_def split: if_splits)
  have s1: "journal_step\<^sup>*\<^sup>* j0 j1" using started [of j0] by (auto simp: j1_def)
  have "journal_step j1 j2" unfolding j2_def using f base_witness by (intro created) (simp_all add: pending_for_def)
  with s1 have s2: "journal_step\<^sup>*\<^sup>* j0 j2" by simp
  have inv2: "journal_inv j2"
    using journal_steps_safe [OF s2 new_journal_inv [OF j0 base_witness(1)]] by (simp add: file_wf_def)
  define entry where "entry = session_start_entry (utc 0) ''s'' label []"
  have clean: "CHR 0x0D \<notin> set label" "CHR ''<'' \<notin> set label" "NL \<notin> set label" "label \<noteq> []" by (simp_all add: label_def)
  have san: "sanitize_for_rolling_log label = label"
    using absent_clean [OF clean(1,2)] collapse_line [OF clean(3,4), of 0 "[]"]
    by (simp add: sanitize_for_rolling_log_def collapse_excessive_newlines_def)
  have clock: "format_clock (utc 0) = ''00:00:00''"
    by (simp add: format_clock_def clock_of_def local_seconds_def utc_def clock_text_def two_digits_def zero_char [symmetric])
  have rfc: "format_rfc3339 (utc 0) = ''0001-01-01T00:00:00Z''"
    by (simp add: format_rfc3339_def zone_text_def clock) (simp add: format_date_def day_of_def local_seconds_def utc_def civil_def
        year_day_def month_lengths_def date_text_def two_digits_def pad_year_def decimal.simps replicate_small zero_char [symmetric] one_char)
  have e: "entry = ''00:00:00 [session_start] Session: s, Command: '' @ label @ '', Started: 0001-01-01T00:00:00Z''"
    by (simp add: entry_def session_start_entry_def san clock rfc)
  have nl: "NL \<notin> set entry" "CHR ''<'' \<notin> set entry" "entry \<noteq> []" using clean by (simp_all add: e)
  have "trim_nl entry = entry" using nl by (intro trim_id) (auto simp: trimmed_def dest: hd_in_set last_in_set)
  moreover have "\<not> contains entry triple" using nl by (auto simp: contains_sublist dest!: set_mono_sublist)
  moreover have "\<not> contains_format_delimiters entry"
    using nl by (auto simp: contains_format_delimiters_def contains_sublist tag_defs dest!: set_mono_sublist)
  ultimately obtain d' where a: "append_raw None entry (initial_log ''/j/s.md'', \<lambda>_. None) =
      (None, (initial_log ''/j/s.md'')\<lparr>raw_tail := [entry], raw_bytes := int (length entry)\<rparr>, d')"
    using append_raw_accepts [of entry "initial_log ''/j/s.md''"] nl by (fastforce simp: initial_log_def)
  have path: "journal_path ''/j'' ''s'' = ''/j/s.md''"
    using journal_path_abs [of "[''j'']" "''s''"] by (simp add: abs_path_def plain_def)
  have new: "new_rolling_log False ''/j/s.md'' [] (\<lambda>_. None) = Inr (initial_log ''/j/s.md'')"
    by (simp add: new_rolling_log_def load_from_file_def is_abs_def has_prefix_def)
  note act = created_active [of "''s''" calm j1 "initial_log ''/j/s.md''" label, folded j2_def]
  have A: "active_logs j2 ''s'' = Some (next_log j1)" "compaction_in_flight j2 = {}" "journal_started j2"
    "log_heap j2 (next_log j1) = Some ((initial_log ''/j/s.md'')\<lparr>raw_tail := [entry], raw_bytes := int (length entry)\<rparr>)"
    using act [OF _ _ _ ] a f path new by (simp_all add: calm_def entry_def)
  have "length entry > 16000" by (simp add: e label_def)
  then have "should_compact ((initial_log ''/j/s.md'')\<lparr>raw_tail := [entry], raw_bytes := int (length entry)\<rparr>)"
    "int (length entry) > min_finalization_tail_size"
    by (simp_all add: should_compact_def initial_log_def min_finalization_tail_size_def)
  with stop_leaves_pending [OF inv2 A(1) A(4), of calm None "[]"] A(2)
  obtain pid pc where "pid \<noteq> []" "map_of (pending_compactions (handle_session_stopped calm ''s'' None [] j2)) pid = Some pc"
    by (auto simp: calm_def)
  moreover have "journal_step\<^sup>*\<^sup>* j0 (handle_session_stopped calm ''s'' None [] j2)"
    using s2 ended [OF A(3)] by (rule rtranclp.rtrancl_into_rtrancl)
  ultimately show ?thesis by blast
qed

theorem reply_is_kept_witness:
  "\<exists>j0 j pid pc. new_journal_service ''/j'' (\<lambda>_. None) = Some j0 \<and> journal_step\<^sup>*\<^sup>* j0 j \<and>
    map_of (pending_compactions j) pid = Some pc \<and>
    map_of (pending_compactions (handle_compaction_reply calm pid ''ok'' j)) pid = None \<and>
    (summary_on_disk (trim_nl (format_summary (pc_start pc) (pc_end pc) ''ok'')) (journal_disk (handle_compaction_reply calm pid ''ok'' j))
      (journal_path (journal_base j) (pc_session pc)) (archive_file (journal_base j) (pc_session pc) (format_date (utc 0))) \<or>
     (\<exists>c. journal_disk (handle_compaction_reply calm pid ''ok'' j) (audit_file (journal_base j) (pc_session pc) (format_date (utc 0))) =
      Some (c @ fallback_entry pc ''ok'' @ [NL])))"
proof -
  obtain j0 where j0: "new_journal_service ''/j'' (\<lambda>_. None) = Some j0" using base_witness by (simp add: new_journal_service_def)
  then obtain j pid pc where j: "journal_step\<^sup>*\<^sup>* j0 j" "pid \<noteq> []" "map_of (pending_compactions j) pid = Some pc"
    using pending_reachable by blast
  have t: "trim_space ''ok'' \<noteq> []"
    by (simp add: trim_space_def trim_segs_def segs.simps(2) decode_rune_ascii seg_space_def is_space_def)
  from reply_is_kept [OF j0 base_witness(1) _ j t, of calm] j0 j show ?thesis
    by (fastforce simp: file_wf_def calm_def no_faults_def)
qed

text \<open>A session on the clock of another zone: the audit entry of a tool change lands in the file of another day.\<close>

lemma tool_change_local_clock:
  defines "t \<equiv> 86400 * second + 1800 * second"
  shows "clock_of (utc t) = (0, 30, 0) \<and> day_of (utc t) = 1 \<and>
    clock_of \<lparr>instant = t, zone = -3600\<rparr> = (23, 30, 0) \<and> day_of \<lparr>instant = t, zone = -3600\<rparr> = 0"
  by (simp add: t_def clock_of_def local_seconds_def day_of_def utc_def)

end
