(* ===== verification/IntentRouter.thy ===== *)
theory IntentRouter
  imports Conversation
begin

text \<open>
  The intent router, \<open>internal/intentrouter\<close> (\<open>service.go\<close>, \<open>tool_registry.go\<close>, \<open>types.go\<close>): it turns a prompt into a
  request for the AI adapter, lets the adapter use tools for a bounded number of rounds, and carries out the actions of
  the final response. The adapter, the tools, the sessions, the command queue, the prompt engine and the awareness
  providers are interfaces: functions on a state \<open>'w\<close> of the world that they may read and change. A prompt is
  handled by one goroutine, so a handler is one step. Logging and the time limits of the contexts are left out: a call
  that times out is a call that returns an error.
\<close>

section \<open>Data\<close>

datatype event_type =
  User_Intent | Session_Output_Event | Clarification | Heartbeat | Onboarding | Journal_Compaction | Conversation_Compaction

datatype action_type = Action_Command | Action_Speak | Action_Clarify | Action_Noop | Action_Tool_Use | Action_Other string

record session_info =
  si_id :: string
  si_command :: string
  si_args :: "string list"
  si_work_dir :: string
  si_tool :: string
  si_status :: string
  si_start_time :: time_ns
  si_metadata :: "(string, string) gomap"
  si_idle_state :: string
  si_waiting_for :: string
  si_idle_since :: time_ns

record tool_definition =
  td_name :: string
  td_description :: string
  td_parameters :: string

record tool_call =
  tc_call_id :: string
  tc_tool_name :: string
  tc_arguments :: string

record tool_result =
  tr_call_id :: string
  tr_result :: string
  tr_is_error :: bool

record tool_interaction =
  ti_call :: tool_call
  ti_result :: tool_result

record intent_request =
  rq_prompt_id :: string
  rq_session_id :: string
  rq_event_type :: event_type
  rq_transcript :: string
  rq_available_sessions :: "session_info list"
  rq_current_tool :: string
  rq_session_output :: string
  rq_clarification_question :: string
  rq_system_prompt :: string
  rq_user_prompt :: string
  rq_metadata :: "string \<Rightarrow> string option"
  rq_available_tools :: "tool_definition list"
  rq_tool_history :: "tool_interaction list"

record intent_action =
  ia_type :: action_type
  ia_session_ref :: string
  ia_command :: string
  ia_text :: string
  ia_metadata :: "string \<Rightarrow> string option"

record intent_response =
  rs_actions :: "intent_action list"
  rs_confidence :: rat
  rs_tool_calls :: "tool_call list"

record speak_event =
  sp_session_id :: string
  sp_prompt_id :: string
  sp_text :: string
  sp_metadata :: "string \<Rightarrow> string option"

datatype router_event = Published_Reply reply_event | Published_Speak speak_event

section \<open>Errors\<close>

text \<open>The sentinel errors of the package, as \<open>errors.Is\<close> finds them, and any other error with its text.\<close>

datatype router_error =
    No_Adapter | Adapter_Not_Ready | No_Command_Executor | Session_Not_Found string | Max_Tool_Iterations
  | Unexpected_Tool_Use | No_Tool_Registry | Other_Error string

fun error_text :: "router_error \<Rightarrow> string" where
  "error_text No_Adapter = ''intentrouter: no AI adapter configured''"
| "error_text Adapter_Not_Ready = ''intentrouter: adapter not ready''"
| "error_text No_Command_Executor = ''intentrouter: no command executor configured''"
| "error_text (Session_Not_Found ref) = ''session '' @ ref @ '': intentrouter: session not found''"
| "error_text Max_Tool_Iterations = ''intentrouter: max tool iterations reached''"
| "error_text Unexpected_Tool_Use = ''intentrouter: unexpected tool_use action in final response''"
| "error_text No_Tool_Registry = ''intentrouter: no tool registry configured''"
| "error_text (Other_Error t) = t"

fun error_type :: "router_error \<Rightarrow> string" where
  "error_type No_Adapter = ''no_adapter''"
| "error_type Adapter_Not_Ready = ''adapter_not_ready''"
| "error_type No_Command_Executor = ''no_executor''"
| "error_type (Session_Not_Found ref) = ''session_not_found''"
| "error_type Max_Tool_Iterations = ''max_tool_iterations''"
| "error_type Unexpected_Tool_Use = ''unexpected_tool_use''"
| "error_type No_Tool_Registry = ''no_tool_registry''"
| "error_type (Other_Error t) = ''unknown''"

fun recoverable_error :: "router_error \<Rightarrow> string" where
  "recoverable_error No_Adapter = ''true''"
| "recoverable_error Adapter_Not_Ready = ''true''"
| "recoverable_error No_Command_Executor = ''true''"
| "recoverable_error (Session_Not_Found ref) = ''false''"
| "recoverable_error Max_Tool_Iterations = ''false''"
| "recoverable_error Unexpected_Tool_Use = ''false''"
| "recoverable_error No_Tool_Registry = ''true''"
| "recoverable_error (Other_Error t) = ''unknown''"

fun user_friendly_error :: "router_error \<Rightarrow> string" where
  "user_friendly_error No_Adapter = ''No AI adapter is configured. Please configure an AI adapter to enable voice commands.''"
| "user_friendly_error Adapter_Not_Ready = ''The AI adapter is not ready yet. Please wait a moment and try again.''"
| "user_friendly_error No_Command_Executor = ''Cannot execute commands at this time.''"
| "user_friendly_error (Session_Not_Found ref) = ''The requested session was not found.''"
| "user_friendly_error Max_Tool_Iterations = ''The AI tool-use loop exceeded the maximum number of iterations. Please try again.''"
| "user_friendly_error Unexpected_Tool_Use = ''An unexpected tool request was received. Please try again.''"
| "user_friendly_error No_Tool_Registry = ''Tool use was requested but no tool registry is configured.''"
| "user_friendly_error (Other_Error t) = ''An error occurred while processing your request.''"

section \<open>The tool registry\<close>

record 'w tool_handler =
  th_definition :: tool_definition
  th_execute :: "string \<Rightarrow> 'w \<Rightarrow> (string + string) \<times> 'w"

type_synonym 'w tool_registry = "string \<rightharpoonup> 'w tool_handler"

fun event_type_mapping :: "event_type \<Rightarrow> string list" where
  "event_type_mapping User_Intent =
     [''memory_search'', ''memory_get'', ''memory_write'', ''core_memory_update'', ''heartbeat_add'',
      ''heartbeat_remove'', ''heartbeat_list'']"
| "event_type_mapping Session_Output_Event = [''memory_search'']"
| "event_type_mapping Clarification = []"
| "event_type_mapping Heartbeat = [''memory_search'', ''memory_write'']"
| "event_type_mapping Onboarding = [''core_memory_update'', ''onboarding_complete'']"
| "event_type_mapping Journal_Compaction = []"
| "event_type_mapping Conversation_Compaction = []"

definition new_tool_registry :: "'w tool_registry" where
  "new_tool_registry = Map.empty"

definition register_tool :: "'w tool_handler option \<Rightarrow> 'w tool_registry \<Rightarrow> 'w tool_registry" where
  "register_tool handler r =
     (case handler of
        None \<Rightarrow> r
      | Some th \<Rightarrow> let name = td_name (th_definition th) in if name = [] then r else r(name \<mapsto> th))"

definition get_tools_for_event_type :: "'w tool_registry \<Rightarrow> event_type \<Rightarrow> tool_definition list" where
  "get_tools_for_event_type r et =
     concat (map (\<lambda>name. case r name of None \<Rightarrow> [] | Some th \<Rightarrow> [th_definition th]) (event_type_mapping et))"

text \<open>\<open>Execute\<close>; \<open>Inl\<close> is the text of the error.\<close>

definition execute_tool :: "'w tool_registry \<Rightarrow> string \<Rightarrow> string \<Rightarrow> 'w \<Rightarrow> (string + string) \<times> 'w" where
  "execute_tool r name args w =
     (case r name of
        None \<Rightarrow> (Inl (''intentrouter: tool not found: '' @ name), w)
      | Some th \<Rightarrow> th_execute th args w)"

section \<open>The service\<close>

record 'w intent_adapter =
  ad_ready :: "'w \<Rightarrow> bool"
  ad_resolve :: "intent_request \<Rightarrow> 'w \<Rightarrow> (router_error + intent_response option) \<times> 'w"

record 'w session_provider =
  sp_list :: "'w \<Rightarrow> session_info list"
  sp_get :: "string \<Rightarrow> 'w \<Rightarrow> session_info option"
  sp_validate :: "string \<Rightarrow> 'w \<Rightarrow> bool"

record 'w onboarding_provider =
  ob_is_onboarding :: "string \<Rightarrow> 'w \<Rightarrow> bool \<times> 'w"
  ob_bootstrap :: "'w \<Rightarrow> string"

record prompt_build_request =
  pb_event_type :: event_type
  pb_session_id :: string
  pb_transcript :: string
  pb_available_sessions :: "session_info list"
  pb_current_tool :: string
  pb_session_output :: string
  pb_clarification_question :: string
  pb_metadata :: "string \<Rightarrow> string option"
  pb_journal_summaries :: string
  pb_journal_raw :: string
  pb_conversation_summaries :: string
  pb_conversation_raw :: string

text \<open>A provider that fails yields the values it returned with its error; \<open>pe_build\<close> is \<open>None\<close> when the engine
  fails or returns nothing, otherwise the system and the user prompt.\<close>

record 'w router =
  rt_adapter :: "'w intent_adapter option"
  rt_sessions :: "'w session_provider option"
  rt_executor :: "(string \<Rightarrow> string \<Rightarrow> 'w \<Rightarrow> router_error option \<times> 'w) option"
  rt_prompt_engine :: "(prompt_build_request \<Rightarrow> 'w \<Rightarrow> (string \<times> string) option) option"
  rt_tools :: "'w tool_registry option"
  rt_core_memory :: "('w \<Rightarrow> string) option"
  rt_onboarding :: "'w onboarding_provider option"
  rt_journal :: "(string \<Rightarrow> 'w \<Rightarrow> string \<times> string) option"
  rt_conversation_log :: "('w \<Rightarrow> string \<times> string) option"
  rt_tool_cache :: "string \<rightharpoonup> string"
  rt_conversation_session :: string
  rt_conversation_session_time :: time_ns
  rt_published :: "router_event list"

text \<open>The options of \<open>NewService\<close> and the setters of the running service write the same fields.\<close>

definition set_adapter :: "'w intent_adapter option \<Rightarrow> 'w router \<Rightarrow> 'w router" where
  "set_adapter a s = s\<lparr>rt_adapter := a\<rparr>"

definition set_session_provider :: "'w session_provider option \<Rightarrow> 'w router \<Rightarrow> 'w router" where
  "set_session_provider p s = s\<lparr>rt_sessions := p\<rparr>"

definition set_command_executor ::
    "(string \<Rightarrow> string \<Rightarrow> 'w \<Rightarrow> router_error option \<times> 'w) option \<Rightarrow> 'w router \<Rightarrow> 'w router" where
  "set_command_executor x s = s\<lparr>rt_executor := x\<rparr>"

definition set_prompt_engine ::
    "(prompt_build_request \<Rightarrow> 'w \<Rightarrow> (string \<times> string) option) option \<Rightarrow> 'w router \<Rightarrow> 'w router" where
  "set_prompt_engine e s = s\<lparr>rt_prompt_engine := e\<rparr>"

definition set_tool_registry :: "'w tool_registry option \<Rightarrow> 'w router \<Rightarrow> 'w router" where
  "set_tool_registry r s = s\<lparr>rt_tools := r\<rparr>"

definition set_core_memory_provider :: "('w \<Rightarrow> string) option \<Rightarrow> 'w router \<Rightarrow> 'w router" where
  "set_core_memory_provider p s = s\<lparr>rt_core_memory := p\<rparr>"

definition with_onboarding_provider :: "'w onboarding_provider option \<Rightarrow> 'w router \<Rightarrow> 'w router" where
  "with_onboarding_provider p s = s\<lparr>rt_onboarding := p\<rparr>"

definition with_journal_provider :: "(string \<Rightarrow> 'w \<Rightarrow> string \<times> string) option \<Rightarrow> 'w router \<Rightarrow> 'w router" where
  "with_journal_provider p s = s\<lparr>rt_journal := p\<rparr>"

definition with_conversation_log_provider :: "('w \<Rightarrow> string \<times> string) option \<Rightarrow> 'w router \<Rightarrow> 'w router" where
  "with_conversation_log_provider p s = s\<lparr>rt_conversation_log := p\<rparr>"

definition new_router :: "('w router \<Rightarrow> 'w router) list \<Rightarrow> 'w router" where
  "new_router opts =
     fold (\<lambda>opt s. opt s) opts
       \<lparr>rt_adapter = None, rt_sessions = None, rt_executor = None, rt_prompt_engine = None, rt_tools = None,
        rt_core_memory = None, rt_onboarding = None, rt_journal = None, rt_conversation_log = None,
        rt_tool_cache = Map.empty, rt_conversation_session = [], rt_conversation_session_time = 0, rt_published = []\<rparr>"

definition router_update_tool :: "string \<Rightarrow> string \<Rightarrow> 'w router \<Rightarrow> 'w router" where
  "router_update_tool sid tool s = (if sid = [] then s else s\<lparr>rt_tool_cache := (rt_tool_cache s)(sid \<mapsto> tool)\<rparr>)"

definition router_tool :: "string \<Rightarrow> 'w router \<Rightarrow> string" where
  "router_tool sid s = (case rt_tool_cache s sid of None \<Rightarrow> [] | Some t \<Rightarrow> t)"

definition router_clear_tool :: "string \<Rightarrow> 'w router \<Rightarrow> 'w router" where
  "router_clear_tool sid s =
     (if sid = [] then s
      else s\<lparr>rt_tool_cache := (rt_tool_cache s)(sid := None),
             rt_conversation_session := (if rt_conversation_session s = sid then [] else rt_conversation_session s)\<rparr>)"

definition router_lifecycle :: "string \<Rightarrow> string \<Rightarrow> 'w router \<Rightarrow> 'w router" where
  "router_lifecycle sid state s = (if state = ''stopped'' \<or> state = ''detached'' then router_clear_tool sid s else s)"

definition update_conversation_session :: "time_ns \<Rightarrow> string \<Rightarrow> 'w router \<Rightarrow> 'w router" where
  "update_conversation_session clock sid s =
     (if sid = [] then s else s\<lparr>rt_conversation_session := sid, rt_conversation_session_time := clock\<rparr>)"

definition get_conversation_session :: "time_ns \<Rightarrow> 'w router \<Rightarrow> string" where
  "get_conversation_session clock s =
     (if clock - rt_conversation_session_time s > 5 * 60 * second then [] else rt_conversation_session s)"

definition select_target_session :: "time_ns \<Rightarrow> prompt_event \<Rightarrow> 'w router \<Rightarrow> 'w \<Rightarrow> string" where
  "select_target_session clock prompt s w =
     (if pr_session_id prompt \<noteq> [] then pr_session_id prompt
      else
        let last_session = get_conversation_session clock s
        in case rt_sessions s of
             None \<Rightarrow> []
           | Some provider \<Rightarrow>
               if last_session \<noteq> [] \<and> sp_validate provider last_session w then last_session
               else case sp_list provider w of [i] \<Rightarrow> si_id i | _ \<Rightarrow> [])"

section \<open>Building the request\<close>

definition prompt_event_type :: "prompt_event \<Rightarrow> event_type" where
  "prompt_event_type prompt =
     (case pr_metadata prompt ''event_type'' of
        None \<Rightarrow> User_Intent
      | Some et \<Rightarrow>
          if et = ''session_output'' then Session_Output_Event
          else if et = ''clarification'' then Clarification
          else if et = ''heartbeat'' then Heartbeat
          else if et = ''onboarding'' then Onboarding
          else if et = ''journal_compaction'' then Journal_Compaction
          else if et = ''conversation_compaction'' then Conversation_Compaction
          else User_Intent)"

definition current_tool_of :: "prompt_event \<Rightarrow> string \<Rightarrow> 'w router \<Rightarrow> 'w \<Rightarrow> string" where
  "current_tool_of prompt target s w =
     (let tool = (case pr_metadata prompt ''current_tool'' of
                    Some t \<Rightarrow> t
                  | None \<Rightarrow> if target \<noteq> [] then router_tool target s else [])
      in if tool \<noteq> [] \<or> target = [] then tool
         else case rt_sessions s of
                None \<Rightarrow> tool
              | Some provider \<Rightarrow> (case sp_get provider target w of None \<Rightarrow> tool | Some i \<Rightarrow> si_tool i))"

definition wants_context :: "event_type \<Rightarrow> bool" where
  "wants_context et \<longleftrightarrow> et \<notin> {Onboarding, Heartbeat, Journal_Compaction, Conversation_Compaction}"

definition build_intent_request :: "time_ns \<Rightarrow> prompt_event \<Rightarrow> 'w router \<Rightarrow> 'w \<Rightarrow> intent_request \<times> 'w" where
  "build_intent_request clock prompt s w =
     (let et = prompt_event_type prompt;
          (onboarding, w) = (case rt_onboarding s of
                               Some p \<Rightarrow> if et = User_Intent then ob_is_onboarding p (pr_session_id prompt) w else (False, w)
                             | None \<Rightarrow> (False, w));
          et = (if onboarding then Onboarding else et);
          target = select_target_session clock prompt s w;
          tool = current_tool_of prompt target s w;
          routed = pr_session_id prompt = [] \<and> target \<noteq> [];
          meta = (if routed
                  then (pr_metadata prompt)(''suggested_session'' \<mapsto> target, ''routing_hint'' \<mapsto> ''conversation_context'')
                  else pr_metadata prompt);
          session_output = (case pr_metadata prompt ''session_output'' of None \<Rightarrow> [] | Some t \<Rightarrow> t);
          question = (case pr_metadata prompt ''clarification_question'' of None \<Rightarrow> [] | Some t \<Rightarrow> t);
          sessions = (case rt_sessions s of None \<Rightarrow> [] | Some p \<Rightarrow> sp_list p w);
          (conv_summaries, conv_raw) =
            (case rt_conversation_log s of Some p \<Rightarrow> if wants_context et then p w else ([], []) | None \<Rightarrow> ([], []));
          (journal_summaries, journal_raw) =
            (case rt_journal s of Some p \<Rightarrow> if wants_context et \<and> target \<noteq> [] then p target w else ([], []) | None \<Rightarrow> ([], []));
          built = (case rt_prompt_engine s of
                     None \<Rightarrow> None
                   | Some build \<Rightarrow>
                       build \<lparr>pb_event_type = et, pb_session_id = target, pb_transcript = turn_text (pr_message prompt),
                         pb_available_sessions = sessions, pb_current_tool = tool, pb_session_output = session_output,
                         pb_clarification_question = question, pb_metadata = pr_metadata prompt,
                         pb_journal_summaries = journal_summaries, pb_journal_raw = journal_raw,
                         pb_conversation_summaries = conv_summaries, pb_conversation_raw = conv_raw\<rparr> w)
      in (\<lparr>rq_prompt_id = pr_prompt_id prompt, rq_session_id = target, rq_event_type = et,
           rq_transcript = turn_text (pr_message prompt), rq_available_sessions = sessions, rq_current_tool = tool,
           rq_session_output = session_output, rq_clarification_question = question,
           rq_system_prompt = (case built of None \<Rightarrow> [] | Some (sys, usr) \<Rightarrow> sys),
           rq_user_prompt = (case built of None \<Rightarrow> [] | Some (sys, usr) \<Rightarrow> usr),
           rq_metadata = meta, rq_available_tools = [], rq_tool_history = []\<rparr>, w))"

definition inject_bootstrap_content :: "string \<Rightarrow> 'w onboarding_provider option \<Rightarrow> 'w \<Rightarrow> string" where
  "inject_bootstrap_content system_prompt provider w =
     (case provider of
        None \<Rightarrow> system_prompt
      | Some p \<Rightarrow>
          let bc = trim_space (ob_bootstrap p w)
          in if bc = [] then system_prompt
             else system_prompt @ [NL, NL] @ ''<onboarding>'' @ [NL] @ bc @ [NL] @ ''</onboarding>'')"

definition prepare_request :: "time_ns \<Rightarrow> prompt_event \<Rightarrow> 'w router \<Rightarrow> 'w \<Rightarrow> intent_request \<times> 'w" where
  "prepare_request clock prompt s w =
     (let (req, w) = build_intent_request clock prompt s w;
          req = (case rt_core_memory s of
                   None \<Rightarrow> req
                 | Some p \<Rightarrow>
                     let cm = p w
                     in if cm = [] then req
                        else req\<lparr>rq_system_prompt := ''<core-memory>'' @ [NL] @ cm @ [NL] @ ''</core-memory>'' @ [NL, NL] @ rq_system_prompt req\<rparr>);
          req = (if rq_event_type req = Onboarding
                 then req\<lparr>rq_system_prompt := inject_bootstrap_content (rq_system_prompt req) (rt_onboarding s) w\<rparr> else req);
          req = (case rt_tools s of
                   None \<Rightarrow> req
                 | Some r \<Rightarrow> req\<lparr>rq_available_tools := get_tools_for_event_type r (rq_event_type req)\<rparr>)
      in (req, w))"

section \<open>The tool loop\<close>

definition has_tool_use_action :: "intent_response option \<Rightarrow> bool" where
  "has_tool_use_action response \<longleftrightarrow>
     (case response of
        None \<Rightarrow> False
      | Some r \<Rightarrow> rs_tool_calls r \<noteq> [] \<and> list_ex (\<lambda>a. ia_type a = Action_Tool_Use) (rs_actions r))"

definition run_tool_call :: "'w tool_registry \<Rightarrow> tool_call \<Rightarrow> 'w \<Rightarrow> tool_interaction \<times> 'w" where
  "run_tool_call r call w =
     (case execute_tool r (tc_tool_name call) (tc_arguments call) w of
        (Inl err, w) \<Rightarrow>
          (\<lparr>ti_call = call, ti_result = \<lparr>tr_call_id = tc_call_id call,
              tr_result = ''{'' @ json_string ''error'' @ '':'' @ json_string err @ ''}'', tr_is_error = True\<rparr>\<rparr>, w)
      | (Inr result, w) \<Rightarrow>
          (\<lparr>ti_call = call, ti_result = \<lparr>tr_call_id = tc_call_id call, tr_result = result, tr_is_error = False\<rparr>\<rparr>, w))"

fun run_tool_calls :: "'w tool_registry \<Rightarrow> tool_call list \<Rightarrow> tool_interaction list \<Rightarrow> 'w \<Rightarrow> tool_interaction list \<times> 'w" where
  "run_tool_calls r [] history w = (history, w)"
| "run_tool_calls r (c # cs) history w =
     (case run_tool_call r c w of (i, w) \<Rightarrow> run_tool_calls r cs (history @ [i]) w)"

definition max_tool_iterations :: nat where
  "max_tool_iterations = 10"

text \<open>The loop of \<open>handlePrompt\<close>; the first argument counts the rounds that are left.\<close>

fun tool_loop ::
    "nat \<Rightarrow> 'w intent_adapter \<Rightarrow> 'w tool_registry option \<Rightarrow> intent_request \<Rightarrow> tool_interaction list \<Rightarrow> 'w \<Rightarrow>
     (router_error + intent_response option) \<times> 'w" where
  "tool_loop 0 ad reg req history w = (Inl Max_Tool_Iterations, w)"
| "tool_loop (Suc n) ad reg req history w =
     (case ad_resolve ad (req\<lparr>rq_tool_history := history\<rparr>) w of
        (Inl err, w) \<Rightarrow> (Inl err, w)
      | (Inr response, w) \<Rightarrow>
          if \<not> has_tool_use_action response then (Inr response, w)
          else case reg of
                 None \<Rightarrow> (Inl No_Tool_Registry, w)
               | Some r \<Rightarrow>
                   (case run_tool_calls r (rs_tool_calls (the response)) history w of
                      (history, w) \<Rightarrow> tool_loop n ad reg req history w))"

section \<open>Replies and actions\<close>

definition publish_reply ::
    "string \<Rightarrow> string \<Rightarrow> string \<Rightarrow> conversation_action list \<Rightarrow> (string, string) gomap \<Rightarrow> 'w router \<Rightarrow> 'w router" where
  "publish_reply sid pid txt actions meta s =
     s\<lparr>rt_published := rt_published s @ [Published_Reply \<lparr>rp_session_id = sid, rp_prompt_id = pid, rp_text = txt,
         rp_actions = actions, rp_metadata = meta\<rparr>]\<rparr>"

definition publish_speak :: "string \<Rightarrow> string \<Rightarrow> string \<Rightarrow> (string \<Rightarrow> string option) \<Rightarrow> 'w router \<Rightarrow> 'w router" where
  "publish_speak sid pid txt meta s =
     s\<lparr>rt_published := rt_published s @ [Published_Speak \<lparr>sp_session_id = sid, sp_prompt_id = pid, sp_text = txt, sp_metadata = meta\<rparr>]\<rparr>"

definition publish_error :: "prompt_event \<Rightarrow> router_error \<Rightarrow> 'w router \<Rightarrow> 'w router" where
  "publish_error prompt err s =
     publish_speak (pr_session_id prompt) (pr_prompt_id prompt) (user_friendly_error err)
       [''type'' \<mapsto> ''error'', ''error'' \<mapsto> error_text err]
       (publish_reply (pr_session_id prompt) (pr_prompt_id prompt) (''Error: '' @ error_text err) []
         [(''error'', ''true''), (''error_type'', error_type err), (''recoverable'', recoverable_error err)] s)"

definition build_reply_metadata :: "prompt_event \<Rightarrow> (string, string) gomap \<Rightarrow> (string, string) gomap" where
  "build_reply_metadata prompt extra =
     (case pr_metadata prompt ''event_type'' of
        Some et \<Rightarrow> if et \<noteq> [] then mput ''event_type'' et extra else extra
      | None \<Rightarrow> extra)"

definition fixed2 :: "rat \<Rightarrow> string" where
  "fixed2 v =
     (let t = nat (round_half_even (\<bar>v\<bar> * 100)); d = decimal (t mod 100)
      in (if v < 0 then ''-'' else []) @ decimal (t div 100) @ ''.'' @ replicate (2 - length d) (CHR ''0'') @ d)"

definition execute_command ::
    "time_ns \<Rightarrow> prompt_event \<Rightarrow> intent_action \<Rightarrow> rat \<Rightarrow> 'w router \<Rightarrow> 'w \<Rightarrow> 'w router \<times> 'w" where
  "execute_command clock prompt action confidence s w =
     (let ref = (if ia_session_ref action = [] then pr_session_id prompt else ia_session_ref action)
      in if (case rt_sessions s of None \<Rightarrow> False | Some p \<Rightarrow> \<not> sp_validate p ref w)
         then (publish_error prompt (Session_Not_Found ref) s, w)
         else case rt_executor s of
                None \<Rightarrow> (publish_error prompt No_Command_Executor s, w)
              | Some queue_command \<Rightarrow>
                  (case queue_command ref (ia_command action) w of
                     (Some err, w) \<Rightarrow> (publish_error prompt err s, w)
                   | (None, w) \<Rightarrow>
                       (publish_reply (pr_session_id prompt) (pr_prompt_id prompt) []
                          [\<lparr>act_type = ''command'', act_target = ref,
                            act_args = [(''command'', ia_command action), (''origin'', ''ai''), (''confidence'', fixed2 confidence)]\<rparr>]
                          (build_reply_metadata prompt [(''status'', ''command_queued''), (''session_id'', ref)])
                          (update_conversation_session clock ref s), w)))"

definition is_language_key :: "string \<Rightarrow> bool" where
  "is_language_key k \<longleftrightarrow> prefix ''nupi.lang.'' k"

definition with_language :: "prompt_event \<Rightarrow> (string \<Rightarrow> string option) \<Rightarrow> string \<Rightarrow> string option" where
  "with_language prompt meta =
     (\<lambda>k. if is_language_key k \<and> pr_metadata prompt k \<noteq> None then pr_metadata prompt k else meta k)"

definition execute_speak :: "prompt_event \<Rightarrow> intent_action \<Rightarrow> string \<Rightarrow> 'w router \<Rightarrow> 'w router" where
  "execute_speak prompt action target s =
     (if ia_text action = [] then s
      else
        let sid = (if target = [] then pr_session_id prompt else target)
        in publish_reply sid (pr_prompt_id prompt) (ia_text action) [] (build_reply_metadata prompt [(''status'', ''speak'')])
             (publish_speak sid (pr_prompt_id prompt) (ia_text action) (with_language prompt (ia_metadata action)) s))"

definition execute_clarify :: "prompt_event \<Rightarrow> intent_action \<Rightarrow> string \<Rightarrow> 'w router \<Rightarrow> 'w router" where
  "execute_clarify prompt action target s =
     (if ia_text action = [] then s
      else
        let sid = (if target = [] then pr_session_id prompt else target)
        in publish_reply sid (pr_prompt_id prompt) (ia_text action)
             [\<lparr>act_type = ''clarify'', act_target = [], act_args = [(''question'', ia_text action)]\<rparr>]
             (build_reply_metadata prompt [(''status'', ''clarification'')])
             (publish_speak sid (pr_prompt_id prompt) (ia_text action) (with_language prompt [''type'' \<mapsto> ''clarification'']) s))"

text \<open>One action; \<open>clock\<close> gives the reading of the clock for the action at each index.\<close>

definition execute_action ::
    "time_ns \<Rightarrow> prompt_event \<Rightarrow> intent_action \<Rightarrow> rat \<Rightarrow> string \<Rightarrow> 'w router \<Rightarrow> 'w \<Rightarrow> 'w router \<times> 'w" where
  "execute_action clock prompt action confidence target s w =
     (case ia_type action of
        Action_Command \<Rightarrow> execute_command clock prompt action confidence s w
      | Action_Speak \<Rightarrow> (execute_speak prompt action target s, w)
      | Action_Clarify \<Rightarrow> (execute_clarify prompt action target s, w)
      | Action_Noop \<Rightarrow>
          (publish_reply (pr_session_id prompt) (pr_prompt_id prompt) [] [] (build_reply_metadata prompt [(''status'', ''noop'')]) s, w)
      | Action_Tool_Use \<Rightarrow> (publish_error prompt Unexpected_Tool_Use s, w)
      | Action_Other t \<Rightarrow> (s, w))"

fun execute_each ::
    "(nat \<Rightarrow> time_ns) \<Rightarrow> nat \<Rightarrow> prompt_event \<Rightarrow> intent_action list \<Rightarrow> rat \<Rightarrow> string \<Rightarrow> 'w router \<Rightarrow> 'w \<Rightarrow> 'w router \<times> 'w" where
  "execute_each clock i prompt [] confidence target s w = (s, w)"
| "execute_each clock i prompt (a # as) confidence target s w =
     (case execute_action (clock i) prompt a confidence target s w of
        (s, w) \<Rightarrow> execute_each clock (Suc i) prompt as confidence target s w)"

definition execute_actions ::
    "(nat \<Rightarrow> time_ns) \<Rightarrow> prompt_event \<Rightarrow> intent_response option \<Rightarrow> string \<Rightarrow> 'w router \<Rightarrow> 'w \<Rightarrow> 'w router \<times> 'w" where
  "execute_actions clock prompt response target s w =
     (case response of
        None \<Rightarrow> (publish_reply (pr_session_id prompt) (pr_prompt_id prompt) [] [] (build_reply_metadata prompt [(''status'', ''no_action'')]) s, w)
      | Some r \<Rightarrow>
          if rs_actions r = []
          then (publish_reply (pr_session_id prompt) (pr_prompt_id prompt) [] [] (build_reply_metadata prompt [(''status'', ''no_action'')]) s, w)
          else execute_each clock 0 prompt (rs_actions r) (rs_confidence r) target s w)"

definition handle_prompt :: "time_ns \<Rightarrow> (nat \<Rightarrow> time_ns) \<Rightarrow> prompt_event \<Rightarrow> 'w router \<Rightarrow> 'w \<Rightarrow> 'w router \<times> 'w" where
  "handle_prompt clock clocks prompt s w =
     (case rt_adapter s of
        None \<Rightarrow> (publish_error prompt No_Adapter s, w)
      | Some ad \<Rightarrow>
          if \<not> ad_ready ad w then (publish_error prompt Adapter_Not_Ready s, w)
          else
            let (req, w) = prepare_request clock prompt s w
            in case tool_loop max_tool_iterations ad (rt_tools s) req [] w of
                 (Inl err, w) \<Rightarrow> (publish_error prompt err s, w)
               | (Inr response, w) \<Rightarrow> execute_actions clocks prompt response (rq_session_id req) s w)"

definition adapter_status :: "'w router \<Rightarrow> 'w \<Rightarrow> bool" where
  "adapter_status s w = (case rt_adapter s of None \<Rightarrow> False | Some ad \<Rightarrow> ad_ready ad w)"

text \<open>\<open>truncate\<close>, which shortens commands for the log, counts runes; invalid bytes become the replacement character.\<close>

definition truncate_runes :: "string \<Rightarrow> int \<Rightarrow> string" where
  "truncate_runes s max_len =
     (if max_len \<le> 0 then s
      else
        let rs = map fst (segs s)
        in if int (length rs) \<le> max_len then s
           else if max_len \<le> 3 then concat (map encode_rune (take (nat max_len) rs))
           else concat (map encode_rune (take (nat (max_len - 3)) rs)) @ ''...'')"

end
