(* ===== verification/RouterProperties.thy ===== *)
theory RouterProperties
  imports IntentRouter
begin

text \<open>
  What the intent router promises: every prompt is answered, the adapter is asked a bounded number of times and always
  with a complete tool history, it is offered only tools that exist, and commands go only to sessions that exist.
\<close>

section \<open>Answers\<close>

fun is_reply :: "router_event \<Rightarrow> bool" where
  "is_reply (Published_Reply r) = True"
| "is_reply (Published_Speak sp) = False"

fun event_prompt :: "router_event \<Rightarrow> string" where
  "event_prompt (Published_Reply r) = rp_prompt_id r"
| "event_prompt (Published_Speak sp) = sp_prompt_id sp"

definition silent :: "intent_action \<Rightarrow> bool" where
  "silent a \<longleftrightarrow>
     (case ia_type a of Action_Speak \<Rightarrow> ia_text a = [] | Action_Clarify \<Rightarrow> ia_text a = [] | Action_Other t \<Rightarrow> True | _ \<Rightarrow> False)"

text \<open>A handler that publishes \<open>n\<close> replies, all of its events under the id of the prompt, and changes no provider.\<close>

definition answers :: "string \<Rightarrow> nat \<Rightarrow> 'w router \<Rightarrow> 'w router \<Rightarrow> bool" where
  "answers pid n s s' \<longleftrightarrow>
     (\<exists>evs. rt_published s' = rt_published s @ evs \<and> (\<forall>e \<in> set evs. event_prompt e = pid) \<and> length (List.filter is_reply evs) = n) \<and>
     rt_sessions s' = rt_sessions s \<and> rt_executor s' = rt_executor s"

named_theorems answering \<open>how many replies an operation publishes\<close>

lemma answers_refl [answering]: "answers pid 0 s s"
  by (simp add: answers_def)

lemma answers_trans:
  assumes "answers pid m s t" "answers pid n t u"
  shows "answers pid (m + n) s u"
proof -
  from assms obtain e1 e2 where
    "rt_published t = rt_published s @ e1" "\<forall>e \<in> set e1. event_prompt e = pid" "length (List.filter is_reply e1) = m"
    "rt_published u = rt_published t @ e2" "\<forall>e \<in> set e2. event_prompt e = pid" "length (List.filter is_reply e2) = n"
    by (auto simp: answers_def)
  then have "rt_published u = rt_published s @ (e1 @ e2)" "\<forall>e \<in> set (e1 @ e2). event_prompt e = pid"
    "length (List.filter is_reply (e1 @ e2)) = m + n" by auto
  with assms show ?thesis unfolding answers_def by metis
qed

lemma answers_reply [answering]: "answers pid (Suc 0) s (publish_reply sid pid t acts meta s)"
  by (simp add: answers_def publish_reply_def)

lemma answers_speak [answering]: "answers pid 0 s (publish_speak sid pid t meta s)"
  by (simp add: answers_def publish_speak_def)

lemma answers_error [answering]: "answers (pr_prompt_id p) (Suc 0) s (publish_error p err s)"
  unfolding publish_error_def using answers_trans [OF answers_reply answers_speak, of "pr_prompt_id p" s] by simp

lemma answers_conversation [simp]:
  "answers pid n (update_conversation_session c sid s) t = answers pid n s t"
  by (simp add: answers_def update_conversation_session_def)

lemma answers_command [answering]: "answers (pr_prompt_id p) (Suc 0) s (fst (execute_command c p a conf s w))"
  using answers_error [of p s] answers_reply [of "pr_prompt_id p" "update_conversation_session c _ s"]
  by (auto simp: execute_command_def Let_def answers_reply split: option.splits prod.splits)

lemma answers_action [answering]:
  "answers (pr_prompt_id p) (if silent a then 0 else Suc 0) s (fst (execute_action c p a conf target s w))"
proof -
  have two: "answers (pr_prompt_id p) (Suc 0) s
      (publish_reply sid (pr_prompt_id p) t acts meta (publish_speak sid' (pr_prompt_id p) t' meta' s))"
    for sid t acts meta sid' t' meta'
    using answers_trans [OF answers_speak answers_reply, of "pr_prompt_id p" s] by simp
  show ?thesis
    using two
    by (auto simp: execute_action_def silent_def execute_speak_def execute_clarify_def Let_def answering
          split: action_type.splits)
qed

lemma answers_each [answering]:
  "answers (pr_prompt_id p) (length (List.filter (\<lambda>a. \<not> silent a) as)) s (fst (execute_each cs i p as conf target s w))"
proof (induction as arbitrary: i s w)
  case Nil
  show ?case by (simp add: answering)
next
  case (Cons a as)
  obtain s1 w1 where e: "execute_action (cs i) p a conf target s w = (s1, w1)" by fastforce
  from answers_action [of p a s "cs i" conf target w] e
  have 1: "answers (pr_prompt_id p) (if silent a then 0 else Suc 0) s s1" by simp
  show ?case using answers_trans [OF 1 Cons.IH [of s1 "Suc i" w1]] by (simp add: e split: if_splits)
qed

text \<open>The number of replies that a final response asks for.\<close>

fun replies_due :: "(router_error + intent_response option) \<Rightarrow> nat" where
  "replies_due (Inl err) = Suc 0"
| "replies_due (Inr None) = Suc 0"
| "replies_due (Inr (Some r)) = (if rs_actions r = [] then Suc 0 else length (List.filter (\<lambda>a. \<not> silent a) (rs_actions r)))"

lemma answers_actions [answering]:
  "answers (pr_prompt_id p) (replies_due (Inr resp)) s (fst (execute_actions cs p resp target s w))"
  by (auto simp: execute_actions_def answering split: option.splits)

text \<open>What the tool loop of \<open>handlePrompt\<close> returns for a prompt.\<close>

definition outcome :: "time_ns \<Rightarrow> prompt_event \<Rightarrow> 'w router \<Rightarrow> 'w \<Rightarrow> router_error + intent_response option" where
  "outcome clock p s w =
     (case rt_adapter s of
        None \<Rightarrow> Inl No_Adapter
      | Some ad \<Rightarrow>
          if \<not> ad_ready ad w then Inl Adapter_Not_Ready
          else case prepare_request clock p s w of
                 (req, w) \<Rightarrow> fst (tool_loop max_tool_iterations ad (rt_tools s) req [] w))"

text \<open>C31: A prompt is answered on every path: the router publishes one reply for an error, one when the adapter returns
  nothing, and otherwise one for each action that is not a text action without text or of an unknown type; all events
  carry the id of the prompt, after those published before.\<close>

theorem every_prompt_answered:
  "\<exists>evs. rt_published (fst (handle_prompt clock clocks p s w)) = rt_published s @ evs \<and>
     (\<forall>e \<in> set evs. event_prompt e = pr_prompt_id p) \<and>
     length (List.filter is_reply evs) = replies_due (outcome clock p s w)"
proof -
  have "answers (pr_prompt_id p) (replies_due (outcome clock p s w)) s (fst (handle_prompt clock clocks p s w))"
    by (auto simp: handle_prompt_def outcome_def Let_def answering answers_actions split: option.splits prod.splits sum.splits
        simp del: replies_due.simps(2,3))
  then show ?thesis by (simp add: answers_def)
qed

definition demo_prompt :: "prompt_event" where
  "demo_prompt =
     \<lparr>pr_session_id = ''s'', pr_prompt_id = ''p'',
      pr_message = \<lparr>turn_origin = ''user'', turn_text = ''hi'', turn_at = 0, turn_meta = []\<rparr>, pr_metadata = Map.empty\<rparr>"

theorem every_prompt_answered_witness:
  "\<exists>r. Published_Reply r \<in> set (rt_published (fst (handle_prompt 0 (\<lambda>i. 0) demo_prompt (new_router []) ())))"
proof -
  have "outcome 0 demo_prompt (new_router []) () = Inl No_Adapter" "rt_published (new_router [] :: unit router) = []"
    by (simp_all add: outcome_def new_router_def)
  with every_prompt_answered [of 0 "\<lambda>i. 0" demo_prompt "new_router []" "()"]
  obtain evs where evs: "rt_published (fst (handle_prompt 0 (\<lambda>i. 0) demo_prompt (new_router []) ())) = evs"
    "length (List.filter is_reply evs) = Suc 0" by auto
  then obtain e where "e \<in> set evs" "is_reply e"
    by (metis filter_empty_conv list.size(3) nat.simps(3))
  with evs show ?thesis by (cases e) auto
qed

section \<open>The cost of a prompt\<close>

text \<open>A measure \<open>c\<close> of the world that only the adapter increases, by at most one per request: the number of requests.\<close>

definition frugal :: "('w \<Rightarrow> nat) \<Rightarrow> 'w router \<Rightarrow> bool" where
  "frugal c s \<longleftrightarrow>
     (\<forall>r name th args w. rt_tools s = Some r \<longrightarrow> r name = Some th \<longrightarrow> c (snd (th_execute th args w)) = c w) \<and>
     (\<forall>q ref cmd w. rt_executor s = Some q \<longrightarrow> c (snd (q ref cmd w)) = c w) \<and>
     (\<forall>ob sid w. rt_onboarding s = Some ob \<longrightarrow> c (snd (ob_is_onboarding ob sid w)) = c w)"

lemma run_tool_calls_cost:
  assumes "\<And>name th args w. r name = Some th \<Longrightarrow> c (snd (th_execute th args w)) = (c w :: nat)"
  shows "c (snd (run_tool_calls r cs h w)) = c w"
proof (induction cs arbitrary: h w)
  case (Cons t cs)
  obtain i w1 where e: "run_tool_call r t w = (i, w1)" by fastforce
  have "c (snd (execute_tool r name args w)) = c w" for name args
    using assms by (auto simp: execute_tool_def split: option.splits)
  from this [of "tc_tool_name t" "tc_arguments t"] e have "c w1 = c w"
    by (auto simp: run_tool_call_def split: prod.splits sum.splits)
  then show ?case by (simp add: e Cons.IH)
qed simp

lemma tool_loop_cost:
  assumes adapter: "\<And>req w. c (snd (ad_resolve ad req w)) \<le> Suc (c w)"
    and tools: "\<And>r name th args w. reg = Some r \<Longrightarrow> r name = Some th \<Longrightarrow> c (snd (th_execute th args w)) = (c w :: nat)"
  shows "c (snd (tool_loop n ad reg req h w)) \<le> c w + n"
proof (induction n arbitrary: h w)
  case (Suc n)
  obtain res w1 where e: "ad_resolve ad (req\<lparr>rq_tool_history := h\<rparr>) w = (res, w1)" by fastforce
  from adapter [of "req\<lparr>rq_tool_history := h\<rparr>" w] e have w1: "c w1 \<le> Suc (c w)" by simp
  show ?case
  proof (cases "\<exists>resp r. res = Inr resp \<and> has_tool_use_action resp \<and> reg = Some r")
    case True
    then obtain resp r where res: "res = Inr resp" "has_tool_use_action resp" "reg = Some r" by blast
    obtain h2 w2 where t: "run_tool_calls r (rs_tool_calls (the resp)) h w1 = (h2, w2)" by fastforce
    from run_tool_calls_cost [of r c "rs_tool_calls (the resp)" h w1] tools [OF res(3)] t have "c w2 = c w1" by simp
    with Suc.IH [of h2 w2] w1 show ?thesis by (simp add: e res t)
  qed (use w1 in \<open>auto simp: e split: sum.splits option.splits\<close>)
qed simp

lemma tool_loop_exhausted:
  assumes adapter: "\<And>req w. \<exists>resp w'. ad_resolve ad req w = (Inr resp, w') \<and> has_tool_use_action resp \<and> c w' = Suc (c w)"
    and tools: "\<And>r name th args w. reg = Some r \<Longrightarrow> r name = Some th \<Longrightarrow> c (snd (th_execute th args w)) = (c w :: nat)"
    and reg: "reg = Some r"
  shows "fst (tool_loop n ad reg req h w) = Inl Max_Tool_Iterations \<and> c (snd (tool_loop n ad reg req h w)) = c w + n"
proof (induction n arbitrary: h w)
  case (Suc n)
  obtain resp w1 where e: "ad_resolve ad (req\<lparr>rq_tool_history := h\<rparr>) w = (Inr resp, w1)" "has_tool_use_action resp" "c w1 = Suc (c w)"
    using adapter by blast
  obtain h2 w2 where t: "run_tool_calls r (rs_tool_calls (the resp)) h w1 = (h2, w2)" by fastforce
  from run_tool_calls_cost [of r c "rs_tool_calls (the resp)" h w1] tools [OF reg] t have "c w2 = c w1" by simp
  with Suc.IH [of h2 w2] e show ?case by (simp add: reg t)
qed simp

lemma prepare_world:
  "snd (prepare_request clock p s w) =
     (case rt_onboarding s of
        None \<Rightarrow> w
      | Some ob \<Rightarrow> if prompt_event_type p = User_Intent then snd (ob_is_onboarding ob (pr_session_id p) w) else w)"
  by (simp add: prepare_request_def build_intent_request_def Let_def split_beta split: option.splits)

lemma prepare_cost: "frugal c s \<Longrightarrow> c (snd (prepare_request clock p s w)) = c w"
  by (simp add: prepare_world frugal_def split: option.splits)

text \<open>An action leaves the providers alone and changes the world at most by queueing a command.\<close>

abbreviation same_providers :: "'w router \<Rightarrow> 'w router \<Rightarrow> bool" where
  "same_providers s s' \<equiv>
     rt_tools s' = rt_tools s \<and> rt_executor s' = rt_executor s \<and> rt_onboarding s' = rt_onboarding s \<and> rt_sessions s' = rt_sessions s"

lemma publish_frame [frame_simps]:
  "same_providers s (publish_reply sid pid t acts meta s)" "same_providers s (publish_speak sid pid t smeta s)"
  "same_providers s (update_conversation_session c sid s)"
  by (simp_all add: publish_reply_def publish_speak_def update_conversation_session_def)

lemma publish_error_frame [frame_simps]: "same_providers s (publish_error p err s)"
  by (simp add: publish_error_def publish_frame)

lemma execute_command_frame:
  "same_providers s (fst (execute_command clock p a conf s w)) \<and>
   (snd (execute_command clock p a conf s w) = w \<or>
    (\<exists>q ref cmd. rt_executor s = Some q \<and> snd (execute_command clock p a conf s w) = snd (q ref cmd w)))"
proof (cases "rt_executor s")
  case (Some q)
  then show ?thesis
    by (auto simp: execute_command_def Let_def frame_simps split_beta split: option.splits)
qed (auto simp: execute_command_def Let_def frame_simps split: option.splits)

lemma execute_action_frame:
  assumes "execute_action clock p a conf target s w = (s', w')"
  shows "same_providers s s'" and "w' = w \<or> (\<exists>q ref cmd. rt_executor s = Some q \<and> w' = snd (q ref cmd w))"
  using assms execute_command_frame [where s = s and clock = clock and p = p and a = a and conf = conf and w = w]
  by (auto simp: execute_action_def execute_speak_def execute_clarify_def Let_def frame_simps split: action_type.splits if_splits)

lemma execute_each_cost:
  assumes "frugal c s"
  shows "c (snd (execute_each cs i p as conf target s w)) = c w"
  using assms
proof (induction as arbitrary: i s w)
  case (Cons a as)
  obtain s1 w1 where e: "execute_action (cs i) p a conf target s w = (s1, w1)" by fastforce
  from Cons.prems execute_action_frame(2) [OF e] have "c w1 = c w" by (auto simp: frugal_def)
  moreover from Cons.prems execute_action_frame(1) [OF e] have "frugal c s1" by (simp add: frugal_def)
  ultimately show ?case using Cons.IH [of s1 "Suc i" w1] by (simp add: e)
qed simp

lemma execute_actions_cost: "frugal c s \<Longrightarrow> c (snd (execute_actions cs p resp target s w)) = c w"
  by (auto simp: execute_actions_def execute_each_cost split: option.splits)

text \<open>An adapter that answers every request by asking for a tool once more.\<close>

definition insists :: "('w \<Rightarrow> nat) \<Rightarrow> 'w intent_adapter \<Rightarrow> bool" where
  "insists c ad \<longleftrightarrow>
     (\<forall>w. ad_ready ad w) \<and>
     (\<forall>req w. \<exists>resp w'. ad_resolve ad req w = (Inr resp, w') \<and> has_tool_use_action resp \<and> c w' = Suc (c w))"

text \<open>C35: The AI adapter is asked at most ten times for one prompt, whatever it answers: a measure of the world that each
  request raises by at most one, and nothing else raises, grows by at most ten. An adapter that asks for tools every
  time is stopped after exactly ten requests with the error for too many iterations.\<close>

theorem adapter_calls_bounded:
  assumes ad: "rt_adapter s = Some ad" and f: "frugal c s" and step: "\<And>req w. c (snd (ad_resolve ad req w)) \<le> Suc (c w)"
  shows "c (snd (handle_prompt clock clocks p s w)) \<le> c w + 10 \<and>
    (insists c ad \<and> rt_tools s \<noteq> None \<longrightarrow>
       outcome clock p s w = Inl Max_Tool_Iterations \<and> c (snd (handle_prompt clock clocks p s w)) = c w + 10)"
proof -
  obtain req w1 where pr: "prepare_request clock p s w = (req, w1)" by fastforce
  have w1: "c w1 = c w" using prepare_cost [OF f, of clock p w] by (simp add: pr)
  have tools: "c (snd (th_execute th args w)) = c w" if "rt_tools s = Some r" "r name = Some th" for r name th args w
    using f that by (auto simp: frugal_def)
  obtain res w2 where lp: "tool_loop 10 ad (rt_tools s) req [] w1 = (res, w2)" by fastforce
  have "c w2 \<le> c w + 10"
    using tool_loop_cost [of c ad "rt_tools s" 10 req "[]" w1, OF step tools] by (simp add: lp w1)
  moreover have fin: "snd (handle_prompt clock clocks p s w) = w \<or> c (snd (handle_prompt clock clocks p s w)) = c w2"
    by (auto simp: handle_prompt_def ad pr lp max_tool_iterations_def execute_actions_cost [OF f] split: sum.splits)
  moreover have "res = Inl Max_Tool_Iterations \<and> c w2 = c w + 10" if "insists c ad" "rt_tools s = Some r" for r
    using tool_loop_exhausted [of ad c "rt_tools s" r 10 req "[]" w1] tools that lp by (auto simp: insists_def w1)
  then have "outcome clock p s w = Inl Max_Tool_Iterations \<and> c (snd (handle_prompt clock clocks p s w)) = c w + 10"
    if "insists c ad" "rt_tools s \<noteq> None"
    using that by (auto simp: outcome_def handle_prompt_def ad pr lp max_tool_iterations_def insists_def)
  ultimately show ?thesis by force
qed

definition stubborn :: "nat intent_adapter" where
  "stubborn =
     \<lparr>ad_ready = (\<lambda>w. True),
      ad_resolve = (\<lambda>req n. (Inr (Some \<lparr>rs_actions = [\<lparr>ia_type = Action_Tool_Use, ia_session_ref = [], ia_command = [], ia_text = [],
        ia_metadata = Map.empty\<rparr>], rs_confidence = 0,
        rs_tool_calls = [\<lparr>tc_call_id = ''1'', tc_tool_name = ''t'', tc_arguments = ''{}''\<rparr>]\<rparr>), Suc n))\<rparr>"

theorem adapter_calls_bounded_witness:
  "snd (handle_prompt 0 (\<lambda>i. 0) demo_prompt (new_router [set_adapter (Some stubborn), set_tool_registry (Some new_tool_registry)]) (0 :: nat)) = 10"
proof -
  have i: "insists id stubborn" by (simp add: insists_def stubborn_def has_tool_use_action_def)
  have "frugal id (new_router [set_adapter (Some stubborn), set_tool_registry (Some new_tool_registry)])"
    by (simp add: frugal_def new_router_def set_adapter_def set_tool_registry_def new_tool_registry_def)
  from adapter_calls_bounded [OF _ this, of stubborn 0 "\<lambda>i. 0" demo_prompt 0] i show ?thesis
    by (simp add: new_router_def set_adapter_def set_tool_registry_def stubborn_def)
qed

section \<open>What the adapter sees\<close>

definition matched :: "tool_interaction \<Rightarrow> bool" where
  "matched i \<longleftrightarrow> tr_call_id (ti_result i) = tc_call_id (ti_call i)"

lemma run_tool_calls_spec:
  "map ti_call (fst (run_tool_calls r cs h w)) = map ti_call h @ cs \<and> prefix h (fst (run_tool_calls r cs h w)) \<and>
   (list_all matched h \<longrightarrow> list_all matched (fst (run_tool_calls r cs h w)))"
proof (induction cs arbitrary: h w)
  case (Cons t cs)
  obtain i w1 where e: "run_tool_call r t w = (i, w1)" by fastforce
  then have "ti_call i = t" "matched i" by (auto simp: run_tool_call_def matched_def split: prod.splits sum.splits)
  with Cons.IH [of "h @ [i]" w1] show ?case by (auto simp: e dest: append_prefixD)
qed simp

lemma tool_loop_same:
  assumes "\<And>h w. list_all matched h \<Longrightarrow> ad_resolve ad (req\<lparr>rq_tool_history := h\<rparr>) w = ad_resolve ad' (req\<lparr>rq_tool_history := h\<rparr>) w"
    and "list_all matched h"
  shows "tool_loop n ad reg req h w = tool_loop n ad' reg req h w"
  using assms(2)
proof (induction n arbitrary: h w)
  case (Suc n)
  have "tool_loop n ad reg req (fst (run_tool_calls r cs h w)) w' = tool_loop n ad' reg req (fst (run_tool_calls r cs h w)) w'" for r cs w w'
    using Suc.IH run_tool_calls_spec [of r cs h w] Suc.prems by blast
  with assms(1) [OF Suc.prems] show ?case by (auto simp: split_beta split: sum.splits option.splits)
qed simp

definition well_formed_request :: "prompt_event \<Rightarrow> 'w router \<Rightarrow> intent_request \<Rightarrow> bool" where
  "well_formed_request p s req \<longleftrightarrow>
     rq_prompt_id req = pr_prompt_id p \<and> rq_transcript req = turn_text (pr_message p) \<and>
     (pr_session_id p \<noteq> [] \<longrightarrow> rq_session_id req = pr_session_id p) \<and>
     rq_event_type req \<in> {prompt_event_type p, Onboarding} \<and>
     rq_available_tools req = (case rt_tools s of None \<Rightarrow> [] | Some r \<Rightarrow> get_tools_for_event_type r (rq_event_type req)) \<and>
     list_all matched (rq_tool_history req)"

lemma build_intent_request_fields:
  "rq_prompt_id (fst (build_intent_request clock p s w)) = pr_prompt_id p"
  "rq_transcript (fst (build_intent_request clock p s w)) = turn_text (pr_message p)"
  "rq_event_type (fst (build_intent_request clock p s w)) \<in> {prompt_event_type p, Onboarding}"
  "\<exists>w'. rq_session_id (fst (build_intent_request clock p s w)) = select_target_session clock p s w'"
  "rq_tool_history (fst (build_intent_request clock p s w)) = []"
  "rq_available_tools (fst (build_intent_request clock p s w)) = []"
  by (auto simp add: build_intent_request_def Let_def split_beta)

lemma prepare_request_shape:
  "\<exists>sys. fst (prepare_request clock p s w) = fst (build_intent_request clock p s w)
     \<lparr>rq_system_prompt := sys,
      rq_available_tools := (case rt_tools s of None \<Rightarrow> [] | Some r \<Rightarrow>
        get_tools_for_event_type r (rq_event_type (fst (build_intent_request clock p s w))))\<rparr>"
proof -
  obtain req w1 where b: "build_intent_request clock p s w = (req, w1)" by fastforce
  with build_intent_request_fields(6) [of clock p s w] have "rq_available_tools req = []" by simp
  then show ?thesis
    by (cases req) (auto simp: prepare_request_def b Let_def split: option.splits)
qed

lemma prepare_request_well_formed:
  assumes "list_all matched h"
  shows "well_formed_request p s (fst (prepare_request clock p s w)\<lparr>rq_tool_history := h\<rparr>)"
proof -
  obtain sys where "fst (prepare_request clock p s w) = fst (build_intent_request clock p s w)
     \<lparr>rq_system_prompt := sys,
      rq_available_tools := (case rt_tools s of None \<Rightarrow> [] | Some r \<Rightarrow>
        get_tools_for_event_type r (rq_event_type (fst (build_intent_request clock p s w))))\<rparr>"
    using prepare_request_shape [of clock p s w] ..
  moreover have "pr_session_id p \<noteq> [] \<Longrightarrow> rq_session_id (fst (build_intent_request clock p s w)) = pr_session_id p"
    using build_intent_request_fields(4) [of clock p s w] by (auto simp: select_target_session_def)
  ultimately show ?thesis
    using build_intent_request_fields(1-3) [of clock p s w] assms by (simp add: well_formed_request_def split: option.split)
qed

text \<open>Replacing the adapter or the executor changes nothing else of what the handlers do.\<close>

lemma provider_fields:
  "rt_onboarding (s\<lparr>rt_adapter := a\<rparr>) = rt_onboarding s" "rt_onboarding (s\<lparr>rt_executor := x\<rparr>) = rt_onboarding s"
  "rt_sessions (s\<lparr>rt_adapter := a\<rparr>) = rt_sessions s" "rt_sessions (s\<lparr>rt_executor := x\<rparr>) = rt_sessions s"
  "rt_prompt_engine (s\<lparr>rt_adapter := a\<rparr>) = rt_prompt_engine s" "rt_prompt_engine (s\<lparr>rt_executor := x\<rparr>) = rt_prompt_engine s"
  "rt_core_memory (s\<lparr>rt_adapter := a\<rparr>) = rt_core_memory s" "rt_core_memory (s\<lparr>rt_executor := x\<rparr>) = rt_core_memory s"
  "rt_journal (s\<lparr>rt_adapter := a\<rparr>) = rt_journal s" "rt_journal (s\<lparr>rt_executor := x\<rparr>) = rt_journal s"
  "rt_conversation_log (s\<lparr>rt_adapter := a\<rparr>) = rt_conversation_log s" "rt_conversation_log (s\<lparr>rt_executor := x\<rparr>) = rt_conversation_log s"
  "rt_tools (s\<lparr>rt_adapter := a\<rparr>) = rt_tools s" "rt_tools (s\<lparr>rt_executor := x\<rparr>) = rt_tools s"
  "rt_tool_cache (s\<lparr>rt_adapter := a\<rparr>) = rt_tool_cache s" "rt_tool_cache (s\<lparr>rt_executor := x\<rparr>) = rt_tool_cache s"
  "get_conversation_session clock (s\<lparr>rt_adapter := a\<rparr>) = get_conversation_session clock s"
  "get_conversation_session clock (s\<lparr>rt_executor := x\<rparr>) = get_conversation_session clock s"
  by (simp_all add: get_conversation_session_def)

lemma prepare_request_providers [simp]:
  "prepare_request clock p (s\<lparr>rt_adapter := a\<rparr>) w = prepare_request clock p s w"
  "prepare_request clock p (s\<lparr>rt_executor := x\<rparr>) w = prepare_request clock p s w"
  unfolding prepare_request_def build_intent_request_def select_target_session_def current_tool_of_def router_tool_def provider_fields
  by (rule refl)+

lemma publish_providers [simp]:
  "publish_reply sid pid t acts meta (s\<lparr>rt_adapter := a\<rparr>) = (publish_reply sid pid t acts meta s)\<lparr>rt_adapter := a\<rparr>"
  "publish_speak sid pid t smeta (s\<lparr>rt_adapter := a\<rparr>) = (publish_speak sid pid t smeta s)\<lparr>rt_adapter := a\<rparr>"
  "publish_error p err (s\<lparr>rt_adapter := a\<rparr>) = (publish_error p err s)\<lparr>rt_adapter := a\<rparr>"
  "update_conversation_session c sid (s\<lparr>rt_adapter := a\<rparr>) = (update_conversation_session c sid s)\<lparr>rt_adapter := a\<rparr>"
  "publish_reply sid pid t acts meta (s\<lparr>rt_executor := x\<rparr>) = (publish_reply sid pid t acts meta s)\<lparr>rt_executor := x\<rparr>"
  "publish_speak sid pid t smeta (s\<lparr>rt_executor := x\<rparr>) = (publish_speak sid pid t smeta s)\<lparr>rt_executor := x\<rparr>"
  "publish_error p err (s\<lparr>rt_executor := x\<rparr>) = (publish_error p err s)\<lparr>rt_executor := x\<rparr>"
  "update_conversation_session c sid (s\<lparr>rt_executor := x\<rparr>) = (update_conversation_session c sid s)\<lparr>rt_executor := x\<rparr>"
  by (simp_all add: publish_error_def publish_reply_def publish_speak_def update_conversation_session_def)

lemma execute_action_adapter:
  "execute_action clock p act conf target (s\<lparr>rt_adapter := a\<rparr>) w =
     map_prod (\<lambda>s. s\<lparr>rt_adapter := a\<rparr>) id (execute_action clock p act conf target s w)"
  by (simp add: execute_action_def execute_command_def execute_speak_def execute_clarify_def Let_def
      split: action_type.splits option.splits prod.splits)

lemma execute_each_adapter:
  "execute_each cs i p as conf target (s\<lparr>rt_adapter := a\<rparr>) w =
     map_prod (\<lambda>s. s\<lparr>rt_adapter := a\<rparr>) id (execute_each cs i p as conf target s w)"
  by (induction as arbitrary: i s w) (simp_all add: execute_action_adapter split_beta)

lemma execute_actions_adapter:
  "execute_actions cs p resp target (s\<lparr>rt_adapter := a\<rparr>) w =
     map_prod (\<lambda>s. s\<lparr>rt_adapter := a\<rparr>) id (execute_actions cs p resp target s w)"
  by (simp add: execute_actions_def execute_each_adapter split: option.splits)


definition quiet_adapter :: "unit intent_adapter" where
  "quiet_adapter = \<lparr>ad_ready = (\<lambda>w. True), ad_resolve = (\<lambda>req w. (Inr None, w))\<rparr>"

definition strict_adapter :: "unit intent_adapter" where
  "strict_adapter = \<lparr>ad_ready = (\<lambda>w. True), ad_resolve = (\<lambda>req w.
     (if well_formed_request demo_prompt (new_router [] :: unit router) req then Inr None else Inl (Other_Error ''bad request''), w))\<rparr>"


section \<open>Commands\<close>

lemma execute_command_executor:
  assumes "rt_sessions s = Some pr" "\<And>ref cmd w. sp_validate pr ref w \<Longrightarrow> q ref cmd w = q' ref cmd w"
  shows "execute_command clock p act conf (s\<lparr>rt_executor := Some q'\<rparr>) w =
     map_prod (\<lambda>s. s\<lparr>rt_executor := Some q'\<rparr>) id (execute_command clock p act conf (s\<lparr>rt_executor := Some q\<rparr>) w)"
  using assms by (auto simp: execute_command_def Let_def provider_fields split: option.splits prod.splits)

lemma execute_action_executor:
  assumes "rt_sessions s = Some pr" "\<And>ref cmd w. sp_validate pr ref w \<Longrightarrow> q ref cmd w = q' ref cmd w"
  shows "execute_action clock p act conf target (s\<lparr>rt_executor := Some q'\<rparr>) w =
     map_prod (\<lambda>s. s\<lparr>rt_executor := Some q'\<rparr>) id (execute_action clock p act conf target (s\<lparr>rt_executor := Some q\<rparr>) w)"
  using execute_command_executor [OF assms]
  by (simp add: execute_action_def execute_speak_def execute_clarify_def Let_def split: action_type.splits)

lemma execute_each_executor:
  assumes "rt_sessions s = Some pr" "\<And>ref cmd w. sp_validate pr ref w \<Longrightarrow> q ref cmd w = q' ref cmd w"
  shows "execute_each cs i p as conf target (s\<lparr>rt_executor := Some q'\<rparr>) w =
     map_prod (\<lambda>s. s\<lparr>rt_executor := Some q'\<rparr>) id (execute_each cs i p as conf target (s\<lparr>rt_executor := Some q\<rparr>) w)"
  using assms(1)
proof (induction as arbitrary: i s w)
  case (Cons a as)
  obtain s1 w1 where e: "execute_action (cs i) p a conf target (s\<lparr>rt_executor := Some q\<rparr>) w = (s1, w1)" by fastforce
  from execute_action_frame(1) [OF e] Cons.prems have s1: "s1\<lparr>rt_executor := Some q\<rparr> = s1" "rt_sessions s1 = Some pr"
    by simp_all
  show ?case using execute_action_executor [OF Cons.prems assms(2)] Cons.IH [OF s1(2), of "Suc i" w1]
    by (simp add: e s1(1))
qed simp

lemma execute_actions_executor:
  assumes "rt_sessions s = Some pr" "\<And>ref cmd w. sp_validate pr ref w \<Longrightarrow> q ref cmd w = q' ref cmd w"
  shows "execute_actions cs p resp target (s\<lparr>rt_executor := Some q'\<rparr>) w =
     map_prod (\<lambda>s. s\<lparr>rt_executor := Some q'\<rparr>) id (execute_actions cs p resp target (s\<lparr>rt_executor := Some q\<rparr>) w)"
  using execute_each_executor [OF assms] by (simp add: execute_actions_def split: option.splits)

text \<open>C32: A command reaches the queue only for a session that the session provider has just confirmed: two command queues
  that agree on the sessions valid at the moment of the call cannot be told apart by the events or by the world.\<close>

theorem commands_only_to_valid_sessions:
  assumes "rt_sessions s = Some pr" "\<And>ref cmd w. sp_validate pr ref w \<Longrightarrow> q ref cmd w = q' ref cmd w"
  shows "rt_published (fst (handle_prompt clock clocks p (set_command_executor (Some q) s) w)) =
         rt_published (fst (handle_prompt clock clocks p (set_command_executor (Some q') s) w)) \<and>
         snd (handle_prompt clock clocks p (set_command_executor (Some q) s) w) =
         snd (handle_prompt clock clocks p (set_command_executor (Some q') s) w)"
  unfolding set_command_executor_def handle_prompt_def
  using execute_actions_executor [OF assms]
  by (auto simp: provider_fields split: option.splits sum.splits prod.splits)

definition demo_sessions :: "(string \<times> string) list session_provider" where
  "demo_sessions = \<lparr>sp_list = (\<lambda>w. []), sp_get = (\<lambda>sid w. None), sp_validate = (\<lambda>sid w. sid = ''s'')\<rparr>"

theorem commands_only_to_valid_sessions_witness:
  "snd (handle_prompt 0 (\<lambda>i. 0) demo_prompt
     (set_command_executor (Some (\<lambda>ref cmd w. (None, w @ [(ref, cmd)]))) (new_router [set_session_provider (Some demo_sessions)])) []) =
   snd (handle_prompt 0 (\<lambda>i. 0) demo_prompt
     (set_command_executor (Some (\<lambda>ref cmd w. if ref = ''s'' then (None, w @ [(ref, cmd)]) else (None, []))) (new_router [set_session_provider (Some demo_sessions)])) [])"
  using commands_only_to_valid_sessions [of "new_router [set_session_provider (Some demo_sessions)]" demo_sessions
      "\<lambda>ref cmd w. (None, w @ [(ref, cmd)])" "\<lambda>ref cmd w. if ref = ''s'' then (None, w @ [(ref, cmd)]) else (None, [])"
      0 "\<lambda>i. 0" demo_prompt "[]"]
  by (simp add: new_router_def set_session_provider_def demo_sessions_def)

section \<open>Tools\<close>

text \<open>The contract of a tool registry, and that of \<open>NewToolRegistry\<close>.\<close>

locale tool_registry_contract =
  fixes empty :: 'r
    and reg :: "'w tool_handler option \<Rightarrow> 'r \<Rightarrow> 'r"
    and offer :: "'r \<Rightarrow> event_type \<Rightarrow> tool_definition list"
    and exec :: "'r \<Rightarrow> string \<Rightarrow> string \<Rightarrow> 'w \<Rightarrow> (string + string) \<times> 'w"
    and holds :: "'r \<Rightarrow> 'w tool_handler \<Rightarrow> bool"
    and ok :: "'r \<Rightarrow> bool"
  assumes ok_empty: "ok empty"
    and ok_reg: "ok r \<Longrightarrow> ok (reg h r)"
    and holds_empty: "\<not> holds empty th"
    and holds_reg: "holds (reg h r) th \<Longrightarrow> holds r th \<or> h = Some th"
    and offered: "ok r \<Longrightarrow> td \<in> set (offer r et) \<Longrightarrow>
      \<exists>th. holds r th \<and> th_definition th = td \<and> td_name td \<in> set (event_type_mapping et) \<and>
        (\<forall>args w. exec r (td_name td) args w = th_execute th args w)"
begin

lemma ok_run: "ok r \<Longrightarrow> ok (fold reg hs r)"
  by (induction hs arbitrary: r) (auto intro: ok_reg)

lemma holds_run: "holds (fold reg hs r) th \<Longrightarrow> holds r th \<or> Some th \<in> set hs"
  by (induction hs arbitrary: r) (auto dest: holds_reg)

lemma offered_run:
  assumes "td \<in> set (offer (fold reg hs empty) et)"
  shows "\<exists>th. Some th \<in> set hs \<and> th_definition th = td \<and> td_name td \<in> set (event_type_mapping et) \<and>
    (\<forall>args w. exec (fold reg hs empty) (td_name td) args w = th_execute th args w)"
  using offered [OF ok_run [OF ok_empty] assms] holds_run [of hs empty] holds_empty by blast

end

definition registry_ok :: "'w tool_registry \<Rightarrow> bool" where
  "registry_ok r \<longleftrightarrow> (\<forall>name th. r name = Some th \<longrightarrow> td_name (th_definition th) = name)"

interpretation default_registry: tool_registry_contract new_tool_registry register_tool get_tools_for_event_type execute_tool
  "\<lambda>r th. th \<in> ran r" registry_ok
proof
  fix r :: "'w tool_registry" and td et
  assume ok: "registry_ok r" and "td \<in> set (get_tools_for_event_type r et)"
  then obtain name th where "name \<in> set (event_type_mapping et)" "r name = Some th" "td = th_definition th"
    by (auto simp: get_tools_for_event_type_def split: option.splits dest!: sym [of "Some _"])
  with ok show "\<exists>th. th \<in> ran r \<and> th_definition th = td \<and> td_name td \<in> set (event_type_mapping et) \<and>
      (\<forall>args w. execute_tool r (td_name td) args w = th_execute th args w)"
    by (auto simp: registry_ok_def execute_tool_def ran_def intro!: exI [of _ th])
qed (auto simp: registry_ok_def new_tool_registry_def register_tool_def ran_def Let_def split: option.splits if_splits)

lemma registered_name:
  assumes "name \<noteq> []" "Some th \<in> set hs \<and> td_name (th_definition th) = name \<or> r name \<noteq> None"
  shows "fold register_tool hs r name \<noteq> None"
  using assms(2)
  by (induction hs arbitrary: r) (auto simp: register_tool_def Let_def assms(1) split: option.splits)

text \<open>Whatever handlers are registered, in any order and with replacements: a tool that is offered for an event type is
  in the table of that type and running it by its name runs a registered handler with exactly this definition; and every
  registered tool of the table is offered.\<close>

theorem offered_tools_run:
  fixes hs :: "'w tool_handler option list"
  defines "r \<equiv> fold register_tool hs new_tool_registry"
  shows "(\<forall>td \<in> set (get_tools_for_event_type r et).
      \<exists>th. Some th \<in> set hs \<and> th_definition th = td \<and> td_name td \<in> set (event_type_mapping et) \<and>
        (\<forall>args w. execute_tool r (td_name td) args w = th_execute th args w)) \<and>
    (\<forall>th. Some th \<in> set hs \<longrightarrow> td_name (th_definition th) \<in> set (event_type_mapping et) \<longrightarrow>
      td_name (th_definition th) \<in> td_name ` set (get_tools_for_event_type r et))"
proof (intro conjI ballI allI impI)
  fix td assume "td \<in> set (get_tools_for_event_type r et)"
  then show "\<exists>th. Some th \<in> set hs \<and> th_definition th = td \<and> td_name td \<in> set (event_type_mapping et) \<and>
        (\<forall>args w. execute_tool r (td_name td) args w = th_execute th args w)"
    unfolding r_def by (rule default_registry.offered_run)
next
  fix th assume th: "Some th \<in> set hs" "td_name (th_definition th) \<in> set (event_type_mapping et)"
  define name where "name = td_name (th_definition th)"
  have "name \<noteq> []" using th(2) by (cases et) (auto simp: name_def)
  with th(1) obtain th' where "r name = Some th'"
    using registered_name [of name th hs new_tool_registry] unfolding r_def name_def by blast
  moreover from this have "td_name (th_definition th') = name"
    using default_registry.ok_run [OF default_registry.ok_empty, of hs] unfolding r_def registry_ok_def by blast
  moreover from \<open>r name = Some th'\<close> th(2) have "th_definition th' \<in> set (get_tools_for_event_type r et)"
    unfolding get_tools_for_event_type_def set_concat set_map name_def [symmetric]
    by (intro UN_I [of "case r name of None \<Rightarrow> [] | Some th \<Rightarrow> [th_definition th]"] image_eqI [of _ _ name]) simp_all
  ultimately show "td_name (th_definition th) \<in> td_name ` set (get_tools_for_event_type r et)"
    by (metis imageI name_def)
qed

definition demo_tool :: "unit tool_handler" where
  "demo_tool =
     \<lparr>th_definition = \<lparr>td_name = ''memory_search'', td_description = ''search'', td_parameters = ''{}''\<rparr>,
      th_execute = (\<lambda>args w. (Inr args, w))\<rparr>"

theorem offered_tools_run_witness:
  "th_definition demo_tool \<in> set (get_tools_for_event_type (fold register_tool [Some demo_tool] new_tool_registry) Session_Output_Event) \<and>
   (\<exists>th. Some th \<in> set [Some demo_tool] \<and> th_definition th = th_definition demo_tool \<and>
     (\<forall>args w. execute_tool (fold register_tool [Some demo_tool] new_tool_registry) ''memory_search'' args w = th_execute th args w))"
proof
  show offered: "th_definition demo_tool \<in> set (get_tools_for_event_type (fold register_tool [Some demo_tool] new_tool_registry) Session_Output_Event)"
    by (simp add: get_tools_for_event_type_def register_tool_def Let_def new_tool_registry_def demo_tool_def)
  have n: "td_name (th_definition demo_tool) = ''memory_search''" by (simp add: demo_tool_def)
  show "\<exists>th. Some th \<in> set [Some demo_tool] \<and> th_definition th = th_definition demo_tool \<and>
     (\<forall>args w. execute_tool (fold register_tool [Some demo_tool] new_tool_registry) ''memory_search'' args w = th_execute th args w)"
    using bspec [OF conjunct1 [OF offered_tools_run [of "[Some demo_tool]" Session_Output_Event]] offered] unfolding n by blast
qed

text \<open>Only the offer depends on the event type: a call of a tool that was not offered runs all the same.\<close>

lemma unoffered_tool_runs:
  "''memory_write'' \<notin> set (event_type_mapping Session_Output_Event) \<and>
   (r ''memory_write'' = Some th \<longrightarrow>
    snd (run_tool_calls r [\<lparr>tc_call_id = c, tc_tool_name = ''memory_write'', tc_arguments = args\<rparr>] h w) = snd (th_execute th args w))"
  by (auto simp: run_tool_call_def execute_tool_def split: prod.splits sum.splits)

end
