(* ===== verification/ConversationLog.thy ===== *)
theory ConversationLog
  imports JournalSafety Conversation
begin

text \<open>
  The conversation log, \<open>internal/awareness/conversation_log.go\<close>: every turn of the conversation goes into one rolling
  log and into an append-only file per day. It works on the logs, audit files and cleaning of the journal
  (\<open>Journal\<close>), but keeps one log for all sessions, writes the audit file first and compacts only what it could append. A
  handler is one step; the goroutines, loggers and mutexes are left out.
\<close>

section \<open>State\<close>

record conv_pending_compaction =
  cp_log :: nat
  cp_start :: string
  cp_end :: string

record conv_log =
  cl_base :: string
  cl_stale_timeout :: duration
  cl_started :: bool
  cl_log :: "nat option"
  cl_heap :: "nat \<rightharpoonup> rolling_log"
  cl_next :: nat
  cl_dir_created :: bool
  cl_files :: "string set"
  cl_pending :: "(string, conv_pending_compaction) gomap"
  cl_in_flight :: bool
  cl_started_at :: int
  cl_disk :: disk
  cl_events :: "journal_event list"

definition new_conversation_log :: "string \<Rightarrow> disk \<Rightarrow> conv_log option" where
  "new_conversation_log base d =
     (if \<not> is_abs base then None
      else Some \<lparr>cl_base = base, cl_stale_timeout = default_stale_timeout, cl_started = False, cl_log = None,
        cl_heap = Map.empty, cl_next = 0, cl_dir_created = False, cl_files = {}, cl_pending = [], cl_in_flight = False,
        cl_started_at = 0, cl_disk = d, cl_events = []\<rparr>)"

definition conv_path :: "string \<Rightarrow> string" where
  "conv_path base = join_path base ''conversation.md''"

definition conversation_compaction_threshold :: int where
  "conversation_compaction_threshold = 16000"

definition conversation_summary_budget :: int where
  "conversation_summary_budget = 10000"

definition conv_on_log :: "nat \<Rightarrow> (rolling_log \<times> disk \<Rightarrow> 'e \<times> rolling_log \<times> disk) \<Rightarrow> conv_log \<Rightarrow> 'e \<times> conv_log" where
  "conv_on_log h f s =
     (case f (the (cl_heap s h), cl_disk s) of
        (e, r, d) \<Rightarrow> (e, s\<lparr>cl_heap := (cl_heap s)(h \<mapsto> r), cl_disk := d\<rparr>))"

text \<open>\<open>Start\<close> (\<open>False\<close>: it returns an error) and \<open>Shutdown\<close>, once the consumers have stopped.\<close>

definition conv_start :: "bool \<Rightarrow> conv_log \<Rightarrow> bool \<times> conv_log" where
  "conv_start rf s =
     (if cl_started s then (False, s)
      else case new_rolling_log rf (conv_path (cl_base s))
               [With_Compaction_Threshold conversation_compaction_threshold, With_Summary_Budget conversation_summary_budget]
               (cl_disk s) of
             Inl err \<Rightarrow> (False, s)
           | Inr r \<Rightarrow> (True, s\<lparr>cl_log := Some (cl_next s), cl_heap := (cl_heap s)(cl_next s \<mapsto> r),
                               cl_next := Suc (cl_next s), cl_started := True\<rparr>))"

definition conv_shutdown :: "conv_log \<Rightarrow> conv_log" where
  "conv_shutdown s =
     (if \<not> cl_started s then s
      else s\<lparr>cl_started := False, cl_files := {}, cl_pending := [], cl_in_flight := False, cl_started_at := 0,
             cl_dir_created := False, cl_log := None\<rparr>)"

section \<open>Reading turns back\<close>

definition role_to_origin :: "string \<Rightarrow> string" where
  "role_to_origin role =
     (if role = ''user'' then ''user'' else if role = ''ai'' then ''ai'' else if role = ''tool'' then ''tool''
      else if role = ''system'' then ''system'' else ''system'')"

definition origin_to_role :: "string \<Rightarrow> string" where
  "origin_to_role origin =
     (if origin = ''user'' then ''user'' else if origin = ''ai'' then ''ai'' else if origin = ''tool'' then ''tool''
      else if origin = ''system'' then ''system'' else ''unknown'')"

text \<open>\<open>time.Parse\<close> of a clock alone yields the first of January of the year 0, which has 366 days.\<close>

definition clock_seconds :: "nat \<times> nat \<times> nat \<Rightarrow> int" where
  "clock_seconds = (\<lambda>(h, m, s). int (3600 * h + 60 * m + s))"

definition clock_time :: "nat \<times> nat \<times> nat \<Rightarrow> time_ns" where
  "clock_time c = (clock_seconds c - 366 * 86400) * second"

definition date_clock_time :: "nat \<times> nat \<times> nat \<Rightarrow> nat \<times> nat \<times> nat \<Rightarrow> time_ns" where
  "date_clock_time day c = (int (day_number day) * 86400 + clock_seconds c) * second"

definition plain_turn :: "string \<Rightarrow> conversation_turn" where
  "plain_turn entry = \<lparr>turn_origin = ''system'', turn_text = entry, turn_at = 0, turn_meta = []\<rparr>"

text \<open>A parse error of the whole time stamp yields the zero time, and so does the first instant of the year 1.\<close>

definition parse_one_turn :: "string \<Rightarrow> string \<Rightarrow> conversation_turn option" where
  "parse_one_turn entry date_prefix =
     (let entry = trim_space entry
      in if entry = [] then None
         else if length entry < 15 then Some (plain_turn entry)
         else case parse_clock (take 8 entry) of
                None \<Rightarrow> Some (plain_turn entry)
              | Some clock \<Rightarrow>
                  let rest = drop 8 entry
                  in if length rest < 2 \<or> rest ! 0 \<noteq> CHR '' '' \<or> rest ! 1 \<noteq> CHR ''['' then Some (plain_turn entry)
                     else case index_of rest ''] '' of
                            None \<Rightarrow> Some (plain_turn entry)
                          | Some close_bracket \<Rightarrow>
                              let role = drop 2 (take close_bracket rest);
                                  body = drop (close_bracket + 2) rest;
                                  full = (case parse_date date_prefix of None \<Rightarrow> 0 | Some day \<Rightarrow> date_clock_time day clock)
                              in Some \<lparr>turn_origin = role_to_origin role, turn_text = body,
                                       turn_at = (if is_zero full then clock_time clock else full), turn_meta = []\<rparr>)"

definition conv_slice :: "go_time \<Rightarrow> int \<Rightarrow> int \<Rightarrow> conv_log \<Rightarrow> nat \<times> conversation_turn list" where
  "conv_slice t offset limit s =
     (case cl_log s of
        None \<Rightarrow> (0, [])
      | Some h \<Rightarrow>
          (case slice_raw_tail offset limit (the (cl_heap s h)) of
             (n, xs) \<Rightarrow>
               (n, concat (map (\<lambda>entry. case parse_one_turn entry (format_date t) of None \<Rightarrow> [] | Some turn \<Rightarrow> [turn]) xs))))"

definition conv_get_context :: "conv_log \<Rightarrow> string \<times> string" where
  "conv_get_context s = (case cl_log s of None \<Rightarrow> ([], []) | Some h \<Rightarrow> get_context (the (cl_heap s h)))"

section \<open>The audit files\<close>

definition conv_audit_file :: "string \<Rightarrow> string \<Rightarrow> string" where
  "conv_audit_file base date = join_path (join_path base ''logs'') (date @ ''.md'')"

definition conv_get_log_file :: "log_io \<Rightarrow> string \<Rightarrow> conv_log \<Rightarrow> log_error option \<times> conv_log" where
  "conv_get_log_file io date s =
     (if date \<in> cl_files s then (None, s)
      else
        let s = s\<lparr>cl_files := {}\<rparr>
        in case open_log_file io (conv_audit_file (cl_base s) date) (cl_disk s) of
             (Some e, d) \<Rightarrow> (Some e, s)
           | (None, d) \<Rightarrow> (None, s\<lparr>cl_files := insert date (cl_files s), cl_disk := d\<rparr>))"

definition conv_write_log_entry :: "log_io \<Rightarrow> string \<Rightarrow> go_time \<Rightarrow> conv_log \<Rightarrow> log_error option \<times> conv_log" where
  "conv_write_log_entry io entry ts s =
     (if \<not> cl_dir_created s \<and> mkdir_fails io then (Some Create_Dir_Failed, s)
      else
        let s = s\<lparr>cl_dir_created := True\<rparr>;
            date = format_date ts
        in if \<not> cl_started s then (None, s)
           else case conv_get_log_file io date s of
                  (Some e, s) \<Rightarrow> (Some e, s)
                | (None, s) \<Rightarrow>
                    (case write_string io (conv_audit_file (cl_base s) date) (entry @ [NL]) (cl_disk s) of
                       (e, d) \<Rightarrow> (e, s\<lparr>cl_disk := d\<rparr>)))"

definition conv_write_fallback :: "log_io \<Rightarrow> string \<Rightarrow> go_time \<Rightarrow> conv_log \<Rightarrow> log_error option \<times> conv_log" where
  "conv_write_fallback io entry ts s =
     (if mkdir_fails io then (Some Create_Dir_Failed, s)
      else if open_result io \<noteq> Open_Ok then (Some Open_Log_Failed, s)
      else case write_string io (conv_audit_file (cl_base s) (format_date ts)) (entry @ [NL]) (cl_disk s) of
             (e, d) \<Rightarrow> (e, s\<lparr>cl_disk := d\<rparr>))"

section \<open>Compaction\<close>

definition conv_check_stale :: "time_ns \<Rightarrow> conv_log \<Rightarrow> conv_log" where
  "conv_check_stale clock s =
     (if cl_started_at s = 0 then s
      else if unix_nano clock - cl_started_at s < cl_stale_timeout s then s
      else s\<lparr>cl_pending := [], cl_in_flight := False, cl_started_at := 0\<rparr>)"

definition conv_prompt_id :: "time_ns \<Rightarrow> string" where
  "conv_prompt_id clock = ''conversation-compact-'' @ int_text (unix_nano clock)"

definition conv_trigger_compaction :: "os_fault option \<Rightarrow> compaction_clock \<Rightarrow> nat \<Rightarrow> conv_log \<Rightarrow> conv_log" where
  "conv_trigger_compaction fault ck h s =
     (let s = (if cl_in_flight s then conv_check_stale (stale_check_at ck) s else s)
      in if cl_in_flight s then s
         else
           let s = s\<lparr>cl_in_flight := True, cl_started_at := unix_nano (started_reading ck)\<rparr>
           in case conv_on_log h (older_half fault) s of
                (Inl e, s) \<Rightarrow> s\<lparr>cl_in_flight := False\<rparr>
              | (Inr older, s) \<Rightarrow>
                  if older = [] then s\<lparr>cl_in_flight := False\<rparr>
                  else
                    let (start_time, end_time) = extract_time_range older;
                        pid = conv_prompt_id (prompt_reading ck);
                        pc = \<lparr>cp_log = h, cp_start = start_time, cp_end = end_time\<rparr>
                    in s\<lparr>cl_pending := mput pid pc (cl_pending s),
                         cl_events := cl_events s @ [Compaction_Prompt [] pid older]\<rparr>)"

definition conv_trigger_archival ::
    "string \<Rightarrow> string \<Rightarrow> os_fault option \<Rightarrow> os_fault option \<Rightarrow> rolling_log \<times> disk \<Rightarrow>
     (string \<times> sync_type) option \<times> rolling_log \<times> disk" where
  "conv_trigger_archival base date f1 f2 = (\<lambda>(r, d).
     let summaries = older_summaries r in
     if summaries = [] then (None, r, d)
     else
       let archive_path = join_path base ''archives'';
           archive_file = join_path archive_path (date @ ''.md'');
           archive_existed = (d archive_file \<noteq> None)
       in case archive f1 archive_path summaries date d of
            (Some e, d1) \<Rightarrow> (None, r, d1)
          | (None, d1) \<Rightarrow>
              (case commit_archival f2 (int (length summaries)) (r, d1) of
                 (Some e, r2, d2) \<Rightarrow> (None, r2, d2)
               | (None, r2, d2) \<Rightarrow>
                   (Some (archive_file, if archive_existed then Sync_Updated else Sync_Created), r2, d2)))"

definition conv_archival_step :: "env \<Rightarrow> nat \<Rightarrow> conv_log \<Rightarrow> conv_log" where
  "conv_archival_step e h s =
     (case conv_on_log h (conv_trigger_archival (cl_base s) (format_date (archive_now e)) (archive_fault e) (commit_fault e)) s of
        (None, s) \<Rightarrow> s
      | (Some (f, ty), s) \<Rightarrow> s\<lparr>cl_events := cl_events s @ [Awareness_Sync f ty]\<rparr>)"

section \<open>Handlers\<close>

definition turn_entry :: "go_time \<Rightarrow> string \<Rightarrow> string \<Rightarrow> string" where
  "turn_entry t origin body = format_clock t @ '' ['' @ origin_to_role origin @ ''] '' @ capped_text body"

definition handle_turn :: "env \<Rightarrow> string \<Rightarrow> string \<Rightarrow> go_time \<Rightarrow> conv_log \<Rightarrow> conv_log" where
  "handle_turn e origin body stamp s =
     (if \<not> cl_started s then s
      else if trim_space body = [] then s
      else
        let ts = (if is_zero (instant stamp) then now e else stamp);
            entry = turn_entry ts origin body;
            s = snd (conv_write_log_entry (audit_io e) entry ts s)
        in case cl_log s of
             None \<Rightarrow> s
           | Some h \<Rightarrow>
               (case conv_on_log h (append_raw (raw_fault e) entry) s of
                  (Some err, s) \<Rightarrow> s
                | (None, s) \<Rightarrow>
                    if should_compact (the (cl_heap s h))
                    then conv_trigger_compaction (compact_fault e) (readings e) h s else s))"

definition conv_fallback_entry :: "conv_pending_compaction \<Rightarrow> string \<Rightarrow> string" where
  "conv_fallback_entry pc reply =
     ''[compaction-fallback] '' @ summary_header (cp_start pc) (cp_end pc) @ NL # sanitize_for_summary reply"

definition conv_handle_reply :: "env \<Rightarrow> string \<Rightarrow> string \<Rightarrow> conv_log \<Rightarrow> conv_log" where
  "conv_handle_reply e pid reply s =
     (if pid = [] then s
      else case map_of (cl_pending s) pid of
             None \<Rightarrow> s
           | Some pc \<Rightarrow>
               let s = s\<lparr>cl_pending := mdel pid (cl_pending s)\<rparr>;
                   s = (if trim_space reply = [] then s
                        else case conv_on_log (cp_log pc)
                                (append_summary (summary_fault e) (format_summary (cp_start pc) (cp_end pc) reply)) s of
                               (Some err, s) \<Rightarrow> snd (conv_write_fallback (audit_io e) (conv_fallback_entry pc reply) (now e) s)
                             | (None, s) \<Rightarrow>
                                 if should_archive (the (cl_heap s (cp_log pc))) then conv_archival_step e (cp_log pc) s else s)
               in s\<lparr>cl_in_flight := False, cl_started_at := 0\<rparr>)"

end
