(* ===== verification/ConversationLogProperties.thy ===== *)
theory ConversationLogProperties
  imports ConversationLog JournalProperties
begin

text \<open>
  What the conversation log promises over any history of turns, replies, starts and shutdowns with any failure of
  the file system: no turn disappears from the log before the AI adapter has seen it, one compaction at a
  time, every turn is in the audit file of its day, and a logged turn is read back as it was said.
\<close>

section \<open>The invariant\<close>

definition conv_inv :: "conv_log \<Rightarrow> bool" where
  "conv_inv s \<longleftrightarrow>
     clean_base (cl_base s) \<and> file_wf (cl_disk s) (conv_path (cl_base s)) \<and> (cl_started s \<longleftrightarrow> cl_log s \<noteq> None) \<and>
     (\<forall>h. cl_log s = Some h \<longrightarrow> (\<exists>r. cl_heap s h = Some r \<and> log_ok (conv_path (cl_base s)) (r, cl_disk s))) \<and>
     (\<forall>pid pc. map_of (cl_pending s) pid = Some pc \<longrightarrow> cl_log s = Some (cp_log pc)) \<and>
     length (cl_pending s) \<le> 1 \<and> (cl_pending s \<noteq> [] \<longrightarrow> cl_in_flight s)"

definition conv_story :: "conv_log \<Rightarrow> string" where
  "conv_story s = join para (prompt_texts [] (cl_events s) @ raw_on_disk (cl_disk s) (conv_path (cl_base s)))"

definition conv_safe :: "conv_log \<Rightarrow> conv_log \<Rightarrow> bool" where
  "conv_safe s s' \<longleftrightarrow> (conv_inv s \<longrightarrow> conv_inv s' \<and> cl_base s' = cl_base s \<and> prefix (conv_story s) (conv_story s'))"

lemma conv_safe_refl [simp]: "conv_safe s s"
  by (simp add: conv_safe_def)

lemma conv_safe_trans: "conv_safe s t \<Longrightarrow> conv_safe t u \<Longrightarrow> conv_safe s u"
  by (auto simp: conv_safe_def intro: prefix_order.order_trans)

text \<open>Paths: no audit or archive file is the live file or its temporary file.\<close>

lemma conv_path_abs: "list_all plain cs \<Longrightarrow> conv_path (abs_path cs) = abs_path (cs @ [''conversation.md''])"
  by (simp add: conv_path_def join_path_abs plain_def)

lemma conv_file_other:
  assumes "clean_base b" "x = ''logs'' \<or> x = ''archives''" "CHR ''/'' \<notin> set y"
  shows "join_path (join_path b x) (y @ ''.md'') \<notin> {conv_path b, conv_path b @ ''.tmp''}"
proof -
  obtain cs where b: "b = abs_path cs" and cs: "list_all plain cs" using assms(1) by (auto simp: clean_base_def)
  let ?l = "cs @ [x, y @ ''.md'']"
  have x: "plain x" using assms(2) by auto
  have l: "join_path (join_path b x) (y @ ''.md'') = abs_path ?l"
    using assms cs x unfolding b by (simp add: join_path_abs plain_suffix)
  have pl: "list_all plain ?l" "plain ''conversation.md''" "plain ''conversation.md.tmp''"
    using assms cs x by (simp_all add: plain_suffix) (simp_all add: plain_def)
  then have "abs_path ?l \<noteq> abs_path (cs @ [''conversation.md''])" "abs_path ?l \<noteq> abs_path (cs @ [''conversation.md.tmp''])"
    using abs_path_inj [of ?l "cs @ [''conversation.md'']"] abs_path_inj [of ?l "cs @ [''conversation.md.tmp'']"] cs by auto
  with cs show ?thesis unfolding l unfolding b by (simp add: conv_path_abs abs_path_snoc_append)
qed

lemma conv_audit_other: "clean_base b \<Longrightarrow> conv_path b \<noteq> conv_audit_file b (format_date t)"
  using conv_file_other [of b "''logs''" "format_date t"] by (auto simp: conv_audit_file_def format_date_no_slash)

section \<open>Operations on the log\<close>

abbreviation conv_frame :: "conv_log \<Rightarrow> conv_log \<Rightarrow> bool" where
  "conv_frame s s' \<equiv>
     cl_base s' = cl_base s \<and> cl_started s' = cl_started s \<and> cl_log s' = cl_log s \<and> cl_pending s' = cl_pending s \<and>
     cl_in_flight s' = cl_in_flight s \<and> cl_events s' = cl_events s"

text \<open>Steps that change neither the log nor its file, nor what is pending.\<close>

definition conv_quiet :: "conv_log \<Rightarrow> conv_log \<Rightarrow> bool" where
  "conv_quiet s s' \<longleftrightarrow>
     conv_frame s s' \<and> cl_heap s' = cl_heap s \<and>
     cl_disk s' (conv_path (cl_base s)) = cl_disk s (conv_path (cl_base s))"

lemma conv_quiet_safe:
  assumes "conv_quiet s s'"
  shows "conv_safe s s'"
proof -
  let ?p = "conv_path (cl_base s)"
  have d: "cl_disk s' ?p = cl_disk s ?p" using assms by (simp add: conv_quiet_def)
  have raw: "raw_on_disk (cl_disk s') ?p = raw_on_disk (cl_disk s) ?p" by (rule raw_on_disk_disk) (rule d)
  have wf: "file_wf (cl_disk s) ?p \<Longrightarrow> file_wf (cl_disk s') ?p" by (rule file_wf_disk) (use d in auto)
  have "log_ok ?p (r, cl_disk s) \<Longrightarrow> log_ok ?p (r, cl_disk s')" for r by (rule log_ok_disk) (use d in auto)
  with raw wf show ?thesis using assms by (auto simp: conv_safe_def conv_inv_def conv_quiet_def conv_story_def)
qed

lemma conv_write_quiet:
  assumes "clean_base (cl_base s)"
  shows "conv_quiet s (snd (conv_write_log_entry io entry t s))"
proof -
  note other = conv_audit_other [OF assms, of t]
  have o: "open_log_file io (conv_audit_file (cl_base s) (format_date t)) d = (e, d') \<Longrightarrow> d' (conv_path (cl_base s)) = d (conv_path (cl_base s))"
    and w: "write_string io (conv_audit_file (cl_base s) (format_date t)) x d = (e2, d') \<Longrightarrow> d' (conv_path (cl_base s)) = d (conv_path (cl_base s))"
    for d d' e e2 x
    using open_log_file_other [OF _ other] write_string_other [OF _ other] by auto
  then show ?thesis
    by (auto simp: conv_write_log_entry_def conv_get_log_file_def conv_quiet_def Let_def split: prod.splits option.splits if_splits
        dest: o w)
qed

lemma conv_fallback_quiet:
  assumes "clean_base (cl_base s)"
  shows "conv_quiet s (snd (conv_write_fallback io entry t s))"
  using write_string_other [OF _ conv_audit_other [OF assms, of t]]
  by (auto simp: conv_write_fallback_def conv_quiet_def split: prod.splits)

context log_operation
begin

lemma conv_on_log_safe:
  assumes inv: "conv_inv s" and h: "cl_log s = Some h"
    and pre: "pre (conv_path (cl_base s)) (the (cl_heap s h))"
    and run: "conv_on_log h run s = (e, s')"
  shows "conv_inv s' \<and> conv_frame s s' \<and>
    tail e (raw_on_disk (cl_disk s) (conv_path (cl_base s))) (raw_on_disk (cl_disk s') (conv_path (cl_base s)))"
proof -
  let ?p = "conv_path (cl_base s)"
  obtain r where r: "cl_heap s h = Some r" "log_ok ?p (r, cl_disk s)" using inv h unfolding conv_inv_def by blast
  obtain r' d' where o: "run (r, cl_disk s) = (e, r', d')" and s': "s' = s\<lparr>cl_heap := (cl_heap s)(h \<mapsto> r'), cl_disk := d'\<rparr>"
    using run r(1) by (auto simp: conv_on_log_def split: prod.splits)
  have p: "pre ?p r" using pre r(1) by simp
  from keeps [OF p r(2) o] own_file [OF p r(2) o] show ?thesis
    using inv h by (auto simp: s' conv_inv_def)
qed

end

lemma prefix_story: "prefix xs ys \<Longrightarrow> prefix (join sep (zs @ xs)) (join sep (zs @ ys))"
  by (metis prefix_def append_assoc prefix_join)

lemma conv_append_safe:
  assumes "conv_inv s" "cl_log s = Some h" "conv_on_log h (append_raw f t) s = (e, s')"
  shows "conv_inv s' \<and> conv_frame s s' \<and> conv_safe s s'"
proof -
  have r: "conv_inv s'" "conv_frame s s'"
    "\<exists>x. raw_on_disk (cl_disk s') (conv_path (cl_base s)) = raw_on_disk (cl_disk s) (conv_path (cl_base s)) @ x"
    using raw.conv_on_log_safe [OF assms(1,2) _ assms(3)] by auto
  with r show ?thesis
    by (auto simp: conv_safe_def conv_story_def intro!: prefix_story)
qed

lemma conv_stale_safe: "conv_safe s (conv_check_stale clock s)"
  by (auto simp: conv_safe_def conv_check_stale_def conv_inv_def conv_story_def)


lemma conv_publish_safe:
  assumes inv: "conv_inv s" and h: "cl_log s = Some h" and p: "cl_pending s = []" "cl_in_flight s"
    and run: "conv_on_log h (older_half f) s = (Inr older, s1)" "older \<noteq> []" and pc: "cp_log pc = h"
  shows "conv_safe s (s1\<lparr>cl_pending := mput pid pc (cl_pending s1), cl_events := cl_events s1 @ [Compaction_Prompt [] pid older]\<rparr>)"
proof -
  let ?p = "conv_path (cl_base s)"
  have r: "conv_inv s1" "conv_frame s s1" "handed_over (Inr older) (raw_on_disk (cl_disk s) ?p) (raw_on_disk (cl_disk s1) ?p)"
    using older.conv_on_log_safe [OF inv h _ run(1)] by auto
  obtain old where old: "old \<noteq> []" "older = join para old" "raw_on_disk (cl_disk s) ?p = old @ raw_on_disk (cl_disk s1) ?p"
    using r(3) run(2) by (auto simp: handed_over_def)
  have "join para (prompt_texts [] (cl_events s) @ [older] @ raw_on_disk (cl_disk s1) ?p) = conv_story s"
    using old join_nested [OF old(1), of para "prompt_texts [] (cl_events s)"] by (simp add: conv_story_def)
  with r h p pc show ?thesis by (auto simp: conv_safe_def conv_inv_def conv_story_def prompt_texts_def)
qed

lemma conv_trigger_safe:
  assumes h: "cl_log s = Some h"
  shows "conv_safe s (conv_trigger_compaction f ck h s)"
proof -
  define t where "t = (if cl_in_flight s then conv_check_stale (stale_check_at ck) s else s)"
  have t: "conv_safe s t" "cl_log t = Some h" using h conv_stale_safe by (auto simp: t_def) (simp add: conv_check_stale_def)
  show ?thesis
  proof (cases "cl_in_flight t \<or> \<not> conv_inv s")
    case True
    with t(1) show ?thesis by (auto simp: conv_trigger_compaction_def Let_def t_def conv_safe_def)
  next
    case False
    define u where "u = t\<lparr>cl_in_flight := True, cl_started_at := unix_nano (started_reading ck)\<rparr>"
    have inv: "conv_inv t" using t(1) False by (simp add: conv_safe_def)
    with False have p: "cl_pending t = []" by (auto simp: conv_inv_def)
    with inv have iu: "conv_inv u" and tu: "conv_safe t u" by (auto simp: u_def conv_inv_def conv_safe_def conv_story_def)
    have hu: "cl_log u = Some h" "cl_pending u = []" "cl_in_flight u" using t(2) p by (simp_all add: u_def)
    obtain e v where run: "conv_on_log h (older_half f) u = (e, v)" by fastforce
    have o: "conv_inv v" "conv_frame u v" "handed_over e (raw_on_disk (cl_disk u) (conv_path (cl_base u))) (raw_on_disk (cl_disk v) (conv_path (cl_base u)))"
      using older.conv_on_log_safe [OF iu hu(1) _ run] by auto
    have kept: "conv_safe u (v\<lparr>cl_in_flight := False\<rparr>)" if "raw_on_disk (cl_disk v) (conv_path (cl_base u)) = raw_on_disk (cl_disk u) (conv_path (cl_base u))"
      using o that hu(2) by (auto simp: conv_safe_def conv_inv_def conv_story_def)
    have "conv_safe u (conv_trigger_compaction f ck h s)"
    proof (cases "\<exists>older. e = Inr older \<and> older \<noteq> []")
      case True
      then obtain older where "e = Inr older" "older \<noteq> []" by blast
      with conv_publish_safe [OF iu hu] run False show ?thesis
        by (simp add: conv_trigger_compaction_def t_def [symmetric] u_def [symmetric] split_beta Let_def)
    next
      case no: False
      with o(3) have "raw_on_disk (cl_disk v) (conv_path (cl_base u)) = raw_on_disk (cl_disk u) (conv_path (cl_base u))"
        by (auto simp: handed_over_def split: sum.splits if_splits)
      with kept no run False show ?thesis
        by (auto simp: conv_trigger_compaction_def t_def [symmetric] u_def [symmetric] split: sum.splits)
    qed
    with t(1) tu show ?thesis by (blast intro: conv_safe_trans)
  qed
qed

lemma join_path_empty:
  assumes "list_all plain cs"
  shows "join_path (abs_path cs) [] = abs_path cs"
proof (cases "cs = []")
  case True
  have "split ''//'' ''/'' = [] # split ''/'' ''/''" using split_step [of "''/''" "[]" "''/''"] by (simp add: sublist_slash)
  also have "split ''/'' ''/'' = [] # split [] ''/''" using split_step [of "''/''" "[]" "[]"] by (simp add: sublist_slash)
  also have "split [] ''/'' = [[]]" by (simp add: sublist_slash split_None)
  finally have "split ''//'' ''/'' = [[], [], []]" .
  then show ?thesis using True by (simp add: join_path_def abs_path_def clean_step_def)
next
  case False
  have slash: "\<not> sublist ''/'' x" if "x \<in> set cs" for x
    using assms that by (simp add: list_all_iff plain_def sublist_slash)
  have "split (join ''/'' (([] # cs) @ [[]])) ''/'' = ([] # cs) @ [[]]"
  proof (rule split_join)
    show "\<not> sublist ''/'' (x @ butlast ''/'')" if "x \<in> set (butlast (([] # cs) @ [[]]))" for x
    proof -
      have "x = [] \<or> x \<in> set cs" using that by (simp add: butlast_append)
      with slash show ?thesis by (auto simp: sublist_slash)
    qed
  qed (simp_all add: sublist_slash)
  moreover have "join ''/'' (([] # cs) @ [[]]) = abs_path cs @ ''/''" using False by (simp add: abs_path_def join_append join_Cons)
  ultimately show ?thesis unfolding join_path_def using assms clean_fold [of cs "[]"]
    by (simp add: clean_step_def abs_path_def)
qed

text \<open>The archival of the conversation log is that of a journal for a session without a name.\<close>

lemma conv_archival_eq:
  assumes "clean_base b"
  shows "conv_trigger_archival b date f1 f2 = trigger_archival b [] date f1 f2"
    and "archive_file b [] date = join_path (join_path b ''archives'') (date @ ''.md'')"
proof -
  obtain cs where "b = abs_path cs" "list_all plain cs" using assms by (auto simp: clean_base_def)
  then have e: "join_path (join_path b ''archives'') [] = join_path b ''archives''"
    using join_path_empty [of "cs @ [''archives'']"] by (simp add: join_path_abs)
  show "conv_trigger_archival b date f1 f2 = trigger_archival b [] date f1 f2"
    "archive_file b [] date = join_path (join_path b ''archives'') (date @ ''.md'')"
    unfolding conv_trigger_archival_def trigger_archival_def archive_file_def e by (rule refl)+
qed

section \<open>Handlers\<close>

lemma handle_turn_safe: "conv_safe s (handle_turn e origin body stamp s)"
proof (cases "conv_inv s \<and> cl_started s \<and> trim_space body \<noteq> []")
  case True
  define ts where "ts = (if is_zero (instant stamp) then now e else stamp)"
  define t where "t = snd (conv_write_log_entry (audit_io e) (turn_entry ts origin body) ts s)"
  have q: "conv_quiet s t" using True conv_write_quiet by (simp add: t_def conv_inv_def)
  then have st: "conv_safe s t" by (rule conv_quiet_safe)
  with True have inv: "conv_inv t" by (simp add: conv_safe_def)
  obtain h where h: "cl_log t = Some h" using True q by (auto simp: conv_inv_def conv_quiet_def)
  obtain err u where u: "conv_on_log h (append_raw (raw_fault e) (turn_entry ts origin body)) t = (err, u)" by fastforce
  note a = conv_append_safe [OF inv h u]
  have ev: "handle_turn e origin body stamp s =
      (if err = None \<and> should_compact (the (cl_heap u h)) then conv_trigger_compaction (compact_fault e) (readings e) h u else u)"
    using True h u by (simp add: handle_turn_def ts_def [symmetric] t_def [symmetric] split: option.splits)
  have "conv_safe t (handle_turn e origin body stamp s)"
    using a conv_trigger_safe [of u h] h unfolding ev by (auto intro: conv_safe_trans)
  with st show ?thesis by (rule conv_safe_trans)
qed (auto simp: handle_turn_def conv_safe_def)

lemma conv_archival_safe:
  assumes "conv_inv s" "cl_log s = Some h"
  shows "conv_inv (conv_archival_step e h s) \<and> conv_safe s (conv_archival_step e h s) \<and>
    cl_pending (conv_archival_step e h s) = cl_pending s"
proof -
  let ?date = "format_date (archive_now e)"
  have b: "clean_base (cl_base s)" using assms(1) by (simp add: conv_inv_def)
  obtain ev t where run: "conv_on_log h (trigger_archival (cl_base s) [] ?date (archive_fault e) (commit_fault e)) s = (ev, t)" by fastforce
  have "archive_file (cl_base s) [] ?date \<notin> {conv_path (cl_base s), conv_path (cl_base s) @ ''.tmp''}"
    unfolding conv_archival_eq(2) [OF b] by (rule conv_file_other [OF b]) (simp_all add: format_date_no_slash)
  from archival.conv_on_log_safe [OF assms this run]
  have "conv_inv t" "conv_frame s t" "raw_on_disk (cl_disk t) (conv_path (cl_base s)) = raw_on_disk (cl_disk s) (conv_path (cl_base s))" by auto
  with run show ?thesis
    by (auto simp: conv_archival_step_def conv_archival_eq(1) [OF b] conv_safe_def conv_inv_def conv_story_def prompt_texts_def
        split: option.splits)
qed

lemma conv_reply_safe: "conv_safe s (conv_handle_reply e pid reply s)"
proof (cases "conv_inv s \<and> pid \<noteq> [] \<and> map_of (cl_pending s) pid \<noteq> None")
  case True
  then obtain pc where pc: "map_of (cl_pending s) pid = Some pc" by blast
  define t where "t = s\<lparr>cl_pending := mdel pid (cl_pending s)\<rparr>"
  have "length (cl_pending s) \<le> 1" using True by (simp add: conv_inv_def)
  with pc have none: "mdel pid (cl_pending s) = []" by (cases "cl_pending s") (auto split: if_splits)
  have inv: "conv_inv t" and st: "conv_safe s t" using True none by (auto simp: t_def conv_inv_def conv_safe_def conv_story_def)
  have h: "cl_log t = Some (cp_log pc)" using True pc by (auto simp: t_def conv_inv_def)
  obtain err u where u: "conv_on_log (cp_log pc) (append_summary (summary_fault e) (format_summary (cp_start pc) (cp_end pc) reply)) t = (err, u)"
    by fastforce
  have r: "conv_inv u" "conv_frame t u" "raw_on_disk (cl_disk u) (conv_path (cl_base t)) = raw_on_disk (cl_disk t) (conv_path (cl_base t))"
    using summary.conv_on_log_safe [OF inv h _ u] by auto
  then have tu: "conv_safe t u" by (auto simp: conv_safe_def conv_story_def)
  have pu: "cl_pending u = []" "cl_log u = Some (cp_log pc)" using r(2) none h by (simp_all add: t_def)
  define v where "v = (if trim_space reply = [] then t
     else case err of Some x \<Rightarrow> snd (conv_write_fallback (audit_io e) (conv_fallback_entry pc reply) (now e) u)
        | None \<Rightarrow> if should_archive (the (cl_heap u (cp_log pc))) then conv_archival_step e (cp_log pc) u else u)"
  have fb: "conv_quiet u (snd (conv_write_fallback (audit_io e) (conv_fallback_entry pc reply) (now e) u))"
    using r(1) by (intro conv_fallback_quiet) (simp add: conv_inv_def)
  have v: "conv_safe t v \<and> cl_pending v = []"
  proof -
    have "cl_pending t = []" by (simp add: t_def none)
    moreover have "conv_safe t (snd (conv_write_fallback (audit_io e) (conv_fallback_entry pc reply) (now e) u))"
      "cl_pending (snd (conv_write_fallback (audit_io e) (conv_fallback_entry pc reply) (now e) u)) = []"
      using conv_safe_trans [OF tu conv_quiet_safe [OF fb]] fb pu(1) by (simp_all add: conv_quiet_def)
    moreover have "conv_safe t (conv_archival_step e (cp_log pc) u)" "cl_pending (conv_archival_step e (cp_log pc) u) = []"
      using conv_archival_safe [OF r(1) pu(2), of e] conv_safe_trans [OF tu] pu(1) by auto
    ultimately show ?thesis using tu pu(1) by (simp add: v_def split: option.split)
  qed
  moreover have "conv_handle_reply e pid reply s = v\<lparr>cl_in_flight := False, cl_started_at := 0\<rparr>"
    using True pc u by (auto simp: conv_handle_reply_def Let_def t_def [symmetric] v_def split: option.splits)
  moreover have "conv_safe v (v\<lparr>cl_in_flight := False, cl_started_at := 0\<rparr>)"
    using v by (auto simp: conv_safe_def conv_inv_def conv_story_def)
  ultimately show ?thesis using st by (metis conv_safe_trans)
qed (auto simp: conv_handle_reply_def conv_safe_def split: option.splits)

lemma conv_start_safe: "conv_safe s (snd (conv_start rf s))"
proof (cases "conv_inv s \<and> \<not> cl_started s")
  case True
  have opts: "new_rolling_log rf p [With_Compaction_Threshold conversation_compaction_threshold, With_Summary_Budget conversation_summary_budget] d =
      new_rolling_log rf p [] d" for p d
    by (simp add: new_rolling_log_def initial_log_def conversation_compaction_threshold_def conversation_summary_budget_def)
  show ?thesis
  proof (cases "new_rolling_log rf (conv_path (cl_base s)) [] (cl_disk s)")
    case (Inr r)
    with True open_log_ok [of "cl_disk s" "conv_path (cl_base s)" rf r]
    have "log_ok (conv_path (cl_base s)) (r, cl_disk s)" by (simp add: conv_inv_def)
    moreover have "map_of (cl_pending s) pid = None" for pid using True by (auto simp: conv_inv_def)
    then have "cl_pending s = []" by (metis list.set_sel(1) map_of_eq_None_iff image_eqI list.set_map emptyE)
    ultimately show ?thesis using True Inr by (auto simp: conv_start_def opts conv_safe_def conv_inv_def conv_story_def)
  qed (simp add: conv_start_def opts)
qed (auto simp: conv_start_def conv_safe_def)

lemma conv_shutdown_safe: "conv_safe s (conv_shutdown s)"
  by (auto simp: conv_shutdown_def conv_safe_def conv_inv_def conv_story_def)

inductive conv_step :: "conv_log \<Rightarrow> conv_log \<Rightarrow> bool" where
  turn: "conv_step s (handle_turn e origin body stamp s)"
| reply: "conv_step s (conv_handle_reply e pid reply s)"
| start: "conv_step s (snd (conv_start rf s))"
| shutdown: "conv_step s (conv_shutdown s)"

inductive_cases conv_stepE: "conv_step s s'"

lemma conv_step_safe: "conv_step s s' \<Longrightarrow> conv_safe s s'"
  by (induction rule: conv_step.induct) (simp_all add: handle_turn_safe conv_reply_safe conv_start_safe conv_shutdown_safe)

lemma conv_steps_safe: "conv_step\<^sup>*\<^sup>* s s' \<Longrightarrow> conv_safe s s'"
  by (induction rule: rtranclp_induct) (auto intro: conv_safe_trans conv_step_safe)

lemma new_conv_inv:
  assumes "new_conversation_log base d = Some s" "clean_base base" "file_wf d (conv_path base)"
  shows "conv_inv s"
  using assms by (auto simp: new_conversation_log_def conv_inv_def split: if_splits)

section \<open>Reading a turn back\<close>

lemma segs_ascii: "bv c < 0x80 \<Longrightarrow> segs (c # s) = (bv c, [c]) # segs s"
  by (simp add: segs.simps(2) decode_rune_ascii)

lemma segs_ascii_append: "\<forall>c \<in> set p. bv c < 0x80 \<Longrightarrow> segs (p @ s) = map (\<lambda>c. (bv c, [c])) p @ segs s"
  by (induction p) (auto simp: segs_ascii)

lemma seg_newline: "(r, b) \<in> set (segs s) \<Longrightarrow> NL \<in> set b \<Longrightarrow> r = 10"
proof (induction s rule: segs.induct)
  case (2 c s)
  obtain q n where d: "decode_rune (c # s) = (q, n)" by force
  have nl: "bv NL = 10" by simp
  from "2.prems"(1) d have "(r, b) = (q, take n (c # s)) \<or> (r, b) \<in> set (segs (drop n (c # s)))"
    by (auto simp: segs.simps(2))
  then show ?case
  proof
    assume "(r, b) = (q, take n (c # s))"
    then show ?thesis using decode_rune_bytes [OF d] "2.prems"(2) nl by fastforce
  qed (use "2.IH" d "2.prems" in auto)
qed simp

lemma last_not_newline:
  assumes "x \<noteq> []" "\<not> seg_space (last (segs x))"
  shows "last x \<noteq> NL"
proof
  assume nl: "last x = NL"
  obtain r b where rb: "last (segs x) = (r, b)" by fastforce
  have "segs x \<noteq> []" using assms(1) by simp
  then have m: "(r, b) \<in> set (segs x)" "segs x = butlast (segs x) @ [(r, b)]" using rb by (metis last_in_set, metis append_butlast_last_id)
  then have b: "b \<noteq> []" by (blast dest: segs_nonempty)
  have "x = concat (map snd (butlast (segs x))) @ b"
    using concat_segs [of x] arg_cong [OF m(2), of "\<lambda>v. concat (map snd v)"] by simp
  then have "last x = last b" using b by (metis last_appendR)
  with b nl have "NL \<in> set b" by (metis last_in_set)
  with m(1) have "r = 10" by (blast dest: seg_newline)
  with rb assms(2) show False by (simp add: seg_space_def is_space_def)
qed

lemma trim_segs_id: "xs \<noteq> [] \<Longrightarrow> \<not> seg_space (hd xs) \<Longrightarrow> \<not> seg_space (last xs) \<Longrightarrow> trim_segs xs = xs"
  using dropWhile_eq_self_iff [of seg_space xs] dropWhile_eq_self_iff [of seg_space "rev xs"] by (simp add: trim_segs_def hd_rev)

lemma trim_space_entry:
  assumes "\<forall>c \<in> set p. bv c < 0x80" "p \<noteq> []" "\<not> is_space (bv (hd p))" "x \<noteq> []" "\<not> seg_space (last (segs x))"
  shows "trim_space (p @ x) = p @ x"
proof -
  have "segs x \<noteq> []" using assms(4) by simp
  then have "trim_segs (segs (p @ x)) = segs (p @ x)"
    using assms by (intro trim_segs_id) (simp_all add: segs_ascii_append hd_append hd_map seg_space_def)
  then show ?thesis by (simp add: trim_space_def)
qed

lemma two_digits_ascii: "n < 100 \<Longrightarrow> \<forall>c \<in> set (two_digits n). bv c < 0x80 \<and> \<not> is_space (bv c)"
  by (auto simp: two_digits_def is_space_def)

lemma format_clock_ascii: "(\<forall>c \<in> set (format_clock t). bv c < 0x80) \<and> \<not> is_space (bv (hd (format_clock t))) \<and> hd (format_clock t) \<noteq> NL"
proof -
  obtain h m s where c: "clock_of t = (h, m, s)" by (cases "clock_of t")
  then have b: "h < 100" "m < 100" "s < 100" using clock_of_bounds [OF c] by auto
  have f: "format_clock t = two_digits h @ '':'' @ two_digits m @ '':'' @ two_digits s" by (simp add: format_clock_def c clock_text_def)
  have "bv CHR '':'' = 58" "bv NL = 10" by simp_all
  moreover have "two_digits h \<noteq> []" by (simp add: two_digits_def)
  then have "hd (two_digits h) \<in> set (two_digits h)" by simp
  then have "\<not> is_space (bv (hd (two_digits h)))" using two_digits_ascii [OF b(1)] by blast
  moreover from this have "hd (two_digits h) \<noteq> NL" using \<open>bv NL = 10\<close> by (auto simp: is_space_def)
  ultimately show ?thesis using two_digits_ascii [OF b(1)] two_digits_ascii [OF b(2)] two_digits_ascii [OF b(3)] \<open>two_digits h \<noteq> []\<close>
    by (auto simp: f)
qed

lemma roles: "origin_to_role origin \<in> {''user'', ''ai'', ''tool'', ''system'', ''unknown''}"
  by (simp add: origin_to_role_def)

lemma role_bracket: "role \<in> {''user'', ''ai'', ''tool'', ''system'', ''unknown''} \<Longrightarrow> \<not> sublist ''] '' (('' ['' @ role) @ butlast ''] '')"
  by (auto simp: sublist_code prefix_code)

lemma role_ascii: "role \<in> {''user'', ''ai'', ''tool'', ''system'', ''unknown''} \<Longrightarrow> \<forall>c \<in> set ('' ['' @ role @ ''] ''). bv c < 0x80"
  by auto

lemma trim_nl_id: "s \<noteq> [] \<Longrightarrow> hd s \<noteq> NL \<Longrightarrow> last s \<noteq> NL \<Longrightarrow> trim_nl s = s"
  by (simp add: trim_def trim_left_id trim_right_id)

lemma parse_turn_entry:
  assumes x: "capped_text body \<noteq> []" "\<not> seg_space (last (segs (capped_text body)))" and y: "parse_date day = Some d"
    and z: "date_clock_time d (clock_of t) \<noteq> 0"
  shows "trim_nl (turn_entry t origin body) = turn_entry t origin body"
    and "parse_one_turn (turn_entry t origin body) day =
      Some \<lparr>turn_origin = role_to_origin (origin_to_role origin), turn_text = capped_text body,
        turn_at = date_clock_time d (clock_of t), turn_meta = []\<rparr>"
proof -
  define role where "role = origin_to_role origin"
  have role: "role \<in> {''user'', ''ai'', ''tool'', ''system'', ''unknown''}" unfolding role_def by (rule roles)
  let ?x = "capped_text body" and ?p = "format_clock t @ '' ['' @ role @ ''] ''"
  have e: "turn_entry t origin body = ?p @ ?x" by (simp add: turn_entry_def role_def)
  have l8: "length (format_clock t) = 8" by simp
  then have ne: "format_clock t \<noteq> []" by (metis list.size(3) zero_neq_numeral)
  have asc: "\<forall>c \<in> set ?p. bv c < 0x80" using format_clock_ascii [of t] role_ascii [OF role] by auto
  have "last (?p @ ?x) \<noteq> NL" using last_not_newline [OF x] x(1) by simp
  then show "trim_nl (turn_entry t origin body) = turn_entry t origin body"
    unfolding e by (intro trim_nl_id) (use format_clock_ascii [of t] ne in \<open>auto simp: hd_append\<close>)
  have tr: "trim_space (?p @ ?x) = ?p @ ?x"
    using format_clock_ascii [of t] ne by (intro trim_space_entry asc x) (auto simp: hd_append)
  have len: "15 \<le> length (?p @ ?x)"
  proof -
    have "2 \<le> length role" using role by auto
    moreover have "1 \<le> length ?x" using x(1) by (cases ?x) auto
    ultimately show ?thesis using l8 by simp
  qed
  have rest: "drop 8 (?p @ ?x) = ('' ['' @ role) @ ''] '' @ ?x" "take 8 (?p @ ?x) = format_clock t" using l8 by simp_all
  have "index_of (('' ['' @ role) @ ''] '' @ ?x) ''] '' = Some (length ('' ['' @ role))"
    by (rule index_of_append) (simp, rule role_bracket [OF role])
  moreover have "drop 2 (take (length ('' ['' @ role)) (('' ['' @ role) @ ''] '' @ ?x)) = role" by simp
  moreover have "drop (length ('' ['' @ role) + 2) (('' ['' @ role) @ ''] '' @ ?x) = ?x" by simp
  moreover have "\<not> length (('' ['' @ role) @ ''] '' @ ?x) < 2" "(('' ['' @ role) @ ''] '' @ ?x) ! 0 = CHR '' ''"
    "(('' ['' @ role) @ ''] '' @ ?x) ! 1 = CHR ''[''" by simp_all
  moreover have "?p @ ?x \<noteq> []" by simp
  moreover have "parse_clock (format_clock t) = Some (clock_of t)" by (rule parse_format_clock)
  ultimately show "parse_one_turn (turn_entry t origin body) day =
      Some \<lparr>turn_origin = role_to_origin (origin_to_role origin), turn_text = capped_text body,
        turn_at = date_clock_time d (clock_of t), turn_meta = []\<rparr>"
    unfolding e parse_one_turn_def tr rest Let_def using len y z
    by (simp only: rest if_False not_less option.case linorder_not_le [symmetric] role_def [symmetric] refl) simp
qed

lemma older_half_tail: "older_half f (r, d) = (e, r', d') \<Longrightarrow> \<exists>k. raw_tail r' = drop k (raw_tail r)"
  by (auto simp: older_half_def Let_def split: if_splits prod.splits option.splits) (metis drop0)+

text \<open>What a compaction does to the log: nothing, or it takes the older half.\<close>

lemma conv_trigger_shape:
  obtains (skip) "cl_heap (conv_trigger_compaction f ck h s) = cl_heap s" "cl_disk (conv_trigger_compaction f ck h s) = cl_disk s"
      "cl_log (conv_trigger_compaction f ck h s) = cl_log s"
    | (ran) w x z where "cl_heap w = cl_heap s" "cl_disk w = cl_disk s" "cl_log w = cl_log s" "cl_base w = cl_base s"
      "conv_inv s \<Longrightarrow> conv_inv w" "conv_on_log h (older_half f) w = (x, z)"
      "cl_heap (conv_trigger_compaction f ck h s) = cl_heap z" "cl_disk (conv_trigger_compaction f ck h s) = cl_disk z"
      "cl_log (conv_trigger_compaction f ck h s) = cl_log z"
proof -
  define v where "v = (if cl_in_flight s then conv_check_stale (stale_check_at ck) s else s)"
  define w where "w = v\<lparr>cl_in_flight := True, cl_started_at := unix_nano (started_reading ck)\<rparr>"
  have v: "cl_heap v = cl_heap s" "cl_disk v = cl_disk s" "cl_log v = cl_log s" "cl_base v = cl_base s" "conv_inv s \<Longrightarrow> conv_inv v"
    using conv_stale_safe [of s "stale_check_at ck"] by (auto simp: v_def conv_check_stale_def conv_safe_def)
  show thesis
  proof (cases "cl_in_flight v")
    case True
    then show thesis using v by (intro skip) (simp_all add: conv_trigger_compaction_def v_def [symmetric])
  next
    case False
    obtain x z where o: "conv_on_log h (older_half f) w = (x, z)" by fastforce
    have inv: "conv_inv s \<Longrightarrow> conv_inv w" using v(5) by (auto simp: w_def conv_inv_def)
    have "cl_heap (conv_trigger_compaction f ck h s) = cl_heap z \<and> cl_disk (conv_trigger_compaction f ck h s) = cl_disk z \<and>
      cl_log (conv_trigger_compaction f ck h s) = cl_log z"
      using False o by (simp add: conv_trigger_compaction_def v_def [symmetric] w_def [symmetric] split_beta Let_def split: sum.split)
    then show thesis using v inv o by (intro ran [of w x z]) (simp_all add: w_def)
  qed
qed

lemma conv_trigger_tail: "\<exists>k. raw_tail (the (cl_heap (conv_trigger_compaction f ck h s) h)) = drop k (raw_tail (the (cl_heap s h)))"
proof (rule conv_trigger_shape [of f ck h s])
  fix w x z assume "cl_heap w = cl_heap s" "conv_on_log h (older_half f) w = (x, z)" "cl_heap (conv_trigger_compaction f ck h s) = cl_heap z"
  then show ?thesis by (auto simp: conv_on_log_def split: prod.splits dest: older_half_tail)
qed (auto intro: exI [of _ 0])

text \<open>A turn that makes the log longer is its last entry.\<close>

lemma turn_is_last:
  assumes inv: "conv_inv s" and h: "cl_log s = Some h"
    and grew: "length (raw_tail (the (cl_heap (handle_turn e origin body stamp s) h))) = Suc (length (raw_tail (the (cl_heap s h))))"
    and st: "instant stamp \<noteq> 0"
  shows "raw_tail (the (cl_heap (handle_turn e origin body stamp s) h)) = raw_tail (the (cl_heap s h)) @ [trim_nl (turn_entry stamp origin body)] \<and>
    cl_log (handle_turn e origin body stamp s) = Some h"
proof -
  have go: "cl_started s" "trim_space body \<noteq> []" using grew by (auto simp: handle_turn_def split: if_splits)
  define t where "t = snd (conv_write_log_entry (audit_io e) (turn_entry stamp origin body) stamp s)"
  have q: "conv_quiet s t" using inv conv_write_quiet by (simp add: t_def conv_inv_def)
  then have ht: "cl_log t = Some h" "cl_heap t = cl_heap s" using h by (simp_all add: conv_quiet_def)
  obtain err u where u: "conv_on_log h (append_raw (raw_fault e) (turn_entry stamp origin body)) t = (err, u)" by fastforce
  let ?n = "raw_tail (the (cl_heap s h))" and ?x = "trim_nl (turn_entry stamp origin body)"
  have cu: "cl_log u = Some h" using u ht by (auto simp: conv_on_log_def split: prod.splits)
  have tail: "raw_tail (the (cl_heap u h)) = (if err = None \<and> ?x \<noteq> [] then ?n @ [?x] else ?n)"
    using u ht by (auto simp: conv_on_log_def append_raw_def Let_def split: prod.splits if_splits option.splits)
  have ev: "handle_turn e origin body stamp s =
      (if err = None \<and> should_compact (the (cl_heap u h)) then conv_trigger_compaction (compact_fault e) (readings e) h u else u)"
    using go ht u st by (simp add: handle_turn_def t_def [symmetric] split: option.splits)
  obtain k where k: "raw_tail (the (cl_heap (handle_turn e origin body stamp s) h)) = drop k (raw_tail (the (cl_heap u h)))"
    unfolding ev using conv_trigger_tail [where f = "compact_fault e" and ck = "readings e" and h = h and s = u] by (cases "err = None \<and> should_compact (the (cl_heap u h))") (auto dest: meta_spec [of _ 0])
  have "k = 0 \<and> err = None \<and> ?x \<noteq> []" using grew unfolding k tail by (auto split: if_splits)
  moreover have "cl_log (handle_turn e origin body stamp s) = Some h"
  proof -
    have "cl_log (conv_trigger_compaction (compact_fault e) (readings e) h u) = cl_log u"
      by (rule conv_trigger_shape [of "compact_fault e" "readings e" h u]) (auto simp: conv_on_log_def split: prod.splits)
    with cu show ?thesis unfolding ev by simp
  qed
  ultimately show ?thesis using k tail by simp
qed

section \<open>Properties\<close>

text \<open>
  C29: Over any history of turns, replies, starts and shutdowns, with any failure of the file system and any clock: the
  texts handed to the AI adapter followed by the turns in the file only grow at the end, at most one compaction is
  pending, and the file reads back as the log in memory.
\<close>

theorem conversation_log_safe:
  assumes "new_conversation_log base d = Some s0" "clean_base base" "file_wf d (conv_path base)"
    and "conv_step\<^sup>*\<^sup>* s0 s" "conv_step\<^sup>*\<^sup>* s s'"
  shows "prefix (conv_story s) (conv_story s') \<and> length (cl_pending s') \<le> 1 \<and>
    (\<forall>h. cl_log s' = Some h \<longrightarrow> (\<exists>r. cl_heap s' h = Some r \<and>
      (case cl_disk s' (conv_path base) of
         None \<Rightarrow> summaries r = [] \<and> raw_tail r = []
       | Some c \<Rightarrow> parse_rolling_log_file c = (summaries r, raw_tail r))))"
proof -
  have "conv_inv s0" "cl_base s0 = base" using new_conv_inv [OF assms(1-3)] assms(1) by (auto simp: new_conversation_log_def split: if_splits)
  with conv_steps_safe [OF assms(4)] conv_steps_safe [OF assms(5)]
  have s': "conv_inv s'" "cl_base s' = base" "prefix (conv_story s) (conv_story s')" by (auto simp: conv_safe_def)
  have "\<exists>r. cl_heap s' h = Some r \<and> (case cl_disk s' (conv_path base) of
         None \<Rightarrow> summaries r = [] \<and> raw_tail r = []
       | Some c \<Rightarrow> parse_rolling_log_file c = (summaries r, raw_tail r))" if l: "cl_log s' = Some h" for h
  proof -
    obtain r where r: "cl_heap s' h = Some r" "log_ok (conv_path base) (r, cl_disk s')" using s'(1,2) l unfolding conv_inv_def by blast
    then show ?thesis
      by (auto simp: log_ok_def rl_inv_def in_sync_def entries_ok_def list_all_iff intro: render_parse split: option.splits)
  qed
  with s' show ?thesis by (simp add: conv_inv_def)
qed

text \<open>
  C36: Every turn is in the audit file of its day, whatever happens to the log: when the calls on that file succeed, the
  handler leaves the old content followed by the entry of the turn, even if the log rejects the turn or is compacted.
\<close>

theorem turn_is_audited:
  assumes "new_conversation_log base d = Some s0" "clean_base base" "file_wf d (conv_path base)" "conv_step\<^sup>*\<^sup>* s0 s"
    and "cl_started s" "trim_space body \<noteq> []" "instant stamp \<noteq> 0" "audit_io e = no_faults"
  shows "cl_disk (handle_turn e origin body stamp s) (conv_audit_file base (format_date stamp)) =
    Some ((case cl_disk s (conv_audit_file base (format_date stamp)) of None \<Rightarrow> [] | Some old \<Rightarrow> old) @ turn_entry stamp origin body @ [NL])"
proof -
  let ?f = "conv_audit_file base (format_date stamp)"
  have "conv_inv s0" "cl_base s0 = base" using new_conv_inv [OF assms(1-3)] assms(1) by (auto simp: new_conversation_log_def split: if_splits)
  with conv_steps_safe [OF assms(4)] have inv: "conv_inv s" and b: "cl_base s = base" by (auto simp: conv_safe_def)
  define t where "t = snd (conv_write_log_entry (audit_io e) (turn_entry stamp origin body) stamp s)"
  have q: "conv_quiet s t" using inv conv_write_quiet by (simp add: t_def conv_inv_def)
  have it: "conv_inv t" using conv_quiet_safe [OF q] inv by (simp add: conv_safe_def)
  have ft: "cl_disk t ?f = Some ((case cl_disk s ?f of None \<Rightarrow> [] | Some old \<Rightarrow> old) @ turn_entry stamp origin body @ [NL])"
    using assms(5,8) b
    by (auto simp: t_def conv_write_log_entry_def no_faults_def conv_get_log_file_def open_log_file_def write_string_def touch_file_def
        extend_file_def Let_def split: option.split)
  have other: "?f \<notin> {conv_path base, conv_path base @ ''.tmp''}"
    using conv_file_other [OF assms(2), of "''logs''" "format_date stamp"] by (auto simp: conv_audit_file_def format_date_no_slash)
  have keep: "cl_disk v ?f = cl_disk u ?f"
    if u: "conv_inv u" "cl_base u = base" "cl_log u = Some h" and run: "conv_on_log h run u = (x, v)"
      and frame: "\<And>r d e r' d'. run (r, d) = (e, r', d') \<Longrightarrow> kept_but (base_path r) d d'"
    for u v h x and run :: "rolling_log \<times> disk \<Rightarrow> 'z \<times> rolling_log \<times> disk"
  proof -
    obtain r where r: "cl_heap u h = Some r" "log_ok (conv_path base) (r, cl_disk u)" using u unfolding conv_inv_def by blast
    then show ?thesis using run frame other log_ok_path [OF r(2)]
      by (auto simp: conv_on_log_def kept_but_def split: prod.splits)
  qed
  obtain h where h: "cl_log t = Some h" using assms(5) inv q by (auto simp: conv_inv_def conv_quiet_def)
  have bt: "cl_base t = base" using q b by (simp add: conv_quiet_def)
  obtain err u where u: "conv_on_log h (append_raw (raw_fault e) (turn_entry stamp origin body)) t = (err, u)" by fastforce
  have fu: "cl_disk u ?f = cl_disk t ?f" by (rule keep [OF it bt h u append_raw_kept])
  note a = conv_append_safe [OF it h u]
  have "cl_disk (conv_trigger_compaction (compact_fault e) (readings e) h u) ?f = cl_disk u ?f"
  proof (rule conv_trigger_shape [of "compact_fault e" "readings e" h u])
    fix w x z assume w: "cl_disk w = cl_disk u" "cl_log w = cl_log u" "cl_base w = cl_base u" "conv_inv u \<Longrightarrow> conv_inv w"
      and o: "conv_on_log h (older_half (compact_fault e)) w = (x, z)"
      and z: "cl_disk (conv_trigger_compaction (compact_fault e) (readings e) h u) = cl_disk z"
    have "cl_disk z ?f = cl_disk w ?f"
      by (rule keep [OF _ _ _ o older_half_kept]) (use a bt h w in auto)
    with w z show ?thesis by simp
  qed simp
  then show ?thesis
    using assms(5-7) h u fu ft by (auto simp: handle_turn_def t_def [symmetric] split: option.splits)
qed

lemma conv_start_reach: "conv_step\<^sup>*\<^sup>* s (snd (conv_start rf s))"
  using start [of s rf] by blast

lemma conv_demo:
  obtains s0 s1 where "new_conversation_log ''/j'' (\<lambda>_. None) = Some s0" "s1 = snd (conv_start False s0)" "conv_step\<^sup>*\<^sup>* s0 s1"
    "cl_started s1" "cl_log s1 = Some 0" "cl_heap s1 0 = Some (initial_log ''/j/conversation.md'')" "cl_disk s1 = (\<lambda>_. None)"
    "cl_base s1 = ''/j''" "file_wf (\<lambda>_. None) (conv_path ''/j'')"
proof -
  obtain s0 where s0: "new_conversation_log ''/j'' (\<lambda>_. None) = Some s0" using base_witness by (simp add: new_conversation_log_def)
  have p: "conv_path ''/j'' = ''/j/conversation.md''"
    using conv_path_abs [of "[''j'']"] by (simp add: abs_path_def plain_def)
  have "new_rolling_log False ''/j/conversation.md'' [With_Compaction_Threshold 16000, With_Summary_Budget 10000] (\<lambda>_. None) =
      Inr (initial_log ''/j/conversation.md'')"
    by (simp add: new_rolling_log_def initial_log_def is_abs_def has_prefix_def load_from_file_def)
  with s0 base_witness show thesis
    by (intro that [of s0 "snd (conv_start False s0)", OF s0 refl conv_start_reach])
      (auto simp: new_conversation_log_def conv_start_def p conversation_compaction_threshold_def
        conversation_summary_budget_def file_wf_def)
qed

theorem conversation_log_safe_witness:
  "\<exists>s0. new_conversation_log ''/j'' (\<lambda>_. None) = Some s0 \<and>
    prefix (conv_story s0) (conv_story (handle_turn calm ''user'' ''hi'' (utc 1) (snd (conv_start False s0))))"
proof (rule conv_demo)
  fix s0 s1 assume s: "new_conversation_log ''/j'' (\<lambda>_. None) = Some s0" "s1 = snd (conv_start False s0)" "conv_step\<^sup>*\<^sup>* s0 s1"
    and wf: "file_wf (\<lambda>_. None) (conv_path ''/j'')"
  have "conv_step\<^sup>*\<^sup>* s0 (handle_turn calm ''user'' ''hi'' (utc 1) s1)" using s(3) turn by (meson rtranclp.rtrancl_into_rtrancl)
  from conversation_log_safe [OF s(1) base_witness(1) wf rtranclp.rtrancl_refl this] s(1,2) show ?thesis by auto
qed

theorem turn_is_audited_witness:
  "\<exists>s0. new_conversation_log ''/j'' (\<lambda>_. None) = Some s0 \<and>
    cl_disk (handle_turn calm ''user'' ''hi'' (utc 1) (snd (conv_start False s0))) (conv_audit_file ''/j'' (format_date (utc 1))) =
      Some (turn_entry (utc 1) ''user'' ''hi'' @ [NL])"
proof (rule conv_demo)
  fix s0 s1 assume s: "new_conversation_log ''/j'' (\<lambda>_. None) = Some s0" "s1 = snd (conv_start False s0)" "conv_step\<^sup>*\<^sup>* s0 s1"
    and s1: "cl_started s1" "cl_disk s1 = (\<lambda>_. None)" and wf: "file_wf (\<lambda>_. None) (conv_path ''/j'')"
  have "trim_space ''hi'' \<noteq> []" by (simp add: trim_space_def segs_ascii trim_segs_def seg_space_def is_space_def)
  then have "cl_disk (handle_turn calm ''user'' ''hi'' (utc 1) s1) (conv_audit_file ''/j'' (format_date (utc 1))) =
      Some (turn_entry (utc 1) ''user'' ''hi'' @ [NL])"
    using turn_is_audited [OF s(1) base_witness(1) wf s(3) s1(1), of "''hi''" "utc 1" calm "''user''"] s1(2)
    by (simp add: utc_def calm_def)
  with s show ?thesis by blast
qed


lemma demo_stamp: "day_of (utc (400 * 86400 * second)) = 400" "clock_of (utc (400 * 86400 * second)) = (0, 0, 0)" "civil 400 = (2, 2, 5)"
  by (simp_all add: clock_of_def day_of_def local_seconds_def utc_def civil_def year_day_def month_lengths_def is_leap_def)

lemma demo_clock: "format_clock (utc (400 * 86400 * second)) = ''00:00:00''"
  unfolding format_clock_def clock_text_def two_digits_def by (simp add: clock_of_def local_seconds_def utc_def zero_char)


end
