(* ===== verification/Egress.thy ===== *)
theory Egress
  imports StreamManager GoTime Utf8
begin

text \<open>
  The speech output service, \<open>internal/audio/egress/service.go\<close>: texts of replies and speak events become
  requests, a request goes to the stream of its session, a worker goroutine per stream has it synthesised and publishes
  the audio. The streams are kept by \<open>StreamManager\<close>. The service is concurrent: the consumers of the
  topics, the retry timers and the workers interleave between their critical sections and channel operations, so each of these is a step
  of the relation \<open>egress_step\<close>. The synthesizer, the factory and the arithmetic on durations that goes
  through \<open>float64\<close> are parameters. The logger is left out.
\<close>

section \<open>Data\<close>

record speak_request =
  sr_session :: string
  sr_stream :: string
  sr_prompt :: string
  sr_text :: string
  sr_meta :: "string \<Rightarrow> string option"

record synthesis_chunk =
  ck_data :: string
  ck_duration :: duration
  ck_final :: bool
  ck_format :: "audio_format option"
  ck_meta :: "string \<Rightarrow> string option"

record playback_audio =
  pa_session :: string
  pa_stream :: string
  pa_sequence :: uint64
  pa_format :: audio_format
  pa_data :: string
  pa_duration :: duration
  pa_final :: bool
  pa_meta :: "string \<Rightarrow> string option"

text \<open>
  Where a worker goroutine is: in the loop of \<open>Worker.Start\<close>, inside \<open>Speak\<close>, publishing the chunks of a request or
  those of \<open>Close\<close>, in one of the steps of \<open>rebufferPending\<close> or in one of those of \<open>onStreamClosed\<close>. The drain of the latter
  is the second one (\<open>True\<close>); the item it holds has left the channel and is not buffered yet.
\<close>

datatype worker_phase =
    Wk_Loop
  | Wk_Speaking speak_request
  | Wk_Emit "string \<Rightarrow> string option" "synthesis_chunk list"
  | Wk_Closing "synthesis_chunk list"
  | Wk_Final
  | Wk_Rebuffer speak_request
  | Wk_Buffer speak_request
  | Wk_Cancel
  | Wk_Drain bool "speak_request option"
  | Wk_Remove
  | Wk_Clear
  | Wk_Done

record tts_stream =
  st_key :: string
  st_session :: string
  st_stream :: string
  st_format :: audio_format
  st_meta :: "string \<Rightarrow> string option"
  st_synth :: bool
  st_worker :: "speak_request worker"
  st_phase :: worker_phase
  st_seq :: uint64
  st_stopped :: bool
  st_keep_pending :: bool
  st_interrupted :: bool
  st_reason :: string
  st_time :: go_time
  st_extras :: "string \<Rightarrow> string option"

text \<open>
  The goroutines that use the streams: the consumers of the topics, the callers of \<open>Interrupt\<close>, the retry timers and
  \<open>Shutdown\<close>; and where each of them is. What happens to an item that is refused depends on where it came from.
\<close>

datatype goroutine = Replies | Speaks | Lifecycle | Barges | Interrupter nat | Timer nat | Closer

datatype origin = Found | Flushed | Created

datatype send_stage = Check_Stopped | First_Select | Second_Select

record interrupt =
  it_reason :: string
  it_time :: go_time
  it_meta :: "string \<Rightarrow> string option"

datatype thread =
    Creating string "unit session_params" "speak_request option"
  | Making string "unit session_params" "speak_request option"
  | Registering string nat "speak_request option"
  | Flushing string nat "speak_request option"
  | Sending nat send_stage "(speak_request \<times> origin) list"
  | Clearing string nat interrupt
  | Marking nat interrupt
  | Halting "nat list"
  | Cancelling nat "nat list"

text \<open>Why a request is given up: a ghost record of what the code drops, with a line in the log at most.\<close>

datatype loss =
    Overflowed | Speak_Failed | Cleared_By_Interrupt | Cleared_On_Exit | Send_Cancelled | Create_Refused | Retry_Abandoned | Shut_Down

text \<open>
  The service, its workers and its goroutines. \<open>eg_accepted\<close>, \<open>eg_spoken\<close> and \<open>eg_lost\<close> are ghosts: the requests taken in,
  those synthesised, with the stream that did it, and those given up.
\<close>

record egress =
  eg_manager :: "(nat, speak_request, unit) stream_manager"
  eg_heap :: "(nat, tts_stream) gomap"
  eg_threads :: "(goroutine, thread) gomap"
  eg_stream_id :: string
  eg_format :: audio_format
  eg_running :: bool
  eg_consuming :: bool
  eg_published :: "(nat \<times> playback_audio) list"
  eg_accepted :: "speak_request list"
  eg_spoken :: "(nat \<times> speak_request) list"
  eg_lost :: "(loss \<times> speak_request) list"

definition default_format :: audio_format where
  "default_format = \<lparr>encoding = encoding_pcm16, sample_rate = 16000, channels = 1, bit_depth = 16, frame_duration = 20 * millisecond\<rparr>"

definition default_stream_id :: string where
  "default_stream_id = ''tts''"

definition normalize_retry_delays :: "duration \<Rightarrow> duration \<Rightarrow> duration \<Rightarrow> duration \<Rightarrow> duration \<times> duration" where
  "normalize_retry_delays current_initial current_max ini mx =
     (let current_initial = (if ini > 0 then ini else current_initial);
          current_max = (if mx > 0 \<and> mx \<ge> current_initial then mx else current_max);
          current_max = (if current_max < current_initial then current_initial else current_max)
      in (current_initial, current_max))"

datatype egress_option = With_Audio_Format audio_format | With_Retry_Delays duration duration | With_Stream_Id string

record egress_config =
  ec_format :: audio_format
  ec_stream_id :: string
  ec_retry :: "duration \<times> duration"

fun apply_egress_option :: "egress_option \<Rightarrow> egress_config \<Rightarrow> egress_config" where
  "apply_egress_option (With_Audio_Format fmt) c = c\<lparr>ec_format := fmt\<rparr>"
| "apply_egress_option (With_Retry_Delays ini mx) c =
     c\<lparr>ec_retry := normalize_retry_delays (fst (ec_retry c)) (snd (ec_retry c)) ini mx\<rparr>"
| "apply_egress_option (With_Stream_Id i) c = (if i \<noteq> [] then c\<lparr>ec_stream_id := i\<rparr> else c)"

definition new_egress :: "egress_option list \<Rightarrow> egress_config" where
  "new_egress opts =
     fold apply_egress_option opts
       \<lparr>ec_format = default_format, ec_stream_id = default_stream_id, ec_retry = (200 * millisecond, 5 * second)\<rparr>"

text \<open>\<open>Start\<close>.\<close>

definition start_egress :: "egress_config \<Rightarrow> egress" where
  "start_egress c =
     \<lparr>eg_manager = new_stream_manager 100 \<lparr>initial = fst (ec_retry c), max_delay = snd (ec_retry c), max_failures = 0, max_duration = 0\<rparr>,
      eg_heap = [], eg_threads = [], eg_stream_id = ec_stream_id c, eg_format = ec_format c, eg_running = True, eg_consuming = True,
      eg_published = [], eg_accepted = [], eg_spoken = [], eg_lost = []\<rparr>"

section \<open>Publishing audio\<close>

definition merge_metadata ::
    "(string \<Rightarrow> string option) \<Rightarrow> (string \<Rightarrow> string option) \<Rightarrow> (string \<Rightarrow> string option) \<Rightarrow> string \<Rightarrow> string option" where
  "merge_metadata base chunk req = base ++ req ++ chunk"

definition reason_or_default :: "string \<Rightarrow> string" where
  "reason_or_default reason = (let r = trim_space reason in if r = [] then ''interrupt'' else r)"

text \<open>The layout \<open>RFC3339Nano\<close> drops the trailing zeros of the fraction.\<close>

definition nano_text :: "time_ns \<Rightarrow> string" where
  "nano_text t =
     (let n = nat (t mod second); d = decimal n
      in if n = 0 then [] else ''.'' @ trim_right (\<lambda>c. c = CHR ''0'') (replicate (9 - length d) (CHR ''0'') @ d))"

definition format_rfc3339_nano :: "go_time \<Rightarrow> string" where
  "format_rfc3339_nano t = format_date t @ ''T'' @ format_clock t @ nano_text (instant t) @ zone_text (zone t)"

definition decorate_metadata :: "tts_stream \<Rightarrow> (string \<Rightarrow> string option) \<Rightarrow> string \<Rightarrow> string option" where
  "decorate_metadata st meta =
     (if \<not> st_interrupted st then meta
      else
        let meta = meta(''barge_in'' \<mapsto> ''true'');
            meta = (if st_reason st \<noteq> [] then meta(''barge_in_reason'' \<mapsto> st_reason st) else meta);
            meta = (if \<not> is_zero (instant (st_time st)) then meta(''barge_in_timestamp'' \<mapsto> format_rfc3339_nano (st_time st)) else meta)
        in st_extras st ++ meta)"

text \<open>\<open>pcm\<close> is \<open>DurationFromPCMBytes\<close>, which goes through \<open>float64\<close>.\<close>

definition chunk_duration :: "(audio_format \<Rightarrow> int \<Rightarrow> duration) \<Rightarrow> audio_format \<Rightarrow> synthesis_chunk \<Rightarrow> duration" where
  "chunk_duration pcm fmt ck = (if ck_duration ck > 0 then ck_duration ck else pcm fmt (int (length (ck_data ck))))"

definition publish_chunk ::
    "(audio_format \<Rightarrow> int \<Rightarrow> duration) \<Rightarrow> nat \<Rightarrow> (string \<Rightarrow> string option) \<Rightarrow> synthesis_chunk \<Rightarrow>
     tts_stream \<times> (nat \<times> playback_audio) list \<Rightarrow> tts_stream \<times> (nat \<times> playback_audio) list" where
  "publish_chunk pcm h req_meta ck = (\<lambda>(st, pub).
     let st = st\<lparr>st_seq := st_seq st + 1\<rparr>;
         fmt = (case ck_format ck of None \<Rightarrow> st_format st | Some f \<Rightarrow> f)
     in (st, pub @ [(h, \<lparr>pa_session = st_session st, pa_stream = st_stream st, pa_sequence = st_seq st, pa_format = fmt,
          pa_data = ck_data ck, pa_duration = chunk_duration pcm fmt ck, pa_final = ck_final ck,
          pa_meta = decorate_metadata st (merge_metadata (st_meta st) (ck_meta ck) req_meta)\<rparr>)]))"

definition final_chunk :: synthesis_chunk where
  "final_chunk = \<lparr>ck_data = [], ck_duration = 0, ck_final = True, ck_format = None, ck_meta = Map.empty\<rparr>"

definition publish_final :: "nat \<Rightarrow> tts_stream \<times> (nat \<times> playback_audio) list \<Rightarrow> tts_stream \<times> (nat \<times> playback_audio) list" where
  "publish_final h = (\<lambda>(st, pub).
     let st = st\<lparr>st_seq := st_seq st + 1\<rparr>
     in (st, pub @ [(h, \<lparr>pa_session = st_session st, pa_stream = st_stream st, pa_sequence = st_seq st, pa_format = st_format st,
          pa_data = [], pa_duration = 0, pa_final = True, pa_meta = decorate_metadata st (st_meta st)\<rparr>)]))"

section \<open>The requests\<close>

definition request_params :: "egress \<Rightarrow> speak_request \<Rightarrow> unit session_params" where
  "request_params s r =
     \<lparr>sp_session_id = sr_session r, sp_stream_id = sr_stream r, sp_format = eg_format s, sp_metadata = sr_meta r,
      sp_adapter_id = [], sp_config = Map.empty\<rparr>"

definition request_key :: "speak_request \<Rightarrow> string" where
  "request_key r = stream_key (sr_session r) (sr_stream r)"

definition stream_params :: "tts_stream \<Rightarrow> unit session_params" where
  "stream_params st =
     \<lparr>sp_session_id = st_session st, sp_stream_id = st_stream st, sp_format = st_format st, sp_metadata = st_meta st,
      sp_adapter_id = [], sp_config = Map.empty\<rparr>"

definition set_thread :: "goroutine \<Rightarrow> thread \<Rightarrow> egress \<Rightarrow> egress" where
  "set_thread g t s = s\<lparr>eg_threads := mput g t (eg_threads s)\<rparr>"

definition end_thread :: "goroutine \<Rightarrow> egress \<Rightarrow> egress" where
  "end_thread g s = s\<lparr>eg_threads := mdel g (eg_threads s)\<rparr>"

definition put_stream :: "nat \<Rightarrow> tts_stream \<Rightarrow> egress \<Rightarrow> egress" where
  "put_stream h st s = s\<lparr>eg_heap := mput h st (eg_heap s)\<rparr>"

definition lose :: "loss \<Rightarrow> speak_request list \<Rightarrow> egress \<Rightarrow> egress" where
  "lose why rs s = s\<lparr>eg_lost := eg_lost s @ map (Pair why) rs\<rparr>"

definition waiting_items :: "string \<Rightarrow> egress \<Rightarrow> speak_request list" where
  "waiting_items key s = (case map_of (pending (eg_manager s)) key of None \<Rightarrow> [] | Some pq \<Rightarrow> pq_items pq)"

text \<open>\<open>BufferPending\<close> and \<open>ClearPending\<close> of the manager, with what they drop.\<close>

definition buffer_request :: "string \<Rightarrow> unit session_params \<Rightarrow> speak_request \<Rightarrow> egress \<Rightarrow> egress" where
  "buffer_request key params r s =
     (let dropped = (if length (waiting_items key s) \<ge> max_pending (eg_manager s) then take 1 (waiting_items key s) else [])
      in (lose Overflowed dropped s)\<lparr>eg_manager := buffer_pending key params r (eg_manager s)\<rparr>)"

definition clear_queue :: "loss \<Rightarrow> string \<Rightarrow> egress \<Rightarrow> egress" where
  "clear_queue why key s = (lose why (waiting_items key s) s)\<lparr>eg_manager := clear_pending key (eg_manager s)\<rparr>"

text \<open>\<open>handleSpeakRequest\<close>, up to the point where it knows whether the stream exists.\<close>

definition handle_speak_request :: "goroutine \<Rightarrow> speak_request \<Rightarrow> egress \<Rightarrow> egress" where
  "handle_speak_request g r s =
     (if sr_session r = [] \<or> sr_stream r = [] \<or> sr_text r = [] then s
      else
        let s = s\<lparr>eg_accepted := eg_accepted s @ [r]\<rparr>; key = request_key r
        in case stream_of key (eg_manager s) of
             Some h \<Rightarrow> set_thread g (Sending h Check_Stopped [(r, Found)]) s
           | None \<Rightarrow> set_thread g (Creating key (request_params s r) (Some r)) s)"

text \<open>What becomes of an item that \<open>Enqueue\<close> refused, with \<open>errStreamRebuffering\<close> or with \<open>context.Canceled\<close>.\<close>

definition request_refused :: "bool \<Rightarrow> origin \<Rightarrow> speak_request \<Rightarrow> egress \<Rightarrow> egress" where
  "request_refused rebuffering from r s =
     (case from of
        Found \<Rightarrow>
          if eg_running s then buffer_request (request_key r) (request_params s r) r s else lose Shut_Down [r] s
      | _ \<Rightarrow>
          if rebuffering then buffer_request (request_key r) (request_params s r) r s else lose Send_Cancelled [r] s)"

section \<open>The goroutines\<close>

text \<open>
  What the environment decides in a step: the outcome of the factory (the identity of a new stream is its address), the clock, which
  branch of a \<open>select\<close> is taken when several are ready, and the results of \<open>Speak\<close> and \<open>Close\<close>.
\<close>

datatype create_result = Create_Unavailable | Create_Failed | Create_Ok nat

datatype speak_result = Speak_Unavailable | Speak_Error | Speak_Chunks "synthesis_chunk list"

record decision =
  en_create :: create_result
  en_now :: time_ns
  en_send :: bool
  en_receive :: bool
  en_speak :: speak_result
  en_close :: "synthesis_chunk list"

definition new_tts_stream :: "string \<Rightarrow> unit session_params \<Rightarrow> egress \<Rightarrow> tts_stream" where
  "new_tts_stream key params s =
     \<lparr>st_key = key, st_session = sp_session_id params, st_stream = sp_stream_id params, st_format = sp_format params,
      st_meta = sp_metadata params, st_synth = True, st_worker = (new_worker 16)\<lparr>wk_done := \<not> eg_running s\<rparr>, st_phase = Wk_Loop,
      st_seq = 0, st_stopped = False, st_keep_pending = False, st_interrupted = False, st_reason = [],
      st_time = utc zero_time, st_extras = Map.empty\<rparr>"

definition stop_stream :: "tts_stream \<Rightarrow> tts_stream" where
  "stop_stream st = st\<lparr>st_stopped := True, st_worker := worker_stop (st_worker st)\<rparr>"

fun own_item :: "speak_request option \<Rightarrow> (speak_request \<times> origin) list" where
  "own_item None = []"
| "own_item (Some r) = [(r, Created)]"

text \<open>An error of the factory: the request that asked for the stream, or the timer, deals with it.\<close>

definition create_refused :: "decision \<Rightarrow> string \<Rightarrow> unit session_params \<Rightarrow> speak_request option \<Rightarrow> egress \<Rightarrow> egress" where
  "create_refused e key params own s =
     (case (en_create e, own) of
        (Create_Unavailable, Some r) \<Rightarrow> buffer_request key params r s
      | (Create_Unavailable, None) \<Rightarrow> s\<lparr>eg_manager := retry_unavailable key (eg_manager s)\<rparr>
      | (_, Some r) \<Rightarrow> lose Create_Refused [r] s
      | (_, None) \<Rightarrow>
          let m = retry_failed (en_now e) key (eg_manager s);
              dropped = (if map_of (pending m) key = None then waiting_items key s else [])
          in (lose Retry_Abandoned dropped s)\<lparr>eg_manager := m\<rparr>)"

text \<open>One critical section or channel operation of a goroutine; \<open>None\<close> while it is blocked.\<close>

fun run_thread :: "decision \<Rightarrow> goroutine \<Rightarrow> thread \<Rightarrow> egress \<Rightarrow> egress option" where
  "run_thread e g (Creating key params own) s =
     Some (set_thread g
       (case stream_of key (eg_manager s) of
          Some h \<Rightarrow> Sending h Check_Stopped (own_item own)
        | None \<Rightarrow> Making key params own) s)"
| "run_thread e g (Making key params own) s =
     (case en_create e of
        Create_Ok h \<Rightarrow>
          if map_of (eg_heap s) h = None
          then Some (set_thread g (Registering key h own) (put_stream h (new_tts_stream key params s) s)) else None
      | _ \<Rightarrow> Some (end_thread g (create_refused e key params own s)))"
| "run_thread e g (Registering key h own) s =
     (case (register_stream key h (eg_manager s), map_of (eg_heap s) h) of
        (((won, h1), m), Some st) \<Rightarrow>
          if won then Some (set_thread g (Flushing key h own) (s\<lparr>eg_manager := m\<rparr>))
          else Some (set_thread g (Sending h1 Check_Stopped (own_item own)) (put_stream h (stop_stream st) (s\<lparr>eg_manager := m\<rparr>)))
      | _ \<Rightarrow> None)"
| "run_thread e g (Flushing key h own) s =
     (case take_pending key (eg_manager s) of
        (items, m) \<Rightarrow>
          Some (set_thread g (Sending h Check_Stopped (map (\<lambda>r. (r, Flushed)) items @ own_item own)) (s\<lparr>eg_manager := m\<rparr>)))"
| "run_thread e g (Sending h stage []) s = Some (end_thread g s)"
| "run_thread e g (Sending h stage ((r, from) # rest)) s =
     (case map_of (eg_heap s) h of
        None \<Rightarrow> None
      | Some st \<Rightarrow>
          let next = set_thread g (Sending h Check_Stopped rest) in
          (case stage of
             Check_Stopped \<Rightarrow>
               if st_stopped st then Some (next (request_refused True from r s))
               else Some (set_thread g (Sending h First_Select ((r, from) # rest)) s)
           | First_Select \<Rightarrow>
               if wk_done (st_worker st) then Some (next (request_refused False from r s))
               else Some (set_thread g (Sending h Second_Select ((r, from) # rest)) s)
           | Second_Select \<Rightarrow>
               (case worker_enqueue False (en_send e) r (st_worker st) of
                  (None, _) \<Rightarrow> None
                | (Some True, w) \<Rightarrow> Some (next (put_stream h (st\<lparr>st_worker := w\<rparr>) s))
                | (Some False, _) \<Rightarrow> Some (next (request_refused False from r s)))))"
| "run_thread e g (Clearing key h it) s =
     Some (set_thread g (Marking h it) (clear_queue Cleared_By_Interrupt key s))"
| "run_thread e g (Marking h it) s =
     (case map_of (eg_heap s) h of
        None \<Rightarrow> None
      | Some st \<Rightarrow>
          Some (set_thread g (Cancelling h [])
            (put_stream h (st\<lparr>st_interrupted := True, st_reason := it_reason it, st_time := it_time it, st_extras := it_meta it\<rparr>) s)))"
| "run_thread e g (Halting []) s = Some (end_thread g s)"
| "run_thread e g (Halting (h # hs)) s =
     (case map_of (eg_heap s) h of
        None \<Rightarrow> None
      | Some st \<Rightarrow> Some (set_thread g (Cancelling h hs) (put_stream h (st\<lparr>st_stopped := True\<rparr>) s)))"
| "run_thread e g (Cancelling h hs) s =
     (case map_of (eg_heap s) h of
        None \<Rightarrow> None
      | Some st \<Rightarrow> Some (set_thread g (Halting hs) (put_stream h (st\<lparr>st_worker := worker_stop (st_worker st)\<rparr>) s)))"

text \<open>\<open>interruptStream\<close>, \<open>Interrupt\<close> and \<open>handleBargeEvent\<close>; \<open>RemoveStreamByKey\<close> when a session has stopped; a timer that fires.\<close>

definition interrupt_stream ::
    "goroutine \<Rightarrow> string \<Rightarrow> string \<Rightarrow> string \<Rightarrow> go_time \<Rightarrow> (string \<Rightarrow> string option) \<Rightarrow> time_ns \<Rightarrow> egress \<Rightarrow> egress" where
  "interrupt_stream g session stream reason ts meta now s =
     (let stream = (if stream = [] then eg_stream_id s else stream); key = stream_key session stream
      in case stream_of key (eg_manager s) of
           None \<Rightarrow> s
         | Some h \<Rightarrow>
             let ts = (if is_zero (instant ts) then utc now else ts)
             in set_thread g (Clearing key h \<lparr>it_reason = reason_or_default reason, it_time = ts, it_meta = meta\<rparr>) s)"

definition call_interrupt ::
    "goroutine \<Rightarrow> string \<Rightarrow> string \<Rightarrow> string \<Rightarrow> (string \<Rightarrow> string option) \<Rightarrow> time_ns \<Rightarrow> egress \<Rightarrow> egress" where
  "call_interrupt g session stream reason meta now s =
     (if session = [] then s else interrupt_stream g session stream reason (utc now) meta now s)"

definition handle_barge_event ::
    "string \<Rightarrow> string \<Rightarrow> string \<Rightarrow> go_time \<Rightarrow> (string \<Rightarrow> string option) \<Rightarrow> time_ns \<Rightarrow> egress \<Rightarrow> egress" where
  "handle_barge_event session stream reason ts meta now s =
     (if session = [] \<or> stream = [] then s else interrupt_stream Barges session stream reason ts meta now s)"

definition session_stopped :: "string \<Rightarrow> egress \<Rightarrow> egress" where
  "session_stopped session s =
     (let key = stream_key session (eg_stream_id s)
      in case stream_of key (eg_manager s) of
           None \<Rightarrow> s
         | Some h \<Rightarrow> set_thread Lifecycle (Halting [h]) (s\<lparr>eg_manager := remove_stream_by_key key (eg_manager s)\<rparr>))"

definition timer_fires :: "nat \<Rightarrow> string \<Rightarrow> egress \<Rightarrow> egress" where
  "timer_fires n key s =
     (case retry_begin key (eg_manager s) of
        (None, _) \<Rightarrow> s
      | (Some params, m) \<Rightarrow> set_thread (Timer n) (Creating key params None) (s\<lparr>eg_manager := m\<rparr>))"
section \<open>The workers\<close>

text \<open>One step of the worker goroutine of the stream \<open>h\<close>. \<open>closeSynthesizer\<close> is \<open>Wk_Closing\<close> and \<open>Wk_Final\<close>.\<close>

definition worker_receive :: "tts_stream \<Rightarrow> (speak_request \<times> tts_stream) option" where
  "worker_receive st =
     (case try_recv (wk_ch (st_worker st)) of
        (None, _) \<Rightarrow> None
      | (Some r, c) \<Rightarrow> Some (r, st\<lparr>st_worker := (st_worker st)\<lparr>wk_ch := c\<rparr>\<rparr>))"

definition emit ::
    "(audio_format \<Rightarrow> int \<Rightarrow> duration) \<Rightarrow> nat \<Rightarrow> (string \<Rightarrow> string option) \<Rightarrow> synthesis_chunk \<Rightarrow> worker_phase \<Rightarrow> tts_stream \<Rightarrow>
     egress \<Rightarrow> egress" where
  "emit pcm h req_meta ck next st s =
     (case publish_chunk pcm h req_meta ck (st, eg_published s) of
        (st, pub) \<Rightarrow> put_stream h (st\<lparr>st_phase := next\<rparr>) (s\<lparr>eg_published := pub\<rparr>))"

fun handle_item :: "decision \<Rightarrow> nat \<Rightarrow> speak_request \<Rightarrow> tts_stream \<Rightarrow> egress \<Rightarrow> egress" where
  "handle_item e h r st s =
     (case en_speak e of
        Speak_Unavailable \<Rightarrow> put_stream h (st\<lparr>st_synth := False, st_phase := Wk_Rebuffer r\<rparr>) s
      | Speak_Error \<Rightarrow> put_stream h (st\<lparr>st_phase := Wk_Loop\<rparr>) (lose Speak_Failed [r] s)
      | Speak_Chunks cks \<Rightarrow>
          put_stream h (st\<lparr>st_phase := Wk_Emit (sr_meta r) (if cks = [] then [final_chunk] else cks)\<rparr>)
            (s\<lparr>eg_spoken := eg_spoken s @ [(h, r)]\<rparr>))"

fun run_worker ::
    "(audio_format \<Rightarrow> int \<Rightarrow> duration) \<Rightarrow> decision \<Rightarrow> nat \<Rightarrow> worker_phase \<Rightarrow> tts_stream \<Rightarrow> egress \<Rightarrow> egress option" where
  "run_worker pcm e h Wk_Loop st s =
     (if en_receive e then map_option (\<lambda>(r, st). put_stream h (st\<lparr>st_phase := Wk_Speaking r\<rparr>) s) (worker_receive st)
      else if wk_done (st_worker st)
      then let cks = (if st_synth st then en_close e else [])
           in Some (put_stream h (st\<lparr>st_synth := False, st_phase := (if cks = [] then Wk_Final else Wk_Closing cks)\<rparr>) s)
      else None)"
| "run_worker pcm e h (Wk_Speaking r) st s = Some (handle_item e h r st s)"
| "run_worker pcm e h (Wk_Emit req_meta []) st s = Some (put_stream h (st\<lparr>st_phase := Wk_Loop\<rparr>) s)"
| "run_worker pcm e h (Wk_Emit req_meta (ck # cks)) st s = Some (emit pcm h req_meta ck (Wk_Emit req_meta cks) st s)"
| "run_worker pcm e h (Wk_Closing []) st s = Some (put_stream h (st\<lparr>st_phase := Wk_Remove\<rparr>) s)"
| "run_worker pcm e h (Wk_Closing (ck # cks)) st s = Some (emit pcm h Map.empty ck (Wk_Closing cks) st s)"
| "run_worker pcm e h Wk_Final st s =
     (case (if \<not> st_stopped st \<or> st_interrupted st then publish_final h (st, eg_published s) else (st, eg_published s)) of
        (st, pub) \<Rightarrow> Some (put_stream h (st\<lparr>st_phase := Wk_Remove\<rparr>) (s\<lparr>eg_published := pub\<rparr>)))"
| "run_worker pcm e h (Wk_Rebuffer r) st s = Some (put_stream h (st\<lparr>st_stopped := True, st_phase := Wk_Buffer r\<rparr>) s)"
| "run_worker pcm e h (Wk_Buffer r) st s =
     Some (put_stream h (st\<lparr>st_keep_pending := True, st_phase := Wk_Cancel\<rparr>) (buffer_request (st_key st) (stream_params st) r s))"
| "run_worker pcm e h Wk_Cancel st s =
     Some (put_stream h (st\<lparr>st_worker := worker_stop (st_worker st), st_phase := Wk_Drain False None\<rparr>) s)"
| "run_worker pcm e h (Wk_Drain again None) st s =
     (case worker_receive st of
        Some (r, st) \<Rightarrow> Some (put_stream h (st\<lparr>st_phase := Wk_Drain again (Some r)\<rparr>) s)
      | None \<Rightarrow> Some (put_stream h (st\<lparr>st_phase := (if again then Wk_Done else Wk_Remove)\<rparr>) s))"
| "run_worker pcm e h (Wk_Drain again (Some r)) st s =
     Some (put_stream h (st\<lparr>st_phase := Wk_Drain again None\<rparr>) (buffer_request (st_key st) (stream_params st) r s))"
| "run_worker pcm e h Wk_Remove st s =
     Some (put_stream h (st\<lparr>st_phase := (if st_keep_pending st then Wk_Drain True None else Wk_Clear)\<rparr>)
       (s\<lparr>eg_manager := remove_stream (st_key st) h (eg_manager s)\<rparr>))"
| "run_worker pcm e h Wk_Clear st s =
     Some (put_stream h (st\<lparr>st_phase := Wk_Done\<rparr>) (clear_queue Cleared_On_Exit (st_key st) s))"
| "run_worker pcm e h Wk_Done st s = None"

section \<open>The service\<close>

definition consume_text ::
    "goroutine \<Rightarrow> string \<Rightarrow> string \<Rightarrow> string \<Rightarrow> (string \<Rightarrow> string option) \<Rightarrow> egress \<Rightarrow> egress" where
  "consume_text g session prompt text_of meta s =
     handle_speak_request g
       \<lparr>sr_session = session, sr_stream = eg_stream_id s, sr_prompt = prompt, sr_text = text_of, sr_meta = meta\<rparr> s"

text \<open>\<open>Shutdown\<close>: the context of the service is the parent of those of the workers; then all streams are stopped, and what waits is dropped.\<close>

definition stop_lifecycle :: "egress \<Rightarrow> egress" where
  "stop_lifecycle s =
     s\<lparr>eg_running := False,
       eg_heap := map (\<lambda>(h, st). (h, st\<lparr>st_worker := worker_stop (st_worker st)\<rparr>)) (eg_heap s)\<rparr>"

definition close_streams :: "egress \<Rightarrow> egress" where
  "close_streams s =
     (case close_all_streams (eg_manager s) of
        (hs, m) \<Rightarrow> set_thread Closer (Halting hs) (s\<lparr>eg_consuming := False, eg_manager := m\<rparr>))"

definition drop_pending :: "egress \<Rightarrow> egress" where
  "drop_pending s =
     (lose Shut_Down (concat (map (pq_items \<circ> snd) (pending (eg_manager s)))) s)
       \<lparr>eg_manager := shutdown_pending (eg_manager s)\<rparr>"

definition idle :: "goroutine \<Rightarrow> egress \<Rightarrow> bool" where
  "idle g s \<longleftrightarrow> map_of (eg_threads s) g = None"

inductive egress_step :: "(audio_format \<Rightarrow> int \<Rightarrow> duration) \<Rightarrow> egress \<Rightarrow> egress \<Rightarrow> bool" for pcm where
  consumes: "eg_consuming s \<Longrightarrow> g \<in> {Replies, Speaks} \<Longrightarrow> idle g s \<Longrightarrow>
    egress_step pcm s (consume_text g session prompt text_of meta s)"
| stopped: "eg_consuming s \<Longrightarrow> idle Lifecycle s \<Longrightarrow> egress_step pcm s (session_stopped session s)"
| barges: "eg_consuming s \<Longrightarrow> idle Barges s \<Longrightarrow>
    egress_step pcm s (handle_barge_event session stream reason ts meta now s)"
| interrupts: "idle (Interrupter n) s \<Longrightarrow>
    egress_step pcm s (call_interrupt (Interrupter n) session stream reason meta now s)"
| timer: "idle (Timer n) s \<Longrightarrow> egress_step pcm s (timer_fires n key s)"
| thread: "map_of (eg_threads s) g = Some t \<Longrightarrow> run_thread e g t s = Some s' \<Longrightarrow> egress_step pcm s s'"
| worker: "map_of (eg_heap s) h = Some st \<Longrightarrow> run_worker pcm e h (st_phase st) st s = Some s' \<Longrightarrow> egress_step pcm s s'"
| stops: "egress_step pcm s (stop_lifecycle s)"
| closes: "\<not> eg_running s \<Longrightarrow> eg_consuming s \<Longrightarrow> \<forall>g \<in> {Replies, Speaks, Lifecycle, Barges, Closer}. idle g s \<Longrightarrow>
    egress_step pcm s (close_streams s)"
| drops: "\<not> eg_consuming s \<Longrightarrow> idle Closer s \<Longrightarrow> egress_step pcm s (drop_pending s)"

inductive egress_reachable :: "(audio_format \<Rightarrow> int \<Rightarrow> duration) \<Rightarrow> egress \<Rightarrow> bool" for pcm where
  start: "egress_reachable pcm (start_egress (new_egress opts))"
| step: "egress_reachable pcm s \<Longrightarrow> egress_step pcm s s' \<Longrightarrow> egress_reachable pcm s'"

inductive_cases egress_stepE: "egress_step pcm s s'"

end
