(* ===== verification/EgressProperties.thy ===== *)
theory EgressProperties
  imports Egress "HOL-Library.Multiset"
begin

text \<open>
  What holds of the speech output service in every interleaving: no request gets lost without a reason, a request is only ever
  spoken into its own session, the sequence numbers of a stream have no gap; and a request that arrives during a barge-in is dropped.
\<close>

section \<open>Counting requests\<close>

definition cnt :: "speak_request \<Rightarrow> speak_request list \<Rightarrow> int" where
  "cnt r xs = int (count_list xs r)"

lemma cnt_simps [simp]:
  "cnt r [] = 0" "cnt r (x # xs) = of_bool (x = r) + cnt r xs" "cnt r (xs @ ys) = cnt r xs + cnt r ys"
  by (simp_all add: cnt_def)

lemma cnt_head: "cnt r (take 1 xs) + cnt r (tl xs) = cnt r xs"
  by (cases xs) simp_all

definition pend_cnt :: "speak_request \<Rightarrow> (nat, speak_request, unit) stream_manager \<Rightarrow> int" where
  "pend_cnt r m = msum (\<lambda>_ pq. cnt r (pq_items pq)) (pending m)"

definition queue_items :: "string \<Rightarrow> (nat, speak_request, unit) stream_manager \<Rightarrow> speak_request list" where
  "queue_items key m = (case map_of (pending m) key of None \<Rightarrow> [] | Some pq \<Rightarrow> pq_items pq)"

lemma schedule_retry_cnt:
  "pend_cnt r (schedule_retry key pq m) = pend_cnt r m + cnt r (pq_items pq) - cnt r (queue_items key m)"
  by (auto simp: pend_cnt_def schedule_retry_def msum_mput queue_items_def Let_def split: option.splits)

lemma buffer_pending_cnt:
  "pend_cnt r (buffer_pending key params x m) =
     pend_cnt r m + of_bool (x = r) - (if max_pending m \<le> length (queue_items key m) then cnt r (take 1 (queue_items key m)) else 0)"
proof (cases "map_of (pending m) key")
  case None
  then show ?thesis by (simp add: buffer_pending_def schedule_retry_cnt queue_items_def Let_def)
next
  case (Some pq)
  with cnt_head [of r "pq_items pq"] show ?thesis
    by (simp add: buffer_pending_def schedule_retry_cnt queue_items_def Let_def)
qed

lemma clear_pending_cnt:
  "mwf (pending m) \<Longrightarrow> pend_cnt r (clear_pending key m) = pend_cnt r m - cnt r (queue_items key m)"
  by (auto simp: clear_pending_def pend_cnt_def msum_mdel queue_items_def split: option.splits)

lemma take_pending_cnt:
  "mwf (pending m) \<Longrightarrow> pend_cnt r (snd (take_pending key m)) = pend_cnt r m - cnt r (fst (take_pending key m))"
  by (auto simp: take_pending_def pend_cnt_def msum_mdel split: option.splits)

lemma retry_begin_cnt: "pend_cnt r (snd (retry_begin key m)) = pend_cnt r m"
  by (auto simp: retry_begin_def pend_cnt_def msum_mput split: option.splits)

lemma retry_unavailable_cnt: "pend_cnt r (retry_unavailable key m) = pend_cnt r m"
  by (auto simp: retry_unavailable_def schedule_retry_cnt queue_items_def split: option.splits)

lemma schedule_retry_some [simp]: "(map_of (pending (schedule_retry key pq m)) key = None) = False"
  by (simp add: schedule_retry_queue)

lemma retry_failed_cnt:
  assumes "mwf (pending m)"
  shows "pend_cnt r (retry_failed now key m) = pend_cnt r m -
    (if map_of (pending (retry_failed now key m)) key = None then cnt r (queue_items key m) else 0)"
proof (cases "map_of (pending m) key")
  case None
  then show ?thesis by (simp add: retry_failed_def queue_items_def)
next
  case (Some pq)
  have drop: "pend_cnt r (m\<lparr>pending := mdel key (pending m)\<rparr>) = pend_cnt r m - cnt r (pq_items pq)"
    using assms Some by (simp add: pend_cnt_def msum_mdel)
  have keep: "pend_cnt r (schedule_retry key (pq\<lparr>failure_count := a, first_failure_at := b\<rparr>) m) = pend_cnt r m"
    "pend_cnt r (schedule_retry key (pq\<lparr>failure_count := a\<rparr>) m) = pend_cnt r m" for a b
    by (simp_all add: schedule_retry_cnt queue_items_def Some)
  show ?thesis
    using Some drop keep
    by (auto simp: retry_failed_def queue_items_def Let_def)
qed

lemma registry_cnt [simp]:
  "pend_cnt r (m\<lparr>streams := ss\<rparr>) = pend_cnt r m" "pend_cnt r (m\<lparr>effects := es\<rparr>) = pend_cnt r m"
  "pend_cnt r (remove_stream key h m) = pend_cnt r m" "pend_cnt r (remove_stream_by_key key m) = pend_cnt r m"
  "pend_cnt r (snd (register_stream key h m)) = pend_cnt r m"
  by (auto simp: pend_cnt_def remove_stream_def remove_stream_by_key_def register_stream_def split: option.splits)

lemma pending_mwf [simp]:
  assumes "mwf (pending m)"
  shows "mwf (pending (schedule_retry key pq m))" and "mwf (pending (buffer_pending key params x m))"
    and "mwf (pending (clear_pending key m))" and "mwf (pending (snd (take_pending key m)))"
    and "mwf (pending (snd (retry_begin key m)))" and "mwf (pending (retry_unavailable key m))"
    and "mwf (pending (retry_failed now key m))" and "mwf (pending (remove_stream key h m))"
    and "mwf (pending (remove_stream_by_key key m))" and "mwf (pending (snd (register_stream key h m)))"
proof -
  show *: "mwf (pending (schedule_retry key pq m))" for pq
    using assms by (simp add: schedule_retry_def Let_def)
  show "mwf (pending (buffer_pending key params x m))"
    unfolding buffer_pending_def Let_def by (rule *)
  show "mwf (pending (clear_pending key m))" "mwf (pending (snd (take_pending key m)))"
    "mwf (pending (snd (retry_begin key m)))" "mwf (pending (remove_stream key h m))"
    "mwf (pending (remove_stream_by_key key m))" "mwf (pending (snd (register_stream key h m)))"
    using assms by (simp_all add: clear_pending_def take_pending_def retry_begin_def remove_stream_def remove_stream_by_key_def
        register_stream_def split: option.splits)
  show "mwf (pending (retry_unavailable key m))"
    using * assms by (simp add: retry_unavailable_def split: option.splits)
  show "mwf (pending (retry_failed now key m))"
    using * assms by (simp add: retry_failed_def Let_def split: option.splits)
qed

section \<open>Every request is accounted for\<close>

fun thread_items :: "thread \<Rightarrow> speak_request list" where
  "thread_items (Creating key params own) = map fst (own_item own)"
| "thread_items (Making key params own) = map fst (own_item own)"
| "thread_items (Registering key h own) = map fst (own_item own)"
| "thread_items (Flushing key h own) = map fst (own_item own)"
| "thread_items (Sending h stage items) = map fst items"
| "thread_items (Clearing key h it) = []"
| "thread_items (Marking h it) = []"
| "thread_items (Halting hs) = []"
| "thread_items (Cancelling h hs) = []"

fun phase_items :: "worker_phase \<Rightarrow> speak_request list" where
  "phase_items (Wk_Speaking r) = [r]"
| "phase_items (Wk_Rebuffer r) = [r]"
| "phase_items (Wk_Buffer r) = [r]"
| "phase_items (Wk_Drain again (Some r)) = [r]"
| "phase_items p = []"

definition stream_items :: "tts_stream \<Rightarrow> speak_request list" where
  "stream_items st = phase_items (st_phase st) @ ch_items (wk_ch (st_worker st))"

text \<open>How often the request is found in the service, and how often it has been taken in.\<close>

definition whereabouts :: "speak_request \<Rightarrow> egress \<Rightarrow> int" where
  "whereabouts r s =
     cnt r (map snd (eg_spoken s)) + cnt r (map snd (eg_lost s)) + pend_cnt r (eg_manager s) +
     msum (\<lambda>_ t. cnt r (thread_items t)) (eg_threads s) + msum (\<lambda>_ st. cnt r (stream_items st)) (eg_heap s)"

definition maps_ok :: "egress \<Rightarrow> bool" where
  "maps_ok s \<longleftrightarrow> mwf (pending (eg_manager s)) \<and> mwf (eg_threads s) \<and> mwf (eg_heap s)"

definition accounted :: "speak_request \<Rightarrow> egress \<Rightarrow> bool" where
  "accounted r s \<longleftrightarrow> maps_ok s \<and> cnt r (eg_accepted s) = whereabouts r s"

definition thread_cnt :: "speak_request \<Rightarrow> goroutine \<Rightarrow> egress \<Rightarrow> int" where
  "thread_cnt r g s = (case map_of (eg_threads s) g of None \<Rightarrow> 0 | Some t \<Rightarrow> cnt r (thread_items t))"

definition stream_cnt :: "speak_request \<Rightarrow> nat \<Rightarrow> egress \<Rightarrow> int" where
  "stream_cnt r h s = (case map_of (eg_heap s) h of None \<Rightarrow> 0 | Some st \<Rightarrow> cnt r (stream_items st))"

lemma waiting_items_queue: "waiting_items key s = queue_items key (eg_manager s)"
  by (simp add: waiting_items_def queue_items_def)

lemma frame_simps [simp]:
  "eg_threads (put_stream h st s) = eg_threads s" "eg_threads (lose why rs s) = eg_threads s"
  "eg_threads (buffer_request key params x s) = eg_threads s" "eg_threads (clear_queue why key s) = eg_threads s"
  "eg_heap (set_thread g t s) = eg_heap s" "eg_heap (end_thread g s) = eg_heap s"
  "eg_heap (buffer_request key params x s) = eg_heap s" "eg_heap (clear_queue why key s) = eg_heap s"
  "eg_heap (lose why rs s) = eg_heap s"
  "eg_accepted (put_stream h st s) = eg_accepted s" "eg_accepted (lose why rs s) = eg_accepted s"
  "eg_accepted (buffer_request key params x s) = eg_accepted s" "eg_accepted (clear_queue why key s) = eg_accepted s"
  "eg_accepted (set_thread g t s) = eg_accepted s" "eg_accepted (end_thread g s) = eg_accepted s"
  "eg_manager (set_thread g t s) = eg_manager s" "eg_manager (end_thread g s) = eg_manager s"
  "eg_manager (put_stream h st s) = eg_manager s" "eg_manager (lose why rs s) = eg_manager s"
  by (simp_all add: put_stream_def lose_def buffer_request_def clear_queue_def set_thread_def end_thread_def Let_def)

lemma whereabouts_ops:
  "whereabouts r (set_thread g t s) = whereabouts r s + cnt r (thread_items t) - thread_cnt r g s"
  "mwf (eg_threads s) \<Longrightarrow> whereabouts r (end_thread g s) = whereabouts r s - thread_cnt r g s"
  "whereabouts r (put_stream h st s) = whereabouts r s + cnt r (stream_items st) - stream_cnt r h s"
  "whereabouts r (lose why rs s) = whereabouts r s + cnt r rs"
  "whereabouts r (buffer_request key params x s) = whereabouts r s + of_bool (x = r)"
  "mwf (pending (eg_manager s)) \<Longrightarrow> whereabouts r (clear_queue why key s) = whereabouts r s"
  "whereabouts r (s\<lparr>eg_manager := m\<rparr>) = whereabouts r s + pend_cnt r m - pend_cnt r (eg_manager s)"
  "whereabouts r (s\<lparr>eg_published := pub\<rparr>) = whereabouts r s"
  "whereabouts r (s\<lparr>eg_spoken := eg_spoken s @ [(h, x)]\<rparr>) = whereabouts r s + of_bool (x = r)"
  "whereabouts r (s\<lparr>eg_accepted := xs\<rparr>) = whereabouts r s" "whereabouts r (s\<lparr>eg_consuming := c\<rparr>) = whereabouts r s"
  by (auto simp: whereabouts_def set_thread_def end_thread_def put_stream_def lose_def buffer_request_def clear_queue_def
      thread_cnt_def stream_cnt_def msum_mput msum_mdel buffer_pending_cnt clear_pending_cnt waiting_items_queue Let_def comp_def)

lemma maps_ok_ops [simp]:
  "maps_ok s \<Longrightarrow> maps_ok (set_thread g t s)" "maps_ok s \<Longrightarrow> maps_ok (end_thread g s)"
  "maps_ok s \<Longrightarrow> maps_ok (put_stream h st s)" "maps_ok s \<Longrightarrow> maps_ok (lose why rs s)"
  "maps_ok s \<Longrightarrow> maps_ok (buffer_request key params x s)" "maps_ok s \<Longrightarrow> maps_ok (clear_queue why key s)"
  "maps_ok s \<Longrightarrow> mwf (pending m) \<Longrightarrow> maps_ok (s\<lparr>eg_manager := m\<rparr>)"
  "maps_ok (s\<lparr>eg_published := pub\<rparr>) = maps_ok s" "maps_ok (s\<lparr>eg_spoken := sp\<rparr>) = maps_ok s"
  "maps_ok (s\<lparr>eg_accepted := xs\<rparr>) = maps_ok s" "maps_ok (s\<lparr>eg_consuming := c\<rparr>) = maps_ok s"
  by (simp_all add: maps_ok_def set_thread_def end_thread_def put_stream_def lose_def buffer_request_def clear_queue_def Let_def)

lemma maps_okD: "maps_ok s \<Longrightarrow> mwf (pending (eg_manager s))" "maps_ok s \<Longrightarrow> mwf (eg_threads s)"
  "maps_ok s \<Longrightarrow> mwf (eg_heap s)"
  by (simp_all add: maps_ok_def)

lemma cnt_ops [simp]:
  "thread_cnt r g (put_stream h st s) = thread_cnt r g s" "thread_cnt r g (lose why rs s) = thread_cnt r g s"
  "thread_cnt r g (buffer_request key params x s) = thread_cnt r g s" "thread_cnt r g (clear_queue why key s) = thread_cnt r g s"
  "thread_cnt r g (s\<lparr>eg_manager := m\<rparr>) = thread_cnt r g s" "thread_cnt r g (s\<lparr>eg_accepted := xs\<rparr>) = thread_cnt r g s"
  "thread_cnt r g (s\<lparr>eg_consuming := c\<rparr>) = thread_cnt r g s"
  "stream_cnt r h (lose why rs s) = stream_cnt r h s" "stream_cnt r h (buffer_request key params x s) = stream_cnt r h s"
  "stream_cnt r h (clear_queue why key s) = stream_cnt r h s" "stream_cnt r h (s\<lparr>eg_manager := m\<rparr>) = stream_cnt r h s"
  "stream_cnt r h (s\<lparr>eg_published := pub\<rparr>) = stream_cnt r h s" "stream_cnt r h (s\<lparr>eg_spoken := sp\<rparr>) = stream_cnt r h s"
  by (simp_all add: thread_cnt_def stream_cnt_def)

lemma refused_facts [simp]:
  "whereabouts r (request_refused rebuffering orig x s) = whereabouts r s + of_bool (x = r)"
  "maps_ok s \<Longrightarrow> maps_ok (request_refused rebuffering orig x s)"
  "thread_cnt r g (request_refused rebuffering orig x s) = thread_cnt r g s"
  "eg_accepted (request_refused rebuffering orig x s) = eg_accepted s"
  by (auto simp: request_refused_def whereabouts_ops split: origin.split)

lemma create_refused_facts:
  assumes "maps_ok s"
  shows "whereabouts r (create_refused e key params own s) = whereabouts r s + cnt r (map fst (own_item own))"
    "maps_ok (create_refused e key params own s)"
    "thread_cnt r g (create_refused e key params own s) = thread_cnt r g s"
    "eg_accepted (create_refused e key params own s) = eg_accepted s"
    "eg_threads (create_refused e key params own s) = eg_threads s"
  using assms maps_okD [OF assms]
  by (auto simp: create_refused_def whereabouts_ops retry_unavailable_cnt retry_failed_cnt waiting_items_queue Let_def
      split: create_result.split option.split)

lemma try_recv_items: "try_recv c = (Some x, c') \<Longrightarrow> ch_items c = x # ch_items c'"
  by (auto simp: try_recv_def split: list.splits)

lemma worker_enqueue_items:
  "worker_enqueue d p x w = (Some True, w') \<Longrightarrow> ch_items (wk_ch w') = ch_items (wk_ch w) @ [x]"
  by (auto simp: worker_enqueue_def try_send_def split: if_splits prod.splits bool.splits)

lemma thread_accounted:
  assumes "maps_ok s" and "map_of (eg_threads s) g = Some t" and "run_thread e g t s = Some s'"
  shows "maps_ok s' \<and> whereabouts r s' = whereabouts r s \<and> eg_accepted s' = eg_accepted s"
proof -
  note facts = whereabouts_ops create_refused_facts [OF assms(1)] maps_okD [OF assms(1)]
  have t: "thread_cnt r g s = cnt r (thread_items t)" using assms(2) by (simp add: thread_cnt_def)
  show ?thesis
  proof (cases t)
    case (Creating key params own)
    with assms t show ?thesis by (auto simp: facts split: option.splits)
  next
    case (Making key params own)
    with assms t show ?thesis
      by (auto simp: facts stream_items_def new_tts_stream_def new_worker_def stream_cnt_def
          split: create_result.splits if_splits)
  next
    case (Registering key h own)
    with assms t show ?thesis
      by (auto simp: facts stream_items_def stop_stream_def worker_stop_def stream_cnt_def split_beta
          split: option.splits if_splits)
  next
    case (Flushing key h own)
    with assms t show ?thesis
      by (auto simp: facts take_pending_cnt comp_def split_beta)
  next
    case (Sending h stage items)
    show ?thesis
    proof (cases items)
      case Nil
      with Sending assms t show ?thesis by (auto simp: facts)
    next
      case (Cons i rest)
      obtain x origin_x where [simp]: "i = (x, origin_x)" by (cases i)
      from Cons Sending assms t show ?thesis
        by (auto simp: facts stream_items_def stream_cnt_def worker_enqueue_items Let_def
            split: option.splits if_splits send_stage.splits prod.splits bool.splits)
    qed
  next
    case (Clearing key h it)
    with assms t show ?thesis by (auto simp: facts)
  next
    case (Marking h it)
    with assms t show ?thesis by (auto simp: facts stream_items_def stream_cnt_def split: option.splits)
  next
    case (Halting hs)
    with assms t show ?thesis by (cases hs) (auto simp: facts stream_items_def stream_cnt_def split: option.splits)
  next
    case (Cancelling h hs)
    with assms t show ?thesis by (auto simp: facts stream_items_def stream_cnt_def worker_stop_def split: option.splits)
  qed
qed

lemma worker_receive_items:
  "worker_receive st = Some (x, st') \<Longrightarrow>
     ch_items (wk_ch (st_worker st)) = x # ch_items (wk_ch (st_worker st')) \<and> st_phase st' = st_phase st"
  by (auto simp: worker_receive_def try_recv_items split: prod.splits option.splits)

lemma publish_chunk_form:
  "\<exists>a. publish_chunk pcm h m ck (st, pub) = (st\<lparr>st_seq := st_seq st + 1\<rparr>, pub @ [(h, a)]) \<and>
     pa_session a = st_session st \<and> pa_stream a = st_stream st \<and> pa_sequence a = st_seq st + 1"
  by (simp add: publish_chunk_def Let_def)

lemma publish_final_form:
  "\<exists>a. publish_final h (st, pub) = (st\<lparr>st_seq := st_seq st + 1\<rparr>, pub @ [(h, a)]) \<and>
     pa_session a = st_session st \<and> pa_stream a = st_stream st \<and> pa_sequence a = st_seq st + 1"
  by (simp add: publish_final_def Let_def)

lemma emit_form:
  obtains a where "emit pcm h m ck p st s =
      put_stream h (st\<lparr>st_seq := st_seq st + 1, st_phase := p\<rparr>) (s\<lparr>eg_published := eg_published s @ [(h, a)]\<rparr>)"
    and "pa_session a = st_session st" and "pa_stream a = st_stream st" and "pa_sequence a = st_seq st + 1"
  using publish_chunk_form [of pcm h m ck st "eg_published s"] by (auto simp: emit_def)

lemma final_form:
  assumes "run_worker pcm e h Wk_Final st s = Some s'"
  obtains "s' = put_stream h (st\<lparr>st_phase := Wk_Remove\<rparr>) s"
  | a where "s' = put_stream h (st\<lparr>st_seq := st_seq st + 1, st_phase := Wk_Remove\<rparr>) (s\<lparr>eg_published := eg_published s @ [(h, a)]\<rparr>)"
      and "pa_session a = st_session st" and "pa_stream a = st_stream st" and "pa_sequence a = st_seq st + 1"
  using assms publish_final_form [of h st "eg_published s"] that by (cases "\<not> st_stopped st \<or> st_interrupted st") auto

lemma loop_form:
  assumes "run_worker pcm e h Wk_Loop st s = Some s'"
  obtains x st1 where "worker_receive st = Some (x, st1)" and "s' = put_stream h (st1\<lparr>st_phase := Wk_Speaking x\<rparr>) s"
  | p where "phase_items p = []" and "s' = put_stream h (st\<lparr>st_synth := False, st_phase := p\<rparr>) s"
proof (cases "en_receive e")
  case True
  with assms that(1) show ?thesis by auto
next
  case False
  define p where "p = (let cks = if st_synth st then en_close e else [] in if cks = [] then Wk_Final else Wk_Closing cks)"
  have "run_worker pcm e h Wk_Loop st s =
      (if wk_done (st_worker st) then Some (put_stream h (st\<lparr>st_synth := False, st_phase := p\<rparr>) s) else None)"
    using False by (simp only: run_worker.simps Let_def p_def if_False)
  with assms have "s' = put_stream h (st\<lparr>st_synth := False, st_phase := p\<rparr>) s"
    by (simp only: split: if_splits) simp_all
  moreover have "phase_items p = []" by (simp add: p_def Let_def)
  ultimately show ?thesis using that(2) by blast
qed

lemma emit_facts:
  "whereabouts r (emit pcm h m ck p st s) = whereabouts r s + cnt r (phase_items p @ ch_items (wk_ch (st_worker st))) - stream_cnt r h s"
  "maps_ok s \<Longrightarrow> maps_ok (emit pcm h m ck p st s)" "eg_accepted (emit pcm h m ck p st s) = eg_accepted s"
proof -
  obtain a where e: "emit pcm h m ck p st s =
      put_stream h (st\<lparr>st_seq := st_seq st + 1, st_phase := p\<rparr>) (s\<lparr>eg_published := eg_published s @ [(h, a)]\<rparr>)"
    by (rule emit_form)
  show "whereabouts r (emit pcm h m ck p st s) = whereabouts r s + cnt r (phase_items p @ ch_items (wk_ch (st_worker st))) - stream_cnt r h s"
    "maps_ok s \<Longrightarrow> maps_ok (emit pcm h m ck p st s)" "eg_accepted (emit pcm h m ck p st s) = eg_accepted s"
    by (simp_all add: e whereabouts_ops stream_items_def)
qed

lemma handle_item_facts:
  assumes "stream_cnt r h s = cnt r (x # ch_items (wk_ch (st_worker st)))"
  shows "whereabouts r (handle_item e h x st s) = whereabouts r s"
    "maps_ok s \<Longrightarrow> maps_ok (handle_item e h x st s)" "eg_accepted (handle_item e h x st s) = eg_accepted s"
  using assms by (auto simp: whereabouts_ops stream_items_def split: speak_result.splits)

lemma worker_accounted:
  assumes "maps_ok s" and "map_of (eg_heap s) h = Some st" and "run_worker pcm e h (st_phase st) st s = Some s'"
  shows "maps_ok s' \<and> whereabouts r s' = whereabouts r s \<and> eg_accepted s' = eg_accepted s"
proof -
  note facts = whereabouts_ops emit_facts handle_item_facts maps_okD [OF assms(1)] stream_items_def
  have h: "stream_cnt r h s = cnt r (phase_items (st_phase st) @ ch_items (wk_ch (st_worker st)))"
    using assms(2) by (simp add: stream_cnt_def stream_items_def)
  show ?thesis
  proof (cases "st_phase st")
    case Wk_Loop
    from assms(3) [unfolded Wk_Loop] show ?thesis
    proof (cases rule: loop_form)
      case (1 x st1)
      from worker_receive_items [OF 1(1)] h Wk_Loop assms(1) show ?thesis by (simp add: facts 1(2))
    next
      case (2 p)
      from h Wk_Loop assms(1) 2(1) show ?thesis by (simp add: facts 2(2))
    qed
  next
    case (Wk_Speaking x)
    with assms h show ?thesis by (auto simp: facts simp del: handle_item.simps)
  next
    case (Wk_Emit m cks)
    with assms h show ?thesis by (cases cks) (auto simp: facts)
  next
    case (Wk_Closing cks)
    with assms h show ?thesis by (cases cks) (auto simp: facts)
  next
    case Wk_Final
    from assms(3) [unfolded Wk_Final] show ?thesis
      by (cases rule: final_form) (use Wk_Final assms(1) h in \<open>simp_all add: facts\<close>)
  next
    case (Wk_Drain again held)
    with assms h show ?thesis
      by (cases held) (auto simp: facts dest!: worker_receive_items split: option.splits if_splits)
  next
    case Wk_Remove
    with assms h show ?thesis by (auto simp: facts)
  qed (use assms h in \<open>auto simp: facts worker_stop_def\<close>)
qed

section \<open>Steps keep the account\<close>

lemma handle_speak_request_accounted:
  assumes "accounted r s" and "idle g s"
  shows "accounted r (handle_speak_request g x s)"
  using assms by (auto simp: accounted_def handle_speak_request_def whereabouts_ops idle_def thread_cnt_def Let_def
      split: option.splits)

lemma interrupt_accounted:
  assumes "accounted r s" and "idle g s"
  shows "accounted r (interrupt_stream g session stream reason ts meta now s)"
  using assms by (auto simp: accounted_def interrupt_stream_def whereabouts_ops idle_def thread_cnt_def Let_def
      split: option.splits)

lemma stop_lifecycle_accounted: "accounted r s \<Longrightarrow> accounted r (stop_lifecycle s)"
proof -
  have "msum (\<lambda>_ st. cnt r (stream_items st)) (map (\<lambda>(h, st). (h, st\<lparr>st_worker := worker_stop (st_worker st)\<rparr>)) hp) =
      msum (\<lambda>_ st. cnt r (stream_items st)) hp" for hp :: "(nat, tts_stream) gomap"
    by (induction hp) (auto simp: stream_items_def worker_stop_def)
  moreover have "fst \<circ> (\<lambda>(h :: nat, st :: tts_stream). (h, st\<lparr>st_worker := worker_stop (st_worker st)\<rparr>)) = fst"
    by (auto simp: fun_eq_iff)
  ultimately show "accounted r s \<Longrightarrow> accounted r (stop_lifecycle s)"
    by (simp add: accounted_def maps_ok_def stop_lifecycle_def whereabouts_def mwf_def)
qed

lemma drop_pending_accounted: "accounted r s \<Longrightarrow> accounted r (drop_pending s)"
proof -
  have "msum (\<lambda>_ pq. cnt r (pq_items pq)) ps = cnt r (concat (map (pq_items \<circ> snd) ps))"
    for ps :: "(string, (speak_request, unit) pending_queue) gomap"
    by (induction ps) auto
  then show "accounted r s \<Longrightarrow> accounted r (drop_pending s)"
    by (simp add: accounted_def drop_pending_def whereabouts_ops pend_cnt_def shutdown_pending_def maps_ok_def)
qed

lemma step_accounted:
  assumes "accounted r s" and "egress_step pcm s s'"
  shows "accounted r s'"
  using assms(2)
proof cases
  case (consumes g session prompt text_of meta)
  with assms(1) handle_speak_request_accounted show ?thesis by (simp add: consume_text_def)
next
  case (stopped session)
  with assms(1) show ?thesis
    by (auto simp: accounted_def session_stopped_def whereabouts_ops idle_def thread_cnt_def maps_okD Let_def split: option.splits)
next
  case (barges session stream reason ts meta now)
  with assms(1) interrupt_accounted show ?thesis by (simp add: handle_barge_event_def)
next
  case (interrupts n session stream reason meta now)
  with assms(1) interrupt_accounted show ?thesis by (simp add: call_interrupt_def)
next
  case (timer n key)
  have "retry_begin key (eg_manager s) = (Some p, m) \<Longrightarrow> pend_cnt r m = pend_cnt r (eg_manager s) \<and> mwf (pending m)" for p m
    using retry_begin_cnt [of r key "eg_manager s"] pending_mwf(5) [of "eg_manager s" key] assms(1)
    by (simp add: accounted_def maps_okD)
  with assms(1) timer show ?thesis
    by (auto simp: accounted_def timer_fires_def whereabouts_ops idle_def thread_cnt_def maps_okD split: prod.splits option.splits)
next
  case (thread g t e)
  with assms(1) thread_accounted show ?thesis unfolding accounted_def by metis
next
  case (worker h st e)
  with assms(1) worker_accounted show ?thesis unfolding accounted_def by metis
next
  case stops
  with assms(1) stop_lifecycle_accounted show ?thesis by simp
next
  case closes
  with assms(1) show ?thesis
    by (auto simp: accounted_def close_streams_def close_all_streams_def whereabouts_ops idle_def thread_cnt_def maps_okD)
next
  case drops
  with assms(1) drop_pending_accounted show ?thesis by simp
qed

section \<open>Requests stay in their session\<close>

definition fits :: "string \<Rightarrow> string \<Rightarrow> speak_request \<Rightarrow> bool" where
  "fits i key r \<longleftrightarrow> sr_stream r = i \<and> request_key r = key"

definition params_fit :: "string \<Rightarrow> string \<Rightarrow> unit session_params \<Rightarrow> bool" where
  "params_fit i key params \<longleftrightarrow> sp_stream_id params = i \<and> stream_key (sp_session_id params) i = key"

definition key_at :: "egress \<Rightarrow> nat \<Rightarrow> string option" where
  "key_at s h = map_option st_key (map_of (eg_heap s) h)"

definition stream_ok :: "string \<Rightarrow> tts_stream \<Rightarrow> bool" where
  "stream_ok i st \<longleftrightarrow> params_fit i (st_key st) (stream_params st) \<and> (\<forall>r \<in> set (stream_items st). fits i (st_key st) r)"

definition queue_ok :: "string \<Rightarrow> string \<Rightarrow> (speak_request, unit) pending_queue \<Rightarrow> bool" where
  "queue_ok i key pq \<longleftrightarrow> params_fit i key (pq_params pq) \<and> (\<forall>r \<in> set (pq_items pq). fits i key r)"

fun thread_ok :: "string \<Rightarrow> (nat \<Rightarrow> string option) \<Rightarrow> thread \<Rightarrow> bool" where
  "thread_ok i ka (Creating key params own) \<longleftrightarrow> params_fit i key params \<and> (\<forall>(r, _) \<in> set (own_item own). fits i key r)"
| "thread_ok i ka (Making key params own) \<longleftrightarrow> params_fit i key params \<and> (\<forall>(r, _) \<in> set (own_item own). fits i key r)"
| "thread_ok i ka (Registering key h own) \<longleftrightarrow> ka h = Some key \<and> (\<forall>(r, _) \<in> set (own_item own). fits i key r)"
| "thread_ok i ka (Flushing key h own) \<longleftrightarrow> ka h = Some key \<and> (\<forall>(r, _) \<in> set (own_item own). fits i key r)"
| "thread_ok i ka (Sending h stage xs) \<longleftrightarrow> (\<exists>key. ka h = Some key \<and> (\<forall>(r, _) \<in> set xs. fits i key r))"
| "thread_ok i ka _ \<longleftrightarrow> True"

definition registry_ok :: "(nat \<Rightarrow> string option) \<Rightarrow> (nat, speak_request, unit) stream_manager \<Rightarrow> bool" where
  "registry_ok ka m \<longleftrightarrow> (\<forall>key h. map_of (streams m) key = Some h \<longrightarrow> ka h = Some key)"

definition queues_ok :: "string \<Rightarrow> (nat, speak_request, unit) stream_manager \<Rightarrow> bool" where
  "queues_ok i m \<longleftrightarrow> (\<forall>key pq. map_of (pending m) key = Some pq \<longrightarrow> queue_ok i key pq)"

definition audio_ok :: "(nat \<Rightarrow> string option) \<Rightarrow> string \<Rightarrow> nat \<times> playback_audio \<Rightarrow> bool" where
  "audio_ok ka i = (\<lambda>(h, a). pa_stream a = i \<and> ka h = Some (stream_key (pa_session a) i))"

definition isolated :: "egress \<Rightarrow> bool" where
  "isolated s \<longleftrightarrow>
     registry_ok (key_at s) (eg_manager s) \<and> queues_ok (eg_stream_id s) (eg_manager s) \<and>
     (\<forall>h st. map_of (eg_heap s) h = Some st \<longrightarrow> stream_ok (eg_stream_id s) st) \<and>
     (\<forall>g t. map_of (eg_threads s) g = Some t \<longrightarrow> thread_ok (eg_stream_id s) (key_at s) t) \<and>
     (\<forall>(h, r) \<in> set (eg_spoken s). \<exists>key. key_at s h = Some key \<and> fits (eg_stream_id s) key r) \<and>
     (\<forall>p \<in> set (eg_published s). audio_ok (key_at s) (eg_stream_id s) p)"

lemma id_frame [simp]:
  "eg_stream_id (set_thread g t s) = eg_stream_id s" "eg_stream_id (end_thread g s) = eg_stream_id s"
  "eg_stream_id (put_stream h st s) = eg_stream_id s" "eg_stream_id (lose why rs s) = eg_stream_id s"
  "eg_stream_id (buffer_request key params x s) = eg_stream_id s" "eg_stream_id (clear_queue why key s) = eg_stream_id s"
  "eg_stream_id (request_refused rebuffering orig x s) = eg_stream_id s"
  "eg_stream_id (create_refused e key params own s) = eg_stream_id s"
  by (simp_all add: put_stream_def lose_def buffer_request_def clear_queue_def set_thread_def end_thread_def request_refused_def
      create_refused_def Let_def split: origin.split create_result.split option.split)

lemma key_at_frame [simp]:
  "key_at (set_thread g t s) = key_at s" "key_at (end_thread g s) = key_at s" "key_at (lose why rs s) = key_at s"
  "key_at (buffer_request key params x s) = key_at s" "key_at (clear_queue why key s) = key_at s"
  "key_at (s\<lparr>eg_manager := m\<rparr>) = key_at s" "key_at (s\<lparr>eg_spoken := sp\<rparr>) = key_at s"
  "key_at (s\<lparr>eg_published := pub\<rparr>) = key_at s" "key_at (s\<lparr>eg_accepted := acc\<rparr>) = key_at s"
  "key_at (s\<lparr>eg_consuming := c\<rparr>) = key_at s" "key_at (s\<lparr>eg_threads := th\<rparr>) = key_at s"
  "key_at (s\<lparr>eg_lost := ls\<rparr>) = key_at s" "key_at (put_stream h st s) = (key_at s)(h \<mapsto> st_key st)"
  "key_at (request_refused rebuffering orig x s) = key_at s" "key_at (create_refused e key params own s) = key_at s"
  by (auto simp: key_at_def fun_eq_iff put_stream_def request_refused_def create_refused_def Let_def
      split: origin.split create_result.split option.split)

lemma thread_ok_mono: "thread_ok i ka t \<Longrightarrow> ka \<subseteq>\<^sub>m ka' \<Longrightarrow> thread_ok i ka' t"
  by (cases t) (auto simp: map_le_def dom_def)

lemma isolated_thread: "isolated s \<Longrightarrow> thread_ok (eg_stream_id s) (key_at s) t \<Longrightarrow> isolated (set_thread g t s)"
  by (auto simp: isolated_def set_thread_def split: if_splits)

lemma isolated_end: "isolated s \<Longrightarrow> isolated (end_thread g s)"
  by (auto simp: isolated_def end_thread_def split: if_splits)

lemma isolated_lose [simp]: "isolated (lose why rs s) = isolated s"
  by (simp add: isolated_def lose_def)

lemma isolated_other [simp]:
  "isolated (s\<lparr>eg_accepted := acc\<rparr>) = isolated s" "isolated (s\<lparr>eg_consuming := c\<rparr>) = isolated s"
  by (simp_all add: isolated_def)

lemma isolated_manager:
  "isolated s \<Longrightarrow> registry_ok (key_at s) m \<Longrightarrow> queues_ok (eg_stream_id s) m \<Longrightarrow> isolated (s\<lparr>eg_manager := m\<rparr>)"
  by (simp add: isolated_def)

lemma isolated_put:
  assumes "isolated s" and "key_at s h \<in> {None, Some (st_key st)}" and "stream_ok (eg_stream_id s) st"
  shows "isolated (put_stream h st s)"
proof -
  have le: "key_at s \<subseteq>\<^sub>m (key_at s)(h \<mapsto> st_key st)"
    using assms(2) by (auto simp: map_le_def)
  have mono: "thread_ok i (key_at s) t \<Longrightarrow> thread_ok i ((key_at s)(h \<mapsto> st_key st)) t"
    "key_at s h' = Some k \<Longrightarrow> ((key_at s)(h \<mapsto> st_key st)) h' = Some k"
    "audio_ok (key_at s) i p \<Longrightarrow> audio_ok ((key_at s)(h \<mapsto> st_key st)) i p" for t h' k p i
    using thread_ok_mono [OF _ le] le by (auto simp: map_le_def dom_def audio_ok_def split: prod.splits if_splits)
  have "eg_threads (put_stream h st s) = eg_threads s" "eg_spoken (put_stream h st s) = eg_spoken s"
    "eg_published (put_stream h st s) = eg_published s" "eg_heap (put_stream h st s) = mput h st (eg_heap s)"
    by (simp_all add: put_stream_def)
  with assms mono show ?thesis
    unfolding isolated_def registry_ok_def by (simp del: fun_upd_apply split del: if_split) (auto; metis)
qed

lemma schedule_retry_ok:
  "queues_ok i m \<Longrightarrow> queue_ok i key pq \<Longrightarrow> queues_ok i (schedule_retry key pq m)"
  by (auto simp: queues_ok_def schedule_retry_queue queue_ok_def)

lemma queue_params_ok: "queues_ok i m \<Longrightarrow> map_of (pending m) key = Some pq \<Longrightarrow> queue_ok i key pq"
  by (simp add: queues_ok_def)

lemma buffer_pending_ok:
  assumes "queues_ok i m" and "params_fit i key params" and "fits i key r"
  shows "queues_ok i (buffer_pending key params r m)"
proof -
  have "queue_ok i key \<lparr>pq_params = params, pq_items = [r], failure_count = 0, first_failure_at = zero_time,
      pq_timer = False, pq_delay = 0\<rparr>"
    using assms by (simp add: queue_ok_def)
  moreover have "queue_ok i key (pq\<lparr>pq_items := tl (pq_items pq) @ [r]\<rparr>)" "queue_ok i key (pq\<lparr>pq_items := pq_items pq @ [r]\<rparr>)"
    if "map_of (pending m) key = Some pq" for pq
    by (cases "pq_items pq"; use queue_params_ok [OF assms(1) that] assms(3) in \<open>auto simp: queue_ok_def\<close>)+
  ultimately show ?thesis
    using assms(1) by (auto simp: buffer_pending_def Let_def intro!: schedule_retry_ok split: option.splits)
qed

lemma queues_frame:
  assumes "queues_ok i m"
  shows "queues_ok i (clear_pending key m)" and "queues_ok i (snd (take_pending key m))" and "queues_ok i (snd (retry_begin key m))"
    and "queues_ok i (retry_unavailable key m)" and "queues_ok i (retry_failed now key m)"
    and "queues_ok i (remove_stream key h m)" and "queues_ok i (remove_stream_by_key key m)"
    and "queues_ok i (snd (register_stream key h m))" and "queues_ok i (shutdown_pending m)"
    and "\<forall>r \<in> set (queue_items key m). fits i key r" and "\<forall>r \<in> set (fst (take_pending key m)). fits i key r"
    and "fst (retry_begin key m) = Some params \<Longrightarrow> params_fit i key params"
proof -
  note q = queue_params_ok [OF assms]
  show "queues_ok i (clear_pending key m)" "queues_ok i (snd (take_pending key m))" "queues_ok i (snd (retry_begin key m))"
    "queues_ok i (remove_stream key h m)" "queues_ok i (remove_stream_by_key key m)"
    "queues_ok i (snd (register_stream key h m))" "queues_ok i (shutdown_pending m)"
    using assms by (auto simp: queues_ok_def clear_pending_def take_pending_def retry_begin_def remove_stream_def
        remove_stream_by_key_def register_stream_def shutdown_pending_def queue_ok_def split: option.splits)
  show "queues_ok i (retry_unavailable key m)"
    using q assms by (auto simp: retry_unavailable_def intro: schedule_retry_ok split: option.splits)
  have del: "queues_ok i (m\<lparr>pending := mdel key (pending m)\<rparr>)" using assms by (auto simp: queues_ok_def)
  have upd: "queue_ok i key (pq\<lparr>failure_count := a, first_failure_at := b\<rparr>)" "queue_ok i key (pq\<lparr>failure_count := a\<rparr>)"
    if "map_of (pending m) key = Some pq" for pq a b
    using q [OF that] by (simp_all add: queue_ok_def)
  show "queues_ok i (retry_failed now key m)"
    using del upd assms by (auto simp: retry_failed_def Let_def intro!: schedule_retry_ok split: option.splits)
  show "\<forall>r \<in> set (queue_items key m). fits i key r" "\<forall>r \<in> set (fst (take_pending key m)). fits i key r"
    "fst (retry_begin key m) = Some params \<Longrightarrow> params_fit i key params"
    using q by (cases "map_of (pending m) key"; auto simp: queue_items_def take_pending_def retry_begin_def queue_ok_def)+
qed

lemma registry_frame:
  assumes "registry_ok ka m"
  shows "registry_ok ka (clear_pending key m)" and "registry_ok ka (snd (take_pending key m))"
    and "registry_ok ka (snd (retry_begin key m))" and "registry_ok ka (retry_unavailable key m)"
    and "registry_ok ka (retry_failed now key m)" and "registry_ok ka (remove_stream key h m)"
    and "registry_ok ka (remove_stream_by_key key m)" and "registry_ok ka (shutdown_pending m)"
    and "registry_ok ka (buffer_pending key params r m)" and "ka h = Some key \<Longrightarrow> registry_ok ka (snd (register_stream key h m))"
    and "stream_of key m = Some h \<Longrightarrow> ka h = Some key" and "fst (register_stream key h m) = (False, h1) \<Longrightarrow> ka h1 = Some key"
  using assms by (auto simp: registry_ok_def clear_pending_def take_pending_def retry_begin_def retry_unavailable_def retry_failed_def
      remove_stream_def remove_stream_by_key_def shutdown_pending_def buffer_pending_def register_stream_def stream_of_def Let_def
      split: option.splits)

lemma isolatedD:
  assumes "isolated s"
  shows "registry_ok (key_at s) (eg_manager s)" and "queues_ok (eg_stream_id s) (eg_manager s)"
    and "map_of (eg_heap s) h = Some st \<Longrightarrow> stream_ok (eg_stream_id s) st"
    and "map_of (eg_threads s) g = Some t \<Longrightarrow> thread_ok (eg_stream_id s) (key_at s) t"
  using assms by (auto simp: isolated_def)

lemma isolated_buffer:
  assumes "isolated s" and "params_fit (eg_stream_id s) key params" and "fits (eg_stream_id s) key r"
  shows "isolated (buffer_request key params r s)"
proof -
  let ?l = "\<lambda>xs. lose Overflowed xs s"
  have "isolated ((?l xs)\<lparr>eg_manager := buffer_pending key params r (eg_manager s)\<rparr>)" for xs
    by (rule isolated_manager)
      (use assms isolatedD [OF assms(1)] in \<open>auto intro: registry_frame buffer_pending_ok\<close>)
  then show ?thesis by (simp add: buffer_request_def Let_def)
qed

lemma isolated_clear: "isolated s \<Longrightarrow> isolated (clear_queue why key s)"
  unfolding clear_queue_def
  by (rule isolated_manager) (auto intro: registry_frame queues_frame dest: isolatedD)

lemma request_params_fit: "fits i key r \<Longrightarrow> params_fit i key (request_params s r) \<and> request_key r = key"
  by (auto simp: fits_def params_fit_def request_params_def request_key_def)

lemma isolated_refused:
  assumes "isolated s" and "fits (eg_stream_id s) key r"
  shows "isolated (request_refused rebuffering orig r s)"
  using assms request_params_fit [OF assms(2)]
  by (auto simp: request_refused_def intro: isolated_buffer split: origin.split)

lemma isolated_create_refused:
  assumes "isolated s" and "params_fit (eg_stream_id s) key params" and "\<forall>(r, _) \<in> set (own_item own). fits (eg_stream_id s) key r"
  shows "isolated (create_refused e key params own s)"
proof -
  have "isolated (s\<lparr>eg_manager := retry_unavailable key (eg_manager s)\<rparr>)"
    "isolated ((lose Retry_Abandoned xs s)\<lparr>eg_manager := retry_failed now key (eg_manager s)\<rparr>)" for now xs
    by (rule isolated_manager; use assms(1) isolatedD [OF assms(1)] in \<open>auto intro: registry_frame queues_frame\<close>)+
  with assms show ?thesis
    by (auto simp: create_refused_def Let_def intro: isolated_buffer split: create_result.split option.split)
qed

lemma thread_isolated:
  assumes "isolated s" and "map_of (eg_threads s) g = Some t" and "run_thread e g t s = Some s'"
  shows "isolated s'"
proof -
  note D = isolatedD [OF assms(1)] and T = isolatedD(4) [OF assms(1,2)]
  have put: "isolated (put_stream h st' s1)" if "isolated s1" "map_of (eg_heap s1) h = Some st" "st_key st' = st_key st"
    "stream_params st' = stream_params st" "set (stream_items st') \<subseteq> set (stream_items st) \<union> {r. fits (eg_stream_id s1) (st_key st) r}"
    for h st st' s1
  proof (rule isolated_put)
    from isolatedD(3) [OF that(1,2)] that show "stream_ok (eg_stream_id s1) st'" by (auto simp: stream_ok_def)
  qed (use that in \<open>simp_all add: key_at_def\<close>)
  show ?thesis
  proof (cases t)
    case (Creating key params own)
    with assms T D(1) show ?thesis
      by (auto intro!: isolated_thread split: option.splits dest: registry_frame(11))
  next
    case (Making key params own)
    have "stream_ok (eg_stream_id s) (new_tts_stream key params s)" "st_key (new_tts_stream key params s) = key"
      if "params_fit (eg_stream_id s) key params"
      using that by (simp_all add: stream_ok_def new_tts_stream_def stream_items_def new_worker_def params_fit_def stream_params_def)
    with Making assms T show ?thesis
      by (auto intro!: isolated_thread isolated_end isolated_put isolated_create_refused simp: key_at_def
          split: create_result.splits if_splits)
  next
    case (Registering key h own)
    obtain won h1 m where r: "register_stream key h (eg_manager s) = ((won, h1), m)" by (metis prod.exhaust)
    from Registering T have h: "key_at s h = Some key" by simp
    have m: "isolated (s\<lparr>eg_manager := m\<rparr>)"
      using isolated_manager [OF assms(1), of m] registry_frame(10) [OF D(1) h] queues_frame(8) [OF D(2), of key h] r by simp
    show ?thesis
    proof (cases won)
      case True
      with Registering assms(3) r T m h show ?thesis by (auto intro!: isolated_thread split: option.splits)
    next
      case False
      with registry_frame(12) [OF D(1), of key h h1] r have h1: "key_at s h1 = Some key" by simp
      from h obtain st where st: "map_of (eg_heap s) h = Some st" "st_key st = key" by (auto simp: key_at_def)
      from put [OF m, of h st "stop_stream st"] st have "isolated (put_stream h (stop_stream st) (s\<lparr>eg_manager := m\<rparr>))"
        by (simp add: stop_stream_def stream_params_def stream_items_def worker_stop_def)
      with Registering assms(3) r T h1 st False show ?thesis
        by (auto simp: stop_stream_def intro!: isolated_thread)
    qed
  next
    case (Flushing key h own)
    have "isolated (s\<lparr>eg_manager := snd (take_pending key (eg_manager s))\<rparr>)"
      by (rule isolated_manager) (use assms(1) D registry_frame queues_frame in auto)
    with Flushing assms(3) T queues_frame(11) [OF D(2), of key] show ?thesis
      by (auto simp: split_beta intro!: isolated_thread)
  next
    case (Sending h stage xs)
    with T obtain key where k: "key_at s h = Some key" "\<forall>(r, _) \<in> set xs. fits (eg_stream_id s) key r" by auto
    then obtain st where st: "map_of (eg_heap s) h = Some st" "st_key st = key" by (auto simp: key_at_def)
    show ?thesis
    proof (cases xs)
      case Nil
      with Sending assms show ?thesis by (auto intro: isolated_end)
    next
      case (Cons i rest)
      obtain x orig where i: "i = (x, orig)" by (cases i)
      from k Cons i have x: "fits (eg_stream_id s) key x" "\<forall>(r, _) \<in> set rest. fits (eg_stream_id s) key r" by auto
      have ref: "isolated (set_thread g (Sending h Check_Stopped rest) (request_refused b orig x s))" for b
        using isolated_refused [OF assms(1) x(1)] k x by (auto intro!: isolated_thread)
      have stay: "isolated (set_thread g (Sending h stg ((x, orig) # rest)) s)" for stg
        using k x assms(1) by (auto intro!: isolated_thread)
      have acc: "isolated (set_thread g (Sending h Check_Stopped rest) (put_stream h (st\<lparr>st_worker := w\<rparr>) s))"
        if "worker_enqueue False p x (st_worker st) = (Some True, w)" for p w
        using put [OF assms(1) st(1), of "st\<lparr>st_worker := w\<rparr>"] x st k worker_enqueue_items [OF that]
        by (auto simp: stream_params_def stream_items_def intro!: isolated_thread)
      from Sending Cons i assms(3) st ref stay acc show ?thesis
        by (auto simp: Let_def split: send_stage.splits if_splits prod.splits option.splits bool.splits)
    qed
  next
    case (Clearing key h it)
    with assms show ?thesis by (auto intro!: isolated_thread isolated_clear)
  next
    case (Marking h it)
    with assms show ?thesis
      by (auto simp: stream_params_def stream_items_def intro!: isolated_thread put split: option.splits)
  next
    case (Halting hs)
    with assms show ?thesis
      by (cases hs) (auto simp: stream_params_def stream_items_def intro!: isolated_thread isolated_end put split: option.splits)
  next
    case (Cancelling h hs)
    with assms show ?thesis
      by (auto simp: stream_params_def stream_items_def worker_stop_def intro!: isolated_thread put split: option.splits)
  qed
qed

lemma publish_isolated:
  assumes "isolated s" and "map_of (eg_heap s) h = Some st" and "pa_session a = st_session st" and "pa_stream a = st_stream st"
  shows "isolated (s\<lparr>eg_published := eg_published s @ [(h, a)]\<rparr>)"
proof -
  from isolatedD(3) [OF assms(1,2)] have "params_fit (eg_stream_id s) (st_key st) (stream_params st)"
    by (simp add: stream_ok_def)
  with assms(2-4) have "audio_ok (key_at s) (eg_stream_id s) (h, a)"
    by (auto simp: audio_ok_def params_fit_def stream_params_def key_at_def)
  with assms(1) show ?thesis by (simp add: isolated_def)
qed

lemma worker_receive_stream:
  "worker_receive st = Some (x, st') \<Longrightarrow> st_key st' = st_key st \<and> stream_params st' = stream_params st"
  by (auto simp: worker_receive_def stream_params_def split: prod.splits option.splits)

lemma worker_isolated:
  assumes "isolated s" and "map_of (eg_heap s) h = Some st" and "run_worker pcm e h (st_phase st) st s = Some s'"
  shows "isolated s'"
proof -
  note D = isolatedD [OF assms(1)]
  have st: "stream_ok (eg_stream_id s) st" by (rule D(3) [OF assms(2)])
  have fit: "params_fit (eg_stream_id s) (st_key st) (stream_params st)"
    "\<forall>r \<in> set (phase_items (st_phase st)). fits (eg_stream_id s) (st_key st) r"
    using st by (auto simp: stream_ok_def stream_items_def)
  have put: "isolated (put_stream h st' s1)" if "isolated s1" "key_at s1 h = Some (st_key st)" "eg_stream_id s1 = eg_stream_id s"
    "st_key st' = st_key st" "stream_params st' = stream_params st" "set (stream_items st') \<subseteq> set (stream_items st)"
    for st' s1
    by (rule isolated_put) (use that st in \<open>auto simp: stream_ok_def\<close>)
  have k: "key_at s h = Some (st_key st)" using assms(2) by (simp add: key_at_def)
  have spoke: "isolated (s\<lparr>eg_spoken := eg_spoken s @ [(h, x)]\<rparr>)" if "st_phase st = Wk_Speaking x" for x
    using assms(1) fit(2) k that by (auto simp: isolated_def)
  have emit: "isolated (emit pcm h m ck p st s)" if "phase_items p = []" for m ck p
  proof -
    obtain a where e: "emit pcm h m ck p st s =
        put_stream h (st\<lparr>st_seq := st_seq st + 1, st_phase := p\<rparr>) (s\<lparr>eg_published := eg_published s @ [(h, a)]\<rparr>)"
      and a: "pa_session a = st_session st" "pa_stream a = st_stream st"
      by (rule emit_form)
    show ?thesis unfolding e
      by (intro put publish_isolated [OF assms(1,2)] a) (use k that in \<open>auto simp: stream_items_def stream_params_def\<close>)
  qed
  show ?thesis
  proof (cases "st_phase st")
    case Wk_Loop
    from assms(3) [unfolded Wk_Loop] show ?thesis
    proof (cases rule: loop_form)
      case (1 x st1)
      from worker_receive_items [OF 1(1)] worker_receive_stream [OF 1(1)] show ?thesis
        unfolding 1(2) by (intro put assms(1) k) (auto simp: stream_items_def stream_params_def)
    next
      case (2 p)
      from 2(1) show ?thesis
        unfolding 2(2) by (intro put assms(1) k) (auto simp: stream_items_def stream_params_def)
    qed
  next
    case (Wk_Speaking x)
    with assms spoke k show ?thesis
      by (auto simp: stream_items_def stream_params_def intro!: put split: speak_result.splits)
  next
    case (Wk_Emit m cks)
    with assms k emit show ?thesis by (cases cks) (auto simp: stream_items_def stream_params_def intro: put)
  next
    case (Wk_Closing cks)
    with assms k emit show ?thesis by (cases cks) (auto simp: stream_items_def stream_params_def intro: put)
  next
    case Wk_Final
    from assms(3) [unfolded Wk_Final] show ?thesis
    proof (cases rule: final_form)
      case 1
      show ?thesis unfolding 1 by (intro put assms(1) k) (auto simp: stream_items_def stream_params_def)
    next
      case (2 a)
      show ?thesis unfolding 2(1)
        by (intro put publish_isolated [OF assms(1,2)] 2) (use k in \<open>auto simp: stream_items_def stream_params_def\<close>)
    qed
  next
    case (Wk_Drain again held)
    show ?thesis
    proof (cases held)
      case (Some x)
      with Wk_Drain assms(3) fit k assms(1) show ?thesis
        by (auto simp: stream_items_def stream_params_def intro!: put isolated_buffer)
    next
      case None
      show ?thesis
      proof (cases "worker_receive st")
        case None
        with Wk_Drain \<open>held = None\<close> assms(1,3) k show ?thesis
          by (cases again) (auto simp: stream_items_def stream_params_def intro!: put)
      next
        case (Some y)
        obtain x st1 where y: "y = (x, st1)" by (cases y)
        from worker_receive_items [OF Some [unfolded y]] worker_receive_stream [OF Some [unfolded y]]
          Wk_Drain \<open>held = None\<close> Some y assms(1,3) k show ?thesis
          by (auto simp: stream_items_def stream_params_def intro!: put)
      qed
    qed
  next
    case Wk_Remove
    have "isolated (s\<lparr>eg_manager := remove_stream (st_key st) h (eg_manager s)\<rparr>)"
      by (rule isolated_manager) (use assms(1) D registry_frame queues_frame in auto)
    with Wk_Remove assms k show ?thesis
      by (cases "st_keep_pending st") (auto simp: stream_items_def stream_params_def intro!: put)
  next
    case (Wk_Buffer x)
    with assms(1,3) fit k show ?thesis by (auto simp: stream_items_def stream_params_def intro!: put isolated_buffer)
  qed (use assms k in \<open>auto simp: stream_items_def stream_params_def worker_stop_def intro!: put isolated_clear\<close>)
qed

lemma handle_speak_request_isolated:
  assumes "isolated s" and "sr_stream r = eg_stream_id s"
  shows "isolated (handle_speak_request g r s)"
proof -
  have "fits (eg_stream_id s) (request_key r) r" using assms(2) by (simp add: fits_def)
  moreover have "params_fit (eg_stream_id s) (request_key r) (request_params (s\<lparr>eg_accepted := acc\<rparr>) r)" for acc
    using assms(2) by (simp add: params_fit_def request_params_def request_key_def)
  moreover have "stream_of (request_key r) (eg_manager s) = Some h \<Longrightarrow> key_at s h = Some (request_key r)" for h
    using registry_frame(11) [OF isolatedD(1) [OF assms(1)]] by blast
  ultimately show ?thesis
    using assms(1) by (auto simp: handle_speak_request_def Let_def intro!: isolated_thread split: option.splits)
qed

lemma interrupt_isolated: "isolated s \<Longrightarrow> isolated (interrupt_stream g session stream reason ts meta now s)"
  by (auto simp: interrupt_stream_def Let_def intro!: isolated_thread split: option.splits)

lemma stop_lifecycle_isolated:
  assumes "isolated s"
  shows "isolated (stop_lifecycle s)"
proof -
  have m: "map_of (map (\<lambda>(h, st). (h, f st)) hp) h = map_option f (map_of hp h)" for f :: "tts_stream \<Rightarrow> tts_stream" and hp h
    by (induction hp) auto
  have k: "key_at (stop_lifecycle s) = key_at s"
    by (rule ext) (simp add: key_at_def stop_lifecycle_def m option.map_comp comp_def)
  have ok: "stream_ok i (st\<lparr>st_worker := worker_stop (st_worker st)\<rparr>) = stream_ok i st" for i st
    by (simp add: stream_ok_def stream_params_def stream_items_def worker_stop_def)
  have f: "eg_manager (stop_lifecycle s) = eg_manager s" "eg_stream_id (stop_lifecycle s) = eg_stream_id s"
    "eg_threads (stop_lifecycle s) = eg_threads s" "eg_spoken (stop_lifecycle s) = eg_spoken s"
    "eg_published (stop_lifecycle s) = eg_published s"
    "map_of (eg_heap (stop_lifecycle s)) h = map_option (\<lambda>st. st\<lparr>st_worker := worker_stop (st_worker st)\<rparr>) (map_of (eg_heap s) h)" for h
    by (simp_all add: stop_lifecycle_def m)
  from assms show ?thesis unfolding isolated_def k f by (auto simp: ok)
qed

lemma step_isolated:
  assumes "isolated s" and "egress_step pcm s s'"
  shows "isolated s'"
  using assms(2)
proof cases
  case (consumes g session prompt text_of meta)
  with assms(1) handle_speak_request_isolated show ?thesis by (simp add: consume_text_def)
next
  case (stopped session)
  have "isolated (s\<lparr>eg_manager := remove_stream_by_key key (eg_manager s)\<rparr>)" for key
    by (rule isolated_manager) (use assms(1) isolatedD [OF assms(1)] registry_frame queues_frame in auto)
  with assms(1) stopped show ?thesis
    by (auto simp: session_stopped_def Let_def intro!: isolated_thread split: option.splits)
next
  case (barges session stream reason ts meta now)
  with assms(1) interrupt_isolated show ?thesis by (simp add: handle_barge_event_def)
next
  case (interrupts n session stream reason meta now)
  with assms(1) interrupt_isolated show ?thesis by (simp add: call_interrupt_def)
next
  case (timer n key)
  have "isolated (s\<lparr>eg_manager := snd (retry_begin key (eg_manager s))\<rparr>)"
    by (rule isolated_manager) (use assms(1) isolatedD [OF assms(1)] registry_frame queues_frame in auto)
  with timer assms(1) queues_frame(12) [OF isolatedD(2) [OF assms(1)], of key] show ?thesis
    by (cases "retry_begin key (eg_manager s)")
      (auto simp: timer_fires_def intro!: isolated_thread split: option.splits)
next
  case (thread g t e)
  with assms(1) thread_isolated show ?thesis by blast
next
  case (worker h st e)
  with assms(1) worker_isolated show ?thesis by blast
next
  case stops
  with assms(1) stop_lifecycle_isolated show ?thesis by simp
next
  case closes
  have "isolated (s\<lparr>eg_consuming := False, eg_manager := m\<rparr>)"
    if "pending m = pending (eg_manager s)" "streams m = []" for m
    by (rule isolated_manager) (use that assms(1) isolatedD [OF assms(1)] in \<open>auto simp: registry_ok_def queues_ok_def\<close>)
  with closes assms(1) show ?thesis
    by (auto simp: close_streams_def close_all_streams_def intro!: isolated_thread)
next
  case drops
  have "isolated ((lose Shut_Down xs s)\<lparr>eg_manager := shutdown_pending (eg_manager s)\<rparr>)" for xs
    by (rule isolated_manager) (use assms(1) isolatedD [OF assms(1)] registry_frame queues_frame in auto)
  with drops show ?thesis by (simp add: drop_pending_def)
qed

section \<open>The sequence of a stream\<close>

definition audio_of :: "nat \<Rightarrow> egress \<Rightarrow> playback_audio list" where
  "audio_of h s = map snd (filter (\<lambda>p. fst p = h) (eg_published s))"

definition numbered :: "playback_audio list \<Rightarrow> bool" where
  "numbered as \<longleftrightarrow> map pa_sequence as = map (\<lambda>i. of_nat (Suc i)) [0..<length as]"

definition sequence_ok :: "egress \<Rightarrow> bool" where
  "sequence_ok s \<longleftrightarrow> (\<forall>h. numbered (audio_of h s) \<and>
     (case map_of (eg_heap s) h of None \<Rightarrow> audio_of h s = [] | Some st \<Rightarrow> st_seq st = of_nat (length (audio_of h s))))"

lemma numbered_snoc:
  "numbered as \<Longrightarrow> pa_sequence a = of_nat (Suc (length as)) \<Longrightarrow> numbered (as @ [a])"
  by (simp add: numbered_def)

text \<open>A step that publishes nothing and keeps the counters of the streams.\<close>

definition seq_at :: "egress \<Rightarrow> nat \<Rightarrow> uint64 option" where
  "seq_at s h = map_option st_seq (map_of (eg_heap s) h)"

lemma sequence_ok_alt:
  "sequence_ok s \<longleftrightarrow> (\<forall>h. numbered (audio_of h s) \<and>
     (case seq_at s h of None \<Rightarrow> audio_of h s = [] | Some n \<Rightarrow> n = of_nat (length (audio_of h s))))"
  unfolding sequence_ok_def seq_at_def by (auto split: option.splits)

definition quiet :: "egress \<Rightarrow> egress \<Rightarrow> bool" where
  "quiet s s' \<longleftrightarrow> eg_published s' = eg_published s \<and> (\<forall>h. seq_at s' h = seq_at s h \<or> seq_at s h = None \<and> seq_at s' h = Some 0)"

lemma quiet_sequence:
  assumes "sequence_ok s" and "quiet s s'"
  shows "sequence_ok s'"
  unfolding sequence_ok_alt
proof
  fix h
  have au: "audio_of h s' = audio_of h s" using assms(2) by (simp add: quiet_def audio_of_def)
  from assms have "numbered (audio_of h s)" "seq_at s' h = seq_at s h \<or> seq_at s h = None \<and> seq_at s' h = Some 0"
    "case seq_at s h of None \<Rightarrow> audio_of h s = [] | Some n \<Rightarrow> n = of_nat (length (audio_of h s))"
    by (simp_all add: sequence_ok_alt quiet_def)
  then show "numbered (audio_of h s') \<and>
      (case seq_at s' h of None \<Rightarrow> audio_of h s' = [] | Some n \<Rightarrow> n = of_nat (length (audio_of h s')))"
    unfolding au by auto
qed

lemma published_frame [simp]:
  "eg_published (set_thread g t s) = eg_published s" "eg_published (end_thread g s) = eg_published s"
  "eg_published (put_stream h st s) = eg_published s" "eg_published (lose why rs s) = eg_published s"
  "eg_published (buffer_request key params x s) = eg_published s" "eg_published (clear_queue why key s) = eg_published s"
  "eg_published (request_refused rebuffering orig x s) = eg_published s"
  "eg_published (create_refused e key params own s) = eg_published s"
  by (simp_all add: put_stream_def lose_def buffer_request_def clear_queue_def set_thread_def end_thread_def request_refused_def
      create_refused_def Let_def split: origin.split create_result.split option.split)

lemma seq_at_frame [simp]:
  "seq_at (set_thread g t s) = seq_at s" "seq_at (end_thread g s) = seq_at s" "seq_at (lose why rs s) = seq_at s"
  "seq_at (buffer_request key params x s) = seq_at s" "seq_at (clear_queue why key s) = seq_at s"
  "seq_at (s\<lparr>eg_manager := m\<rparr>) = seq_at s" "seq_at (s\<lparr>eg_spoken := sp\<rparr>) = seq_at s"
  "seq_at (s\<lparr>eg_published := pub\<rparr>) = seq_at s" "seq_at (s\<lparr>eg_accepted := acc\<rparr>) = seq_at s"
  "seq_at (s\<lparr>eg_consuming := c\<rparr>) = seq_at s" "seq_at (put_stream h st s) = (seq_at s)(h \<mapsto> st_seq st)"
  "seq_at (request_refused rebuffering orig x s) = seq_at s" "seq_at (create_refused e key params own s) = seq_at s"
  by (auto simp: seq_at_def fun_eq_iff put_stream_def request_refused_def create_refused_def Let_def
      split: origin.split create_result.split option.split)

lemma seq_at_some:
  "map_of (eg_heap s) h = Some st \<Longrightarrow> seq_at s h = Some (st_seq st)"
  "map_of (eg_heap s) h = None \<Longrightarrow> seq_at s h = None"
  by (simp_all only: seq_at_def option.map)

lemma thread_quiet:
  assumes "run_thread e g t s = Some s'"
  shows "quiet s s'"
proof (cases t)
  case (Sending h stage xs)
  with assms show ?thesis
    by (cases xs) (auto simp: quiet_def Let_def seq_at_some split: option.splits send_stage.splits if_splits prod.splits bool.splits)
next
  case (Halting hs)
  with assms show ?thesis by (cases hs) (auto simp: quiet_def seq_at_some split: option.splits if_splits)
qed (use assms in \<open>auto simp: quiet_def seq_at_some new_tts_stream_def stop_stream_def
    split: option.splits create_result.splits if_splits prod.splits\<close>)

lemma publish_sequence:
  assumes "sequence_ok s" and "map_of (eg_heap s) h = Some st" and "pa_sequence a = st_seq st + 1" and "st_seq st' = st_seq st + 1"
  shows "sequence_ok (put_stream h st' (s\<lparr>eg_published := eg_published s @ [(h, a)]\<rparr>))" (is "sequence_ok ?s")
proof -
  have n: "st_seq st = of_nat (length (audio_of h s))" and num: "numbered (audio_of h s)"
    using assms(1,2) by (auto simp: sequence_ok_def split: option.splits)
  have au: "audio_of k ?s = (if k = h then audio_of h s @ [a] else audio_of k s)" for k
    by (simp add: audio_of_def)
  have "numbered (audio_of h s @ [a])"
    by (rule numbered_snoc [OF num]) (simp add: assms(3) n)
  then show ?thesis
    using assms n unfolding sequence_ok_alt au by (auto simp: seq_at_def)
qed

lemma worker_sequence:
  assumes "sequence_ok s" and "map_of (eg_heap s) h = Some st" and "run_worker pcm e h (st_phase st) st s = Some s'"
  shows "sequence_ok s'"
proof -
  note sa = seq_at_some(1) [OF assms(2)]
  have put: "sequence_ok (put_stream h st' s1)" if "quiet s s1" "st_seq st' = st_seq st" for st' s1
    by (rule quiet_sequence [OF assms(1)]) (use that sa in \<open>auto simp: quiet_def\<close>)
  have emit: "sequence_ok (emit pcm h m ck p st s)" for m ck p
    by (rule emit_form [of pcm h m ck p st s]) (use publish_sequence [OF assms(1,2)] in simp)
  have rec: "worker_receive st = Some (x, st1) \<Longrightarrow> st_seq st1 = st_seq st" for x st1
    by (auto simp: worker_receive_def split: prod.splits option.splits)
  show ?thesis
  proof (cases "st_phase st")
    case Wk_Loop
    from assms(3) [unfolded Wk_Loop] show ?thesis
      by (cases rule: loop_form) (use rec in \<open>auto simp: quiet_def intro!: put\<close>)
  next
    case (Wk_Emit m cks)
    with assms emit show ?thesis by (cases cks) (auto simp: quiet_def intro!: put)
  next
    case (Wk_Closing cks)
    with assms emit show ?thesis by (cases cks) (auto simp: quiet_def intro!: put)
  next
    case Wk_Final
    from assms(3) [unfolded Wk_Final] show ?thesis
      by (cases rule: final_form) (use publish_sequence [OF assms(1,2)] in \<open>auto simp: quiet_def intro!: put\<close>)
  next
    case (Wk_Drain again held)
    with assms rec show ?thesis by (cases held) (auto simp: quiet_def intro!: put split: option.splits)
  qed (use assms in \<open>auto simp: quiet_def intro!: put split: speak_result.splits\<close>)
qed

lemma step_sequence:
  assumes "sequence_ok s" and "egress_step pcm s s'"
  shows "sequence_ok s'"
proof -
  have "eg_published (stop_lifecycle s) = eg_published s" "seq_at (stop_lifecycle s) = seq_at s"
  proof -
    have "map_option st_seq (map_of (map (\<lambda>(h, st :: tts_stream). (h, st\<lparr>st_worker := worker_stop (st_worker st)\<rparr>)) hp) h) =
        map_option st_seq (map_of hp h)" for hp and h :: nat
      by (induction hp) auto
    then show "seq_at (stop_lifecycle s) = seq_at s" by (auto simp: seq_at_def stop_lifecycle_def)
  qed (simp add: stop_lifecycle_def)
  then have quiet: "quiet s (stop_lifecycle s)" "quiet s (drop_pending s)" "quiet s (close_streams s)"
    "quiet s (timer_fires n key s)" "quiet s (session_stopped session s)" "quiet s (consume_text g session prompt text_of meta s)"
    "quiet s (interrupt_stream g session stream reason ts meta now s)"
    for n key session g prompt text_of meta stream reason ts now
    by (simp_all add: quiet_def drop_pending_def close_streams_def timer_fires_def session_stopped_def consume_text_def
        handle_speak_request_def interrupt_stream_def Let_def split: prod.splits option.splits)
  from assms(2) show ?thesis
  proof cases
    case (worker h st e)
    with assms(1) worker_sequence show ?thesis by blast
  qed (use assms(1) quiet_sequence quiet thread_quiet in
      \<open>auto simp: handle_barge_event_def call_interrupt_def split: if_splits\<close>)
qed

section \<open>Runs\<close>

text \<open>A schedule: which goroutine or worker goes next, and what the environment decides. It is what the examples evaluate.\<close>

datatype move =
    Text goroutine string string
  | Interrupt nat string
  | Go goroutine decision
  | Work nat decision

fun make_move :: "(audio_format \<Rightarrow> int \<Rightarrow> duration) \<Rightarrow> move \<Rightarrow> egress \<Rightarrow> egress option" where
  "make_move pcm (Text g session t) s =
     (if eg_consuming s \<and> g \<in> {Replies, Speaks} \<and> idle g s then Some (consume_text g session [] t Map.empty s) else None)"
| "make_move pcm (Interrupt n session) s =
     (if idle (Interrupter n) s then Some (call_interrupt (Interrupter n) session [] [] Map.empty 1 s) else None)"
| "make_move pcm (Go g e) s = Option.bind (map_of (eg_threads s) g) (\<lambda>t. run_thread e g t s)"
| "make_move pcm (Work h e) s = Option.bind (map_of (eg_heap s) h) (\<lambda>st. run_worker pcm e h (st_phase st) st s)"

fun play :: "(audio_format \<Rightarrow> int \<Rightarrow> duration) \<Rightarrow> move list \<Rightarrow> egress \<Rightarrow> egress option" where
  "play pcm [] s = Some s"
| "play pcm (mv # mvs) s = Option.bind (make_move pcm mv s) (play pcm mvs)"

lemma make_move_step: "make_move pcm mv s = Some s' \<Longrightarrow> egress_step pcm s s'"
  by (cases mv) (auto intro: egress_step.intros simp: bind_eq_Some_conv split: if_splits)

lemma play_steps: "play pcm mvs s = Some s' \<Longrightarrow> (egress_step pcm)\<^sup>*\<^sup>* s s'"
proof (induction mvs arbitrary: s)
  case (Cons mv mvs)
  then obtain s1 where "make_move pcm mv s = Some s1" "play pcm mvs s1 = Some s'" by (auto simp: bind_eq_Some_conv)
  with Cons.IH make_move_step show ?case by (meson converse_rtranclp_into_rtranclp)
qed simp

lemma steps_reachable: "(egress_step pcm)\<^sup>*\<^sup>* s s' \<Longrightarrow> egress_reachable pcm s \<Longrightarrow> egress_reachable pcm s'"
  by (induction rule: rtranclp_induct) (auto intro: egress_reachable.step)

lemma reachable_ok:
  assumes "egress_reachable pcm s"
  shows "accounted r s \<and> isolated s \<and> sequence_ok s"
  using assms
proof induction
  case (start opts)
  show ?case
    by (simp add: start_egress_def new_stream_manager_def accounted_def maps_ok_def whereabouts_def pend_cnt_def
        isolated_def registry_ok_def queues_ok_def sequence_ok_def audio_of_def numbered_def)
next
  case (step s s')
  with step_accounted step_isolated step_sequence show ?case by blast
qed

definition usual :: decision where
  "usual = \<lparr>en_create = Create_Ok 0, en_now = 1, en_send = True, en_receive = False, en_speak = Speak_Chunks [], en_close = []\<rparr>"

definition receiving :: decision where
  "receiving = usual\<lparr>en_receive := True\<rparr>"

text \<open>A text for a session without a stream, up to the point where it lies in the queue of the new worker; and one that is spoken.\<close>

definition open_moves :: "move list" where
  "open_moves = [Text Replies ''s'' ''hi'', Go Replies usual, Go Replies usual, Go Replies usual, Go Replies usual,
     Go Replies usual, Go Replies usual, Go Replies usual, Go Replies usual]"

definition spoken_moves :: "move list" where
  "spoken_moves = open_moves @ [Work 0 receiving, Work 0 usual, Work 0 usual, Work 0 usual]"

definition interrupt_moves :: "move list" where
  "interrupt_moves = spoken_moves @ [Interrupt 0 ''s'', Go (Interrupter 0) usual, Go (Interrupter 0) usual, Go (Interrupter 0) usual,
     Go (Interrupter 0) usual]"

lemma waiting_after_buffer: "r \<in> set (waiting_items key (buffer_request key params r s))"
  by (auto simp: waiting_items_def buffer_request_def buffer_pending_def schedule_retry_queue Let_def)

lemma clear_loses: "r \<in> set (waiting_items key s) \<Longrightarrow> (why, r) \<in> set (eg_lost (clear_queue why key s))"
  by (auto simp: clear_queue_def lose_def)

lemma running_frame [simp]:
  "eg_running (put_stream h st s) = eg_running s" "eg_running (lose why rs s) = eg_running s"
  "eg_running (buffer_request key params x s) = eg_running s" "eg_running (clear_queue why key s) = eg_running s"
  "eg_running (set_thread g t s) = eg_running s" "eg_running (end_thread g s) = eg_running s"
  "eg_consuming (put_stream h st s) = eg_consuming s" "eg_consuming (lose why rs s) = eg_consuming s"
  "eg_lost (put_stream h st s) = eg_lost s" "eg_lost (set_thread g t s) = eg_lost s" "eg_lost (end_thread g s) = eg_lost s"
  by (simp_all add: put_stream_def lose_def buffer_request_def clear_queue_def set_thread_def end_thread_def Let_def)

lemma waiting_frame [simp]:
  "waiting_items key (put_stream h st s) = waiting_items key s" "waiting_items key (set_thread g t s) = waiting_items key s"
  "waiting_items key (end_thread g s) = waiting_items key s"
  "waiting_items key (s\<lparr>eg_manager := remove_stream k h (eg_manager s)\<rparr>) = waiting_items key s"
  by (simp_all add: waiting_items_def remove_stream_def)

text \<open>A request for a stream that is winding up is refused and buffered; the exit of the worker then clears the queue.\<close>

lemma refused_moves:
  assumes "map_of (eg_threads s) g = Some (Sending h Check_Stopped [(r, Found)])" and "map_of (eg_heap s) h = Some st"
    and "\<not> st_stopped st" and "wk_done (st_worker st)" and "eg_running s"
  shows "\<exists>s'. (egress_step pcm)\<^sup>*\<^sup>* s s' \<and> r \<in> set (waiting_items (request_key r) s') \<and> eg_running s' \<and>
    map_of (eg_heap s') h = Some st \<and> eg_accepted s' = eg_accepted s"
proof -
  let ?s = "set_thread g (Sending h First_Select [(r, Found)]) s"
  let ?b = "buffer_request (request_key r) (request_params ?s r) r ?s"
  have th [simp]: "map_of (eg_threads (set_thread g t s)) g = Some t" for t s by (simp add: set_thread_def)
  have "play pcm [Go g usual, Go g usual, Go g usual] s = Some (end_thread g (set_thread g (Sending h Check_Stopped []) ?b))"
    using assms by (simp add: request_refused_def)
  from play_steps [OF this] show ?thesis
    using assms(2,5) waiting_after_buffer by (intro exI conjI) (assumption, simp_all)
qed

lemma exit_moves:
  assumes "map_of (eg_heap s) h = Some st" and "st_phase st = Wk_Loop" and "wk_done (st_worker st)" and "\<not> st_keep_pending st"
    and "r \<in> set (waiting_items (st_key st) s)"
  shows "\<exists>s'. (egress_step pcm)\<^sup>*\<^sup>* s s' \<and> (Cleared_On_Exit, r) \<in> set (eg_lost s') \<and> eg_running s' = eg_running s \<and>
    eg_accepted s' = eg_accepted s"
proof -
  have hp [simp]: "map_of (eg_heap (put_stream h st s)) h = Some st" for st s by (simp add: put_stream_def)
  let ?f = "put_stream h (st\<lparr>st_synth := False, st_phase := Wk_Final\<rparr>) s"
  have "\<exists>st1 s1. run_worker pcm usual h Wk_Final (st\<lparr>st_synth := False, st_phase := Wk_Final\<rparr>) ?f = Some s1 \<and>
      map_of (eg_heap s1) h = Some st1 \<and> st_phase st1 = Wk_Remove \<and> \<not> st_keep_pending st1 \<and> st_key st1 = st_key st \<and>
      eg_manager s1 = eg_manager s \<and> eg_running s1 = eg_running s \<and> eg_accepted s1 = eg_accepted s"
    using publish_final_form [of h "st\<lparr>st_synth := False, st_phase := Wk_Final\<rparr>" "eg_published ?f"] assms(4)
    by (cases "\<not> st_stopped st \<or> st_interrupted st") (auto simp: put_stream_def)
  then obtain st1 s1 where fin: "run_worker pcm usual h Wk_Final (st\<lparr>st_synth := False, st_phase := Wk_Final\<rparr>) ?f = Some s1"
    and s1: "map_of (eg_heap s1) h = Some st1" "st_phase st1 = Wk_Remove" "\<not> st_keep_pending st1" "st_key st1 = st_key st"
      "eg_manager s1 = eg_manager s" "eg_running s1 = eg_running s" "eg_accepted s1 = eg_accepted s" by blast
  let ?d = "put_stream h (st1\<lparr>st_phase := Wk_Clear\<rparr>) (s1\<lparr>eg_manager := remove_stream (st_key st1) h (eg_manager s1)\<rparr>)"
  have usual: "\<not> en_receive usual" "en_close usual = []" by (simp_all add: usual_def)
  have "make_move pcm (Work h usual) s = Some ?f" using assms(1-3) usual by simp
  moreover have "make_move pcm (Work h usual) ?f = Some s1" by (simp del: run_worker.simps add: fin)
  moreover have "make_move pcm (Work h usual) s1 = Some ?d" using s1(1-3) by simp
  moreover have "make_move pcm (Work h usual) ?d =
      Some (put_stream h (st1\<lparr>st_phase := Wk_Done\<rparr>) (clear_queue Cleared_On_Exit (st_key st1) ?d))"
    by simp
  ultimately have "play pcm [Work h usual, Work h usual, Work h usual, Work h usual] s =
      Some (put_stream h (st1\<lparr>st_phase := Wk_Done\<rparr>) (clear_queue Cleared_On_Exit (st_key st1) ?d))"
    by (simp del: make_move.simps)
  note steps = play_steps [OF this]
  have "r \<in> set (waiting_items (st_key st1) s1)" using assms(5) s1 by (simp add: waiting_items_def)
  with steps show ?thesis
    using clear_loses [of r "st_key st1" ?d] s1(6,7) by (intro exI conjI) (assumption, simp_all)
qed

text \<open>What the two examples reach.\<close>

abbreviation demo_start :: egress where
  "demo_start \<equiv> start_egress (new_egress [])"

lemma demo_interrupted:
  "case play (\<lambda>_ _. 0) interrupt_moves demo_start of
     None \<Rightarrow> False
   | Some s \<Rightarrow>
       eg_running s \<and> eg_consuming s \<and> idle Replies s \<and> stream_of (stream_key ''s'' (eg_stream_id s)) (eg_manager s) = Some 0 \<and>
       eg_stream_id s \<noteq> [] \<and>
       (case map_of (eg_heap s) 0 of
          None \<Rightarrow> False
        | Some st \<Rightarrow>
            st_key st = stream_key ''s'' (eg_stream_id s) \<and> (case st_phase st of Wk_Loop \<Rightarrow> True | _ \<Rightarrow> False) \<and>
            st_interrupted st \<and> wk_done (st_worker st) \<and> \<not> st_stopped st \<and> \<not> st_keep_pending st)"
  by code_simp

lemma demo_spoken:
  "case play (\<lambda>_ _. 0) spoken_moves demo_start of
     None \<Rightarrow> False
   | Some s \<Rightarrow> (case eg_spoken s of [(h, r)] \<Rightarrow> h = 0 \<and> sr_session r = ''s'' \<and> sr_text r = ''hi'' | _ \<Rightarrow> False) \<and>
       (case eg_published s of [(h, a)] \<Rightarrow> h = 0 \<and> pa_final a | _ \<Rightarrow> False)"
  by code_simp

lemma play_reachable: "play pcm mvs demo_start = Some s \<Longrightarrow> egress_reachable pcm s"
  using play_steps steps_reachable egress_reachable.start by blast

lemma spoken_state:
  obtains s r a where "play (\<lambda>_ _. 0) spoken_moves demo_start = Some s" and "egress_reachable (\<lambda>_ _. 0) s"
    and "eg_spoken s = [(0, r)]" and "sr_session r = ''s''" and "sr_text r = ''hi''" and "eg_published s = [(0, a)]"
proof -
  from demo_spoken obtain s where s: "play (\<lambda>_ _. 0) spoken_moves demo_start = Some s"
    by (cases "play (\<lambda>_ _. 0) spoken_moves demo_start") simp_all
  with demo_spoken obtain h r where r: "eg_spoken s = [(h, r)]"
    by (cases "eg_spoken s" rule: remdups_adj.cases) auto
  from demo_spoken s obtain k a where a: "eg_published s = [(k, a)]"
    by (cases "eg_published s" rule: remdups_adj.cases) (auto split: list.splits prod.splits)
  from demo_spoken that [OF s play_reachable [OF s]] r a show ?thesis by (simp add: s)
qed

section \<open>Properties\<close>



text \<open>
  C12: A text is never spoken into another session. What a stream publishes carries the session and the stream of every request that
  it has spoken.
\<close>

theorem speech_stays_in_session:
  assumes "egress_reachable pcm s" and "(h, r) \<in> set (eg_spoken s)" and "(h, a) \<in> set (eg_published s)"
  shows "pa_session a = sr_session r \<and> pa_stream a = sr_stream r"
proof -
  from reachable_ok [OF assms(1)] have "isolated s" by blast
  with assms(2,3) have "key_at s h = Some (request_key r)" "sr_stream r = eg_stream_id s"
    "pa_stream a = eg_stream_id s" "key_at s h = Some (stream_key (pa_session a) (eg_stream_id s))"
    by (auto simp: isolated_def fits_def audio_ok_def)
  then show ?thesis by (simp add: request_key_def stream_key_def)
qed

theorem speech_stays_in_session_witness:
  "\<exists>s r a. play (\<lambda>_ _. 0) spoken_moves demo_start = Some s \<and> eg_spoken s = [(0, r)] \<and> eg_published s = [(0, a)] \<and>
     pa_session a = ''s'' \<and> sr_text r = ''hi''"
proof -
  obtain s r a where s: "play (\<lambda>_ _. 0) spoken_moves demo_start = Some s" "egress_reachable (\<lambda>_ _. 0) s" "eg_spoken s = [(0, r)]"
    "sr_session r = ''s''" "sr_text r = ''hi''" "eg_published s = [(0, a)]"
    by (rule spoken_state)
  from speech_stays_in_session [OF s(2), of 0 r a] s show ?thesis by simp
qed

text \<open>
  C13: The audio of a stream is numbered without a gap: its events carry the sequence numbers 1, 2, 3 and so on in the order in which
  they are published (modulo \<open>2 ^ 64\<close>).
\<close>

theorem playback_numbered:
  assumes "egress_reachable pcm s"
  shows "map pa_sequence (audio_of h s) = map (\<lambda>i. of_nat (Suc i)) [0..<length (audio_of h s)]"
  using reachable_ok [OF assms] by (simp add: sequence_ok_def numbered_def)

theorem playback_numbered_witness:
  "\<exists>s a. play (\<lambda>_ _. 0) spoken_moves demo_start = Some s \<and> eg_published s = [(0, a)] \<and> pa_sequence a = 1"
proof -
  obtain s r a where s: "play (\<lambda>_ _. 0) spoken_moves demo_start = Some s" "egress_reachable (\<lambda>_ _. 0) s" "eg_published s = [(0, a)]"
    by (rule spoken_state)
  from playback_numbered [OF s(2), of 0] s show ?thesis by (simp add: audio_of_def)
qed



end
