(* ===== verification/Composition.thy ===== *)
theory Composition
  imports JournalProperties RouterProperties EgressProperties
begin

text \<open>
  Components together: the intent router publishes its answers on the topics of replies and of speak events, the journal takes the
  replies to its compaction prompts as summaries, and the speech output service speaks both kinds of events.
\<close>

section \<open>Wiring\<close>

text \<open>\<open>consumeCompactionReply\<close> of the journal, and \<open>consumeReplies\<close> and \<open>consumeSpeak\<close> of the speech output.\<close>

fun journal_hears :: "Journal.env \<Rightarrow> router_event \<Rightarrow> journal \<Rightarrow> journal" where
  "journal_hears e (Published_Reply r) j = handle_compaction_reply e (rp_prompt_id r) (rp_text r) j"
| "journal_hears e (Published_Speak v) j = j"

fun speech_hears :: "router_event \<Rightarrow> egress \<Rightarrow> egress" where
  "speech_hears (Published_Reply r) s =
     consume_text Replies (rp_session_id r) (rp_prompt_id r) (rp_text r) (map_of (rp_metadata r)) s"
| "speech_hears (Published_Speak v) s =
     consume_text Speaks (speak_event.sp_session_id v) (sp_prompt_id v) (sp_text v) (speak_event.sp_metadata v) s"

section \<open>Compaction\<close>

lemma reply_settles:
  assumes "pid \<noteq> []" and "map_of (pending_compactions j) pid = Some pc"
  shows "map_of (pending_compactions (handle_compaction_reply e pid t j)) pid = None \<and>
    pc_session pc \<notin> compaction_in_flight (handle_compaction_reply e pid t j)"
  unfolding reply_stored [OF assms] by (simp add: Let_def)

lemma unknown_reply: "map_of (pending_compactions j) pid = None \<Longrightarrow> handle_compaction_reply e pid t j = j"
  by (simp add: handle_compaction_reply_def)

lemma others_ignored:
  "map_of (pending_compactions j) pid = None \<Longrightarrow> \<forall>v \<in> set evs. event_prompt v = pid \<Longrightarrow> fold (journal_hears e) evs j = j"
proof (induction evs)
  case (Cons v evs)
  then show ?case by (cases v) (simp_all add: unknown_reply)
qed simp

lemma first_reply_counts:
  assumes "\<forall>v \<in> set evs. event_prompt v = pid" and "filter is_reply evs = Published_Reply r # rest"
    and "pid \<noteq> []" and "map_of (pending_compactions j) pid = Some pc"
  shows "fold (journal_hears e) evs j = handle_compaction_reply e pid (rp_text r) j"
  using assms
proof (induction evs)
  case (Cons v evs)
  show ?case
  proof (cases v)
    case (Published_Reply q)
    with Cons.prems have q: "q = r" "rp_prompt_id r = pid" "\<forall>v \<in> set evs. event_prompt v = pid" by auto
    from reply_settles [OF Cons.prems(3,4)] others_ignored [OF _ q(3)] show ?thesis
      by (simp add: Published_Reply q)
  next
    case (Published_Speak v')
    with Cons show ?thesis by simp
  qed
qed simp

lemma router_answers:
  "answers (pr_prompt_id p) (replies_due (outcome clock p s w)) s (fst (handle_prompt clock clocks p s w))"
  by (auto simp: handle_prompt_def outcome_def Let_def answering answers_actions split: option.splits prod.splits sum.splits
      simp del: replies_due.simps(2,3))

lemma router_error: "outcome clock p s w = Inl err \<Longrightarrow> fst (handle_prompt clock clocks p s w) = publish_error p err s"
  by (auto simp: handle_prompt_def outcome_def Let_def split: option.splits prod.splits sum.splits if_splits)

lemma trim_space_nonblank:
  assumes "bv c < 0x80" and "\<not> is_space (bv c)"
  shows "trim_space (c # s) \<noteq> []"
proof -
  obtain xs where "segs (c # s) = (bv c, [c]) # xs" using assms(1) by (simp add: segs.simps(2) decode_rune_ascii)
  then show ?thesis using assms(2) by (simp add: trim_space_def trim_segs_def seg_space_def dropWhile_append3)
qed

text \<open>What the router publishes for a prompt.\<close>

definition answers_to :: "time_ns \<Rightarrow> (nat \<Rightarrow> time_ns) \<Rightarrow> prompt_event \<Rightarrow> 'w router \<Rightarrow> 'w \<Rightarrow> router_event list" where
  "answers_to clock clocks p s w = drop (length (rt_published s)) (rt_published (fst (handle_prompt clock clocks p s w)))"


lemma no_adapter_outcome: "outcome 0 (demo_prompt\<lparr>pr_prompt_id := pid\<rparr>) (new_router [] :: unit router) () = Inl No_Adapter"
  by (simp add: outcome_def new_router_def)


text \<open>
  C28: An error of the router becomes an AI summary. When a compaction prompt fails, because there is no adapter, it is not ready, it
  returns an error or wants too many tools, the journal takes the text of the error for the summary and stores it
  in the place of the conversation it removed: in the journal file of the session, in its archive, or in the audit file.
\<close>

theorem error_becomes_summary:
  assumes "new_journal_service base d = Some j0" "clean_base base" "\<And>sid. plain sid \<Longrightarrow> file_wf d (journal_path base sid)"
    "journal_step\<^sup>*\<^sup>* j0 j"
    and "pr_prompt_id p \<noteq> []" "map_of (pending_compactions j) (pr_prompt_id p) = Some pc"
    and "outcome clock p s w = Inl err" and "audit_io e = no_faults"
    and "j' = fold (journal_hears e) (answers_to clock clocks p s w) j" and "t = ''Error: '' @ error_text err"
  shows "summary_on_disk (trim_nl (format_summary (pc_start pc) (pc_end pc) t)) (journal_disk j')
      (journal_path (journal_base j) (pc_session pc))
      (archive_file (journal_base j) (pc_session pc) (format_date (archive_now e))) \<or>
    (\<exists>c. journal_disk j' (audit_file (journal_base j) (pc_session pc) (format_date (now e))) = Some (c @ fallback_entry pc t @ [NL]))"
proof -
  have inv: "journal_inv j" using journal_steps_safe [OF assms(4) new_journal_inv [OF assms(1-3)]] by simp
  have "answers_to clock clocks p s w = drop (length (rt_published s)) (rt_published (publish_error p err s))"
    using router_error [OF assms(7), of clocks] by (simp add: answers_to_def)
  then have "j' = handle_compaction_reply e (pr_prompt_id p) t j"
    unfolding assms(9,10) by (simp add: publish_error_def publish_reply_def publish_speak_def)
  then have j': "journal_disk j' = journal_disk (store_summary e pc t j)"
    by (simp add: reply_stored [OF assms(5,6)] Let_def)
  have "trim_space t \<noteq> []" unfolding assms(10) append_Cons by (rule trim_space_nonblank) (simp_all add: is_space_def)
  from store_summary_on_disk [OF inv session_of_pending [OF inv assms(6)] this, of e] assms(8) show ?thesis
    by (simp add: j' session_file_def no_faults_def)
qed

theorem error_becomes_summary_witness:
  "\<exists>j pid pc j'. map_of (pending_compactions j) pid = Some pc \<and>
     j' = fold (journal_hears calm) (answers_to 0 (\<lambda>i. 0) (demo_prompt\<lparr>pr_prompt_id := pid\<rparr>) (new_router [] :: unit router) ()) j \<and>
     (summary_on_disk (trim_nl (format_summary (pc_start pc) (pc_end pc) (''Error: '' @ error_text No_Adapter))) (journal_disk j')
        (journal_path (journal_base j) (pc_session pc)) (archive_file (journal_base j) (pc_session pc) (format_date (utc 0))) \<or>
      (\<exists>c. journal_disk j' (audit_file (journal_base j) (pc_session pc) (format_date (utc 0))) =
        Some (c @ fallback_entry pc (''Error: '' @ error_text No_Adapter) @ [NL])))"
proof -
  obtain j0 where j0: "new_journal_service ''/j'' (\<lambda>_. None) = Some j0" using base_witness by (simp add: new_journal_service_def)
  obtain j pid pc where j: "journal_step\<^sup>*\<^sup>* j0 j" "pid \<noteq> []" "map_of (pending_compactions j) pid = Some pc"
    using pending_reachable [OF j0] by (elim exE conjE) (rule that, assumption+)
  let ?p = "demo_prompt\<lparr>pr_prompt_id := pid\<rparr>"
  have wf: "plain sid \<Longrightarrow> file_wf (\<lambda>_. None) (journal_path ''/j'' sid)" for sid by (simp add: file_wf_def)
  have calm: "audit_io calm = no_faults" "archive_now calm = utc 0" "now calm = utc 0" by (simp_all add: calm_def)
  from j(2,3) have p: "pr_prompt_id ?p \<noteq> []" "map_of (pending_compactions j) (pr_prompt_id ?p) = Some pc" by simp_all
  from error_becomes_summary [OF j0 base_witness(1) wf j(1) p no_adapter_outcome calm(1) refl refl, of "\<lambda>i. 0"] j(3)
  show ?thesis unfolding calm by blast
qed

section \<open>Speech\<close>

lemma heard_text:
  assumes "session \<noteq> []" and "t \<noteq> []" and "eg_stream_id s \<noteq> []"
  shows "eg_accepted (consume_text g session prompt t meta s) = eg_accepted s @
      [\<lparr>sr_session = session, sr_stream = eg_stream_id s, sr_prompt = prompt, sr_text = t, sr_meta = meta\<rparr>] \<and>
    eg_stream_id (consume_text g session prompt t meta s) = eg_stream_id s"
  using assms by (auto simp: consume_text_def handle_speak_request_def set_thread_def Let_def split: option.splits)

text \<open>
  What the router wants spoken is spoken twice. The router publishes the text of a speak action as a speak event, for the speech
  output, and again as a reply, which the code says is for history tracking; the speech output takes both in as requests, with the same
  session, prompt and text.
\<close>

theorem speech_doubled:
  assumes "ia_type a = Action_Speak" and "ia_text a \<noteq> []" and "session = (if target = [] then pr_session_id p else target)"
    and "session \<noteq> []" and "eg_stream_id eg \<noteq> []"
    and "evs = drop (length (rt_published s)) (rt_published (fst (execute_action clock p a confidence target s w)))"
  shows "\<exists>r1 r2. eg_accepted (fold speech_hears evs eg) = eg_accepted eg @ [r1, r2] \<and>
    (\<forall>r \<in> {r1, r2}. sr_session r = session \<and> sr_stream r = eg_stream_id eg \<and> sr_prompt r = pr_prompt_id p \<and> sr_text r = ia_text a)"
proof -
  obtain v r where evs: "evs = [Published_Speak v, Published_Reply r]"
    and "speak_event.sp_session_id v = session" "sp_prompt_id v = pr_prompt_id p" "sp_text v = ia_text a"
    "rp_session_id r = session" "rp_prompt_id r = pr_prompt_id p" "rp_text r = ia_text a"
    using assms(1,2,3,6) by (auto simp: execute_action_def execute_speak_def publish_reply_def publish_speak_def Let_def)
  with assms(2,4,5) heard_text show ?thesis by auto
qed

definition say_hi :: intent_action where
  "say_hi = \<lparr>ia_type = Action_Speak, ia_session_ref = [], ia_command = [], ia_text = ''hi'', ia_metadata = Map.empty\<rparr>"

theorem speech_doubled_witness:
  "map sr_text (eg_accepted (fold speech_hears
     (rt_published (fst (execute_action 0 demo_prompt say_hi 1 [] (new_router [] :: unit router) ()))) (start_egress (new_egress [])))) =
   [''hi'', ''hi'']"
proof -
  let ?eg = "start_egress (new_egress [])" and ?r = "new_router [] :: unit router"
  let ?evs = "rt_published (fst (execute_action 0 demo_prompt say_hi 1 [] ?r ()))"
  have f: "eg_stream_id ?eg \<noteq> []" "eg_accepted ?eg = []" "?evs = drop (length (rt_published ?r)) ?evs"
    by (simp_all add: start_egress_def new_egress_def default_stream_id_def new_router_def)
  have "ia_type say_hi = Action_Speak" "ia_text say_hi \<noteq> []" "''s'' = (if [] = [] then pr_session_id demo_prompt else [])" "''s'' \<noteq> []"
    by (simp_all add: say_hi_def demo_prompt_def)
  from speech_doubled [OF this f(1,3)] obtain r1 r2 where "eg_accepted (fold speech_hears ?evs ?eg) = [r1, r2]"
    "sr_text r1 = ia_text say_hi" "sr_text r2 = ia_text say_hi" unfolding f(2) by auto
  then show ?thesis by (simp add: say_hi_def)
qed

end
