(* ===== verification/AdapterOptions.thy ===== *)
theory AdapterOptions
  imports TextSanitize GoNumbers
begin

text \<open>
  The options that the manifest of an adapter declares (\<open>internal/plugins/manifest\<close>): coercion of configuration values and
  normalisation of declarations (\<open>manifest.go\<close>), validation of a configuration against them (\<open>schema.go\<close>), and the checks of an
  adapter's entry point. A Go map is an association list in the order in which the loop happens to visit it. The messages of
  errors are left out, so an error is \<open>None\<close>. Reading the files and the YAML decoder are not modelled.
\<close>

section \<open>Values\<close>

text \<open>The values an interface can hold here. \<open>Float_Fin\<close> has the exact value of the number; \<open>-0\<close> is \<open>0\<close>, which Go's \<open>==\<close> does not tell apart.\<close>

datatype float64 = Float_Fin rat | Float_Pos_Inf | Float_Neg_Inf | Float_NaN

datatype any =
    Any_Nil | Any_Bool bool | Any_String string
  | Any_Int int | Any_Int32 int | Any_Int64 int | Any_Uint nat | Any_Uint32 nat | Any_Uint64 nat
  | Any_Float32 float64 | Any_Float64 float64
  | Any_Stringer string | Any_Other string

text \<open>\<open>==\<close> of two interfaces: the dynamic types agree, and the values, of which \<open>NaN\<close> differs from itself.\<close>

fun is_nan :: "any \<Rightarrow> bool" where
  "is_nan (Any_Float32 x) = (x = Float_NaN)"
| "is_nan (Any_Float64 x) = (x = Float_NaN)"
| "is_nan v = False"

definition any_eq :: "any \<Rightarrow> any \<Rightarrow> bool" where
  "any_eq v w \<longleftrightarrow> v = w \<and> \<not> is_nan v"

text \<open>
  What the standard library decides and the model does not compute: \<open>strconv.ParseFloat\<close>, the \<open>float64\<close> nearest to an integer, and
  the result of converting a float outside the range of \<open>int64\<close>, which the language leaves to the machine.
\<close>

record float_ops =
  parse_float :: "string \<Rightarrow> float64 option"
  float_of_int :: "int \<Rightarrow> rat"
  wild_int :: "rat \<Rightarrow> int"

section \<open>Coercion (\<open>manifest.go\<close>)\<close>

text \<open>\<open>strings.ToLower\<close>; outside ASCII only the two runes whose lower case is an ASCII letter matter to the comparisons made here.\<close>

definition to_lower :: "string \<Rightarrow> string" where
  "to_lower s = concat (map (encode_rune \<circ> lower_rune) (runes s))"

text \<open>\<open>strconv.ParseInt(s, 10, 64)\<close>.\<close>

definition is_digit :: "char \<Rightarrow> bool" where
  "is_digit c \<longleftrightarrow> 48 \<le> bv c \<and> bv c \<le> 57"

definition in_int64 :: "int \<Rightarrow> bool" where
  "in_int64 n \<longleftrightarrow> - (2 ^ 63) \<le> n \<and> n < 2 ^ 63"

fun parse_digits :: "int \<Rightarrow> string \<Rightarrow> int option" where
  "parse_digits n [] = Some n"
| "parse_digits n (c # s) = (if is_digit c then parse_digits (10 * n + int (bv c) - 48) s else None)"

definition parse_int64 :: "string \<Rightarrow> int option" where
  "parse_int64 s =
     (let (neg, ds) = (case s of [] \<Rightarrow> (False, s) | c # r \<Rightarrow> if c = CHR ''-'' then (True, r) else if c = CHR ''+'' then (False, r) else (False, s))
      in if ds = [] then None
         else case parse_digits 0 ds of
                None \<Rightarrow> None
              | Some n \<Rightarrow> let n = (if neg then - n else n) in if in_int64 n then Some n else None)"

datatype numeric = Num_Signed int | Num_Unsigned nat | Num_Float float64

fun classify_numeric :: "any \<Rightarrow> numeric option" where
  "classify_numeric (Any_Int n) = Some (Num_Signed n)"
| "classify_numeric (Any_Int32 n) = Some (Num_Signed n)"
| "classify_numeric (Any_Int64 n) = Some (Num_Signed n)"
| "classify_numeric (Any_Uint n) = Some (Num_Unsigned n)"
| "classify_numeric (Any_Uint32 n) = Some (Num_Unsigned n)"
| "classify_numeric (Any_Uint64 n) = Some (Num_Unsigned n)"
| "classify_numeric (Any_Float32 x) = Some (Num_Float x)"
| "classify_numeric (Any_Float64 x) = Some (Num_Float x)"
| "classify_numeric v = None"

fun is_float_integral :: "float64 \<Rightarrow> bool" where
  "is_float_integral (Float_Fin q) = (q \<in> \<int>)"
| "is_float_integral x = False"

definition infer_option_type :: "any \<Rightarrow> string" where
  "infer_option_type v =
     (case v of
        Any_Nil \<Rightarrow> []
      | Any_Bool _ \<Rightarrow> ''boolean''
      | Any_String _ \<Rightarrow> ''string''
      | _ \<Rightarrow>
          (case classify_numeric v of
             None \<Rightarrow> []
           | Some (Num_Float x) \<Rightarrow> if is_float_integral x then ''integer'' else ''number''
           | Some _ \<Rightarrow> ''integer''))"

definition coerce_bool :: "any \<Rightarrow> any option" where
  "coerce_bool v =
     (case v of
        Any_Bool b \<Rightarrow> Some v
      | Any_String s \<Rightarrow>
          let t = trim_space (to_lower s)
          in if t = ''true'' \<or> t = ''1'' then Some (Any_Bool True)
             else if t = ''false'' \<or> t = ''0'' then Some (Any_Bool False)
             else None
      | _ \<Rightarrow> None)"

text \<open>\<open>int64(x)\<close> of an integral float.\<close>

definition int_of_float :: "float_ops \<Rightarrow> rat \<Rightarrow> int" where
  "int_of_float fo q = (if in_int64 \<lfloor>q\<rfloor> then \<lfloor>q\<rfloor> else wild_int fo q)"

definition coerce_int :: "float_ops \<Rightarrow> any \<Rightarrow> any option" where
  "coerce_int fo v =
     (case v of
        Any_String s \<Rightarrow> let t = trim_space s in if t = [] then None else map_option Any_Int (parse_int64 t)
      | _ \<Rightarrow>
          (case classify_numeric v of
             None \<Rightarrow> None
           | Some (Num_Signed n) \<Rightarrow> Some (Any_Int n)
           | Some (Num_Unsigned n) \<Rightarrow> if 2 ^ 63 - 1 < int n then None else Some (Any_Int (int n))
           | Some (Num_Float x) \<Rightarrow>
               if \<not> is_float_integral x then None
               else case x of Float_Fin q \<Rightarrow> Some (Any_Int (int_of_float fo q)) | _ \<Rightarrow> None))"

definition coerce_number :: "float_ops \<Rightarrow> any \<Rightarrow> any option" where
  "coerce_number fo v =
     (case v of
        Any_String s \<Rightarrow> let t = trim_space s in if t = [] then None else map_option Any_Float64 (parse_float fo t)
      | _ \<Rightarrow>
          (case classify_numeric v of
             None \<Rightarrow> None
           | Some (Num_Signed n) \<Rightarrow> Some (Any_Float64 (Float_Fin (float_of_int fo n)))
           | Some (Num_Unsigned n) \<Rightarrow> Some (Any_Float64 (Float_Fin (float_of_int fo (int n))))
           | Some (Num_Float x) \<Rightarrow> Some (Any_Float64 x)))"

definition coerce_string :: "any \<Rightarrow> any option" where
  "coerce_string v = (case v of Any_String s \<Rightarrow> Some v | Any_Stringer s \<Rightarrow> Some (Any_String s) | _ \<Rightarrow> None)"

definition contains_value :: "any list \<Rightarrow> any \<Rightarrow> bool" where
  "contains_value vs v = (\<exists>w \<in> set vs. any_eq w v)"

section \<open>Declarations (\<open>manifest.go\<close>)\<close>

record adapter_option =
  ao_type :: string
  ao_description :: string
  ao_default :: any
  ao_values :: "any list"
  ao_required :: bool

definition allowed_option_types :: "string list" where
  "allowed_option_types = [''string'', ''enum'', ''boolean'', ''integer'', ''number'']"

text \<open>\<open>normalizeValues\<close>.\<close>

fun coerce_all :: "(any \<Rightarrow> any option) \<Rightarrow> any list \<Rightarrow> any list option" where
  "coerce_all f [] = Some []"
| "coerce_all f (v # vs) =
     (case f v of None \<Rightarrow> None | Some w \<Rightarrow> map_option ((#) w) (coerce_all f vs))"

text \<open>The coercion that the type of an option calls for; the branches of \<open>normalizeAdapterOption\<close> differ in it and in the check of an enumeration.\<close>

definition coercion :: "float_ops \<Rightarrow> string \<Rightarrow> any \<Rightarrow> any option" where
  "coercion fo t =
     (if t = ''boolean'' then coerce_bool
      else if t = ''integer'' then coerce_int fo
      else if t = ''number'' then coerce_number fo
      else coerce_string)"

definition option_type :: "adapter_option \<Rightarrow> string" where
  "option_type opt =
     (let t = to_lower (trim_space (ao_type opt))
      in if t \<noteq> [] then t
         else if ao_values opt \<noteq> [] then ''enum''
         else if infer_option_type (ao_default opt) \<noteq> [] then infer_option_type (ao_default opt)
         else ''string'')"

definition normalize_adapter_option :: "float_ops \<Rightarrow> adapter_option \<Rightarrow> adapter_option option" where
  "normalize_adapter_option fo opt =
     (let opt = opt\<lparr>ao_description := trim_space (ao_description opt), ao_type := option_type opt\<rparr>
      in if ao_type opt \<notin> set allowed_option_types then None
         else case coerce_all (coercion fo (ao_type opt)) (ao_values opt) of
                None \<Rightarrow> None
              | Some vs \<Rightarrow>
                  if ao_type opt = ''enum'' \<and> vs = [] then None
                  else
                    let opt = opt\<lparr>ao_values := vs\<rparr>
                    in if ao_default opt = Any_Nil then Some opt
                       else case coercion fo (ao_type opt) (ao_default opt) of
                              None \<Rightarrow> None
                            | Some d \<Rightarrow>
                                if vs \<noteq> [] \<and> \<not> contains_value vs d then None else Some (opt\<lparr>ao_default := d\<rparr>))"

definition normalize_adapter_option_value :: "float_ops \<Rightarrow> adapter_option \<Rightarrow> any \<Rightarrow> any option" where
  "normalize_adapter_option_value fo opt v =
     (if v = Any_Nil then Some Any_Nil
      else if ao_type opt = ''enum'' then
        (case coerce_string v of
           None \<Rightarrow> None
         | Some w \<Rightarrow> if \<not> contains_value (ao_values opt) w then None else Some w)
      else if ao_type opt \<in> set allowed_option_types then
        (case coercion fo (ao_type opt) v of
           None \<Rightarrow> None
         | Some w \<Rightarrow> if ao_values opt \<noteq> [] \<and> \<not> contains_value (ao_values opt) w then None else Some w)
      else None)"

section \<open>Validation (\<open>schema.go\<close>)\<close>

definition validate_option_value :: "float_ops \<Rightarrow> adapter_option \<Rightarrow> any \<Rightarrow> bool" where
  "validate_option_value fo opt v =
     (let check = (\<lambda>f. case f v of
            None \<Rightarrow> False
          | Some w \<Rightarrow> if ao_values opt \<noteq> [] then contains_value (ao_values opt) w else True)
      in if ao_type opt = ''boolean'' then check coerce_bool
         else if ao_type opt = ''integer'' then check (coerce_int fo)
         else if ao_type opt = ''number'' then check (coerce_number fo)
         else if ao_type opt = ''string'' then check coerce_string
         else if ao_type opt = ''enum'' then
           (case coerce_string v of None \<Rightarrow> False | Some w \<Rightarrow> contains_value (ao_values opt) w)
         else False)"

datatype config_error = No_Options_Declared | Unknown_Option string | Missing_Option string | Bad_Value string

fun first_unknown :: "(string, adapter_option) gomap \<Rightarrow> (string, any) gomap \<Rightarrow> config_error option" where
  "first_unknown options [] = None"
| "first_unknown options ((k, v) # config) =
     (if map_of options k = None then Some (Unknown_Option k) else first_unknown options config)"

fun first_missing :: "(string, any) gomap \<Rightarrow> (string, adapter_option) gomap \<Rightarrow> config_error option" where
  "first_missing config [] = None"
| "first_missing config ((k, opt) # options) =
     (if ao_required opt \<and> map_of config k = None then Some (Missing_Option k) else first_missing config options)"

fun first_invalid :: "float_ops \<Rightarrow> (string, adapter_option) gomap \<Rightarrow> (string, any) gomap \<Rightarrow> config_error option" where
  "first_invalid fo options [] = None"
| "first_invalid fo options ((k, v) # config) =
     (if v = Any_Nil then first_invalid fo options config
      else case map_of options k of
             None \<Rightarrow> Some (Unknown_Option k)
           | Some opt \<Rightarrow> if validate_option_value fo opt v then first_invalid fo options config else Some (Bad_Value k))"

definition validate_config_against_options ::
    "float_ops \<Rightarrow> (string, adapter_option) gomap \<Rightarrow> (string, any) gomap \<Rightarrow> config_error option" where
  "validate_config_against_options fo options config =
     (if options = [] then if config \<noteq> [] then Some No_Options_Declared else None
      else case first_unknown options config of
             Some e \<Rightarrow> Some e
           | None \<Rightarrow>
               (case first_missing config options of
                  Some e \<Rightarrow> Some e
                | None \<Rightarrow> first_invalid fo options config))"

section \<open>Entry points (\<open>manifest.go\<close>)\<close>

record adapter_spec =
  as_slot :: string
  as_runtime :: string
  as_command :: string
  as_args :: "string list"
  as_transport :: string
  as_listen_env :: string
  as_working_dir :: string
  as_ready_timeout :: string
  as_shutdown_timeout :: string
  as_options :: "(string, adapter_option) gomap"

datatype spec_error = Missing_Slot | Invalid_Runtime | Missing_Transport | Invalid_Transport | Js_Needs_Process | Missing_Command

definition validate_adapter_spec :: "adapter_spec \<Rightarrow> spec_error option" where
  "validate_adapter_spec spec =
     (if trim_space (as_slot spec) = [] then Some Missing_Slot
      else
        let rt = trim_space (as_runtime spec); transport = trim_space (as_transport spec); command = trim_space (as_command spec)
        in if rt \<notin> {[], ''binary'', ''js''} then Some Invalid_Runtime
           else if transport = [] then Some Missing_Transport
           else if transport \<notin> {''process'', ''grpc'', ''http''} then Some Invalid_Transport
           else if rt = ''js'' \<and> transport \<noteq> ''process'' then Some Js_Needs_Process
           else if transport = ''process'' \<and> command = [] then Some Missing_Command
           else None)"

text \<open>The part of \<open>decodeManifest\<close> for an adapter, after the YAML decoder: its options, visited in the order of the map, then its entry point.\<close>

fun validated_options ::
    "float_ops \<Rightarrow> (string, adapter_option) gomap \<Rightarrow> (string, adapter_option) gomap \<Rightarrow> (string, adapter_option) gomap option" where
  "validated_options fo [] validated = Some validated"
| "validated_options fo ((k, opt) # options) validated =
     (if trim_space k = [] then None
      else case normalize_adapter_option fo opt of
             None \<Rightarrow> None
           | Some opt' \<Rightarrow> validated_options fo options (mput (trim_space k) opt' validated))"

definition decode_adapter :: "float_ops \<Rightarrow> adapter_spec \<Rightarrow> adapter_spec option" where
  "decode_adapter fo spec =
     (case validated_options fo (as_options spec) [] of
        None \<Rightarrow> None
      | Some validated \<Rightarrow>
          let spec = spec\<lparr>as_options := validated\<rparr>
          in if validate_adapter_spec spec \<noteq> None then None else Some spec)"

section \<open>Coercions\<close>

text \<open>The contract of a coercion: what it returns is a value, and coercing that again changes nothing.\<close>

locale coercer =
  fixes f :: "any \<Rightarrow> any option"
  assumes settles: "f v = Some w \<Longrightarrow> f w = Some w"
    and no_nil: "f v = Some w \<Longrightarrow> w \<noteq> Any_Nil"
begin

lemma coerce_all_fixed: "coerce_all f vs = Some ws \<Longrightarrow> \<forall>w \<in> set ws. f w = Some w"
  by (induction vs arbitrary: ws) (auto split: option.splits dest: settles)

lemma coerce_all_again: "coerce_all f vs = Some ws \<Longrightarrow> coerce_all f ws = Some ws"
proof -
  have "\<forall>w \<in> set ws. f w = Some w \<Longrightarrow> coerce_all f ws = Some ws" for ws
    by (induction ws) auto
  then show "coerce_all f vs = Some ws \<Longrightarrow> coerce_all f ws = Some ws" using coerce_all_fixed by blast
qed

end

lemma coerce_all_length: "coerce_all f vs = Some ws \<Longrightarrow> length ws = length vs"
  by (induction vs arbitrary: ws) (auto split: option.splits)

lemma coerce_bool_result: "coerce_bool v = Some w \<Longrightarrow> \<exists>b. w = Any_Bool b"
  by (auto simp: coerce_bool_def Let_def split: any.splits if_splits)

lemma coerce_int_result: "coerce_int fo v = Some w \<Longrightarrow> \<exists>n. w = Any_Int n"
  by (auto simp: coerce_int_def Let_def split: any.splits if_splits numeric.splits float64.splits option.splits)

lemma coerce_number_result: "coerce_number fo v = Some w \<Longrightarrow> \<exists>x. w = Any_Float64 x"
  by (auto simp: coerce_number_def Let_def split: any.splits if_splits numeric.splits option.splits)

lemma coerce_string_result: "coerce_string v = Some w \<Longrightarrow> \<exists>t. w = Any_String t"
  by (auto simp: coerce_string_def split: any.splits)

lemma coerced_fixed [simp]:
  "coerce_bool (Any_Bool b) = Some (Any_Bool b)" "coerce_int fo (Any_Int n) = Some (Any_Int n)"
  "coerce_number fo (Any_Float64 x) = Some (Any_Float64 x)" "coerce_string (Any_String t) = Some (Any_String t)"
  by (simp_all add: coerce_bool_def coerce_int_def coerce_number_def coerce_string_def)

interpretation co: coercer "coercion fo t" for fo t
proof
  show "coercion fo t v = Some w \<Longrightarrow> coercion fo t w = Some w" for v w
    by (auto simp: coercion_def dest!: coerce_bool_result coerce_int_result coerce_number_result coerce_string_result split: if_splits)
  show "coercion fo t v = Some w \<Longrightarrow> w \<noteq> Any_Nil" for v w
    by (auto simp: coercion_def dest!: coerce_bool_result coerce_int_result coerce_number_result coerce_string_result split: if_splits)
qed

lemma enum_coercion: "coercion fo ''enum'' = coerce_string" "coercion fo ''string'' = coerce_string"
  by (simp_all add: coercion_def)

section \<open>Normalised declarations\<close>

definition option_normal :: "float_ops \<Rightarrow> adapter_option \<Rightarrow> bool" where
  "option_normal fo opt \<longleftrightarrow>
     ao_type opt \<in> set allowed_option_types \<and> (ao_type opt = ''enum'' \<longrightarrow> ao_values opt \<noteq> []) \<and>
     (\<forall>v \<in> set (ao_values opt). coercion fo (ao_type opt) v = Some v) \<and>
     (ao_default opt \<noteq> Any_Nil \<longrightarrow> coercion fo (ao_type opt) (ao_default opt) = Some (ao_default opt) \<and>
       (ao_values opt \<noteq> [] \<longrightarrow> contains_value (ao_values opt) (ao_default opt)))"

lemma normalize_result:
  assumes "normalize_adapter_option fo opt = Some opt'"
  shows "option_normal fo opt' \<and> ao_description opt' = trim_space (ao_description opt) \<and> ao_required opt' = ao_required opt"
proof -
  let ?t = "option_type opt"
  have t: "?t \<in> set allowed_option_types" using assms by (simp add: normalize_adapter_option_def Let_def split: if_splits)
  from assms obtain vs where vs: "coerce_all (coercion fo ?t) (ao_values opt) = Some vs" "\<not> (?t = ''enum'' \<and> vs = [])"
    by (auto simp: normalize_adapter_option_def Let_def split: if_splits option.splits)
  note fixed = co.coerce_all_fixed [OF vs(1)]
  from assms t vs fixed show ?thesis
    by (auto simp: normalize_adapter_option_def option_normal_def Let_def split: if_splits option.splits dest: co.settles)
qed

lemma lower_word:
  assumes "list_all (\<lambda>c. 97 \<le> bv c \<and> bv c \<le> 122) s"
  shows "to_lower s = s \<and> trim_space s = s"
proof -
  have segs: "segs s = map (\<lambda>c. (bv c, [c])) s" using assms
    by (induction s) (simp_all add: segs.simps(2) decode_rune_ascii)
  have "concat (map (encode_rune \<circ> lower_rune) (map bv s)) = s" using assms
    by (induction s) (simp_all add: lower_rune_def encode_rune_def scalar_def encode_scalar_def)
  then have "to_lower s = s" by (simp add: to_lower_def runes_def segs comp_def)
  have sp: "list_all (\<lambda>x. \<not> seg_space x) (segs s)" unfolding segs using assms
    by (induction s) (auto simp: seg_space_def is_space_def)
  have id: "list_all (\<lambda>x. \<not> P x) xs \<Longrightarrow> dropWhile P xs = xs" for P and xs :: "(nat \<times> string) list"
    by (cases xs) auto
  from sp have "trim_segs (segs s) = segs s" by (simp add: trim_segs_def id list_all_rev)
  then have "trim_space s = s" by (simp add: trim_space_def)
  with \<open>to_lower s = s\<close> show ?thesis by simp
qed

lemma type_fixed: "t \<in> set allowed_option_types \<Longrightarrow> to_lower (trim_space t) = t \<and> t \<noteq> []"
proof -
  assume t: "t \<in> set allowed_option_types"
  then have "list_all (\<lambda>c. 97 \<le> bv c \<and> bv c \<le> 122) t" by (auto simp: allowed_option_types_def)
  with lower_word t show ?thesis by (auto simp: allowed_option_types_def)
qed

lemma trim_space_again:
  assumes "valid_utf8 s"
  shows "trim_space (trim_space s) = trim_space s"
proof -
  define u where "u = dropWhile seg_space (segs s)"
  define z where "z = dropWhile seg_space (rev u)"
  have ts: "trim_segs (segs s) = rev z" by (simp add: trim_segs_def u_def z_def)
  obtain a b where "segs s = a @ trim_segs (segs s) @ b" using trim_segs_infix by blast
  with assms have "list_all valid_seg (trim_segs (segs s))" unfolding valid_utf8_segs by (metis list_all_append)
  then have e: "segs (trim_space s) = rev z" unfolding trim_space_def ts by (rule segs_concat)
  have "dropWhile seg_space (rev z) = rev z"
  proof (cases "z = []")
    case False
    have "u = rev z @ rev (takeWhile seg_space (rev u))" unfolding z_def by (metis rev_append rev_rev_ident takeWhile_dropWhile_id)
    with False have h: "hd u = hd (rev z)" by (metis hd_append2 rev_is_Nil_conv)
    have ne: "u \<noteq> []" using False by (auto simp: z_def)
    from hd_dropWhile [of seg_space "segs s"] ne h False show ?thesis by (cases "rev z") (auto simp: u_def)
  qed simp
  moreover have "dropWhile seg_space z = z" unfolding z_def by (rule dropWhile_idem)
  ultimately have "trim_segs (rev z) = rev z" by (simp add: trim_segs_def)
  then show ?thesis by (simp add: trim_space_def [of "trim_space s"] e) (simp add: trim_space_def ts)
qed

text \<open>
  C22: Normalising a declaration is stable. What \<open>normalizeAdapterOption\<close> returns is in normal form (an allowed type, values and
  default of that type, the default among the values), keeps whether the option is required, and is returned as it is when it is
  normalised again.
\<close>

theorem normalized_option_stable:
  assumes "normalize_adapter_option fo opt = Some opt'" and "valid_utf8 (ao_description opt)"
  shows "option_normal fo opt' \<and> ao_required opt' = ao_required opt \<and> normalize_adapter_option fo opt' = Some opt'"
proof -
  from normalize_result [OF assms(1)] have n: "option_normal fo opt'" "ao_description opt' = trim_space (ao_description opt)"
    "ao_required opt' = ao_required opt" by simp_all
  from n(1) have t: "to_lower (trim_space (ao_type opt')) = ao_type opt'" "ao_type opt' \<noteq> []" "ao_type opt' \<in> set allowed_option_types"
    using type_fixed by (auto simp: option_normal_def)
  have vs: "coerce_all (coercion fo (ao_type opt')) (ao_values opt') = Some (ao_values opt')"
  proof -
    have "\<forall>w \<in> set ws. f w = Some w \<Longrightarrow> coerce_all f ws = Some ws" for f ws by (induction ws) auto
    with n(1) show ?thesis by (simp add: option_normal_def)
  qed
  have d: "trim_space (ao_description opt') = ao_description opt'" using trim_space_again [OF assms(2)] n(2) by simp
  have "option_type opt' = ao_type opt'" using t by (simp add: option_type_def)
  with n t vs d show ?thesis
    by (auto simp: normalize_adapter_option_def option_normal_def Let_def)
qed

text \<open>
  C18: The validator and the normaliser agree. A value other than nil passes \<open>validateOptionValue\<close> exactly when
  \<open>NormalizeAdapterOptionValue\<close> turns it into a value for the configuration; that value passes the validator too, and normalising it
  again changes nothing.
\<close>

theorem validator_equivalent:
  assumes "v \<noteq> Any_Nil"
  shows "(validate_option_value fo opt v \<longleftrightarrow> normalize_adapter_option_value fo opt v \<noteq> None) \<and>
    (\<forall>w. normalize_adapter_option_value fo opt v = Some w \<longrightarrow>
      validate_option_value fo opt w \<and> normalize_adapter_option_value fo opt w = Some w)"
proof -
  have ok: "validate_option_value fo opt v \<longleftrightarrow> normalize_adapter_option_value fo opt v \<noteq> None" if "v \<noteq> Any_Nil" for v
    using that by (auto simp: validate_option_value_def normalize_adapter_option_value_def coercion_def allowed_option_types_def Let_def
        split: option.splits if_splits)
  have again: "w \<noteq> Any_Nil \<and> normalize_adapter_option_value fo opt w = Some w" if "normalize_adapter_option_value fo opt v = Some w" for w
    using that assms co.settles [of fo "ao_type opt" v w] co.no_nil [of fo "ao_type opt" v w]
    by (auto simp: normalize_adapter_option_value_def enum_coercion split: if_splits option.splits)
  show ?thesis using ok [OF assms] ok again by auto
qed

lemma first_unknown_None: "first_unknown options config = None \<longleftrightarrow> (\<forall>(k, v) \<in> set config. map_of options k \<noteq> None)"
  by (induction options config rule: first_unknown.induct) (simp_all split: if_split)

lemma first_missing_None:
  "first_missing config options = None \<longleftrightarrow> (\<forall>(k, opt) \<in> set options. ao_required opt \<longrightarrow> map_of config k \<noteq> None)"
  by (induction config options rule: first_missing.induct) (simp_all split: if_split)

lemma first_invalid_None:
  "first_invalid fo options config = None \<longleftrightarrow>
     (\<forall>(k, v) \<in> set config. v \<noteq> Any_Nil \<longrightarrow> (\<exists>opt. map_of options k = Some opt \<and> validate_option_value fo opt v))"
  by (induction fo options config rule: first_invalid.induct) (auto split: option.splits if_splits)

text \<open>
  C17: What the validation of a configuration means, whatever the order in which the maps are visited: it passes exactly when every field is
  declared, every required option is there and every value that is not nil fits its option; without declared options only an empty
  configuration passes.
\<close>

theorem config_valid_iff:
  assumes "mwf options" and "mwf config"
  shows "validate_config_against_options fo options config = None \<longleftrightarrow>
    dom (map_of config) \<subseteq> dom (map_of options) \<and>
    (\<forall>k opt. map_of options k = Some opt \<and> ao_required opt \<longrightarrow> map_of config k \<noteq> None) \<and>
    (\<forall>k v opt. map_of config k = Some v \<and> map_of options k = Some opt \<and> v \<noteq> Any_Nil \<longrightarrow> validate_option_value fo opt v)"
proof (cases "options = []")
  case True
  then show ?thesis by (cases config) (auto simp: validate_config_against_options_def)
next
  case False
  have ball: "(\<forall>(k, v) \<in> set m. P k v) \<longleftrightarrow> (\<forall>k v. map_of m k = Some v \<longrightarrow> P k v)" if "mwf m" for P and m :: "(string, 'x) gomap"
    using that by (auto simp: mwf_def map_of_eq_Some_iff)
  have "validate_config_against_options fo options config = None \<longleftrightarrow> first_unknown options config = None \<and>
      first_missing config options = None \<and> first_invalid fo options config = None"
    using False by (auto simp: validate_config_against_options_def split: option.splits)
  moreover have "(\<forall>(k, v) \<in> set config. map_of options k \<noteq> None) \<longleftrightarrow> dom (map_of config) \<subseteq> dom (map_of options)"
    unfolding ball [OF assms(2)] by auto
  moreover have "(\<forall>(k, opt) \<in> set options. ao_required opt \<longrightarrow> map_of config k \<noteq> None) \<longleftrightarrow>
      (\<forall>k opt. map_of options k = Some opt \<and> ao_required opt \<longrightarrow> map_of config k \<noteq> None)"
    unfolding ball [OF assms(1)] by auto
  moreover have "(\<forall>(k, v) \<in> set config. v \<noteq> Any_Nil \<longrightarrow> (\<exists>opt. map_of options k = Some opt \<and> validate_option_value fo opt v)) \<longleftrightarrow>
      (\<forall>k v opt. map_of config k = Some v \<and> map_of options k = Some opt \<and> v \<noteq> Any_Nil \<longrightarrow> validate_option_value fo opt v)"
    if "dom (map_of config) \<subseteq> dom (map_of options)"
    using that unfolding ball [OF assms(2)] by fastforce
  ultimately show ?thesis unfolding first_unknown_None first_missing_None first_invalid_None by blast
qed

text \<open>
  A float outside the range of \<open>int64\<close> passes for an integer. \<open>coerceInt\<close> checks that the float is integral and then converts it;
  the range check behind the conversion cannot fail, so that the configuration gets whatever the machine makes of the conversion.
\<close>

theorem big_float_accepted:
  assumes "q \<in> \<int>" and "\<not> in_int64 \<lfloor>q\<rfloor>" and "ao_type opt = ''integer''" and "ao_values opt = []"
  shows "normalize_adapter_option_value fo opt (Any_Float64 (Float_Fin q)) = Some (Any_Int (wild_int fo q)) \<and>
    validate_option_value fo opt (Any_Float64 (Float_Fin q))"
  using assms by (simp add: normalize_adapter_option_value_def validate_option_value_def coercion_def coerce_int_def int_of_float_def
      allowed_option_types_def)

text \<open>Every option of an adapter that was loaded is in normal form.\<close>

lemma validated_options_normal:
  assumes "validated_options fo options m = Some m'" and "mwf m" and "\<forall>(k, opt) \<in> set m. option_normal fo opt"
  shows "mwf m' \<and> (\<forall>(k, opt) \<in> set m'. option_normal fo opt)"
  using assms
proof (induction fo options m rule: validated_options.induct)
  case (2 fo k opt options m)
  from "2.prems"(1) obtain opt' where n: "trim_space k \<noteq> []" "normalize_adapter_option fo opt = Some opt'"
    and r: "validated_options fo options (mput (trim_space k) opt' m) = Some m'"
    by (auto split: if_splits option.splits)
  from n(2) have "option_normal fo opt'" using normalize_result by blast
  with "2.prems"(3) have "\<forall>(k, opt) \<in> set (mput (trim_space k) opt' m). option_normal fo opt"
    using set_mput_subset [of "trim_space k" opt' m] by fastforce
  with 2 n r show ?case by simp
qed simp

lemma decode_adapter_normal:
  "decode_adapter fo spec = Some spec' \<Longrightarrow> mwf (as_options spec') \<and> (\<forall>(k, opt) \<in> set (as_options spec'). option_normal fo opt)"
  using validated_options_normal [of fo "as_options spec" "[]"]
  by (auto simp: decode_adapter_def Let_def mwf_def split: option.splits if_splits)

section \<open>A concrete adapter\<close>

text \<open>A machine that answers every conversion out of range with the smallest integer, as \<open>amd64\<close> does.\<close>

definition demo_floats :: float_ops where
  "demo_floats = \<lparr>parse_float = (\<lambda>_. None), float_of_int = of_int, wild_int = (\<lambda>_. - (2 ^ 63))\<rparr>"

definition demo_option :: adapter_option where
  "demo_option = \<lparr>ao_type = ''integer'', ao_description = [], ao_default = Any_String ''8'', ao_values = [Any_Float64 (Float_Fin 8), Any_Int 16], ao_required = True\<rparr>"

definition demo_normal :: adapter_option where
  "demo_normal = demo_option\<lparr>ao_default := Any_Int 8, ao_values := [Any_Int 8, Any_Int 16]\<rparr>"

lemma demo_word: "to_lower ''integer'' = ''integer''" "trim_space ''integer'' = ''integer''" "trim_space ''8'' = ''8''"
proof -
  show "to_lower ''integer'' = ''integer''" "trim_space ''integer'' = ''integer''"
    using lower_word [of "''integer''"] by simp_all
  show "trim_space ''8'' = ''8''"
    by (simp add: trim_space_def segs.simps(2) decode_rune_ascii trim_segs_def seg_space_def is_space_def)
qed

lemma demo_coercions:
  "coerce_int fo (Any_Float64 (Float_Fin 8)) = Some (Any_Int 8)" "coerce_int fo (Any_String ''8'') = Some (Any_Int 8)"
  by (simp_all add: coerce_int_def int_of_float_def in_int64_def demo_word parse_int64_def is_digit_def)

lemma demo_normalized: "normalize_adapter_option fo demo_option = Some demo_normal"
  by (simp add: normalize_adapter_option_def demo_option_def demo_normal_def option_type_def demo_word allowed_option_types_def coercion_def
      demo_coercions contains_value_def any_eq_def)

theorem normalized_option_stable_witness:
  "option_normal demo_floats demo_normal \<and> ao_required demo_normal \<and> normalize_adapter_option demo_floats demo_normal = Some demo_normal"
proof -
  have "valid_utf8 (ao_description demo_option)" by (simp add: demo_option_def)
  from normalized_option_stable [OF demo_normalized this] show ?thesis by (simp add: demo_option_def)
qed

theorem validator_equivalent_witness:
  "validate_option_value demo_floats demo_normal (Any_String ''8'') \<and>
   normalize_adapter_option_value demo_floats demo_normal (Any_String ''8'') = Some (Any_Int 8) \<and>
   normalize_adapter_option_value demo_floats demo_normal (Any_Int 8) = Some (Any_Int 8)"
proof -
  have "normalize_adapter_option_value demo_floats demo_normal (Any_String ''8'') = Some (Any_Int 8)"
    by (simp add: normalize_adapter_option_value_def demo_normal_def demo_option_def allowed_option_types_def coercion_def demo_coercions
        contains_value_def any_eq_def)
  with validator_equivalent [of "Any_String ''8''" demo_floats demo_normal] show ?thesis by simp
qed

theorem config_valid_iff_witness:
  "validate_config_against_options demo_floats [(''threads'', demo_normal)] [(''threads'', Any_String ''8'')] = None \<and>
   validate_config_against_options demo_floats [(''threads'', demo_normal)] [] \<noteq> None"
proof -
  have "validate_option_value demo_floats demo_normal (Any_String ''8'')"
    by (simp add: validate_option_value_def demo_normal_def demo_option_def demo_coercions contains_value_def any_eq_def)
  then show ?thesis
    using config_valid_iff [of "[(''threads'', demo_normal)]" "[(''threads'', Any_String ''8'')]" demo_floats]
      config_valid_iff [of "[(''threads'', demo_normal)]" "[]" demo_floats]
    by (simp add: mwf_def demo_normal_def demo_option_def)
qed

theorem big_float_accepted_witness:
  "normalize_adapter_option_value demo_floats (demo_normal\<lparr>ao_values := []\<rparr>) (Any_Float64 (Float_Fin (2 ^ 70))) = Some (Any_Int (- (2 ^ 63)))"
proof -
  have "(2 ^ 70 :: rat) \<in> \<int>" by simp
  moreover have "\<not> in_int64 \<lfloor>2 ^ 70 :: rat\<rfloor>" by (simp add: in_int64_def)
  ultimately show ?thesis
    using big_float_accepted [of "2 ^ 70" "demo_normal\<lparr>ao_values := []\<rparr>" demo_floats]
    by (simp add: demo_normal_def demo_option_def demo_floats_def)
qed

end
