(* ===== verification/AdapterBridge.thy ===== *)
theory AdapterBridge
  imports AdapterOptions
begin

text \<open>
  The bridge between adapter bindings and the intent router, \<open>internal/intentrouter/adapter_bridge.go\<close>: it follows the status
  events of the AI slot, connects the router to the adapter that is ready, and holds back from an adapter that keeps failing. Every
  handler runs under the bridge's mutex, so it is one step. A connection is the number of its dial; the state keeps the parameters of
  every dial that succeeded and the connections that were closed. What a step asks of its surroundings (the clock, the adapters
  service, the JSON decoder, the hash of a configuration, gRPC) is an argument of the step. Logging, the contexts' time limits and the
  goroutine that probes capabilities are left out.
\<close>

section \<open>Data\<close>

datatype adapter_health = Health_Starting | Health_Ready | Health_Degraded | Health_Stopped | Health_Error | Health_Other string

type_synonym adapter_config = "(string, any) gomap"
type_synonym adapter_options = "(string, adapter_option) gomap"

record runtime_status =
  rn_health :: adapter_health
  rn_extra :: "(string, string) gomap"

record binding_status =
  bs_slot :: string
  bs_adapter_id :: "string option"
  bs_status :: string
  bs_config :: string
  bs_updated_at :: string
  bs_runtime :: "runtime_status option"

record adapter_status_event =
  se_adapter_id :: string
  se_slot :: string
  se_status :: adapter_health
  se_extra :: "(string, string) gomap"

record adapter_endpoint =
  ep_adapter_id :: string
  ep_transport :: string
  ep_address :: string
  ep_command :: string
  ep_args :: "string list"
  ep_env :: "(string, string) gomap"
  ep_tls_cert_path :: string
  ep_tls_key_path :: string
  ep_tls_ca_cert_path :: string
  ep_tls_insecure :: bool

record nap_params =
  np_adapter_id :: string
  np_endpoint :: adapter_endpoint
  np_config :: adapter_config

datatype bridged_adapter = Mock string | Nap nat

text \<open>An entry of the cache; an error of the lookup is cached too.\<close>

record manifest_cache_entry =
  ce_options :: "adapter_options option"
  ce_expires_at :: time_ns

record adapters_controller =
  ct_overview :: "binding_status list option"
  ct_manifest_options :: "string \<Rightarrow> adapter_options option"

record surroundings =
  su_now :: time_ns
  su_controller :: "adapters_controller option"
  su_json :: "string \<Rightarrow> adapter_config option"
  su_hash :: "string \<Rightarrow> string"
  su_floats :: float_ops
  su_dial :: "nap_params \<Rightarrow> bool"

record adapter_bridge =
  br_current :: string
  br_current_address :: string
  br_adapter :: "bridged_adapter option"
  br_nap :: "nat option"
  br_errors :: nat
  br_error_time :: time_ns
  br_failed_adapter :: string
  br_failed_address :: string
  br_config_version :: string
  br_client :: "nat option"
  br_cache :: "(string, manifest_cache_entry) gomap"
  br_router :: "bridged_adapter option"
  br_dialled :: "nap_params list"
  br_closed :: "nat list"

definition max_consecutive_errors :: nat where "max_consecutive_errors = 3"

definition base_backoff_delay :: duration where "base_backoff_delay = 500 * millisecond"

definition max_backoff_delay :: duration where "max_backoff_delay = 30 * second"

definition manifest_cache_ttl :: duration where "manifest_cache_ttl = 30 * second"

definition new_bridge :: adapter_bridge where
  "new_bridge =
     \<lparr>br_current = [], br_current_address = [], br_adapter = None, br_nap = None, br_errors = 0, br_error_time = zero_time,
      br_failed_adapter = [], br_failed_address = [], br_config_version = [], br_client = None, br_cache = [], br_router = None,
      br_dialled = [], br_closed = []\<rparr>"

section \<open>Configuration\<close>

definition get_cached_manifest_options :: "surroundings \<Rightarrow> string \<Rightarrow> adapter_bridge \<Rightarrow> adapter_options option \<times> adapter_bridge" where
  "get_cached_manifest_options su aid s =
     (case su_controller su of
        None \<Rightarrow> (Some [], s)
      | Some ct \<Rightarrow>
          let fetched = (ct_manifest_options ct aid,
                s\<lparr>br_cache := mput aid \<lparr>ce_options = ct_manifest_options ct aid, ce_expires_at = su_now su + manifest_cache_ttl\<rparr> (br_cache s)\<rparr>)
          in case map_of (br_cache s) aid of
               Some e \<Rightarrow> if su_now su < ce_expires_at e then (ce_options e, s) else fetched
             | None \<Rightarrow> fetched)"

text \<open>A nil map is the empty map.\<close>

definition parse_config :: "surroundings \<Rightarrow> string \<Rightarrow> adapter_config option" where
  "parse_config su config = (if config = [] then Some [] else su_json su config)"

definition compute_config_version :: "surroundings \<Rightarrow> string \<Rightarrow> string \<Rightarrow> string" where
  "compute_config_version su updated_at config =
     (if trim_space updated_at \<noteq> [] then trim_space updated_at else ''hash:'' @ su_hash su (trim_space config))"

definition lookup_adapter_config :: "surroundings \<Rightarrow> string \<Rightarrow> adapter_bridge \<Rightarrow> (adapter_config \<times> string) option \<times> adapter_bridge" where
  "lookup_adapter_config su aid s =
     (case su_controller su of
        None \<Rightarrow> (Some ([], compute_config_version su [] []), s)
      | Some ct \<Rightarrow>
          (case ct_overview ct of
             None \<Rightarrow> (None, s)
           | Some statuses \<Rightarrow>
               (case find (\<lambda>b. bs_slot b = ''ai'' \<and> bs_adapter_id b = Some aid) statuses of
                  None \<Rightarrow> (Some ([], compute_config_version su [] []), s)
                | Some b \<Rightarrow>
                    (case parse_config su (bs_config b) of
                       None \<Rightarrow> (None, s)
                     | Some config \<Rightarrow>
                         let (options, s) = get_cached_manifest_options su aid s;
                             found = Some (config, compute_config_version su (bs_updated_at b) (bs_config b))
                         in case options of
                              None \<Rightarrow> (found, s)
                            | Some opts \<Rightarrow>
                                if opts \<noteq> [] \<and> validate_config_against_options (su_floats su) opts config \<noteq> None then (None, s)
                                else (found, s)))))"

section \<open>Circuit breaker\<close>

definition record_error :: "surroundings \<Rightarrow> string \<Rightarrow> string \<Rightarrow> string \<Rightarrow> adapter_bridge \<Rightarrow> adapter_bridge" where
  "record_error su aid address version s =
     s\<lparr>br_errors := br_errors s + 1, br_error_time := su_now su, br_failed_adapter := aid, br_failed_address := address,
       br_config_version := (if version \<noteq> [] then version else br_config_version s)\<rparr>"

text \<open>The product is computed in 64 bits.\<close>

definition calculate_backoff :: "adapter_bridge \<Rightarrow> duration" where
  "calculate_backoff s =
     (if br_errors s < max_consecutive_errors then 0
      else
        let exponent = br_errors s - max_consecutive_errors;
            backoff = sint (word_of_int base_backoff_delay * push_bit exponent 1 :: 64 word)
        in if max_backoff_delay < backoff then max_backoff_delay else backoff)"

text \<open>The four assignments that forget the failures.\<close>

definition breaker_reset :: "adapter_bridge \<Rightarrow> adapter_bridge" where
  "breaker_reset s = s\<lparr>br_errors := 0, br_failed_adapter := [], br_failed_address := [], br_config_version := []\<rparr>"

definition reset_circuit_breaker :: "adapter_bridge \<Rightarrow> adapter_bridge" where
  "reset_circuit_breaker s = s\<lparr>br_errors := 0\<rparr>"

section \<open>Adapters\<close>

definition is_builtin_mock_adapter :: "string \<Rightarrow> bool" where
  "is_builtin_mock_adapter aid \<longleftrightarrow> aid \<in> {''adapter.stt.mock'', ''adapter.tts.mock'', ''adapter.vad.mock'', ''adapter.ai.mock''}"

text \<open>A field of the runtime information; a missing one is the empty string.\<close>

definition extra :: "(string, string) gomap \<Rightarrow> string \<Rightarrow> string" where
  "extra runtime k = (case map_of runtime k of None \<Rightarrow> [] | Some v \<Rightarrow> trim_space v)"

text \<open>\<open>DialAdapter\<close>: the checks of the endpoint, then TLS and gRPC.\<close>

definition dial_adapter :: "surroundings \<Rightarrow> nap_params \<Rightarrow> bool" where
  "dial_adapter su p =
     (let transport = (if trim_space (ep_transport (np_endpoint p)) = [] then ''process'' else trim_space (ep_transport (np_endpoint p)))
      in if transport \<notin> {''grpc'', ''process''} then False
         else if trim_space (ep_address (np_endpoint p)) = [] then False
         else su_dial su p)"

definition endpoint_of :: "string \<Rightarrow> (string, string) gomap \<Rightarrow> adapter_endpoint" where
  "endpoint_of aid runtime =
     \<lparr>ep_adapter_id = aid,
      ep_transport = (if extra runtime ''transport'' \<noteq> [] then extra runtime ''transport'' else ''process''),
      ep_address = extra runtime ''address'', ep_command = [], ep_args = [], ep_env = [],
      ep_tls_cert_path = extra runtime ''tls_cert_path'', ep_tls_key_path = extra runtime ''tls_key_path'',
      ep_tls_ca_cert_path = extra runtime ''tls_ca_cert_path'', ep_tls_insecure = (extra runtime ''tls_insecure'' = ''true'')\<rparr>"

definition create_adapter ::
    "surroundings \<Rightarrow> string \<Rightarrow> (string, string) gomap \<Rightarrow> adapter_config \<Rightarrow> adapter_bridge \<Rightarrow> bridged_adapter option \<times> adapter_bridge" where
  "create_adapter su aid runtime config s =
     (if is_builtin_mock_adapter aid then (Some (Mock aid), s)
      else if extra runtime ''address'' = [] then (None, s)
      else
        let p = \<lparr>np_adapter_id = aid, np_endpoint = endpoint_of aid runtime, np_config = config\<rparr>
        in if dial_adapter su p then (Some (Nap (length (br_dialled s))), s\<lparr>br_dialled := br_dialled s @ [p]\<rparr>) else (None, s))"

definition close_nap :: "adapter_bridge \<Rightarrow> adapter_bridge" where
  "close_nap s = (case br_nap s of None \<Rightarrow> s | Some h \<Rightarrow> s\<lparr>br_closed := br_closed s @ [h], br_nap := None\<rparr>)"

fun nap_handle :: "bridged_adapter \<Rightarrow> nat option" where
  "nap_handle (Nap h) = Some h"
| "nap_handle (Mock name) = None"

definition configure_adapter ::
    "surroundings \<Rightarrow> string \<Rightarrow> (string, string) gomap \<Rightarrow> adapter_config \<Rightarrow> adapter_bridge \<Rightarrow> bool \<times> adapter_bridge" where
  "configure_adapter su aid runtime config s =
     (case create_adapter su aid runtime config s of
        (None, s) \<Rightarrow> (False, s)
      | (Some ad, s) \<Rightarrow>
          let s = close_nap s;
              s = (case nap_handle ad of
                     Some h \<Rightarrow> s\<lparr>br_nap := Some h, br_client := Some h\<rparr>
                   | None \<Rightarrow> s\<lparr>br_client := None\<rparr>)
          in (True, s\<lparr>br_current := aid, br_current_address := extra runtime ''address'', br_adapter := Some ad, br_router := Some ad\<rparr>))"

definition clear_adapter :: "adapter_bridge \<Rightarrow> adapter_bridge" where
  "clear_adapter s =
     (if br_current s = [] then s
      else (close_nap s)\<lparr>br_current := [], br_current_address := [], br_adapter := None, br_router := None, br_client := None\<rparr>)"

section \<open>Events\<close>

definition breaker_outdated :: "adapter_status_event \<Rightarrow> string \<Rightarrow> string \<Rightarrow> adapter_bridge \<Rightarrow> bool" where
  "breaker_outdated evt address version s \<longleftrightarrow>
     br_failed_adapter s \<noteq> se_adapter_id evt \<or> br_failed_address s \<noteq> address \<or>
     version \<noteq> [] \<and> br_config_version s \<noteq> [] \<and> br_config_version s \<noteq> version"

definition handle_adapter_ready :: "surroundings \<Rightarrow> adapter_status_event \<Rightarrow> adapter_bridge \<Rightarrow> adapter_bridge" where
  "handle_adapter_ready su evt s =
     (let address = extra (se_extra evt) ''address''
      in case lookup_adapter_config su (se_adapter_id evt) s of
           (None, s) \<Rightarrow> record_error su (se_adapter_id evt) address [] s
         | (Some (config, version), s) \<Rightarrow>
             let s = (if br_errors s > 0 \<and> breaker_outdated evt address version s then breaker_reset s else s)
             in if br_errors s \<ge> max_consecutive_errors \<and> su_now su - br_error_time s < calculate_backoff s then s
                else
                  case configure_adapter su (se_adapter_id evt) (se_extra evt) config s of
                    (False, s) \<Rightarrow> record_error su (se_adapter_id evt) address version s
                  | (True, s) \<Rightarrow> breaker_reset s)"

definition handle_adapter_stopped :: "adapter_status_event \<Rightarrow> adapter_bridge \<Rightarrow> adapter_bridge" where
  "handle_adapter_stopped evt s = (if br_current s \<noteq> se_adapter_id evt then s else breaker_reset (clear_adapter s))"

definition handle_adapter_error :: "adapter_status_event \<Rightarrow> adapter_bridge \<Rightarrow> adapter_bridge" where
  "handle_adapter_error evt s = (if br_current s \<noteq> se_adapter_id evt then s else breaker_reset (clear_adapter s))"

definition handle_adapter_status :: "surroundings \<Rightarrow> adapter_status_event \<Rightarrow> adapter_bridge \<Rightarrow> adapter_bridge" where
  "handle_adapter_status su evt s =
     (if se_slot evt \<noteq> ''ai'' then s
      else case se_status evt of
             Health_Ready \<Rightarrow> handle_adapter_ready su evt s
           | Health_Stopped \<Rightarrow> handle_adapter_stopped evt s
           | Health_Error \<Rightarrow> handle_adapter_error evt s
           | Health_Degraded \<Rightarrow> handle_adapter_error evt s
           | _ \<Rightarrow> s)"

section \<open>Start and shutdown\<close>

text \<open>\<open>strings.EqualFold\<close> with \<open>''active''\<close>; no rune outside ASCII folds to one of its letters.\<close>

definition is_active :: "string \<Rightarrow> bool" where
  "is_active s \<longleftrightarrow> map (\<lambda>c. if 65 \<le> bv c \<and> bv c \<le> 90 then bv c + 32 else bv c) s = map bv ''active''"

fun sync_bindings :: "surroundings \<Rightarrow> binding_status list \<Rightarrow> adapter_bridge \<Rightarrow> adapter_bridge" where
  "sync_bindings su [] s = s"
| "sync_bindings su (b # bs) s =
     (if bs_slot b \<noteq> ''ai'' then sync_bindings su bs s
      else
        case bs_adapter_id b of
          None \<Rightarrow> sync_bindings su bs s
        | Some raw \<Rightarrow>
            if trim_space raw = [] then sync_bindings su bs s
            else if \<not> is_active (bs_status b) then sync_bindings su bs s
            else
              case parse_config su (bs_config b) of
                None \<Rightarrow> s
              | Some config \<Rightarrow>
                  if is_builtin_mock_adapter (trim_space raw) then snd (configure_adapter su (trim_space raw) [] config s)
                  else
                    case bs_runtime b of
                      Some rt \<Rightarrow>
                        if rn_health rt = Health_Ready then snd (configure_adapter su (trim_space raw) (rn_extra rt) config s)
                        else sync_bindings su bs s
                    | None \<Rightarrow> sync_bindings su bs s)"

definition sync_with_current_bindings :: "surroundings \<Rightarrow> adapter_bridge \<Rightarrow> adapter_bridge" where
  "sync_with_current_bindings su s =
     (case su_controller su of
        None \<Rightarrow> s
      | Some ct \<Rightarrow> (case ct_overview ct of None \<Rightarrow> s | Some statuses \<Rightarrow> sync_bindings su statuses s))"

definition shutdown_bridge :: "adapter_bridge \<Rightarrow> adapter_bridge" where
  "shutdown_bridge s = close_nap s"

text \<open>
  The runs of a bridge that was started; the flag tells that \<open>Shutdown\<close> was called. The goroutine of the events may still handle one
  afterwards.
\<close>

inductive bridge_run :: "bool \<Rightarrow> adapter_bridge \<Rightarrow> bool" where
  started: "bridge_run False (sync_with_current_bindings su new_bridge)"
| status: "bridge_run down s \<Longrightarrow> bridge_run down (handle_adapter_status su evt s)"
| reset: "bridge_run down s \<Longrightarrow> bridge_run down (reset_circuit_breaker s)"
| shutdown: "bridge_run down s \<Longrightarrow> bridge_run True (shutdown_bridge s)"

section \<open>Frames\<close>

text \<open>The part of the state that says what the router talks to; the rest is the circuit breaker and the cache.\<close>

definition links :: "adapter_bridge \<Rightarrow> string \<times> string \<times> bridged_adapter option \<times> nat option \<times> nat option \<times> bridged_adapter option \<times> nap_params list \<times> nat list" where
  "links s = (br_current s, br_current_address s, br_adapter s, br_nap s, br_client s, br_router s, br_dialled s, br_closed s)"

definition breaker :: "adapter_bridge \<Rightarrow> nat \<times> time_ns \<times> string \<times> string \<times> string" where
  "breaker s = (br_errors s, br_error_time s, br_failed_adapter s, br_failed_address s, br_config_version s)"

lemma links_frames [frame_simps]:
  "links (record_error su aid address version s) = links s" "links (breaker_reset s) = links s" "links (reset_circuit_breaker s) = links s"
  by (simp_all add: links_def record_error_def breaker_reset_def reset_circuit_breaker_def)

lemma same_cache: "\<exists>c. s = s\<lparr>br_cache := c\<rparr>"
  by (rule exI [of _ "br_cache s"]) simp

lemma cache_frame: "get_cached_manifest_options su aid s = (r, s') \<Longrightarrow> \<exists>c. s' = s\<lparr>br_cache := c\<rparr>"
  using same_cache by (auto simp: get_cached_manifest_options_def Let_def split: option.splits if_splits)

lemma lookup_frame: "lookup_adapter_config su aid s = (r, s') \<Longrightarrow> \<exists>c. s' = s\<lparr>br_cache := c\<rparr>"
  using same_cache
  by (auto simp: lookup_adapter_config_def Let_def split: option.splits prod.splits if_splits dest: cache_frame)

lemma lookup_links: "lookup_adapter_config su aid s = (r, s') \<Longrightarrow> links s' = links s \<and> breaker s' = breaker s"
  by (auto dest!: lookup_frame simp: links_def breaker_def)

lemma configure_failed: "configure_adapter su aid rt config s = (False, s') \<Longrightarrow> s' = s"
  by (auto simp: configure_adapter_def create_adapter_def Let_def split: option.splits prod.splits if_splits)

lemma close_nap_simps [simp]:
  "br_nap (close_nap s) = None" "br_dialled (close_nap s) = br_dialled s" "br_adapter (close_nap s) = br_adapter s"
  "br_router (close_nap s) = br_router s" "br_client (close_nap s) = br_client s" "br_current (close_nap s) = br_current s"
  "br_closed (close_nap s) = br_closed s @ (case br_nap s of None \<Rightarrow> [] | Some h \<Rightarrow> [h])"
  by (simp_all add: close_nap_def split: option.split)

text \<open>What a successful configuration does to the links.\<close>

lemma configured:
  assumes "configure_adapter su aid rt config s = (True, s')"
  defines "p \<equiv> \<lparr>np_adapter_id = aid, np_endpoint = endpoint_of aid rt, np_config = config\<rparr>"
  shows "br_current s' = aid \<and> br_router s' = br_adapter s' \<and> br_client s' = br_nap s' \<and>
    br_closed s' = br_closed (close_nap s) \<and>
    (if is_builtin_mock_adapter aid then br_adapter s' = Some (Mock aid) \<and> br_nap s' = None \<and> br_dialled s' = br_dialled s
     else br_adapter s' = Some (Nap (length (br_dialled s))) \<and> br_nap s' = Some (length (br_dialled s)) \<and>
       br_dialled s' = br_dialled s @ [p] \<and> dial_adapter su p \<and> extra rt ''address'' \<noteq> [])"
  using assms
  by (auto simp: configure_adapter_def create_adapter_def Let_def close_nap_def p_def split: option.splits prod.splits if_splits)

section \<open>Connections\<close>

definition open_connections :: "adapter_bridge \<Rightarrow> nat set" where
  "open_connections s = {h. h < length (br_dialled s) \<and> h \<notin> set (br_closed s)}"

definition bridge_ok :: "bool \<Rightarrow> adapter_bridge \<Rightarrow> bool" where
  "bridge_ok down s \<longleftrightarrow>
     distinct (br_closed s) \<and> set (br_closed s) \<subseteq> {..<length (br_dialled s)} \<and> open_connections s = set_option (br_nap s) \<and>
     br_router s = br_adapter s \<and>
     (case br_adapter s of
        None \<Rightarrow> br_current s = [] \<and> br_nap s = None \<and> br_client s = None
      | Some (Mock name) \<Rightarrow> br_current s = name \<and> br_nap s = None \<and> br_client s = None
      | Some (Nap h) \<Rightarrow> h < length (br_dialled s) \<and> br_current s = np_adapter_id (br_dialled s ! h) \<and> br_client s = Some h \<and>
          (br_nap s = Some h \<or> down \<and> br_nap s = None))"

lemma bridge_ok_links: "links s' = links s \<Longrightarrow> bridge_ok down s' = bridge_ok down s"
  by (simp add: links_def bridge_ok_def open_connections_def split: option.split bridged_adapter.split)

lemma bridge_ok_frames [inv_intros]:
  "bridge_ok down s \<Longrightarrow> bridge_ok down (record_error su aid address version s)"
  "bridge_ok down s \<Longrightarrow> bridge_ok down (breaker_reset s)" "bridge_ok down s \<Longrightarrow> bridge_ok down (reset_circuit_breaker s)"
  using bridge_ok_links links_frames by blast+

lemma close_nap_open:
  assumes "bridge_ok down s"
  shows "distinct (br_closed (close_nap s)) \<and> set (br_closed (close_nap s)) = {..<length (br_dialled s)}"
  using assms by (auto simp: bridge_ok_def open_connections_def split: option.split)

lemma bridge_ok_configured:
  assumes "bridge_ok down s" and "configure_adapter su aid rt config s = (True, s')"
  shows "bridge_ok down s'"
proof -
  note c = configured [OF assms(2)]
  from close_nap_open [OF assms(1)] c have "distinct (br_closed s')" "set (br_closed s') = {..<length (br_dialled s)}" by simp_all
  with c show ?thesis by (auto simp: bridge_ok_def open_connections_def split: if_splits)
qed

lemma bridge_ok_configure: "bridge_ok down s \<Longrightarrow> bridge_ok down (snd (configure_adapter su aid rt config s))"
proof (cases "configure_adapter su aid rt config s")
  case (Pair ok s')
  then show "bridge_ok down s \<Longrightarrow> ?thesis" using bridge_ok_configured by (cases ok) (auto dest: configure_failed)
qed

lemma bridge_ok_clear [inv_intros]: "bridge_ok down s \<Longrightarrow> bridge_ok down (clear_adapter s)"
  using close_nap_open [of down s] by (auto simp: clear_adapter_def bridge_ok_def open_connections_def)

lemma bridge_ok_ready [inv_intros]:
  assumes "bridge_ok down s"
  shows "bridge_ok down (handle_adapter_ready su evt s)"
proof -
  obtain r s1 where l: "lookup_adapter_config su (se_adapter_id evt) s = (r, s1)" by fastforce
  then have s1: "bridge_ok down s1" using assms lookup_links bridge_ok_links by blast
  show ?thesis
  proof (cases r)
    case None
    with l s1 show ?thesis by (simp add: handle_adapter_ready_def bridge_ok_frames)
  next
    case (Some cv)
    obtain config version where cv: "cv = (config, version)" by fastforce
    define s2 where "s2 = (if br_errors s1 > 0 \<and> breaker_outdated evt (extra (se_extra evt) ''address'') version s1 then breaker_reset s1 else s1)"
    have s2: "bridge_ok down s2" using s1 by (simp add: s2_def bridge_ok_frames)
    obtain ok s3 where c: "configure_adapter su (se_adapter_id evt) (se_extra evt) config s2 = (ok, s3)" by fastforce
    from bridge_ok_configure [OF s2, of su "se_adapter_id evt" "se_extra evt" config] c have "bridge_ok down s3" by simp
    with l Some cv s2 c show ?thesis
      by (simp add: handle_adapter_ready_def Let_def flip: s2_def) (auto simp: bridge_ok_frames split: bool.split)
  qed
qed

lemma bridge_ok_status: "bridge_ok down s \<Longrightarrow> bridge_ok down (handle_adapter_status su evt s)"
  by (auto simp: handle_adapter_status_def handle_adapter_stopped_def handle_adapter_error_def intro: inv_intros split: adapter_health.split)

lemma bridge_ok_sync: "bridge_ok down s \<Longrightarrow> bridge_ok down (sync_bindings su bs s)"
  by (induction su bs s rule: sync_bindings.induct) (auto simp: bridge_ok_configure split: option.split)

lemma bridge_ok_shutdown: "bridge_ok down s \<Longrightarrow> bridge_ok True (shutdown_bridge s)"
  using close_nap_open [of down s]
  by (auto simp: shutdown_bridge_def bridge_ok_def open_connections_def split: option.splits bridged_adapter.splits)

lemma bridge_run_ok: "bridge_run down s \<Longrightarrow> bridge_ok down s"
proof (induction rule: bridge_run.induct)
  case (started su)
  have "bridge_ok False new_bridge" by (simp add: bridge_ok_def new_bridge_def open_connections_def)
  then show ?case by (simp add: sync_with_current_bindings_def bridge_ok_sync split: option.split)
qed (simp_all add: bridge_ok_status bridge_ok_frames bridge_ok_shutdown)

text \<open>
  C26: The bridge never leaks a connection and never confuses the router. In every run, before and after \<open>Shutdown\<close>, the connections that
  were dialled and not closed are the one the bridge holds, no connection is closed twice, and the router has the adapter that the bridge
  believes to be current; until \<open>Shutdown\<close>, the connection of that adapter is open and the embedding client uses it.
\<close>

theorem bridge_never_leaks:
  assumes "bridge_run down s"
  shows "open_connections s = set_option (br_nap s) \<and> distinct (br_closed s) \<and> br_router s = br_adapter s \<and>
    (\<not> down \<longrightarrow> br_nap s = Option.bind (br_adapter s) nap_handle \<and> br_client s = br_nap s)"
  using bridge_run_ok [OF assms] by (auto simp: bridge_ok_def split: option.splits bridged_adapter.splits)

section \<open>Handling a ready adapter\<close>

text \<open>The handler after the configuration was found.\<close>

lemma ready_found:
  assumes "lookup_adapter_config su (se_adapter_id evt) s = (Some (config, version), s1)"
  obtains (held) s2 where "handle_adapter_ready su evt s = s2" "links s2 = links s" "breaker s2 = breaker s"
      "br_errors s \<ge> max_consecutive_errors" "su_now su - br_error_time s < calculate_backoff s"
      "\<not> breaker_outdated evt (extra (se_extra evt) ''address'') version s"
  | (failed) s2 where "links s2 = links s" "configure_adapter su (se_adapter_id evt) (se_extra evt) config s2 = (False, s2)"
      "handle_adapter_ready su evt s = record_error su (se_adapter_id evt) (extra (se_extra evt) ''address'') version s2"
      "br_errors s2 = (if breaker_outdated evt (extra (se_extra evt) ''address'') version s then 0 else br_errors s)"
  | (connected) s2 s3 where "links s2 = links s" "configure_adapter su (se_adapter_id evt) (se_extra evt) config s2 = (True, s3)"
      "handle_adapter_ready su evt s = breaker_reset s3"
proof -
  let ?a = "extra (se_extra evt) ''address''"
  define s2 where "s2 = (if br_errors s1 > 0 \<and> breaker_outdated evt ?a version s1 then breaker_reset s1 else s1)"
  from assms have s1: "links s1 = links s" "breaker s1 = breaker s" using lookup_links by blast+
  have out: "breaker_outdated evt ?a version s1 = breaker_outdated evt ?a version s" "br_errors s1 = br_errors s"
    "br_error_time s1 = br_error_time s" "calculate_backoff s1 = calculate_backoff s"
    using s1(2) by (simp_all add: breaker_def breaker_outdated_def calculate_backoff_def Let_def)
  have s2: "links s2 = links s" using s1(1) by (simp add: s2_def links_frames)
  have e2: "br_errors s2 = (if breaker_outdated evt ?a version s then 0 else br_errors s)"
    using out by (auto simp: s2_def breaker_reset_def)
  obtain ok s3 where c: "configure_adapter su (se_adapter_id evt) (se_extra evt) config s2 = (ok, s3)" by fastforce
  have run: "handle_adapter_ready su evt s =
      (if br_errors s2 \<ge> max_consecutive_errors \<and> su_now su - br_error_time s2 < calculate_backoff s2 then s2
       else if ok then breaker_reset s3 else record_error su (se_adapter_id evt) ?a version s3)"
    using assms c by (simp add: handle_adapter_ready_def Let_def flip: s2_def)
  show thesis
  proof (cases "br_errors s2 \<ge> max_consecutive_errors \<and> su_now su - br_error_time s2 < calculate_backoff s2")
    case True
    then have "\<not> breaker_outdated evt ?a version s" using e2 by (auto simp: max_consecutive_errors_def split: if_splits)
    then have "s2 = s1" using out by (simp add: s2_def)
    with True run s1 out \<open>\<not> breaker_outdated evt ?a version s\<close> show thesis by (intro held [of s1]) simp_all
  next
    case False
    show thesis
    proof (cases ok)
      case True
      with False run c s2 show thesis by (intro connected [of s2 s3]) auto
    next
      case not: False
      with c have "s3 = s2" using configure_failed by simp
      with not False run c s2 e2 show thesis by (intro failed [of s2]) auto
    qed
  qed
qed


section \<open>The backoff\<close>

lemma backoff_word: "calculate_backoff s =
    (if br_errors s < 3 then 0 else min (signed_take_bit 63 (500000000 * 2 ^ (br_errors s - 3))) 30000000000)"
proof -
  have "word_of_int base_backoff_delay * push_bit n 1 = (word_of_int (500000000 * 2 ^ n) :: 64 word)" for n
    by (simp add: base_backoff_delay_def push_bit_eq_mult)
  moreover have "sint (word_of_int n :: 64 word) = signed_take_bit 63 n" for n
    by (simp add: sint_sbintrunc')
  ultimately show ?thesis
    by (simp only: calculate_backoff_def max_consecutive_errors_def max_backoff_delay_def Let_def) (simp add: min_def)
qed

text \<open>
  The backoff doubles from 500 ms with every failure after the third, up to 30 s; the 64 bits of a \<open>Duration\<close> are enough for 37
  failures.
\<close>

theorem backoff_schedule:
  assumes "3 \<le> br_errors s" and "br_errors s \<le> 37"
  shows "calculate_backoff s = min (500 * millisecond * 2 ^ (br_errors s - 3)) (30 * second)"
proof -
  have "(2 :: int) ^ (br_errors s - 3) \<le> 2 ^ 34" using assms by (intro power_increasing) simp_all
  then have hi: "500000000 * 2 ^ (br_errors s - 3) < (2 :: int) ^ 63" by simp
  have lo: "- (2 ^ 63) \<le> (500000000 * 2 ^ (br_errors s - 3) :: int)" by (rule order.trans [of _ 0]) simp_all
  from signed_take_bit_int_eq_self [OF lo hi]
  have "signed_take_bit 63 (500000000 * 2 ^ (br_errors s - 3) :: int) = 500000000 * 2 ^ (br_errors s - 3)" .
  with assms(1) show ?thesis by (simp only: backoff_word) simp
qed

lemma backoff_zero:
  assumes "59 \<le> br_errors s"
  shows "calculate_backoff s = 0"
proof -
  have "br_errors s - 3 = 56 + (br_errors s - 59)" using assms by simp
  then have "(2 :: int) ^ (br_errors s - 3) = 2 ^ 56 * 2 ^ (br_errors s - 59)" by (simp only: power_add)
  then have "500000000 * 2 ^ (br_errors s - 3) = (1953125 * 2 ^ (br_errors s - 59)) * (2 :: int) ^ 64" by simp
  then have "take_bit 64 (500000000 * 2 ^ (br_errors s - 3) :: int) = 0" by (simp only: take_bit_eq_mod mod_mult_self2_is_0)
  then have "signed_take_bit 63 (500000000 * 2 ^ (br_errors s - 3) :: int) = signed_take_bit 63 0"
    by (subst signed_take_bit_eq_iff_take_bit_eq) simp
  with assms show ?thesis by (simp add: backoff_word)
qed


text \<open>
  After 59 failures the circuit breaker is gone. The product of 500 ms and the power of two is a multiple of \<open>2 ^ 64\<close>, so that the
  backoff is zero instead of 30 s and no ready event is held back any more.
\<close>

theorem backoff_vanishes:
  assumes "59 \<le> br_errors s" and "br_error_time s \<le> su_now su"
  shows "calculate_backoff s = 0 \<and> breaker (handle_adapter_ready su evt s) \<noteq> breaker s"
proof -
  note z = backoff_zero [OF assms(1)]
  obtain r s1 where l: "lookup_adapter_config su (se_adapter_id evt) s = (r, s1)" by fastforce
  have "br_errors (handle_adapter_ready su evt s) \<noteq> br_errors s"
  proof (cases r)
    case None
    from lookup_links [OF l] have "br_errors s1 = br_errors s" by (simp add: breaker_def)
    with l None show ?thesis by (simp add: handle_adapter_ready_def) (simp add: record_error_def)
  next
    case (Some cv)
    obtain config version where cv: "cv = (config, version)" by fastforce
    from l Some cv have "lookup_adapter_config su (se_adapter_id evt) s = (Some (config, version), s1)" by simp
    then show ?thesis
    proof (cases rule: ready_found)
      case (held s2)
      with z assms(2) show ?thesis by simp
    next
      case (failed s2)
      then show ?thesis using assms(1) by (simp add: record_error_def)
    next
      case (connected s2 s3)
      then show ?thesis using assms(1) by (simp add: breaker_reset_def)
    qed
  qed
  with z show ?thesis by (auto simp: breaker_def)
qed

section \<open>Start\<close>

text \<open>
  The start does not validate. An adapter that is ready when the bridge starts gets its configuration as it is, while the same
  configuration is refused when the adapter reports ready later, because it does not fit the options of the manifest.
\<close>

theorem startup_skips_validation:
  assumes "su_controller su = Some ct" and "ct_overview ct = Some (b # bs)" and "bs_slot b = ''ai''" and "is_active (bs_status b)"
    and "bs_adapter_id b = Some aid" and "trim_space aid = aid" and "aid \<noteq> []" and "\<not> is_builtin_mock_adapter aid"
    and "bs_runtime b = Some rt" and "rn_health rt = Health_Ready" and "parse_config su (bs_config b) = Some config"
    and "extra (rn_extra rt) ''address'' \<noteq> []"
    and "dial_adapter su \<lparr>np_adapter_id = aid, np_endpoint = endpoint_of aid (rn_extra rt), np_config = config\<rparr>"
    and "ct_manifest_options ct aid = Some opts" and "opts \<noteq> []" and "validate_config_against_options (su_floats su) opts config \<noteq> None"
    and "se_adapter_id evt = aid"
  shows "br_router (sync_with_current_bindings su new_bridge) = Some (Nap 0) \<and>
    map np_config (br_dialled (sync_with_current_bindings su new_bridge)) = [config] \<and>
    br_router (handle_adapter_ready su evt new_bridge) = None"
proof -
  have "lookup_adapter_config su aid new_bridge = (None, snd (get_cached_manifest_options su aid new_bridge))"
    using assms by (simp add: lookup_adapter_config_def get_cached_manifest_options_def new_bridge_def)
  then have l: "handle_adapter_ready su evt new_bridge =
      record_error su aid (extra (se_extra evt) ''address'') [] (snd (get_cached_manifest_options su aid new_bridge))"
    using assms(17) by (simp add: handle_adapter_ready_def)
  have "br_router (handle_adapter_ready su evt new_bridge) = None"
    unfolding l using assms(1) by (simp add: record_error_def get_cached_manifest_options_def new_bridge_def)
  moreover have "br_router (sync_with_current_bindings su new_bridge) = Some (Nap 0) \<and>
      map np_config (br_dialled (sync_with_current_bindings su new_bridge)) = [config]"
    using assms by (simp add: sync_with_current_bindings_def configure_adapter_def create_adapter_def Let_def close_nap_def new_bridge_def)
  ultimately show ?thesis by simp
qed

section \<open>A concrete adapter\<close>

definition demo_binding :: binding_status where
  "demo_binding = \<lparr>bs_slot = ''ai'', bs_adapter_id = Some ''x'', bs_status = ''Active'', bs_config = ''c'', bs_updated_at = [],
     bs_runtime = Some \<lparr>rn_health = Health_Ready, rn_extra = [(''address'', ''h'')]\<rparr>\<rparr>"

definition demo_su :: "binding_status list option \<Rightarrow> surroundings" where
  "demo_su statuses = \<lparr>su_now = 0,
     su_controller = Some \<lparr>ct_overview = statuses, ct_manifest_options = (\<lambda>_. Some [(''threads'', demo_normal)])\<rparr>,
     su_json = (\<lambda>_. Some [(''unknown'', Any_Nil)]), su_hash = (\<lambda>_. ''0''), su_floats = demo_floats, su_dial = (\<lambda>_. True)\<rparr>"

definition demo_event :: adapter_status_event where
  "demo_event = \<lparr>se_adapter_id = ''x'', se_slot = ''ai'', se_status = Health_Ready, se_extra = [(''address'', ''h'')]\<rparr>"

lemma demo_trim: "trim_space ''x'' = ''x''" "trim_space ''h'' = ''h''" "trim_space ''process'' = ''process''"
  using lower_word [of "''x''"] lower_word [of "''h''"] lower_word [of "''process''"] by simp_all

text \<open>The lookup fails over and over, at one moment.\<close>

definition failures :: "nat \<Rightarrow> adapter_bridge" where
  "failures n = (handle_adapter_status (demo_su None) demo_event ^^ n) (sync_with_current_bindings (demo_su None) new_bridge)"

lemma failures_run: "bridge_run False (failures n)"
  by (induction n) (simp_all add: failures_def bridge_run.intros)

lemma failure_counted:
  "br_errors (handle_adapter_status (demo_su None) demo_event s) = br_errors s + 1 \<and>
   br_error_time (handle_adapter_status (demo_su None) demo_event s) = 0"
  by (simp add: handle_adapter_status_def demo_event_def handle_adapter_ready_def lookup_adapter_config_def demo_su_def record_error_def)

lemma failures_count: "br_errors (failures n) = n \<and> br_error_time (failures n) = 0"
proof (induction n)
  case 0
  show ?case by (simp add: failures_def sync_with_current_bindings_def demo_su_def new_bridge_def)
next
  case (Suc n)
  have "failures (Suc n) = handle_adapter_status (demo_su None) demo_event (failures n)" by (simp add: failures_def)
  with Suc failure_counted [of "failures n"] show ?case by simp
qed

theorem backoff_vanishes_witness:
  "\<exists>s. bridge_run False s \<and> br_errors s = 59 \<and> br_error_time s = 0 \<and> calculate_backoff s = 0 \<and>
     breaker (handle_adapter_ready (demo_su (Some [])) demo_event s) \<noteq> breaker s"
proof -
  have "su_now (demo_su (Some [])) = 0" by (simp add: demo_su_def)
  with backoff_vanishes [of "failures 59" "demo_su (Some [])" demo_event] failures_run [of 59] failures_count [of 59]
  show ?thesis by (intro exI [of _ "failures 59"]) simp
qed

theorem backoff_schedule_witness: "\<exists>s. bridge_run False s \<and> br_errors s = 9 \<and> calculate_backoff s = 30 * second"
  using backoff_schedule [of "failures 9"] failures_run [of 9] failures_count [of 9]
  by (intro exI [of _ "failures 9"]) simp

theorem startup_skips_validation_witness:
  "br_router (sync_with_current_bindings (demo_su (Some [demo_binding])) new_bridge) = Some (Nap 0) \<and>
   br_router (handle_adapter_ready (demo_su (Some [demo_binding])) demo_event new_bridge) = None"
proof -
  have "validate_config_against_options demo_floats [(''threads'', demo_normal)] [(''unknown'', Any_Nil)] \<noteq> None"
    by (simp add: validate_config_against_options_def)
  moreover have "is_active ''Active''" by (simp add: is_active_def)
  moreover have "extra [(''address'', ''h'')] ''address'' = ''h''" "extra [(''address'', ''h'')] ''transport'' = []"
    by (simp_all add: extra_def demo_trim)
  ultimately show ?thesis
    using startup_skips_validation [of "demo_su (Some [demo_binding])" _ demo_binding "[]" "''x''" _ "[(''unknown'', Any_Nil)]"
        "[(''threads'', demo_normal)]" demo_event]
    by (simp add: demo_su_def demo_binding_def demo_event_def demo_trim is_builtin_mock_adapter_def parse_config_def dial_adapter_def endpoint_of_def)
qed

text \<open>The bridge that was started with this binding.\<close>

definition demo_bridge :: adapter_bridge where
  "demo_bridge = sync_with_current_bindings (demo_su (Some [demo_binding])) new_bridge"

lemma demo_bridge_run: "bridge_run False demo_bridge"
  by (simp add: demo_bridge_def bridge_run.started)

lemma demo_bridge_links: "br_adapter demo_bridge = Some (Nap 0) \<and> br_nap demo_bridge = Some 0 \<and> br_errors demo_bridge = 0"
proof -
  have "is_active ''Active''" by (simp add: is_active_def)
  moreover have "extra [(''address'', ''h'')] ''address'' = ''h''" "extra [(''address'', ''h'')] ''transport'' = []"
    by (simp_all add: extra_def demo_trim)
  ultimately show ?thesis
    by (simp add: demo_bridge_def sync_with_current_bindings_def demo_su_def demo_binding_def demo_trim is_builtin_mock_adapter_def parse_config_def
        configure_adapter_def create_adapter_def dial_adapter_def endpoint_of_def Let_def close_nap_def new_bridge_def)
qed

theorem bridge_never_leaks_witness:
  "open_connections demo_bridge = {0} \<and> br_client demo_bridge = Some 0 \<and> open_connections (shutdown_bridge demo_bridge) = {}"
proof -
  have "br_nap (shutdown_bridge demo_bridge) = None" by (simp add: shutdown_bridge_def)
  then show ?thesis
    using bridge_never_leaks [OF demo_bridge_run] bridge_never_leaks [OF bridge_run.shutdown [OF demo_bridge_run]] demo_bridge_links by simp
qed


end
