(* ===== verification/AdapterManager.thy ===== *)
theory AdapterManager
  imports AdapterBridge "HOL-Library.Char_ord" "HOL-Library.List_Lexorder" "HOL-Library.Multiset"
begin

text \<open>
  The manager of adapter processes and the service around it, \<open>internal/plugins/adapters\<close> (\<open>manager.go\<close>, \<open>service.go\<close>): the reconciliation
  of what runs with what is bound, and the status events that follow from it. A process is the number of its launch; the state keeps
  which processes were stopped, and which were given up because they did not get ready. What a call asks of its surroundings (the store, the
  YAML and JSON decoders, the hash, the operating system) is an argument of the call. The directories, the environment and the command of a process are part of one answer
  (\<open>me_prepared\<close>). Log files, the events about errors and the heartbeat probes are left out.
\<close>

section \<open>Data (\<open>manager.go\<close>, \<open>store/types.go\<close>)\<close>

record adapter_record =
  ab_slot :: string
  ab_adapter_id :: "string option"
  ab_status :: string
  ab_config :: string

record adapter_binding =
  pb_slot :: string
  pb_adapter_id :: string
  pb_config :: adapter_config
  pb_raw_config :: string
  pb_fingerprint :: string
  pb_runtime :: "(string, string) gomap"

record plugin_manifest =
  mf_name :: string
  mf_slug :: string
  mf_version :: string
  mf_adapter :: "adapter_spec option"

record stored_adapter =
  sa_id :: string
  sa_manifest :: string

record binding_plan =
  pl_binding :: adapter_binding
  pl_adapter :: stored_adapter
  pl_manifest :: "plugin_manifest option"
  pl_endpoint :: adapter_endpoint
  pl_fingerprint :: string

record adapter_instance =
  in_binding :: adapter_binding
  in_handle :: "nat option"
  in_fingerprint :: string

record adapter_manager =
  mg_slots :: "string list"
  mg_instances :: "(string, adapter_instance) gomap"
  mg_launched :: nat
  mg_stopped :: "nat list"
  mg_abandoned :: "nat list"

datatype 'a lookup = Found 'a | Absent | Failing

datatype stop_result = Stopped | Killed | Stop_Fails

text \<open>One attempt to launch: the context, the address that was allocated, the launch and the readiness.\<close>

record launch_attempt =
  la_context :: bool
  la_address :: "string option"
  la_launches :: bool
  la_ready :: bool

text \<open>What a call is told; \<open>me_order\<close> is the order in which the map of active bindings happens to be visited.\<close>

record manager_answers =
  me_records :: "adapter_record list option"
  me_decode :: "string \<Rightarrow> adapter_config option"
  me_order :: "(string \<times> adapter_binding) list \<Rightarrow> (string \<times> adapter_binding) list"
  me_source :: bool
  me_adapter :: "string \<Rightarrow> stored_adapter lookup"
  me_parse :: "string \<Rightarrow> plugin_manifest option"
  me_endpoint :: "string \<Rightarrow> adapter_endpoint lookup"
  me_floats :: float_ops
  me_json :: "any \<Rightarrow> string option"
  me_json_list :: "any list \<Rightarrow> string option"
  me_json_config :: "adapter_config \<Rightarrow> string option"
  me_sprint :: "any list \<Rightarrow> string"
  me_hash :: "string \<Rightarrow> string"
  me_started :: "string \<Rightarrow> bool"
  me_prepared :: "string \<Rightarrow> bool"
  me_remote_ready :: "string \<Rightarrow> bool"
  me_attempt :: "string \<Rightarrow> nat \<Rightarrow> launch_attempt"
  me_stop :: "nat \<Rightarrow> stop_result"

definition empty_endpoint :: adapter_endpoint where
  "empty_endpoint = \<lparr>ep_adapter_id = [], ep_transport = [], ep_address = [], ep_command = [], ep_args = [], ep_env = [],
     ep_tls_cert_path = [], ep_tls_key_path = [], ep_tls_ca_cert_path = [], ep_tls_insecure = False\<rparr>"

section \<open>Plans (\<open>manager.go\<close>)\<close>

fun active_bindings ::
    "manager_answers \<Rightarrow> string list \<Rightarrow> adapter_record list \<Rightarrow> (string, adapter_binding) gomap \<Rightarrow> (string, adapter_binding) gomap option" where
  "active_bindings me slots [] active = Some active"
| "active_bindings me slots (r # rs) active =
     (if slots \<noteq> [] \<and> ab_slot r \<notin> set slots then active_bindings me slots rs active
      else if \<not> is_active (ab_status r) then active_bindings me slots rs active
      else
        case ab_adapter_id r of
          None \<Rightarrow> active_bindings me slots rs active
        | Some raw \<Rightarrow>
            if trim_space raw = [] then active_bindings me slots rs active
            else
              case me_decode me (ab_config r) of
                None \<Rightarrow> None
              | Some config \<Rightarrow>
                  active_bindings me slots rs (mput (ab_slot r)
                    \<lparr>pb_slot = ab_slot r, pb_adapter_id = trim_space raw, pb_config = config, pb_raw_config = ab_config r,
                     pb_fingerprint = [], pb_runtime = []\<rparr> active))"

definition load_active_bindings :: "manager_answers \<Rightarrow> adapter_manager \<Rightarrow> (string, adapter_binding) gomap option" where
  "load_active_bindings me s =
     (case me_records me of None \<Rightarrow> None | Some rs \<Rightarrow> map_option (me_order me) (active_bindings me (mg_slots s) rs []))"

text \<open>\<open>lookupAdapter\<close> and \<open>lookupEndpoint\<close>; \<open>None\<close> is an error.\<close>

definition lookup_adapter :: "manager_answers \<Rightarrow> string \<Rightarrow> (stored_adapter \<times> plugin_manifest option) option" where
  "lookup_adapter me aid =
     (case me_adapter me aid of
        Failing \<Rightarrow> None
      | Absent \<Rightarrow> Some (\<lparr>sa_id = [], sa_manifest = []\<rparr>, None)
      | Found a \<Rightarrow>
          let raw = trim_space (sa_manifest a)
          in if raw = [] then Some (a, None)
             else case me_parse me raw of None \<Rightarrow> None | Some mf \<Rightarrow> Some (a, Some mf))"

definition lookup_endpoint :: "manager_answers \<Rightarrow> string \<Rightarrow> adapter_endpoint option" where
  "lookup_endpoint me aid = (case me_endpoint me aid of Failing \<Rightarrow> None | Absent \<Rightarrow> Some empty_endpoint | Found e \<Rightarrow> Some e)"

text \<open>\<open>resolveAdapterConfig\<close>: the trimmed keys of a configuration without options, the defaults, and the values that are given.\<close>

fun trimmed_config :: "adapter_config \<Rightarrow> adapter_config \<Rightarrow> adapter_config" where
  "trimmed_config [] m = m"
| "trimmed_config ((k, v) # c) m = trimmed_config c (if trim_space k = [] then m else mput (trim_space k) v m)"

fun option_defaults :: "adapter_options \<Rightarrow> adapter_config \<Rightarrow> adapter_config" where
  "option_defaults [] m = m"
| "option_defaults ((k, opt) # opts) m =
     option_defaults opts (if trim_space k = [] \<or> ao_default opt = Any_Nil then m else mput (trim_space k) (ao_default opt) m)"

fun given_values :: "float_ops \<Rightarrow> adapter_options \<Rightarrow> adapter_config \<Rightarrow> adapter_config \<Rightarrow> adapter_config option" where
  "given_values fo opts [] m = Some m"
| "given_values fo opts ((k, v) # c) m =
     (if trim_space k = [] then given_values fo opts c m
      else
        case map_of opts (trim_space k) of
          None \<Rightarrow> None
        | Some opt \<Rightarrow>
            if v = Any_Nil then given_values fo opts c (mdel (trim_space k) m)
            else
              case normalize_adapter_option_value fo opt v of
                None \<Rightarrow> None
              | Some w \<Rightarrow> given_values fo opts c (mput (trim_space k) w m))"

definition resolve_adapter_config :: "float_ops \<Rightarrow> adapter_options \<Rightarrow> adapter_config \<Rightarrow> adapter_config option" where
  "resolve_adapter_config fo opts current =
     (if validate_config_against_options fo opts current \<noteq> None then None
      else if opts = [] then Some (trimmed_config current [])
      else given_values fo opts current (option_defaults opts []))"

text \<open>\<open>normalizeAdapterTransport\<close>; the empty string stays empty.\<close>

definition normalize_adapter_transport :: "string \<Rightarrow> string option" where
  "normalize_adapter_transport v =
     (let t = trim_space v in if t = [] then Some [] else if t \<in> {''process'', ''grpc'', ''http''} then Some t else None)"

definition merge_manifest_endpoint :: "plugin_manifest option \<Rightarrow> string \<Rightarrow> adapter_endpoint \<Rightarrow> adapter_endpoint option" where
  "merge_manifest_endpoint mf aid ep0 =
     (let ep = (if ep_adapter_id ep0 = [] then ep0\<lparr>ep_adapter_id := trim_space aid\<rparr> else ep0)
      in case Option.bind mf mf_adapter of
           None \<Rightarrow> Some ep
         | Some spec \<Rightarrow>
             let et = trim_space (ep_transport ep); mt = trim_space (as_transport spec);
                 clash = (et \<noteq> [] \<and> mt \<noteq> [] \<and>
                   (normalize_adapter_transport et = None \<or> normalize_adapter_transport mt = None \<or>
                    normalize_adapter_transport et \<noteq> normalize_adapter_transport mt))
             in if clash then None
                else
                  case normalize_adapter_transport (if et = [] then mt else et) of
                    None \<Rightarrow> None
                  | Some nt \<Rightarrow>
                      let t = (if nt = [] then ''process'' else nt); ep = ep\<lparr>ep_transport := t\<rparr>
                      in if t = ''process'' then
                           let ep = (if trim_space (ep_command ep) = [] then ep\<lparr>ep_command := trim_space (as_command spec)\<rparr> else ep);
                               ep = (if ep_args ep = [] then ep\<lparr>ep_args := as_args spec\<rparr> else ep)
                           in if trim_space (ep_command ep) = [] then None else Some ep
                         else if trim_space (ep_address ep) = [] then None
                         else Some ep)"

text \<open>What \<open>computePlanFingerprint\<close> hashes: words, each followed by a zero byte.\<close>

definition config_word :: "manager_answers \<Rightarrow> adapter_binding \<Rightarrow> string" where
  "config_word me b =
     (let raw = trim_space (pb_raw_config b)
      in trim_space (if raw = [] \<and> pb_config b \<noteq> [] then (case me_json_config me (pb_config b) of None \<Rightarrow> raw | Some j \<Rightarrow> j) else raw))"

definition option_words :: "manager_answers \<Rightarrow> string \<Rightarrow> adapter_option \<Rightarrow> string list" where
  "option_words me k opt =
     [k, trim_space (ao_type opt), trim_space (ao_description opt),
      (case me_json me (ao_default opt) of Some j \<Rightarrow> j | None \<Rightarrow> me_sprint me [ao_default opt]),
      (if ao_values opt = [] then [] else case me_json_list me (ao_values opt) of Some j \<Rightarrow> j | None \<Rightarrow> me_sprint me (ao_values opt))]"

definition manifest_words :: "manager_answers \<Rightarrow> plugin_manifest \<Rightarrow> adapter_spec \<Rightarrow> string list" where
  "manifest_words me mf spec =
     map trim_space [mf_name mf, mf_slug mf, mf_version mf, as_slot spec, as_runtime spec, as_command spec, as_transport spec,
       as_listen_env spec, as_working_dir spec, as_ready_timeout spec, as_shutdown_timeout spec] @
     (if as_args spec = [] then [[]] else as_args spec) @
     (if as_options spec = [] then [[]] else concat (map (\<lambda>(k, opt). option_words me k opt) (sort_key fst (as_options spec))))"

definition endpoint_words :: "adapter_endpoint \<Rightarrow> string list" where
  "endpoint_words ep =
     [ep_transport ep] @ (if ep_transport ep \<noteq> ''process'' then [ep_address ep] else []) @ [ep_command ep] @ ep_args ep @
     concat (map (\<lambda>(k, v). [k, v]) (sort_key fst (ep_env ep))) @
     [ep_tls_cert_path ep, ep_tls_key_path ep, ep_tls_ca_cert_path ep,
      if ep_tls_insecure ep then ''tls_insecure:true'' else ''tls_insecure:false'']"

definition compute_plan_fingerprint ::
    "manager_answers \<Rightarrow> adapter_binding \<Rightarrow> plugin_manifest option \<Rightarrow> string \<Rightarrow> adapter_endpoint \<Rightarrow> string" where
  "compute_plan_fingerprint me b mf raw ep =
     (let front = [pb_adapter_id b, config_word me b];
          middle = (case mf of
              Some m \<Rightarrow> (case mf_adapter m of Some spec \<Rightarrow> manifest_words me m spec | None \<Rightarrow> [trim_space raw])
            | None \<Rightarrow> [trim_space raw])
      in me_hash me (concat (map (\<lambda>w. w @ [CHR 0x00]) (front @ middle @ endpoint_words ep))))"

definition finish_plan :: "manager_answers \<Rightarrow> binding_plan \<Rightarrow> binding_plan" where
  "finish_plan me p =
     (let fp = compute_plan_fingerprint me (pl_binding p) (pl_manifest p) (sa_manifest (pl_adapter p)) (pl_endpoint p)
      in p\<lparr>pl_fingerprint := fp, pl_binding := pl_binding p\<lparr>pb_fingerprint := fp\<rparr>\<rparr>)"

definition prepare_binding :: "manager_answers \<Rightarrow> adapter_binding \<Rightarrow> binding_plan option" where
  "prepare_binding me b =
     (let p = \<lparr>pl_binding = b, pl_adapter = \<lparr>sa_id = [], sa_manifest = []\<rparr>, pl_manifest = None, pl_endpoint = empty_endpoint, pl_fingerprint = []\<rparr>
      in if pb_adapter_id b = [] then Some p
         else if \<not> me_source me then Some (finish_plan me p)
         else
           case lookup_adapter me (pb_adapter_id b) of
             None \<Rightarrow> None
           | Some (a, mf) \<Rightarrow>
               let config = (case Option.bind mf mf_adapter of
                     None \<Rightarrow> Some (pb_config b)
                   | Some spec \<Rightarrow> resolve_adapter_config (me_floats me) (as_options spec) (pb_config b))
               in case config of
                    None \<Rightarrow> None
                  | Some config \<Rightarrow>
                      (case lookup_endpoint me (pb_adapter_id b) of
                         None \<Rightarrow> None
                       | Some ep \<Rightarrow>
                           (case merge_manifest_endpoint mf (pb_adapter_id b) ep of
                              None \<Rightarrow> None
                            | Some ep \<Rightarrow>
                                Some (finish_plan me (p\<lparr>pl_adapter := a, pl_manifest := mf, pl_endpoint := ep,
                                  pl_binding := b\<lparr>pb_config := config\<rparr>\<rparr>)))))"

section \<open>Processes (\<open>manager.go\<close>)\<close>

definition process_launch_max_attempts :: nat where "process_launch_max_attempts = 3"

text \<open>The instance of a plan: the fingerprint is computed again.\<close>

definition instance_of :: "manager_answers \<Rightarrow> binding_plan \<Rightarrow> (string, string) gomap \<Rightarrow> adapter_endpoint \<Rightarrow> nat option \<Rightarrow> adapter_instance" where
  "instance_of me p runtime ep handle =
     (let b = pl_binding p\<lparr>pb_runtime := runtime\<rparr>;
          fp = compute_plan_fingerprint me b (pl_manifest p) (sa_manifest (pl_adapter p)) ep
      in \<lparr>in_binding = b\<lparr>pb_fingerprint := fp\<rparr>, in_handle = handle, in_fingerprint = fp\<rparr>)"

fun launch_attempts ::
    "manager_answers \<Rightarrow> binding_plan \<Rightarrow> nat \<Rightarrow> nat \<Rightarrow> adapter_manager \<Rightarrow> adapter_instance option \<times> adapter_manager" where
  "launch_attempts me p 0 n s = (None, s)"
| "launch_attempts me p (Suc k) n s =
     (let a = me_attempt me (pb_slot (pl_binding p)) n
      in if \<not> la_context a then (None, s)
         else
           case la_address a of
             None \<Rightarrow> (None, s)
           | Some addr \<Rightarrow>
               if \<not> la_launches a then launch_attempts me p k (n + 1) s
               else
                 let h = mg_launched s; s = s\<lparr>mg_launched := h + 1\<rparr>
                 in if \<not> la_ready a then launch_attempts me p k (n + 1) (s\<lparr>mg_abandoned := mg_abandoned s @ [h]\<rparr>)
                    else (Some (instance_of me p [(''transport'', ''process''), (''address'', trim_space addr)]
                            (pl_endpoint p\<lparr>ep_transport := ''process'', ep_address := addr\<rparr>) (Some h)), s))"

definition remote_runtime :: "adapter_endpoint \<Rightarrow> string \<Rightarrow> (string, string) gomap" where
  "remote_runtime ep transport =
     [(''transport'', transport), (''address'', trim_space (ep_address ep))] @
     (if ep_tls_cert_path ep \<noteq> [] then [(''tls_cert_path'', ep_tls_cert_path ep)] else []) @
     (if ep_tls_key_path ep \<noteq> [] then [(''tls_key_path'', ep_tls_key_path ep)] else []) @
     (if ep_tls_ca_cert_path ep \<noteq> [] then [(''tls_ca_cert_path'', ep_tls_ca_cert_path ep)] else []) @
     (if ep_tls_insecure ep then [(''tls_insecure'', ''true'')] else [])"

definition start_adapter :: "manager_answers \<Rightarrow> binding_plan \<Rightarrow> adapter_manager \<Rightarrow> adapter_instance option \<times> adapter_manager" where
  "start_adapter me p s =
     (let b = pl_binding p; ep = pl_endpoint p
      in if is_builtin_mock_adapter (pb_adapter_id b) then (Some (instance_of me p [(''transport'', ''builtin'')] ep None), s)
         else if trim_space (sa_id (pl_adapter p)) = [] \<and> trim_space (pb_adapter_id b) = [] then (None, s)
         else if \<not> me_started me (pb_slot b) then (None, s)
         else
           let transport = (if trim_space (ep_transport ep) = [] then ''process'' else trim_space (ep_transport ep))
           in if transport \<noteq> ''process'' then
                if trim_space (ep_address ep) = [] then (None, s)
                else if \<not> me_remote_ready me (pb_slot b) then (None, s)
                else (Some (instance_of me p (remote_runtime ep transport) ep None), s)
              else if trim_space (ep_command ep) = [] \<or> \<not> me_prepared me (pb_slot b) then (None, s)
              else launch_attempts me p process_launch_max_attempts 0 s)"

definition stop_adapter :: "manager_answers \<Rightarrow> adapter_instance \<Rightarrow> adapter_manager \<Rightarrow> bool \<times> adapter_manager" where
  "stop_adapter me i s =
     (case in_handle i of
        None \<Rightarrow> (True, s)
      | Some h \<Rightarrow> if me_stop me h = Stop_Fails then (False, s) else (True, s\<lparr>mg_stopped := mg_stopped s @ [h]\<rparr>))"

section \<open>Reconciliation (\<open>manager.go\<close>)\<close>

datatype ensure_error = Load_Failed | Prepare_Failed string | Start_Failed string | Stop_Failed string | Restart_Failed string

fun prepare_all ::
    "manager_answers \<Rightarrow> (string \<times> adapter_binding) list \<Rightarrow> (string \<times> binding_plan) list \<times> ensure_error list" where
  "prepare_all me [] = ([], [])"
| "prepare_all me ((slot, b) # active) =
     (let (plans, errs) = prepare_all me active
      in case prepare_binding me b of
           None \<Rightarrow> (plans, Prepare_Failed slot # errs)
         | Some p \<Rightarrow> ((slot, p) # plans, errs))"

abbreviation track :: "string \<Rightarrow> adapter_instance \<Rightarrow> adapter_manager \<Rightarrow> adapter_manager" where
  "track slot i s \<equiv> s\<lparr>mg_instances := mput slot i (mg_instances s)\<rparr>"

abbreviation untrack :: "string \<Rightarrow> adapter_manager \<Rightarrow> adapter_manager" where
  "untrack slot s \<equiv> s\<lparr>mg_instances := mdel slot (mg_instances s)\<rparr>"

definition apply_plan :: "manager_answers \<Rightarrow> string \<Rightarrow> binding_plan \<Rightarrow> adapter_manager \<Rightarrow> ensure_error list \<times> adapter_manager" where
  "apply_plan me slot p s =
     (case map_of (mg_instances s) slot of
        None \<Rightarrow>
          (case start_adapter me p s of
             (None, s) \<Rightarrow> ([Start_Failed slot], s)
           | (Some i, s) \<Rightarrow> ([], track slot i s))
      | Some current \<Rightarrow>
          if in_fingerprint current = pl_fingerprint p then ([], s)
          else
            case stop_adapter me current s of
              (False, s) \<Rightarrow> ([Stop_Failed slot], s)
            | (True, s) \<Rightarrow>
                (case start_adapter me p (untrack slot s) of
                   (None, s) \<Rightarrow> ([Restart_Failed slot], s)
                 | (Some i, s) \<Rightarrow> ([], track slot i s)))"

fun apply_plans :: "manager_answers \<Rightarrow> (string \<times> binding_plan) list \<Rightarrow> adapter_manager \<Rightarrow> ensure_error list \<times> adapter_manager" where
  "apply_plans me [] s = ([], s)"
| "apply_plans me ((slot, p) # plans) s =
     (let (e, s) = apply_plan me slot p s; (es, s) = apply_plans me plans s in (e @ es, s))"

text \<open>The loop that stops the instances without a plan, and that of \<open>Stop\<close>.\<close>

fun stop_others ::
    "manager_answers \<Rightarrow> string list \<Rightarrow> (string \<times> adapter_instance) list \<Rightarrow> adapter_manager \<Rightarrow> ensure_error list \<times> adapter_manager" where
  "stop_others me keep [] s = ([], s)"
| "stop_others me keep ((slot, i) # rest) s =
     (if slot \<in> set keep then stop_others me keep rest s
      else
        let (ok, s) = stop_adapter me i s;
            (es, s) = stop_others me keep rest (if ok then untrack slot s else s)
        in (if ok then es else Stop_Failed slot # es, s))"

definition ensure :: "manager_answers \<Rightarrow> adapter_manager \<Rightarrow> ensure_error list \<times> adapter_manager" where
  "ensure me s =
     (case load_active_bindings me s of
        None \<Rightarrow> ([Load_Failed], s)
      | Some active \<Rightarrow>
          let (plans, errs) = prepare_all me active
          in if errs \<noteq> [] \<and> plans = [] then (errs, s)
             else
               let (e1, s) = apply_plans me plans s;
                   (e2, s) = stop_others me (map fst plans) (mg_instances s) s
               in (e1 @ e2 @ errs, s))"

definition stop_manager :: "manager_answers \<Rightarrow> adapter_manager \<Rightarrow> ensure_error list \<times> adapter_manager" where
  "stop_manager me s = stop_others me [] (mg_instances s) s"

definition stop_slot :: "manager_answers \<Rightarrow> string \<Rightarrow> adapter_manager \<Rightarrow> ensure_error list \<times> adapter_manager" where
  "stop_slot me slot s =
     (case map_of (mg_instances s) slot of
        None \<Rightarrow> ([], s)
      | Some i \<Rightarrow>
          (case stop_adapter me i s of
             (False, s) \<Rightarrow> ([Stop_Failed slot], s)
           | (True, s) \<Rightarrow> ([], untrack slot s)))"

definition running_bindings :: "adapter_manager \<Rightarrow> adapter_binding list" where
  "running_bindings s = map (\<lambda>(slot, i). (in_binding i)\<lparr>pb_fingerprint := in_fingerprint i\<rparr>) (mg_instances s)"

section \<open>Status events (\<open>service.go\<close>)\<close>

record adapter_state =
  st_adapter :: string
  st_fingerprint :: string
  st_started_at :: time_ns

record adapter_service =
  sv_state :: "(string, adapter_state) gomap"
  sv_events :: "adapter_status_event list"

definition binding_fingerprint :: "manager_answers \<Rightarrow> adapter_binding \<Rightarrow> string" where
  "binding_fingerprint me b =
     (if trim_space (pb_fingerprint b) \<noteq> [] then trim_space (pb_fingerprint b)
      else
        let raw = trim_space (pb_raw_config b);
            raw = (if raw = [] \<and> pb_config b \<noteq> [] then (case me_json_config me (pb_config b) of None \<Rightarrow> [] | Some j \<Rightarrow> j) else raw)
        in pb_adapter_id b @ ''|'' @ raw)"

definition stopped_event :: "string \<Rightarrow> adapter_state \<Rightarrow> adapter_status_event" where
  "stopped_event slot st = \<lparr>se_adapter_id = st_adapter st, se_slot = slot, se_status = Health_Stopped, se_extra = []\<rparr>"

definition ready_event :: "string \<Rightarrow> adapter_binding \<Rightarrow> adapter_status_event" where
  "ready_event slot b = \<lparr>se_adapter_id = pb_adapter_id b, se_slot = slot, se_status = Health_Ready, se_extra = pb_runtime b\<rparr>"

text \<open>The map of what runs, by slot; the last one of a slot counts.\<close>

fun by_slot :: "adapter_binding list \<Rightarrow> (string, adapter_binding) gomap \<Rightarrow> (string, adapter_binding) gomap" where
  "by_slot [] m = m"
| "by_slot (b # bs) m = by_slot bs (mput (pb_slot b) b m)"

text \<open>The first loop of \<open>updateState\<close>, over a copy of the state, and the second one.\<close>

fun emit_stopped ::
    "manager_answers \<Rightarrow> (string, adapter_binding) gomap \<Rightarrow> (string \<times> adapter_state) list \<Rightarrow> adapter_service \<Rightarrow> adapter_service" where
  "emit_stopped me running [] s = s"
| "emit_stopped me running ((slot, st) # current) s =
     (let gone = (case map_of running slot of None \<Rightarrow> True | Some b \<Rightarrow> st_fingerprint st \<noteq> binding_fingerprint me b)
      in emit_stopped me running current
           (if gone then s\<lparr>sv_state := mdel slot (sv_state s), sv_events := sv_events s @ [stopped_event slot st]\<rparr> else s))"

fun emit_ready ::
    "manager_answers \<Rightarrow> time_ns \<Rightarrow> (string \<times> adapter_binding) list \<Rightarrow> adapter_service \<Rightarrow> adapter_service" where
  "emit_ready me now [] s = s"
| "emit_ready me now ((slot, b) # running) s =
     (let fp = binding_fingerprint me b;
          known = (case map_of (sv_state s) slot of None \<Rightarrow> False | Some st \<Rightarrow> st_fingerprint st = fp)
      in emit_ready me now running
           (if known then s
            else s\<lparr>sv_state := mput slot \<lparr>st_adapter = pb_adapter_id b, st_fingerprint = fp, st_started_at = now\<rparr> (sv_state s),
                   sv_events := sv_events s @ [ready_event slot b]\<rparr>))"

definition update_state :: "manager_answers \<Rightarrow> time_ns \<Rightarrow> adapter_binding list \<Rightarrow> adapter_service \<Rightarrow> adapter_service" where
  "update_state me now running s =
     (let m = by_slot running [] in emit_ready me now m (emit_stopped me m (sv_state s) s))"

section \<open>Processes are processes_ok for\<close>

definition handle_of :: "adapter_instance \<Rightarrow> nat multiset" where
  "handle_of i = (case in_handle i of None \<Rightarrow> {#} | Some h \<Rightarrow> {#h#})"

fun handles :: "(string, adapter_instance) gomap \<Rightarrow> nat multiset" where
  "handles [] = {#}"
| "handles ((k, i) # m) = handle_of i + handles m"

definition processes_ok :: "adapter_manager \<Rightarrow> bool" where
  "processes_ok s \<longleftrightarrow> mwf (mg_instances s) \<and>
     handles (mg_instances s) + mset (mg_stopped s) + mset (mg_abandoned s) = mset [0..<mg_launched s]"

text \<open>The same while an instance that was started is not in the map yet.\<close>

definition pending :: "adapter_instance \<Rightarrow> adapter_manager \<Rightarrow> bool" where
  "pending i s \<longleftrightarrow> mwf (mg_instances s) \<and>
     handle_of i + handles (mg_instances s) + mset (mg_stopped s) + mset (mg_abandoned s) = mset [0..<mg_launched s]"

lemma handles_append [simp]: "handles (m @ m') = handles m + handles m'"
  by (induction m rule: handles.induct) (simp_all add: ac_simps)

lemma handles_mdel: "mwf m \<Longrightarrow> map_of m k = Some i \<Longrightarrow> handles m = handle_of i + handles (mdel k m)"
proof (induction m rule: handles.induct)
  case (2 k' j m)
  show ?case
  proof (cases "k' = k")
    case True
    with 2 have "mdel k m = m" by (intro mdel_fresh) (simp add: mwf_def map_of_eq_None_iff)
    with True 2 show ?thesis by simp
  next
    case False
    with 2 show ?thesis by (simp add: mwf_def ac_simps)
  qed
qed simp

lemma untracked: "processes_ok s \<Longrightarrow> map_of (mg_instances s) slot = Some i \<Longrightarrow> pending i (untrack slot s)"
  by (simp add: processes_ok_def pending_def handles_mdel [symmetric])

lemma tracked: "pending i s \<Longrightarrow> map_of (mg_instances s) slot = None \<Longrightarrow> processes_ok (track slot i s)"
  by (simp add: processes_ok_def pending_def mput_new ac_simps) (simp add: mwf_def map_of_eq_None_iff)

lemma attempts_instances: "mg_instances (snd (launch_attempts me p k n s)) = mg_instances s"
  by (induction me p k n s rule: launch_attempts.induct) (auto simp: Let_def split: option.split)

lemma start_instances: "mg_instances (snd (start_adapter me p s)) = mg_instances s"
  by (simp add: start_adapter_def Let_def attempts_instances)

lemma attempts_accounted:
  "processes_ok s \<Longrightarrow> (case launch_attempts me p k n s of (None, s') \<Rightarrow> processes_ok s' | (Some i, s') \<Rightarrow> pending i s')"
proof (induction me p k n s rule: launch_attempts.induct)
  case (2 me p k n s)
  then show ?case
    by (auto simp: Let_def processes_ok_def pending_def handle_of_def instance_of_def atLeast0_lessThan_Suc ac_simps split: option.split)
qed simp

lemma start_accounted:
  "processes_ok s \<Longrightarrow> (case start_adapter me p s of (None, s') \<Rightarrow> processes_ok s' | (Some i, s') \<Rightarrow> pending i s')"
  using attempts_accounted [of s me p process_launch_max_attempts 0]
  by (auto simp: start_adapter_def Let_def pending_def processes_ok_def handle_of_def instance_of_def)

lemma start_tracked:
  assumes "processes_ok s" and "map_of (mg_instances s) slot = None" and "start_adapter me p s = (r, s')"
  shows "case r of None \<Rightarrow> processes_ok s' | Some i \<Rightarrow> processes_ok (track slot i s')"
proof -
  have "map_of (mg_instances s') slot = None" using start_instances [of me p s] assms(2,3) by simp
  with start_accounted [OF assms(1), of me p] assms(3) tracked [of _ s' slot] show ?thesis by (simp split: option.splits)
qed

lemma stop_instances: "mg_instances (snd (stop_adapter me i s)) = mg_instances s"
  by (simp add: stop_adapter_def split: option.split)

text \<open>A stop that fails changes nothing; after one that succeeds the instance has to leave the map.\<close>

lemma stop_fails: "stop_adapter me i s = (False, s') \<Longrightarrow> s' = s"
  by (auto simp: stop_adapter_def split: option.splits if_splits)

lemma stop_accounted:
  assumes "processes_ok s" and "map_of (mg_instances s) slot = Some i" and "stop_adapter me i s = (True, s')"
  shows "processes_ok (untrack slot s')"
  using untracked [OF assms(1,2)] assms(3)
  by (auto simp: stop_adapter_def processes_ok_def pending_def handle_of_def ac_simps split: option.splits if_splits)

lemma apply_plan_accounted: "processes_ok s \<Longrightarrow> processes_ok (snd (apply_plan me slot p s))"
proof (cases "map_of (mg_instances s) slot")
  case None
  assume a: "processes_ok s"
  obtain r s' where st: "start_adapter me p s = (r, s')" by fastforce
  from start_tracked [OF a None st] None st show ?thesis by (auto simp: apply_plan_def split: option.splits)
next
  case (Some i)
  assume a: "processes_ok s"
  obtain ok s1 where sp: "stop_adapter me i s = (ok, s1)" by fastforce
  obtain r s2 where st: "start_adapter me p (untrack slot s1) = (r, s2)" by fastforce
  show ?thesis
  proof (cases ok)
    case True
    with stop_accounted [OF a Some] sp have "processes_ok (untrack slot s1)" by simp
    from start_tracked [OF this _ st, of slot] Some sp st True a show ?thesis
      by (auto simp: apply_plan_def split: option.splits)
  next
    case False
    with sp have "s1 = s" by (intro stop_fails) simp
    with False Some sp a show ?thesis by (simp add: apply_plan_def)
  qed
qed

lemma apply_plans_accounted: "processes_ok s \<Longrightarrow> processes_ok (snd (apply_plans me plans s))"
proof (induction me plans s rule: apply_plans.induct)
  case (2 me slot p plans s)
  obtain e s1 where a: "apply_plan me slot p s = (e, s1)" by fastforce
  with apply_plan_accounted [OF "2.prems", of me slot p] have "processes_ok s1" by simp
  with "2.IH" [OF a [symmetric] refl] a show ?case by (simp add: split: prod.split) (metis snd_conv)
qed simp

lemma stop_others_accounted:
  assumes "processes_ok s" and "mwf todo" and "\<forall>(slot, i) \<in> set todo. map_of (mg_instances s) slot = Some i"
  shows "processes_ok (snd (stop_others me keep todo s))"
  using assms
proof (induction me keep todo s rule: stop_others.induct)
  case (2 me keep slot i rest s)
  show ?case
  proof (cases "slot \<in> set keep")
    case True
    with 2 show ?thesis by (simp add: mwf_def)
  next
    case False
    obtain ok s1 where sp: "stop_adapter me i s = (ok, s1)" by fastforce
    define s2 where "s2 = (if ok then untrack slot s1 else s1)"
    have i1: "mg_instances s1 = mg_instances s" using stop_instances [of me i s] sp by simp
    have "processes_ok s2"
    proof (cases ok)
      case True
      with stop_accounted [OF "2.prems"(1), of slot i me s1] sp "2.prems"(3) show ?thesis by (simp add: s2_def)
    next
      case False
      with sp have "s1 = s" by (intro stop_fails) simp
      with False "2.prems"(1) show ?thesis by (simp add: s2_def)
    qed
    moreover have "\<forall>(k, j) \<in> set rest. map_of (mg_instances s2) k = Some j"
      using "2.prems"(2,3) i1 by (force simp: s2_def mwf_def)
    ultimately have "processes_ok (snd (stop_others me keep rest s2))"
      using "2.IH"(2) [OF False sp [symmetric]] "2.prems"(2) by (simp add: s2_def mwf_def)
    with False sp show ?thesis by (simp add: Let_def s2_def split: prod.split) (metis snd_conv)
  qed
qed simp

text \<open>The runs of a manager: its calls in any order, with any answers.\<close>

inductive manager_run :: "adapter_manager \<Rightarrow> bool" where
  fresh: "manager_run \<lparr>mg_slots = slots, mg_instances = [], mg_launched = 0, mg_stopped = [], mg_abandoned = []\<rparr>"
| ensured: "manager_run s \<Longrightarrow> manager_run (snd (ensure me s))"
| slot_stopped: "manager_run s \<Longrightarrow> manager_run (snd (stop_slot me slot s))"
| all_stopped: "manager_run s \<Longrightarrow> manager_run (snd (stop_manager me s))"

lemma own_entries: "mwf m \<Longrightarrow> \<forall>(k, v) \<in> set m. map_of m k = Some v"
  by (auto simp: mwf_def)

lemma ensure_accounted: "processes_ok s \<Longrightarrow> processes_ok (snd (ensure me s))"
proof (cases "load_active_bindings me s")
  case None
  then show "processes_ok s \<Longrightarrow> ?thesis" by (simp add: ensure_def)
next
  case (Some active)
  assume a: "processes_ok s"
  obtain plans errs where p: "prepare_all me active = (plans, errs)" by fastforce
  obtain e1 s1 where a1: "apply_plans me plans s = (e1, s1)" by fastforce
  obtain e2 s2 where a2: "stop_others me (map fst plans) (mg_instances s1) s1 = (e2, s2)" by fastforce
  from apply_plans_accounted [OF a, of me plans] a1 have s1: "processes_ok s1" by simp
  then have "mwf (mg_instances s1)" by (simp add: processes_ok_def)
  from stop_others_accounted [OF s1 this own_entries [OF this], of me "map fst plans"] a2 have "processes_ok s2" by simp
  with a Some p a1 a2 show ?thesis by (simp add: ensure_def)
qed

lemma manager_run_accounted: "manager_run s \<Longrightarrow> processes_ok s"
proof (induction rule: manager_run.induct)
  case (fresh slots)
  show ?case by (simp add: processes_ok_def)
next
  case (ensured s me)
  then show ?case by (simp add: ensure_accounted)
next
  case (slot_stopped s me slot)
  show ?case
  proof (cases "map_of (mg_instances s) slot")
    case None
    with slot_stopped show ?thesis by (simp add: stop_slot_def)
  next
    case (Some i)
    obtain ok s1 where sp: "stop_adapter me i s = (ok, s1)" by fastforce
    from Some slot_stopped.IH sp stop_accounted [of s slot i me s1] stop_fails [of me i s s1]
    show ?thesis by (cases ok) (auto simp: stop_slot_def)
  qed
next
  case (all_stopped s me)
  then have "mwf (mg_instances s)" by (simp add: processes_ok_def)
  from stop_others_accounted [OF all_stopped.IH this own_entries [OF this]] show ?case by (simp add: stop_manager_def)
qed

text \<open>
  C19: No process gets lost. In every run of the manager, with any failure of launches, readiness checks and stops, each process
  that was ever launched is exactly one of these: the process of one instance in the map, stopped, or given up because it did not get ready.
\<close>

theorem processes_accounted:
  assumes "manager_run s"
  shows "handles (mg_instances s) + mset (mg_stopped s) + mset (mg_abandoned s) = mset [0..<mg_launched s]"
  using manager_run_accounted [OF assms] by (simp add: processes_ok_def)

section \<open>Fingerprints\<close>

lemma config_word_ignores [simp]:
  "config_word me (b\<lparr>pb_fingerprint := x\<rparr>) = config_word me b" "config_word me (b\<lparr>pb_runtime := r\<rparr>) = config_word me b"
  by (simp_all add: config_word_def cong: if_cong)

lemma fingerprint_ignores [simp]:
  "compute_plan_fingerprint me (b\<lparr>pb_fingerprint := x\<rparr>) mf raw ep = compute_plan_fingerprint me b mf raw ep"
  "compute_plan_fingerprint me (b\<lparr>pb_runtime := r\<rparr>) mf raw ep = compute_plan_fingerprint me b mf raw ep"
  by (simp_all add: compute_plan_fingerprint_def)

text \<open>The transports the table of endpoints admits; its \<open>CHECK\<close> constraint lists them.\<close>

definition known_transports :: "string list" where "known_transports = [''process'', ''grpc'', ''http'']"

definition stores_transports :: "manager_answers \<Rightarrow> bool" where
  "stores_transports me \<longleftrightarrow> (\<forall>aid e. me_endpoint me aid = Found e \<longrightarrow> ep_transport e \<in> set known_transports)"

definition transport_settled :: "adapter_endpoint \<Rightarrow> bool" where
  "transport_settled ep \<longleftrightarrow> ep_transport ep \<in> set known_transports \<or> ep_transport ep = [] \<and> ep_command ep = []"

lemma normalize_transport_known: "normalize_adapter_transport v = Some t \<Longrightarrow> t = [] \<or> t \<in> set known_transports"
  by (auto simp: normalize_adapter_transport_def known_transports_def Let_def split: if_splits)

lemma merged_transport:
  assumes "merge_manifest_endpoint mf aid ep0 = Some ep" and "transport_settled ep0"
  shows "transport_settled ep"
proof (cases "Option.bind mf mf_adapter")
  case None
  with assms show ?thesis by (auto simp: merge_manifest_endpoint_def transport_settled_def Let_def split: if_splits)
next
  case (Some spec)
  from assms(1) Some obtain nt where nt: "normalize_adapter_transport (if trim_space (ep_transport ep0) = [] then trim_space (as_transport spec)
      else trim_space (ep_transport ep0)) = Some nt" and t: "ep_transport ep = (if nt = [] then ''process'' else nt)"
    by (auto simp: merge_manifest_endpoint_def Let_def split: if_splits option.splits)
  from normalize_transport_known [OF nt] t show ?thesis by (auto simp: transport_settled_def known_transports_def)
qed

text \<open>A plan for an adapter: its fingerprint is that of its parts, and its transport is settled.\<close>

definition plan_ok :: "manager_answers \<Rightarrow> binding_plan \<Rightarrow> bool" where
  "plan_ok me p \<longleftrightarrow> transport_settled (pl_endpoint p) \<and>
     pl_fingerprint p = compute_plan_fingerprint me (pl_binding p) (pl_manifest p) (sa_manifest (pl_adapter p)) (pl_endpoint p)"

lemma finish_plan_ok: "transport_settled (pl_endpoint p) \<Longrightarrow> plan_ok me (finish_plan me p)"
  by (simp add: plan_ok_def finish_plan_def Let_def)

lemma prepared_ok:
  assumes "prepare_binding me b = Some p" and "stores_transports me" and "pb_adapter_id b \<noteq> []"
  shows "plan_ok me p"
proof (cases "me_source me")
  case False
  with assms show ?thesis
    by (auto simp: prepare_binding_def transport_settled_def empty_endpoint_def intro!: finish_plan_ok)
next
  case True
  from assms(1,3) True obtain mf ep0 p0 where p: "p = finish_plan me p0" and e: "lookup_endpoint me (pb_adapter_id b) = Some ep0"
      "merge_manifest_endpoint mf (pb_adapter_id b) ep0 = Some (pl_endpoint p0)"
    by (fastforce simp: prepare_binding_def Let_def split: option.splits)
  from e(1) assms(2) have "transport_settled ep0"
    by (auto simp: lookup_endpoint_def transport_settled_def stores_transports_def empty_endpoint_def split: lookup.splits)
  from merged_transport [OF e(2) this] show ?thesis unfolding p by (rule finish_plan_ok)
qed

lemma attempts_instance:
  "launch_attempts me p k n s = (Some i, s') \<Longrightarrow>
    \<exists>rt addr h. i = instance_of me p rt (pl_endpoint p\<lparr>ep_transport := ''process'', ep_address := addr\<rparr>) h"
  by (induction me p k n s rule: launch_attempts.induct) (auto simp: Let_def split: if_splits option.splits)

lemma known_trim: "t \<in> set known_transports \<Longrightarrow> trim_space t = t"
  using lower_word [of t] by (auto simp: known_transports_def)

lemma start_cases:
  assumes "start_adapter me p s = (Some i, s')"
  shows "(\<exists>rt h. i = instance_of me p rt (pl_endpoint p) h) \<or>
    launch_attempts me p process_launch_max_attempts 0 s = (Some i, s') \<and>
    trim_space (ep_transport (pl_endpoint p)) \<in> {[], ''process''} \<and> trim_space (ep_command (pl_endpoint p)) \<noteq> []"
  using assms unfolding start_adapter_def Let_def by (auto split: if_split_asm)

text \<open>The address that a process got at its start is no part of its fingerprint.\<close>

lemma start_fingerprint:
  assumes "plan_ok me p" and "start_adapter me p s = (Some i, s')"
  shows "in_fingerprint i = pl_fingerprint p"
proof -
  let ?ep = "pl_endpoint p"
  have same: "in_fingerprint (instance_of me p rt ?ep h) = pl_fingerprint p" for rt h
    using assms(1) by (simp add: instance_of_def plan_ok_def Let_def)
  from start_cases [OF assms(2)] show ?thesis
  proof
    assume "\<exists>rt h. i = instance_of me p rt ?ep h"
    with same show ?thesis by blast
  next
    assume "launch_attempts me p process_launch_max_attempts 0 s = (Some i, s') \<and>
      trim_space (ep_transport ?ep) \<in> {[], ''process''} \<and> trim_space (ep_command ?ep) \<noteq> []"
    then have l: "launch_attempts me p process_launch_max_attempts 0 s = (Some i, s')"
      and t: "trim_space (ep_transport ?ep) \<in> {[], ''process''}" and c: "ep_command ?ep \<noteq> []" by auto
    from assms(1) c have k: "ep_transport ?ep \<in> set known_transports" by (simp add: plan_ok_def transport_settled_def)
    from t k have tp: "ep_transport ?ep = ''process''" unfolding known_trim [OF k] by (auto simp: known_transports_def)
    from attempts_instance [OF l] obtain rt addr h
      where i: "i = instance_of me p rt (?ep\<lparr>ep_transport := ''process'', ep_address := addr\<rparr>) h" by blast
    have "endpoint_words (?ep\<lparr>ep_transport := ''process'', ep_address := addr\<rparr>) = endpoint_words ?ep"
      using tp by (simp add: endpoint_words_def)
    then have "in_fingerprint i = in_fingerprint (instance_of me p rt ?ep h)"
      by (simp add: i instance_of_def compute_plan_fingerprint_def Let_def)
    with same show ?thesis by simp
  qed
qed

text \<open>
  The fingerprint confuses arguments and environment. Its words carry no lengths, so that the last two arguments of an endpoint
  without environment and a variable of the same name and value give the same fingerprint, and a change from one to the other does
  not restart the adapter.
\<close>

theorem fingerprint_confuses_env:
  "compute_plan_fingerprint me b mf raw (ep\<lparr>ep_args := args @ [k, v], ep_env := []\<rparr>) =
   compute_plan_fingerprint me b mf raw (ep\<lparr>ep_args := args, ep_env := [(k, v)]\<rparr>)"
  by (simp add: compute_plan_fingerprint_def endpoint_words_def Let_def)

section \<open>Reconciliation settles\<close>

lemma apply_plan_done:
  assumes "apply_plan me slot p s = ([], s')" and "plan_ok me p"
  shows "(\<exists>i. map_of (mg_instances s') slot = Some i \<and> in_fingerprint i = pl_fingerprint p) \<and>
    (\<forall>k. k \<noteq> slot \<longrightarrow> map_of (mg_instances s') k = map_of (mg_instances s) k)"
proof (cases "map_of (mg_instances s) slot")
  case None
  with assms(1) obtain i s1 where "start_adapter me p s = (Some i, s1)" "s' = track slot i s1"
    by (auto simp: apply_plan_def split: prod.splits option.splits)
  with start_fingerprint [OF assms(2)] start_instances [of me p s] show ?thesis by auto
next
  case (Some current)
  show ?thesis
  proof (cases "in_fingerprint current = pl_fingerprint p")
    case True
    with Some assms(1) show ?thesis by (simp add: apply_plan_def)
  next
    case False
    with Some assms(1) obtain s1 i s2 where sp: "stop_adapter me current s = (True, s1)"
      and st: "start_adapter me p (untrack slot s1) = (Some i, s2)" "s' = track slot i s2"
      by (auto simp: apply_plan_def split: prod.splits option.splits bool.splits)
    from sp stop_instances [of me current s] have "mg_instances s1 = mg_instances s" by simp
    with st start_fingerprint [OF assms(2) st(1)] start_instances [of me p "untrack slot s1"] show ?thesis by auto
  qed
qed

lemma apply_plans_done:
  assumes "apply_plans me plans s = ([], s')" and "distinct (map fst plans)" and "\<forall>(slot, p) \<in> set plans. plan_ok me p"
  shows "(\<forall>(slot, p) \<in> set plans. \<exists>i. map_of (mg_instances s') slot = Some i \<and> in_fingerprint i = pl_fingerprint p) \<and>
    (\<forall>k. k \<notin> fst ` set plans \<longrightarrow> map_of (mg_instances s') k = map_of (mg_instances s) k)"
  using assms
proof (induction plans arbitrary: s)
  case (Cons sp plans)
  obtain slot p where sp: "sp = (slot, p)" by fastforce
  from Cons.prems(1) obtain s1 where a: "apply_plan me slot p s = ([], s1)" and r: "apply_plans me plans s1 = ([], s')"
    by (auto simp: sp split: prod.splits)
  from Cons.prems sp have ok: "plan_ok me p" and fresh: "slot \<notin> fst ` set plans" by auto
  note d = apply_plan_done [OF a ok]
  note i = Cons.IH [OF r]
  from Cons.prems(2,3) i have
    all: "\<forall>(slot, p) \<in> set plans. \<exists>i. map_of (mg_instances s') slot = Some i \<and> in_fingerprint i = pl_fingerprint p"
    and rest: "\<And>k. k \<notin> fst ` set plans \<Longrightarrow> map_of (mg_instances s') k = map_of (mg_instances s1) k" by simp_all
  from all d rest [OF fresh] rest show ?case by (auto simp: sp)
qed simp

lemma stop_others_done:
  assumes "stop_others me keep todo s = ([], s')"
  shows "map_of (mg_instances s') k = (if k \<in> fst ` set todo \<and> k \<notin> set keep then None else map_of (mg_instances s) k)"
  using assms
proof (induction todo arbitrary: s)
  case (Cons x todo)
  obtain slot i where x: "x = (slot, i)" by fastforce
  show ?case
  proof (cases "slot \<in> set keep")
    case True
    with Cons x show ?thesis by auto
  next
    case False
    from False Cons.prems x obtain s1 where sp: "stop_adapter me i s = (True, s1)"
      and r: "stop_others me keep todo (untrack slot s1) = ([], s')"
      by (auto simp: Let_def split: prod.splits if_splits)
    from sp stop_instances [of me i s] have "mg_instances s1 = mg_instances s" by simp
    with Cons.IH [OF r] False x show ?thesis by auto
  qed
qed simp

lemma apply_plans_settled:
  "\<forall>(slot, p) \<in> set plans. \<exists>i. map_of (mg_instances s) slot = Some i \<and> in_fingerprint i = pl_fingerprint p \<Longrightarrow>
    apply_plans me plans s = ([], s)"
  by (induction plans) (auto simp: apply_plan_def)

lemma stop_others_kept: "fst ` set todo \<subseteq> set keep \<Longrightarrow> stop_others me keep todo s = ([], s)"
  by (induction todo) auto

lemma attempts_slots: "mg_slots (snd (launch_attempts me p k n s)) = mg_slots s"
  by (induction me p k n s rule: launch_attempts.induct) (auto simp: Let_def split: option.split)

lemma start_slots: "start_adapter me p s = (r, s') \<Longrightarrow> mg_slots s' = mg_slots s"
  using attempts_slots [of me p process_launch_max_attempts 0 s]
  unfolding start_adapter_def Let_def by (auto split: if_split_asm)

lemma stop_slots: "stop_adapter me i s = (r, s') \<Longrightarrow> mg_slots s' = mg_slots s"
  by (auto simp: stop_adapter_def split: option.splits if_splits)

lemma apply_plan_slots: "apply_plan me slot p s = (e, s') \<Longrightarrow> mg_slots s' = mg_slots s"
  by (auto simp: apply_plan_def split: option.splits prod.splits bool.splits if_splits dest!: start_slots stop_slots)

lemma apply_plans_slots: "apply_plans me plans s = (e, s') \<Longrightarrow> mg_slots s' = mg_slots s"
  by (induction plans arbitrary: s e) (auto split: prod.splits dest: apply_plan_slots)

lemma stop_others_slots: "stop_others me keep todo s = (e, s') \<Longrightarrow> mg_slots s' = mg_slots s"
proof (induction todo arbitrary: s e)
  case (Cons x todo)
  obtain slot i where x: "x = (slot, i)" by fastforce
  obtain ok s1 where sp: "stop_adapter me i s = (ok, s1)" by fastforce
  with stop_slots have "mg_slots s1 = mg_slots s" by blast
  with Cons x sp show ?case by (auto simp: Let_def split: prod.splits if_splits)
qed simp

lemma prepare_all_ok:
  "prepare_all me active = (plans, []) \<Longrightarrow>
    map fst plans = map fst active \<and> list_all2 (\<lambda>(_, b) (_, p). prepare_binding me b = Some p) active plans"
  by (induction active arbitrary: plans) (auto split: prod.splits option.splits)

lemma list_all2_map_of:
  assumes "list_all2 (\<lambda>(_, b) (_, p). Q b p) xs ys" and "map fst ys = map fst xs" and "map_of xs k = Some b"
  shows "\<exists>p. (k, p) \<in> set ys \<and> Q b p"
  using assms by (induction xs ys rule: list_all2_induct) (auto split: if_splits)

lemma active_bindings_ok:
  "active_bindings me slots rs m = Some m' \<Longrightarrow> mwf m \<and> (\<forall>(_, b) \<in> set m. pb_adapter_id b \<noteq> []) \<Longrightarrow>
    mwf m' \<and> (\<forall>(_, b) \<in> set m'. pb_adapter_id b \<noteq> [])"
proof (induction rs arbitrary: m)
  case (Cons r rs)
  from Cons.prems(1) obtain m1 where m1: "active_bindings me slots rs m1 = Some m'"
    and c: "m1 = m \<or> (\<exists>b. m1 = mput (ab_slot r) b m \<and> pb_adapter_id b \<noteq> [])"
    by (fastforce split: if_splits option.splits)
  have "mwf m1 \<and> (\<forall>(_, b) \<in> set m1. pb_adapter_id b \<noteq> [])"
    using c Cons.prems(2) ball_mput [of "\<lambda>(_, b). pb_adapter_id b \<noteq> []" "ab_slot r" _ m] by auto
  with Cons.IH [OF m1] show ?case .
qed simp

definition orders :: "manager_answers \<Rightarrow> bool" where
  "orders me \<longleftrightarrow> (\<forall>m. mset (me_order me m) = mset m)"

lemma loaded_ok:
  assumes "load_active_bindings me s = Some active" and "orders me"
  shows "mwf active \<and> (\<forall>(_, b) \<in> set active. pb_adapter_id b \<noteq> [])"
proof -
  from assms(1) obtain rs m where m: "active_bindings me (mg_slots s) rs [] = Some m" "active = me_order me m"
    by (auto simp: load_active_bindings_def split: option.splits)
  have e: "mset active = mset m" using assms(2) m(2) by (simp add: orders_def)
  then have "mset (keys active) = mset (keys m)" by simp
  then have "distinct (keys active) = distinct (keys m)" by (rule mset_eq_imp_distinct_iff)
  moreover have "set active = set m" using e by (rule mset_eq_setD)
  ultimately show ?thesis using active_bindings_ok [OF m(1)] by (simp add: mwf_def)
qed

text \<open>
  C20: The reconciliation settles. When \<open>Ensure\<close> reports no error, exactly the slots with an active binding have an instance, and each instance has the
  fingerprint of the plan of its binding; a second \<open>Ensure\<close> with the same answers starts and stops nothing.
\<close>

theorem ensure_settles:
  assumes "manager_run s" and "ensure me s = ([], s')" and "orders me" and "stores_transports me"
  shows "\<exists>active. load_active_bindings me s = Some active \<and>
    (\<forall>slot. case map_of active slot of
        None \<Rightarrow> map_of (mg_instances s') slot = None
      | Some b \<Rightarrow> \<exists>p i. prepare_binding me b = Some p \<and> map_of (mg_instances s') slot = Some i \<and> in_fingerprint i = pl_fingerprint p) \<and>
    ensure me s' = ([], s')"
proof -
  from assms(2) obtain active where load: "load_active_bindings me s = Some active" by (auto simp: ensure_def split: option.splits)
  obtain plans errs where p: "prepare_all me active = (plans, errs)" by fastforce
  obtain e1 s1 where a1: "apply_plans me plans s = (e1, s1)" by fastforce
  obtain e2 s2 where a2: "stop_others me (map fst plans) (mg_instances s1) s1 = (e2, s2)" by fastforce
  from assms(2) load p a1 a2 have none: "errs = []" "e1 = []" "e2 = []" and s2: "s2 = s'" by (auto simp: ensure_def split: if_splits)
  note act = loaded_ok [OF load assms(3)]
  from prepare_all_ok p none(1) have keys: "map fst plans = map fst active"
    and all: "list_all2 (\<lambda>(_, b) (_, p). prepare_binding me b = Some p) active plans" by blast+
  have dist: "distinct (map fst plans)" using keys act by (simp add: mwf_def)
  have ok: "\<forall>(slot, p) \<in> set plans. plan_ok me p"
    using all act prepared_ok [OF _ assms(4)] by (fastforce simp: list_all2_conv_all_nth in_set_conv_nth)
  from apply_plans_done [OF a1 [unfolded none(2)] dist ok]
  have fits: "\<forall>(slot, p) \<in> set plans. \<exists>i. map_of (mg_instances s1) slot = Some i \<and> in_fingerprint i = pl_fingerprint p" by simp
  have keep: "map_of (mg_instances s') k = (if k \<in> fst ` set plans then map_of (mg_instances s1) k else None)" for k
  proof -
    have "map_of (mg_instances s1) k = None" if "k \<notin> fst ` set (mg_instances s1)" using that by (simp add: map_of_eq_None_iff)
    with stop_others_done [OF a2 [unfolded none(3)], of k] s2 show ?thesis by auto
  qed
  with fits have fits': "\<forall>(slot, p) \<in> set plans. \<exists>i. map_of (mg_instances s') slot = Some i \<and> in_fingerprint i = pl_fingerprint p"
    by (force simp: image_iff)
  have "processes_ok s'" using ensure_accounted [OF manager_run_accounted [OF assms(1)], of me] assms(2) by simp
  then have "fst ` set (mg_instances s') \<subseteq> set (map fst plans)"
    using keep by (metis processes_ok_def dom_map_of_conv_image_fst domIff image_set subsetI)
  then have "stop_others me (map fst plans) (mg_instances s') s' = ([], s')" by (rule stop_others_kept)
  moreover have "mg_slots s' = mg_slots s" using apply_plans_slots [OF a1] stop_others_slots [OF a2] s2 by simp
  then have "load_active_bindings me s' = Some active" using load by (simp only: load_active_bindings_def)
  ultimately have "ensure me s' = ([], s')"
    using p none apply_plans_settled [OF fits'] by (simp add: ensure_def)
  moreover have "case map_of active slot of None \<Rightarrow> map_of (mg_instances s') slot = None
      | Some b \<Rightarrow> \<exists>p i. prepare_binding me b = Some p \<and> map_of (mg_instances s') slot = Some i \<and> in_fingerprint i = pl_fingerprint p" for slot
  proof (cases "map_of active slot")
    case None
    then have "slot \<notin> fst ` set plans" using keys by (metis image_set map_of_eq_None_iff)
    with None keep show ?thesis by simp
  next
    case (Some b)
    from list_all2_map_of [OF all keys Some] fits' Some show ?thesis by fastforce
  qed
  ultimately show ?thesis using load by blast
qed

lemma prepare_all_spec:
  "prepare_all me active = (plans, errs) \<Longrightarrow>
    map fst plans = map fst (filter (\<lambda>x. prepare_binding me (snd x) \<noteq> None) active) \<and>
    errs = map (Prepare_Failed \<circ> fst) (filter (\<lambda>x. prepare_binding me (snd x) = None) active)"
  by (induction active arbitrary: plans errs) (auto split: prod.splits option.splits)

lemma apply_plan_other: "apply_plan me slot p s = (e, s') \<Longrightarrow> k \<noteq> slot \<Longrightarrow> map_of (mg_instances s') k = map_of (mg_instances s) k"
proof -
  assume a: "apply_plan me slot p s = (e, s')" and k: "k \<noteq> slot"
  have start: "start_adapter me p t = (r, t') \<Longrightarrow> mg_instances t' = mg_instances t" for t r t'
    using start_instances [of me p t] by simp
  have stop: "stop_adapter me i s = (r, t') \<Longrightarrow> mg_instances t' = mg_instances s" for i r t'
    using stop_instances [of me i s] by simp
  show ?thesis using a k
    by (auto simp: apply_plan_def split: option.splits prod.splits bool.splits if_splits dest!: start stop)
qed

lemma apply_plans_other:
  "apply_plans me plans s = (e, s') \<Longrightarrow> k \<notin> fst ` set plans \<Longrightarrow> map_of (mg_instances s') k = map_of (mg_instances s) k"
  by (induction plans arbitrary: s e) (auto split: prod.splits dest: apply_plan_other)

lemma stop_others_clean: "stop_others me keep todo s = (e, s') \<Longrightarrow> \<forall>h. me_stop me h \<noteq> Stop_Fails \<Longrightarrow> e = []"
proof (induction todo arbitrary: s e)
  case (Cons x todo)
  obtain slot i where x: "x = (slot, i)" by fastforce
  obtain ok s1 where sp: "stop_adapter me i s = (ok, s1)" by fastforce
  with Cons.prems(2) have ok by (auto simp: stop_adapter_def split: option.splits)
  with Cons x sp show ?case by (auto simp: Let_def split: prod.splits if_splits)
qed simp

text \<open>
  C21: A plan that fails costs the adapter its process when another plan succeeds. If the binding of a slot whose adapter runs cannot be prepared, be it
  only because the store did not answer, \<open>Ensure\<close> stops the adapter as if it were unbound, unless no binding at all can be prepared: then
  everything is left as it is.
\<close>

theorem failed_plan_stops_adapter:
  assumes "manager_run s" and "load_active_bindings me s = Some active" and "orders me"
    and "map_of active slot = Some b" and "prepare_binding me b = None"
    and "map_of (mg_instances s) slot = Some i" and "\<forall>h. me_stop me h \<noteq> Stop_Fails"
  shows "map_of (mg_instances (snd (ensure me s))) slot =
    (if \<exists>c \<in> snd ` set active. prepare_binding me c \<noteq> None then None else Some i)"
proof -
  obtain plans errs where p: "prepare_all me active = (plans, errs)" by fastforce
  note spec = prepare_all_spec [OF p]
  have member: "(slot, b) \<in> set active" using assms(4) by (rule map_of_SomeD)
  then have errs: "errs \<noteq> []" unfolding conjunct2 [OF spec] using assms(5) by (fastforce simp: filter_empty_conv)
  have "mwf active" using loaded_ok [OF assms(2,3)] by blast
  then have nokeep: "slot \<notin> fst ` set plans"
    using assms(5) member unfolding set_map [symmetric] conjunct1 [OF spec] by (auto simp: mwf_def dest: eq_key_imp_eq_value)
  have "plans = [] \<longleftrightarrow> filter (\<lambda>x. prepare_binding me (snd x) \<noteq> None) active = []"
    using conjunct1 [OF spec] by (metis map_is_Nil_conv)
  then have some: "plans = [] \<longleftrightarrow> \<not> (\<exists>c \<in> snd ` set active. prepare_binding me c \<noteq> None)" by (simp add: filter_empty_conv)
  show ?thesis
  proof (cases "plans = []")
    case True
    with errs assms(2,6) p some show ?thesis by (simp add: ensure_def)
  next
    case False
    obtain e1 s1 where a1: "apply_plans me plans s = (e1, s1)" by fastforce
    obtain e2 s2 where a2: "stop_others me (map fst plans) (mg_instances s1) s1 = (e2, s2)" by fastforce
    have "map_of (mg_instances s1) slot = Some i" using apply_plans_other [OF a1 nokeep] assms(6) by simp
    then have "slot \<in> fst ` set (mg_instances s1)" by (force dest: map_of_SomeD)
    with stop_others_done [OF a2 [unfolded stop_others_clean [OF a2 assms(7)]], of slot] nokeep
    have "map_of (mg_instances s2) slot = None" by simp
    with False some assms(2) p a1 a2 show ?thesis by (simp add: ensure_def)
  qed
qed

section \<open>Status events follow what runs\<close>

text \<open>The statuses that were published for a slot, and that they alternate: ready, stopped, ready and so on.\<close>

definition statuses :: "string \<Rightarrow> adapter_service \<Rightarrow> adapter_health list" where
  "statuses slot s = map se_status (filter (\<lambda>e. se_slot e = slot) (sv_events s))"

fun alternates :: "bool \<Rightarrow> adapter_health list \<Rightarrow> bool" where
  "alternates up [] = True"
| "alternates up (h # hs) = (h = (if up then Health_Stopped else Health_Ready) \<and> alternates (\<not> up) hs)"

text \<open>Whether a slot is up after its statuses.\<close>

definition up_after :: "adapter_health list \<Rightarrow> bool" where
  "up_after hs \<longleftrightarrow> hs \<noteq> [] \<and> last hs = Health_Ready"

lemma alternates_snoc:
  "alternates up (hs @ [h]) \<longleftrightarrow> alternates up hs \<and> h = (if (if hs = [] then up else up_after hs) then Health_Stopped else Health_Ready)"
proof (induction up hs rule: alternates.induct)
  case (2 up g hs)
  then show ?case by (cases hs) (auto simp: up_after_def)
qed (simp add: up_after_def)

definition events_ok :: "adapter_service \<Rightarrow> bool" where
  "events_ok s \<longleftrightarrow> mwf (sv_state s) \<and>
     (\<forall>slot. alternates False (statuses slot s) \<and> (up_after (statuses slot s) \<longleftrightarrow> map_of (sv_state s) slot \<noteq> None))"

lemma statuses_snoc [simp]:
  "statuses k (s\<lparr>sv_state := m, sv_events := sv_events s @ [e]\<rparr>) = statuses k s @ (if se_slot e = k then [se_status e] else [])"
  by (simp add: statuses_def)

lemma up_after_snoc [simp]: "up_after (hs @ [h]) \<longleftrightarrow> h = Health_Ready" "\<not> up_after []"
  by (simp_all add: up_after_def)

lemma alternates_next: "alternates False (hs @ [h]) \<longleftrightarrow> alternates False hs \<and> h = (if up_after hs then Health_Stopped else Health_Ready)"
  by (simp add: alternates_snoc up_after_def)

lemma events_ok_stopped:
  assumes "events_ok s" and "map_of (sv_state s) slot = Some st"
  shows "events_ok (s\<lparr>sv_state := mdel slot (sv_state s), sv_events := sv_events s @ [stopped_event slot st]\<rparr>)"
  using assms by (simp add: events_ok_def stopped_event_def alternates_next)

lemma events_ok_ready:
  assumes "events_ok s" and "map_of (sv_state s) slot = None"
  shows "events_ok (s\<lparr>sv_state := mput slot st (sv_state s), sv_events := sv_events s @ [ready_event slot b]\<rparr>)"
  using assms by (simp add: events_ok_def ready_event_def alternates_next)

text \<open>What the state says about a slot that runs.\<close>

definition matches :: "manager_answers \<Rightarrow> (string, adapter_binding) gomap \<Rightarrow> string \<Rightarrow> adapter_state \<Rightarrow> bool" where
  "matches me running slot st \<longleftrightarrow> (case map_of running slot of None \<Rightarrow> False | Some b \<Rightarrow> st_fingerprint st = binding_fingerprint me b)"

lemma emit_stopped_ok:
  assumes "events_ok s" and "mwf todo" and "\<forall>(slot, st) \<in> set todo. map_of (sv_state s) slot = Some st"
    and "\<forall>slot st. map_of (sv_state s) slot = Some st \<longrightarrow> slot \<in> fst ` set todo \<or> matches me running slot st"
  shows "events_ok (emit_stopped me running todo s) \<and>
    (\<forall>slot st. map_of (sv_state (emit_stopped me running todo s)) slot = Some st \<longrightarrow> matches me running slot st)"
  using assms
proof (induction todo arbitrary: s)
  case (Cons x todo)
  obtain slot st where x: "x = (slot, st)" by fastforce
  with Cons.prems have own: "map_of (sv_state s) slot = Some st" and fresh: "slot \<notin> fst ` set todo" and w: "mwf todo"
    by (auto simp: mwf_def)
  show ?case
  proof (cases "matches me running slot st")
    case True
    then have r: "emit_stopped me running (x # todo) s = emit_stopped me running todo s"
      by (auto simp: x matches_def split: option.splits)
    have "\<forall>k t. map_of (sv_state s) k = Some t \<longrightarrow> k \<in> fst ` set todo \<or> matches me running k t"
    proof (intro allI impI)
      fix k t
      assume k: "map_of (sv_state s) k = Some t"
      with Cons.prems(4) have "k = slot \<or> k \<in> fst ` set todo \<or> matches me running k t" by (simp add: x)
      with k own True show "k \<in> fst ` set todo \<or> matches me running k t" by auto
    qed
    with Cons.IH [of s] Cons.prems w show ?thesis unfolding r by simp
  next
    case False
    let ?s = "s\<lparr>sv_state := mdel slot (sv_state s), sv_events := sv_events s @ [stopped_event slot st]\<rparr>"
    have r: "emit_stopped me running (x # todo) s = emit_stopped me running todo ?s"
      using False by (auto simp: x matches_def split: option.splits)
    have "\<forall>(k, t) \<in> set todo. map_of (sv_state ?s) k = Some t" using Cons.prems(3) fresh x by force
    moreover have "\<forall>k t. map_of (sv_state ?s) k = Some t \<longrightarrow> k \<in> fst ` set todo \<or> matches me running k t"
      using Cons.prems(4) x by auto
    ultimately show ?thesis unfolding r using Cons.IH [of ?s] events_ok_stopped [OF Cons.prems(1) own] w by blast
  qed
qed simp

lemma emit_ready_ok:
  assumes "events_ok s" and "mwf running" and "\<forall>(slot, b) \<in> set todo. map_of running slot = Some b" and "mwf todo"
    and "\<forall>slot st. map_of (sv_state s) slot = Some st \<longrightarrow> matches me running slot st"
  shows "events_ok (emit_ready me now todo s) \<and>
    (\<forall>slot st. map_of (sv_state (emit_ready me now todo s)) slot = Some st \<longrightarrow> matches me running slot st) \<and>
    (\<forall>slot. slot \<in> fst ` set todo \<or> map_of (sv_state s) slot \<noteq> None \<longleftrightarrow> map_of (sv_state (emit_ready me now todo s)) slot \<noteq> None)"
  using assms
proof (induction todo arbitrary: s)
  case (Cons x todo)
  obtain slot b where x: "x = (slot, b)" by fastforce
  with Cons.prems have own: "map_of running slot = Some b" and fresh: "slot \<notin> fst ` set todo" and w: "mwf todo"
    by (auto simp: mwf_def)
  show ?case
  proof (cases "map_of (sv_state s) slot")
    case (Some st)
    with Cons.prems(5) have "matches me running slot st" by blast
    with own have "st_fingerprint st = binding_fingerprint me b" by (simp add: matches_def)
    with Some have r: "emit_ready me now (x # todo) s = emit_ready me now todo s" by (simp add: x)
    from Cons.IH [of s] Cons.prems w Some show ?thesis unfolding r by (auto simp: x)
  next
    case None
    let ?st = "\<lparr>st_adapter = pb_adapter_id b, st_fingerprint = binding_fingerprint me b, st_started_at = now\<rparr>"
    let ?s = "s\<lparr>sv_state := mput slot ?st (sv_state s), sv_events := sv_events s @ [ready_event slot b]\<rparr>"
    have r: "emit_ready me now (x # todo) s = emit_ready me now todo ?s" using None by (simp add: x)
    have "\<forall>k t. map_of (sv_state ?s) k = Some t \<longrightarrow> matches me running k t"
      using Cons.prems(5) own by (simp add: matches_def)
    with Cons.IH [of ?s] events_ok_ready [OF Cons.prems(1) None] Cons.prems(2,3) w
    have ih: "events_ok (emit_ready me now todo ?s) \<and>
        (\<forall>k t. map_of (sv_state (emit_ready me now todo ?s)) k = Some t \<longrightarrow> matches me running k t) \<and>
        (\<forall>k. k \<in> fst ` set todo \<or> map_of (sv_state ?s) k \<noteq> None \<longleftrightarrow> map_of (sv_state (emit_ready me now todo ?s)) k \<noteq> None)"
      by simp
    have "map_of (sv_state ?s) k \<noteq> None \<longleftrightarrow> k = slot \<or> map_of (sv_state s) k \<noteq> None" for k by simp
    moreover have "k \<in> fst ` set (x # todo) \<longleftrightarrow> k = slot \<or> k \<in> fst ` set todo" for k by (simp add: x)
    ultimately show ?thesis using ih unfolding r by metis
  qed
qed simp

lemma by_slot_ok: "mwf m \<Longrightarrow> mwf (by_slot bs m) \<and> (\<forall>k. map_of (by_slot bs m) k \<noteq> None \<longleftrightarrow> k \<in> pb_slot ` set bs \<or> map_of m k \<noteq> None)"
  by (induction bs m rule: by_slot.induct) auto

lemma update_state_ok:
  assumes "events_ok s"
  shows "events_ok (update_state me now running s) \<and>
    (\<forall>slot. map_of (sv_state (update_state me now running s)) slot \<noteq> None \<longleftrightarrow> slot \<in> pb_slot ` set running)"
proof -
  let ?m = "by_slot running []"
  define t where "t = emit_stopped me ?m (sv_state s) s"
  from by_slot_ok [of "[]" running] have m: "mwf ?m" "\<And>k. map_of ?m k \<noteq> None \<longleftrightarrow> k \<in> pb_slot ` set running" by simp_all
  have w: "mwf (sv_state s)" using assms by (simp add: events_ok_def)
  have "events_ok t \<and> (\<forall>slot st. map_of (sv_state t) slot = Some st \<longrightarrow> matches me ?m slot st)"
    unfolding t_def using own_entries [OF w] by (intro emit_stopped_ok [OF assms w]) (auto dest: map_of_SomeD intro: rev_image_eqI)
  note t = this
  from emit_ready_ok [OF conjunct1 [OF t] m(1) own_entries [OF m(1)] m(1) conjunct2 [OF t], of now]
  have e: "events_ok (emit_ready me now ?m t)"
    and d: "\<And>slot. slot \<in> fst ` set ?m \<or> map_of (sv_state t) slot \<noteq> None \<longleftrightarrow> map_of (sv_state (emit_ready me now ?m t)) slot \<noteq> None"
    by blast+
  have "slot \<in> fst ` set ?m \<or> map_of (sv_state t) slot \<noteq> None \<longleftrightarrow> slot \<in> pb_slot ` set running" for slot
  proof -
    have "slot \<in> fst ` set ?m \<longleftrightarrow> map_of ?m slot \<noteq> None" by (simp add: map_of_eq_None_iff)
    moreover have "map_of ?m slot \<noteq> None" if "map_of (sv_state t) slot \<noteq> None"
      using that conjunct2 [OF t] by (fastforce simp: matches_def split: option.splits)
    ultimately show ?thesis using m(2) by blast
  qed
  with e d show ?thesis by (simp add: update_state_def Let_def t_def [symmetric])
qed

text \<open>The service after any updates; what it is told to run is any snapshot of the manager, possibly an old one.\<close>

inductive service_run :: "adapter_service \<Rightarrow> bool" where
  created: "service_run \<lparr>sv_state = [], sv_events = []\<rparr>"
| updated: "service_run s \<Longrightarrow> service_run (update_state me now running s)"

lemma service_run_ok: "service_run s \<Longrightarrow> events_ok s"
proof (induction rule: service_run.induct)
  case created
  show ?case by (simp add: events_ok_def statuses_def up_after_def)
next
  case (updated s me now running)
  then show ?case by (simp add: update_state_ok)
qed

text \<open>
  C23: The start and stop events of a slot alternate. Whatever snapshots the service is given and in whatever order, the events that its
  updates publish for a slot are ready, stopped, ready and so on, and after an update the last of them is ready exactly when the slot is in the
  snapshot. (The probes of running adapters, which are not modelled, add events about their health.)
\<close>

theorem status_events_alternate:
  assumes "service_run s"
  shows "alternates False (statuses slot (update_state me now running s)) \<and>
    (up_after (statuses slot (update_state me now running s)) \<longleftrightarrow> slot \<in> pb_slot ` set running)"
  using update_state_ok [OF service_run_ok [OF assms], of me now running] by (simp add: events_ok_def)

section \<open>A concrete manager\<close>

text \<open>
  Two slots: a process that gets ready at its second attempt, and a builtin adapter. The flag tells whether the store fails on the first one.
\<close>

definition demo_record :: "string \<Rightarrow> string \<Rightarrow> adapter_record" where
  "demo_record slot aid = \<lparr>ab_slot = slot, ab_adapter_id = Some aid, ab_status = ''active'', ab_config = []\<rparr>"

definition demo_process :: adapter_endpoint where
  "demo_process = empty_endpoint\<lparr>ep_adapter_id := ''x'', ep_transport := ''process'', ep_command := ''h''\<rparr>"

definition demo_replies :: "bool \<Rightarrow> manager_answers" where
  "demo_replies fails =
     \<lparr>me_records = Some [demo_record ''ai'' ''x'', demo_record ''tts'' ''adapter.tts.mock''], me_decode = (\<lambda>_. Some []), me_order = id,
      me_source = True, me_adapter = (\<lambda>aid. if fails \<and> aid = ''x'' then Failing else Absent), me_parse = (\<lambda>_. None),
      me_endpoint = (\<lambda>aid. if aid = ''x'' then Found demo_process else Absent), me_floats = demo_floats, me_json = (\<lambda>_. None),
      me_json_list = (\<lambda>_. None), me_json_config = (\<lambda>_. None), me_sprint = (\<lambda>_. []), me_hash = (\<lambda>w. ''f''), me_started = (\<lambda>_. True),
      me_prepared = (\<lambda>_. True), me_remote_ready = (\<lambda>_. False),
      me_attempt = (\<lambda>_ n. \<lparr>la_context = True, la_address = Some ''h'', la_launches = True, la_ready = (n = 1)\<rparr>),
      me_stop = (\<lambda>_. Stopped)\<rparr>"

definition demo_fresh :: adapter_manager where
  "demo_fresh = \<lparr>mg_slots = [''ai'', ''tts''], mg_instances = [], mg_launched = 0, mg_stopped = [], mg_abandoned = []\<rparr>"

definition demo_active :: "string \<Rightarrow> string \<Rightarrow> adapter_binding" where
  "demo_active slot aid = \<lparr>pb_slot = slot, pb_adapter_id = aid, pb_config = [], pb_raw_config = [], pb_fingerprint = [], pb_runtime = []\<rparr>"

definition demo_plan :: "adapter_binding \<Rightarrow> adapter_endpoint \<Rightarrow> binding_plan" where
  "demo_plan b ep = \<lparr>pl_binding = b\<lparr>pb_fingerprint := ''f''\<rparr>, pl_adapter = \<lparr>sa_id = [], sa_manifest = []\<rparr>, pl_manifest = None,
     pl_endpoint = ep, pl_fingerprint = ''f''\<rparr>"

definition demo_mock :: adapter_endpoint where
  "demo_mock = empty_endpoint\<lparr>ep_adapter_id := ''adapter.tts.mock''\<rparr>"

lemma mock_trim: "trim_space ''adapter.tts.mock'' = ''adapter.tts.mock''"
  by (simp add: trim_space_def segs.simps(2) decode_rune_ascii trim_segs_def seg_space_def is_space_def)

lemma demo_load:
  "mg_slots s = [''ai'', ''tts''] \<Longrightarrow>
    load_active_bindings (demo_replies fails) s = Some [(''ai'', demo_active ''ai'' ''x''), (''tts'', demo_active ''tts'' ''adapter.tts.mock'')]"
  by (simp add: load_active_bindings_def demo_replies_def demo_record_def is_active_def demo_trim mock_trim demo_active_def)

lemma demo_prepare:
  "prepare_binding (demo_replies fails) (demo_active ''ai'' ''x'') = (if fails then None else Some (demo_plan (demo_active ''ai'' ''x'') demo_process))"
  "prepare_binding (demo_replies fails) (demo_active ''tts'' ''adapter.tts.mock'') =
     Some (demo_plan (demo_active ''tts'' ''adapter.tts.mock'') demo_mock)"
  by (simp_all add: prepare_binding_def lookup_adapter_def lookup_endpoint_def merge_manifest_endpoint_def demo_replies_def demo_active_def
      demo_plan_def finish_plan_def compute_plan_fingerprint_def demo_process_def demo_mock_def empty_endpoint_def mock_trim Let_def)

definition demo_instance :: "adapter_binding \<Rightarrow> (string, string) gomap \<Rightarrow> nat option \<Rightarrow> adapter_instance" where
  "demo_instance b runtime h = \<lparr>in_binding = b\<lparr>pb_fingerprint := ''f'', pb_runtime := runtime\<rparr>, in_handle = h, in_fingerprint = ''f''\<rparr>"

definition demo_manager :: adapter_manager where
  "demo_manager = \<lparr>mg_slots = [''ai'', ''tts''],
     mg_instances = [(''ai'', demo_instance (demo_active ''ai'' ''x'') [(''transport'', ''process''), (''address'', ''h'')] (Some 1)),
       (''tts'', demo_instance (demo_active ''tts'' ''adapter.tts.mock'') [(''transport'', ''builtin'')] None)],
     mg_launched = 2, mg_stopped = [], mg_abandoned = [0]\<rparr>"

lemma demo_ensure: "ensure (demo_replies False) demo_fresh = ([], demo_manager)"
proof -
  have "start_adapter (demo_replies False) (demo_plan (demo_active ''ai'' ''x'') demo_process) demo_fresh =
      (Some (demo_instance (demo_active ''ai'' ''x'') [(''transport'', ''process''), (''address'', ''h'')] (Some 1)),
       demo_fresh\<lparr>mg_launched := 2, mg_abandoned := [0]\<rparr>)"
    by (simp add: start_adapter_def demo_replies_def demo_plan_def demo_active_def demo_process_def empty_endpoint_def demo_trim
        is_builtin_mock_adapter_def process_launch_max_attempts_def eval_nat_numeral instance_of_def compute_plan_fingerprint_def
        demo_instance_def demo_fresh_def Let_def)
  moreover have "start_adapter (demo_replies False) (demo_plan (demo_active ''tts'' ''adapter.tts.mock'') demo_mock) s =
      (Some (demo_instance (demo_active ''tts'' ''adapter.tts.mock'') [(''transport'', ''builtin'')] None), s)" for s
    by (simp add: start_adapter_def demo_replies_def demo_plan_def demo_active_def is_builtin_mock_adapter_def instance_of_def
        compute_plan_fingerprint_def demo_instance_def Let_def)
  moreover have "mg_slots demo_fresh = [''ai'', ''tts'']" "mg_instances demo_fresh = []" by (simp_all add: demo_fresh_def)
  ultimately show ?thesis
    by (simp add: ensure_def demo_load demo_prepare apply_plan_def) (simp add: demo_fresh_def demo_manager_def)
qed

lemma demo_manager_run: "manager_run demo_manager"
proof -
  have "manager_run demo_fresh" unfolding demo_fresh_def by (rule manager_run.fresh)
  from manager_run.ensured [OF this, of "demo_replies False"] show ?thesis by (simp add: demo_ensure)
qed

lemma demo_orders: "orders (demo_replies fails)" "stores_transports (demo_replies fails)"
  by (simp_all add: orders_def stores_transports_def demo_replies_def demo_process_def known_transports_def split: if_split)

theorem processes_accounted_witness:
  "handles (mg_instances demo_manager) = {#1#} \<and> handles (mg_instances demo_manager) + {#0#} = mset [0..<2]"
  using processes_accounted [OF demo_manager_run] by (simp add: demo_manager_def demo_instance_def handle_of_def)

theorem ensure_settles_witness:
  "ensure (demo_replies False) demo_fresh = ([], demo_manager) \<and> ensure (demo_replies False) demo_manager = ([], demo_manager)"
proof -
  have "manager_run demo_fresh" unfolding demo_fresh_def by (rule manager_run.fresh)
  from ensure_settles [OF this demo_ensure demo_orders] demo_ensure show ?thesis by blast
qed

theorem failed_plan_stops_adapter_witness:
  "map_of (mg_instances demo_manager) ''ai'' \<noteq> None \<and> map_of (mg_instances (snd (ensure (demo_replies True) demo_manager))) ''ai'' = None"
proof -
  have load: "load_active_bindings (demo_replies True) demo_manager =
      Some [(''ai'', demo_active ''ai'' ''x''), (''tts'', demo_active ''tts'' ''adapter.tts.mock'')]"
    by (rule demo_load) (simp add: demo_manager_def)
  have "map_of (mg_instances demo_manager) ''ai'' =
      Some (demo_instance (demo_active ''ai'' ''x'') [(''transport'', ''process''), (''address'', ''h'')] (Some 1))"
    by (simp add: demo_manager_def)
  with failed_plan_stops_adapter [OF demo_manager_run load demo_orders(1), of "''ai''" "demo_active ''ai'' ''x''"]
  show ?thesis by (simp add: demo_prepare) (simp add: demo_replies_def)
qed

theorem status_events_alternate_witness:
  "statuses ''ai'' (update_state (demo_replies False) 0 (running_bindings demo_manager) \<lparr>sv_state = [], sv_events = []\<rparr>) = [Health_Ready] \<and>
   up_after (statuses ''ai'' (update_state (demo_replies False) 0 (running_bindings demo_manager) \<lparr>sv_state = [], sv_events = []\<rparr>))"
proof -
  have "trim_space ''f'' = ''f''" using lower_word [of "''f''"] by simp
  then have "statuses ''ai'' (update_state (demo_replies False) 0 (running_bindings demo_manager) \<lparr>sv_state = [], sv_events = []\<rparr>) = [Health_Ready]"
    by (simp add: update_state_def running_bindings_def demo_manager_def demo_instance_def demo_active_def binding_fingerprint_def
        statuses_def ready_event_def Let_def)
  moreover have "''ai'' \<in> pb_slot ` set (running_bindings demo_manager)"
    by (simp add: running_bindings_def demo_manager_def demo_instance_def demo_active_def)
  ultimately show ?thesis
    using status_events_alternate [OF service_run.created, of "''ai''" "demo_replies False" 0 "running_bindings demo_manager"] by simp
qed

end
