(* ===== verification/Chunker.thy ===== *)
theory Chunker
  imports Utf8 GoStrings
begin

text \<open>
  How a markdown file is cut into the chunks that are indexed, \<open>internal/awareness/chunker.go\<close>: at the headers outside fenced code, or
  else at empty lines; large chunks are cut again and tiny ones are joined to the chunk before.
\<close>

section \<open>Cutting (\<open>chunker.go\<close>)\<close>

record chunk =
  ch_index :: nat
  ch_content :: string

definition max_chunk_bytes :: nat where "max_chunk_bytes = 2000"

definition min_chunk_bytes :: nat where "min_chunk_bytes = 20"

definition is_fence :: "string \<Rightarrow> bool" where
  "is_fence t \<longleftrightarrow> has_prefix t ''```'' \<or> has_prefix t ''~~~''"

definition is_header :: "string \<Rightarrow> bool" where
  "is_header t \<longleftrightarrow> has_prefix t ''## '' \<or> has_prefix t ''### ''"

text \<open>The loop of \<open>splitByHeaders\<close>, with the section under construction and whether a fence is open.\<close>

fun header_sections :: "string list \<Rightarrow> string \<Rightarrow> bool \<Rightarrow> string list" where
  "header_sections [] current fence = (if current \<noteq> [] then [current] else [])"
| "header_sections (line # lines) current fence =
     (let t = trim_space line;
          fence = (if is_fence t then \<not> fence else fence);
          cut = (\<not> fence \<and> is_header t \<and> current \<noteq> []);
          start = (if cut then [] else current);
          grown = (if start \<noteq> [] then start @ [NL] else start) @ line;
          rest = header_sections lines grown fence
      in if cut then current # rest else rest)"

definition split_by_headers :: "string \<Rightarrow> string list" where
  "split_by_headers content = header_sections (split content [NL]) [] False"

definition split_by_paragraphs :: "string \<Rightarrow> string list" where
  "split_by_paragraphs content = filter (\<lambda>p. p \<noteq> []) (map trim_space (split content [NL, NL]))"

text \<open>The last loop: empty texts are skipped, tiny ones join the last chunk.\<close>

fun build_chunks :: "string list \<Rightarrow> chunk list \<Rightarrow> chunk list" where
  "build_chunks [] chunks = chunks"
| "build_chunks (t # ts) chunks =
     (let t = trim_space t
      in if t = [] then build_chunks ts chunks
         else if length t < min_chunk_bytes \<and> chunks \<noteq> [] then
           build_chunks ts (butlast chunks @ [last chunks\<lparr>ch_content := ch_content (last chunks) @ [NL, NL] @ t\<rparr>])
         else build_chunks ts (chunks @ [\<lparr>ch_index = length chunks, ch_content = t\<rparr>]))"

definition expand_section :: "string \<Rightarrow> string list" where
  "expand_section s = (if length s > max_chunk_bytes then split_by_paragraphs s else [s])"

definition chunk_markdown :: "string \<Rightarrow> chunk list" where
  "chunk_markdown content =
     (let content = trim_space content
      in if content = [] then []
         else
           let sections = split_by_headers content;
               sections = (if length sections \<le> 1 then split_by_paragraphs content else sections)
           in build_chunks (concat (map expand_section sections)) [])"

section \<open>Text that shows\<close>

text \<open>A string without its white space.\<close>

definition visible :: "string \<Rightarrow> string" where
  "visible s = concat (map snd (filter (\<lambda>p. \<not> seg_space p) (segs s)))"

lemma decode_before_ascii:
  "bv c < 0x80 \<Longrightarrow> decode_rune (x # a @ c # b) = decode_rune (x # a)"
proof -
  assume c: "bv c < 0x80"
  then have no: "\<not> cont c" "\<not> second_ok n c" for n
    by (auto simp: in_range_def second_ok_def second_range_def split: if_splits)
  consider "a = []" | y where "a = [y]" | y z where "a = [y, z]" | y z w r where "a = y # z # w # r"
    by (metis neq_Nil_conv)
  then show ?thesis using no by cases (auto simp: decode_rune_def Let_def split: list.split)
qed

lemma segs_before_ascii: "bv c < 0x80 \<Longrightarrow> segs (a @ c # b) = segs a @ segs (c # b)"
proof (induction a rule: segs.induct)
  case (2 x a)
  obtain r n where d: "decode_rune (x # a) = (r, n)" by fastforce
  then have n: "n \<le> length (x # a)" using decode_rune_size [of "x # a"] by simp
  have "segs (x # a @ c # b) = (r, take n (x # a)) # segs (drop n (x # a) @ c # b)"
    using decode_before_ascii [OF "2.prems", of x a b] d n
    by (simp add: segs.simps(2)) (simp flip: append_Cons)
  also have "\<dots> = (r, take n (x # a)) # segs (drop n (x # a)) @ segs (c # b)"
    using "2.IH" [OF refl d [symmetric]] "2.prems" d by simp
  finally show ?case using d by (simp add: segs.simps(2))
qed simp

lemma segs_newline: "segs (a @ NL # b) = segs a @ (10, [NL]) # segs b"
  using segs_before_ascii [of NL a b] by (simp add: segs.simps(2) decode_rune_ascii)

lemma valid_newline [simp]: "valid_utf8 (a @ NL # b) \<longleftrightarrow> valid_utf8 a \<and> valid_utf8 b"
  by (simp add: valid_utf8_def segs_newline)

lemma visible_newline [simp]: "visible (a @ NL # b) = visible a @ visible b"
  by (simp add: visible_def segs_newline seg_space_def is_space_def)

lemma visible_Nil [simp]: "visible [] = []"
  by (simp add: visible_def)

lemma visible_trim: "valid_utf8 s \<Longrightarrow> visible (trim_space s) = visible s"
proof -
  assume v: "valid_utf8 s"
  have drop: "filter (\<lambda>p. \<not> seg_space p) (dropWhile seg_space xs) = filter (\<lambda>p. \<not> seg_space p) xs" for xs
    by (induction xs) simp_all
  have trim: "filter (\<lambda>p. \<not> seg_space p) (trim_segs xs) = filter (\<lambda>p. \<not> seg_space p) xs" for xs
    by (simp add: trim_segs_def rev_filter [symmetric] drop)
  obtain a b where "segs s = a @ trim_segs (segs s) @ b" using trim_segs_infix by blast
  with v have "list_all valid_seg (trim_segs (segs s))" unfolding valid_utf8_segs by (metis list_all_append)
  then have "segs (trim_space s) = trim_segs (segs s)" unfolding trim_space_def by (rule segs_concat)
  then show ?thesis by (simp add: visible_def trim)
qed

text \<open>What a list of pieces shows.\<close>

abbreviation shown :: "string list \<Rightarrow> string" where "shown ps \<equiv> concat (map visible ps)"

lemma newline_first [simp]: "valid_utf8 (NL # b) = valid_utf8 b" "visible (NL # b) = visible b"
  using valid_newline [of "[]" b] visible_newline [of "[]" b] by simp_all

lemma join_newline:
  assumes "sep = [NL] \<or> sep = [NL, NL]"
  shows "valid_utf8 (join sep ps) = list_all valid_utf8 ps" and "visible (join sep ps) = shown ps"
proof (induction ps)
  case (Cons p ps)
  have e: "join sep (p # ps) = (if ps = [] then p else p @ sep @ join sep ps)" by (cases ps) (simp_all add: join_Cons)
  { case 1 with Cons e assms show ?case by auto }
  { case 2 with Cons e assms show ?case by auto }
qed simp_all

lemma split_newline:
  assumes "sep = [NL] \<or> sep = [NL, NL]" and "valid_utf8 s"
  shows "list_all valid_utf8 (split s sep)" and "shown (split s sep) = visible s"
proof -
  have "sep \<noteq> []" using assms(1) by auto
  from join_split [OF this, of s] join_newline [OF assms(1), of "split s sep"] assms(2)
  show "list_all valid_utf8 (split s sep)" "shown (split s sep) = visible s" by simp_all
qed

lemma paragraphs_shown:
  assumes "valid_utf8 s"
  shows "list_all valid_utf8 (split_by_paragraphs s)" and "shown (split_by_paragraphs s) = visible s"
proof -
  note sp = split_newline [OF disjI2 [OF refl] assms]
  from sp(1) show "list_all valid_utf8 (split_by_paragraphs s)"
    by (auto simp: split_by_paragraphs_def list_all_iff intro: valid_trim_space)
  have "list_all valid_utf8 ps \<Longrightarrow> shown (filter (\<lambda>p. p \<noteq> []) (map trim_space ps)) = shown ps" for ps
    by (induction ps) (auto simp: visible_trim dest: visible_trim)
  with sp show "shown (split_by_paragraphs s) = visible s" by (simp add: split_by_paragraphs_def)
qed

lemma header_sections_shown:
  assumes "list_all valid_utf8 lines" and "valid_utf8 current"
  shows "list_all valid_utf8 (header_sections lines current fence) \<and>
    shown (header_sections lines current fence) = visible current @ shown lines"
  using assms
proof (induction lines current fence rule: header_sections.induct)
  case (2 line lines current fence)
  define open_fence where "open_fence = (if is_fence (trim_space line) then \<not> fence else fence)"
  define cut where "cut = (\<not> open_fence \<and> is_header (trim_space line) \<and> current \<noteq> [])"
  define start where "start = (if cut then [] else current)"
  define grown where "grown = (if start \<noteq> [] then start @ [NL] else start) @ line"
  have grown: "valid_utf8 grown" "visible grown = visible start @ visible line"
    using "2.prems" by (auto simp: grown_def start_def)
  have run: "header_sections (line # lines) current fence =
      (if cut then current # header_sections lines grown open_fence else header_sections lines grown open_fence)"
    by (simp add: Let_def cut_def start_def grown_def open_fence_def)
  have "list_all valid_utf8 (header_sections lines grown open_fence) \<and>
      shown (header_sections lines grown open_fence) = visible grown @ shown lines"
    using "2.IH" [OF refl open_fence_def cut_def start_def grown_def] "2.prems"(1) grown(1) by simp
  with grown(2) "2.prems"(2) show ?case unfolding run by (auto simp: start_def)
qed auto

lemma expand_shown:
  assumes "list_all valid_utf8 ps"
  shows "list_all valid_utf8 (concat (map expand_section ps)) \<and> shown (concat (map expand_section ps)) = shown ps"
  using assms by (induction ps) (auto simp: expand_section_def paragraphs_shown)

text \<open>The chunks of the last loop.\<close>

definition chunks_ok :: "chunk list \<Rightarrow> bool" where
  "chunks_ok cs \<longleftrightarrow> map ch_index cs = [0..<length cs] \<and> (\<forall>c \<in> set cs. ch_content c \<noteq> [] \<and> valid_utf8 (ch_content c)) \<and>
     (\<forall>c \<in> set (tl cs). min_chunk_bytes \<le> length (ch_content c))"

lemma build_chunks_shown:
  assumes "list_all valid_utf8 ts" and "chunks_ok cs"
  shows "chunks_ok (build_chunks ts cs) \<and>
    shown (map ch_content (build_chunks ts cs)) = shown (map ch_content cs) @ shown ts"
  using assms
proof (induction ts cs rule: build_chunks.induct)
  case (2 t ts cs)
  from "2.prems" have v: "valid_utf8 t" "valid_utf8 (trim_space t)" "list_all valid_utf8 ts" by (simp_all add: valid_trim_space)
  have t: "visible (trim_space t) = visible t" using v(1) by (rule visible_trim)
  consider "trim_space t = []" | "trim_space t \<noteq> []" "length (trim_space t) < min_chunk_bytes" "cs \<noteq> []"
    | "trim_space t \<noteq> []" "\<not> (length (trim_space t) < min_chunk_bytes \<and> cs \<noteq> [])" by blast
  then show ?case
  proof cases
    case 1
    then have "visible t = []" using t by simp
    with 1 2 v show ?thesis by simp
  next
    case 2
    let ?cs = "butlast cs @ [last cs\<lparr>ch_content := ch_content (last cs) @ [NL, NL] @ trim_space t\<rparr>]"
    obtain b l where cs: "cs = b @ [l]" using 2 by (metis append_butlast_last_id)
    have "chunks_ok ?cs"
      using "2.prems"(2) v(2) 2 unfolding cs chunks_ok_def by (cases b) (auto simp: min_chunk_bytes_def)
    moreover have "shown (map ch_content ?cs) = shown (map ch_content cs) @ visible t" using cs t by simp
    ultimately show ?thesis using "2.IH"(2) [OF refl] 2 v(3) by (simp add: Let_def)
  next
    case 3
    let ?cs = "cs @ [\<lparr>ch_index = length cs, ch_content = trim_space t\<rparr>]"
    have "chunks_ok ?cs" using "2.prems"(2) v(2) 3 unfolding chunks_ok_def by (cases cs) auto
    with "2.IH"(3) [OF refl] 3 v(3) t show ?thesis by (auto simp: Let_def)
  qed
qed simp

text \<open>
  C25: Cutting a file loses no text. The chunks of a file that is valid UTF-8 show, one after the other, exactly what the file shows: they
  differ from it in white space only. They are numbered from 0, none is empty, and all but the first have at least 20 bytes.
\<close>

theorem chunks_keep_text:
  assumes "valid_utf8 content"
  shows "concat (map (\<lambda>c. visible (ch_content c)) (chunk_markdown content)) = visible content \<and>
    map ch_index (chunk_markdown content) = [0..<length (chunk_markdown content)] \<and>
    (\<forall>c \<in> set (chunk_markdown content). ch_content c \<noteq> []) \<and>
    (\<forall>c \<in> set (tl (chunk_markdown content)). min_chunk_bytes \<le> length (ch_content c))"
proof (cases "trim_space content = []")
  case True
  with visible_trim [OF assms] show ?thesis by (simp add: chunk_markdown_def)
next
  case False
  define s where "s = trim_space content"
  define sections where "sections = (if length (split_by_headers s) \<le> 1 then split_by_paragraphs s else split_by_headers s)"
  have v: "valid_utf8 s" and vis: "visible s = visible content" using assms by (simp_all add: s_def valid_trim_space visible_trim)
  have h: "list_all valid_utf8 (split_by_headers s)" "shown (split_by_headers s) = visible s"
    using header_sections_shown [OF split_newline(1) [OF disjI1 [OF refl] v], of "[]" False] split_newline(2) [OF disjI1 [OF refl] v]
    by (simp_all add: split_by_headers_def)
  have "list_all valid_utf8 sections" "shown sections = visible s" using h paragraphs_shown [OF v] by (simp_all add: sections_def)
  with expand_shown [of sections] build_chunks_shown [of "concat (map expand_section sections)" "[]"]
  have "chunks_ok (build_chunks (concat (map expand_section sections)) [])"
    "shown (map ch_content (build_chunks (concat (map expand_section sections)) [])) = visible s"
    by (simp_all add: chunks_ok_def)
  moreover have "chunk_markdown content = build_chunks (concat (map expand_section sections)) []"
    using False by (simp add: chunk_markdown_def Let_def sections_def flip: s_def)
  ultimately show ?thesis by (simp add: vis chunks_ok_def comp_def)
qed

section \<open>Small files\<close>

lemma ascii_segs: "\<forall>c \<in> set s. bv c < 0x80 \<Longrightarrow> segs s = map (\<lambda>c. (bv c, [c])) s"
  by (induction s) (simp_all add: segs.simps(2) decode_rune_ascii)

definition demo_header :: string where "demo_header = ''## A''"

definition demo_body :: string where "demo_body = ''Run make in the top.''"

definition demo_file :: string where "demo_file = demo_header @ [NL, NL] @ demo_body"

lemma demo_trims: "trim_space demo_header = demo_header" "trim_space demo_body = demo_body" "trim_space demo_file = demo_file"
  by (simp_all add: trim_space_def ascii_segs trim_segs_def seg_space_def is_space_def demo_file_def demo_header_def demo_body_def)

lemma demo_splits: "split demo_file [NL, NL] = [demo_header, demo_body]" "split demo_file [NL] = [demo_header, [], demo_body]"
proof -
  have no: "\<not> sublist [NL] demo_header" "\<not> sublist [NL] demo_body" "\<not> sublist [NL, NL] demo_body" "\<not> sublist [NL, NL] (demo_header @ [NL])"
    by (simp_all add: index_of_None_iff [symmetric] demo_header_def demo_body_def)
  show "split demo_file [NL, NL] = [demo_header, demo_body]"
    using split_step [of "[NL, NL]" demo_header demo_body] no by (simp add: demo_file_def split_None)
  show "split demo_file [NL] = [demo_header, [], demo_body]"
    using split_step [of "[NL]" demo_header "NL # demo_body"] split_step [of "[NL]" "[]" demo_body] no
    by (simp add: demo_file_def split_None)
qed

text \<open>
  A header does not stay with its text when it is the only one of the file: the single section sends the file to \<open>splitByParagraphs\<close>,
  which makes a chunk of the header alone.
\<close>

lemma header_alone:
  "map ch_content (chunk_markdown demo_file) = [demo_header, demo_body]"
proof -
  have sizes: "demo_header \<noteq> []" "demo_body \<noteq> []" "demo_file \<noteq> []" "length demo_header = 4" "length demo_body = 20"
    by (simp_all add: demo_file_def demo_header_def demo_body_def)
  have marks: "\<not> is_fence demo_header" "\<not> is_fence demo_body" "\<not> is_header demo_body" "\<not> is_fence []" "\<not> is_header []"
    by (simp_all add: is_fence_def is_header_def has_prefix_def demo_header_def demo_body_def)
  have "split_by_headers demo_file = [demo_file]"
    by (simp add: split_by_headers_def demo_splits demo_trims marks sizes) (simp add: demo_file_def)
  moreover have "split_by_paragraphs demo_file = [demo_header, demo_body]"
    by (simp add: split_by_paragraphs_def demo_splits demo_trims sizes)
  ultimately show ?thesis
    by (simp add: chunk_markdown_def demo_trims expand_section_def sizes max_chunk_bytes_def min_chunk_bytes_def)
qed

theorem chunks_keep_text_witness:
  "concat (map (\<lambda>c. visible (ch_content c)) (chunk_markdown demo_file)) =
     ''##ARunmakeinthetop.''"
proof -
  have "valid_utf8 demo_file"
    by (simp add: valid_utf8_def ascii_segs demo_file_def demo_header_def demo_body_def)
  moreover have "visible demo_file = ''##ARunmakeinthetop.''"
    by (simp add: visible_def ascii_segs seg_space_def is_space_def demo_file_def demo_header_def demo_body_def)
  ultimately show ?thesis using chunks_keep_text by simp
qed

end
