(* ===== verification/Heartbeat.thy ===== *)
theory Heartbeat
  imports Conversation
begin

text \<open>
  Heartbeats, the recurring tasks of the assistant: the table (\<open>internal/config/store/heartbeats.go\<close>), the tools that add and remove them
  and the loop that turns a due one into a prompt (\<open>internal/awareness/heartbeat.go\<close>). The tools and the command line work on the
  table while a check is under way, so a check is a sequence of steps, one for each heartbeat. The cron expressions (a library), the
  clock, the random ids and the failures of the database are arguments of the steps. The text of errors and answers is left out.
\<close>

section \<open>The table (\<open>heartbeats.go\<close>, \<open>schema.go\<close>)\<close>

record heartbeat =
  hb_id :: nat
  hb_name :: string
  hb_cron :: string
  hb_prompt :: string
  hb_last_run :: "time_ns option"
  hb_created :: time_ns

text \<open>The rows in the order of their ids; \<open>AUTOINCREMENT\<close> never gives an id twice. Times are stored to the nanosecond.\<close>

record heartbeat_table =
  ht_rows :: "heartbeat list"
  ht_next :: nat

datatype table_error = Database_Error | Limit_Reached | Duplicate_Name | Not_Found

definition insert_heartbeat ::
    "bool \<Rightarrow> time_ns \<Rightarrow> string \<Rightarrow> string \<Rightarrow> string \<Rightarrow> nat \<Rightarrow> heartbeat_table \<Rightarrow> table_error option \<times> heartbeat_table" where
  "insert_heartbeat works now name cron prompt max_count t =
     (if \<not> works then (Some Database_Error, t)
      else if max_count > 0 \<and> length (ht_rows t) \<ge> max_count then (Some Limit_Reached, t)
      else if name \<in> hb_name ` set (ht_rows t) then (Some Duplicate_Name, t)
      else (None,
        \<lparr>ht_rows = ht_rows t @
           [\<lparr>hb_id = ht_next t, hb_name = name, hb_cron = cron, hb_prompt = prompt, hb_last_run = None, hb_created = now\<rparr>],
         ht_next = ht_next t + 1\<rparr>))"

definition delete_heartbeat :: "bool \<Rightarrow> string \<Rightarrow> heartbeat_table \<Rightarrow> table_error option \<times> heartbeat_table" where
  "delete_heartbeat works name t =
     (if \<not> works then (Some Database_Error, t)
      else if name \<notin> hb_name ` set (ht_rows t) then (Some Not_Found, t)
      else (None, t\<lparr>ht_rows := filter (\<lambda>h. hb_name h \<noteq> name) (ht_rows t)\<rparr>))"

definition list_heartbeats :: "bool \<Rightarrow> heartbeat_table \<Rightarrow> heartbeat list option" where
  "list_heartbeats works t = (if works then Some (ht_rows t) else None)"

definition update_heartbeat_last_run ::
    "bool \<Rightarrow> nat \<Rightarrow> time_ns \<Rightarrow> heartbeat_table \<Rightarrow> table_error option \<times> heartbeat_table" where
  "update_heartbeat_last_run works i now t =
     (if \<not> works then (Some Database_Error, t)
      else if i \<notin> hb_id ` set (ht_rows t) then (Some Not_Found, t)
      else (None, t\<lparr>ht_rows := map (\<lambda>h. if hb_id h = i then h\<lparr>hb_last_run := Some now\<rparr> else h) (ht_rows t)\<rparr>))"

section \<open>The tools (\<open>heartbeat.go\<close>, \<open>constants/prompts.go\<close>)\<close>

definition max_heartbeat_name_len :: nat where "max_heartbeat_name_len = 255"

definition max_heartbeat_prompt_len :: nat where "max_heartbeat_prompt_len = 10000"

definition max_heartbeat_cron_expr_len :: nat where "max_heartbeat_cron_expr_len = 255"

definition max_heartbeat_count :: nat where "max_heartbeat_count = 100"

definition validate_heartbeat_name :: "string \<Rightarrow> bool" where
  "validate_heartbeat_name name = list_all (\<lambda>r. \<not> (r < 0x20 \<or> r = 0x7f) \<and> r \<noteq> 0x22) (runes name)"

datatype tool_error = Invalid_Arguments | Missing_Field | Bad_Name | Too_Long | Invalid_Cron | Table_Error table_error

record heartbeat_add_args =
  ha_name :: string
  ha_cron_expr :: string
  ha_prompt :: string

text \<open>The handler of \<open>heartbeat_add\<close>; \<open>None\<close> as arguments stands for JSON that cannot be decoded. The command line checks the same.\<close>

definition heartbeat_add ::
    "(string \<Rightarrow> bool) \<Rightarrow> bool \<Rightarrow> time_ns \<Rightarrow> heartbeat_add_args option \<Rightarrow> heartbeat_table \<Rightarrow> tool_error option \<times> heartbeat_table" where
  "heartbeat_add valid_cron works now args t =
     (case args of
        None \<Rightarrow> (Some Invalid_Arguments, t)
      | Some a \<Rightarrow>
          let name = trim_space (ha_name a); cron = trim_space (ha_cron_expr a); prompt = trim_space (ha_prompt a)
          in if name = [] then (Some Missing_Field, t)
             else if \<not> validate_heartbeat_name name then (Some Bad_Name, t)
             else if rune_count name > max_heartbeat_name_len then (Some Too_Long, t)
             else if cron = [] then (Some Missing_Field, t)
             else if rune_count cron > max_heartbeat_cron_expr_len then (Some Too_Long, t)
             else if prompt = [] then (Some Missing_Field, t)
             else if rune_count prompt > max_heartbeat_prompt_len then (Some Too_Long, t)
             else if \<not> valid_cron cron then (Some Invalid_Cron, t)
             else case insert_heartbeat works now name cron prompt max_heartbeat_count t of
                    (Some e, t) \<Rightarrow> (Some (Table_Error e), t)
                  | (None, t) \<Rightarrow> (None, t))"

definition heartbeat_remove :: "bool \<Rightarrow> string option \<Rightarrow> heartbeat_table \<Rightarrow> tool_error option \<times> heartbeat_table" where
  "heartbeat_remove works arg t =
     (case arg of
        None \<Rightarrow> (Some Invalid_Arguments, t)
      | Some raw \<Rightarrow>
          let name = trim_space raw
          in if name = [] then (Some Missing_Field, t)
             else if \<not> validate_heartbeat_name name then (Some Bad_Name, t)
             else case delete_heartbeat works name t of
                    (Some e, t) \<Rightarrow> (Some (Table_Error e), t)
                  | (None, t) \<Rightarrow> (None, t))"

section \<open>The check (\<open>heartbeat.go\<close>)\<close>

definition minute :: duration where "minute = 60 * second"

definition truncate_minute :: "time_ns \<Rightarrow> time_ns" where
  "truncate_minute t = t - t mod minute"

text \<open>
  The state of the service: the table, the check under way with the heartbeats it still has to look at and its time, and the prompts that
  were published, each with the id of its heartbeat.
\<close>

record heart =
  hr_table :: heartbeat_table
  hr_check :: "(heartbeat list \<times> time_ns) option"
  hr_published :: "(nat \<times> prompt_event) list"

definition heartbeat_prompt :: "string \<Rightarrow> time_ns \<Rightarrow> heartbeat \<Rightarrow> prompt_event" where
  "heartbeat_prompt uuid now h =
     \<lparr>pr_session_id = [], pr_prompt_id = uuid,
      pr_message = \<lparr>turn_origin = ''system'', turn_text = hb_prompt h, turn_at = now, turn_meta = [(''event_type'', ''heartbeat'')]\<rparr>,
      pr_metadata = [''event_type'' \<mapsto> ''heartbeat'', ''heartbeat_name'' \<mapsto> hb_name h]\<rparr>"

definition already_fired :: "time_ns \<Rightarrow> heartbeat \<Rightarrow> bool" where
  "already_fired now h \<longleftrightarrow> (case hb_last_run h of None \<Rightarrow> False | Some l \<Rightarrow> truncate_minute l = truncate_minute now)"

text \<open>What a step of a check is told: whether the cron expression is due (\<open>None\<close> an error), the shutdown flag, the id, the database.\<close>

record check_answers =
  ca_due :: "string \<Rightarrow> time_ns \<Rightarrow> bool option"
  ca_shutting_down :: bool
  ca_uuid :: string
  ca_update_works :: bool

definition begin_check :: "bool \<Rightarrow> time_ns \<Rightarrow> heart \<Rightarrow> heart" where
  "begin_check works now s =
     (case list_heartbeats works (hr_table s) of
        None \<Rightarrow> s
      | Some hs \<Rightarrow> if hs = [] then s else s\<lparr>hr_check := Some (hs, now)\<rparr>)"

text \<open>One iteration of the loop of \<open>checkHeartbeats\<close>.\<close>

definition check_heartbeat :: "check_answers \<Rightarrow> heartbeat \<Rightarrow> time_ns \<Rightarrow> heart \<Rightarrow> heart option" where
  "check_heartbeat ca h now s =
     (if already_fired now h then Some s
      else case ca_due ca (hb_cron h) (truncate_minute now) of
             None \<Rightarrow> Some s
           | Some due \<Rightarrow>
               if \<not> due then Some s
               else if ca_shutting_down ca then None
               else Some (s\<lparr>hr_published := hr_published s @ [(hb_id h, heartbeat_prompt (ca_uuid ca) now h)],
                            hr_table := snd (update_heartbeat_last_run (ca_update_works ca) (hb_id h) now (hr_table s))\<rparr>))"

definition next_heartbeat :: "check_answers \<Rightarrow> heart \<Rightarrow> heart" where
  "next_heartbeat ca s =
     (case hr_check s of
        None \<Rightarrow> s
      | Some ([], now) \<Rightarrow> s\<lparr>hr_check := None\<rparr>
      | Some (h # hs, now) \<Rightarrow>
          (case check_heartbeat ca h now s of
             None \<Rightarrow> s\<lparr>hr_check := None\<rparr>
           | Some s \<Rightarrow> s\<lparr>hr_check := Some (hs, now)\<rparr>))"

text \<open>A check on its own, without the tools in between.\<close>

fun check_all :: "(nat \<Rightarrow> check_answers) \<Rightarrow> heartbeat list \<Rightarrow> time_ns \<Rightarrow> heart \<Rightarrow> heart" where
  "check_all ca [] now s = s"
| "check_all ca (h # hs) now s =
     (case check_heartbeat (ca (hb_id h)) h now s of
        None \<Rightarrow> s
      | Some s \<Rightarrow> check_all ca hs now s)"

definition check_heartbeats :: "bool \<Rightarrow> (nat \<Rightarrow> check_answers) \<Rightarrow> time_ns \<Rightarrow> heart \<Rightarrow> heart" where
  "check_heartbeats works ca now s =
     (case list_heartbeats works (hr_table s) of None \<Rightarrow> s | Some hs \<Rightarrow> check_all ca hs now s)"

section \<open>Runs\<close>

definition empty_heart :: heart where
  "empty_heart = \<lparr>hr_table = \<lparr>ht_rows = [], ht_next = 1\<rparr>, hr_check = None, hr_published = []\<rparr>"

text \<open>
  The runs of the service, with its clock; there is one loop, so a check begins when none is under way. \<open>works\<close> tells whether the updates of the last run succeed. The service
  may stop and start again at any time, which ends a check.
\<close>

inductive heart_run :: "bool \<Rightarrow> time_ns \<Rightarrow> heart \<Rightarrow> bool" for works :: bool where
  start: "heart_run works clock empty_heart"
| tick: "heart_run works clock s \<Longrightarrow> clock \<le> clock' \<Longrightarrow> heart_run works clock' s"
| begin_step: "heart_run works clock s \<Longrightarrow> hr_check s = None \<Longrightarrow> heart_run works clock (begin_check ok clock s)"
| next_step: "heart_run works clock s \<Longrightarrow> (works \<Longrightarrow> ca_update_works ca) \<Longrightarrow> heart_run works clock (next_heartbeat ca s)"
| add: "heart_run works clock s \<Longrightarrow>
    heart_run works clock (s\<lparr>hr_table := snd (heartbeat_add valid_cron ok clock args (hr_table s))\<rparr>)"
| remove: "heart_run works clock s \<Longrightarrow> heart_run works clock (s\<lparr>hr_table := snd (heartbeat_remove ok arg (hr_table s))\<rparr>)"
| restart: "heart_run works clock s \<Longrightarrow> heart_run works clock (s\<lparr>hr_check := None\<rparr>)"

section \<open>The table stays well formed\<close>

definition row_ok :: "heartbeat \<Rightarrow> bool" where
  "row_ok h \<longleftrightarrow> hb_name h \<noteq> [] \<and> validate_heartbeat_name (hb_name h) \<and> rune_count (hb_name h) \<le> 255 \<and>
     hb_cron h \<noteq> [] \<and> rune_count (hb_cron h) \<le> 255 \<and> hb_prompt h \<noteq> [] \<and> rune_count (hb_prompt h) \<le> 10000"

definition heartbeats_ok :: "heartbeat_table \<Rightarrow> bool" where
  "heartbeats_ok t \<longleftrightarrow> list_all row_ok (ht_rows t) \<and> distinct (map hb_name (ht_rows t)) \<and> distinct (map hb_id (ht_rows t)) \<and>
     (\<forall>h \<in> set (ht_rows t). hb_id h < ht_next t) \<and> length (ht_rows t) \<le> 100"

lemma insert_cases:
  "insert_heartbeat works now name cron prompt m t = (e, t') \<Longrightarrow>
    t' = t \<or> e = None \<and> (m > 0 \<longrightarrow> length (ht_rows t) < m) \<and> name \<notin> hb_name ` set (ht_rows t) \<and> ht_next t' = ht_next t + 1 \<and>
      ht_rows t' = ht_rows t @
        [\<lparr>hb_id = ht_next t, hb_name = name, hb_cron = cron, hb_prompt = prompt, hb_last_run = None, hb_created = now\<rparr>]"
  by (auto simp: insert_heartbeat_def split: if_splits)

text \<open>What the tool can do to the table: nothing, or one new row in good form.\<close>

lemma add_cases:
  obtains "snd (heartbeat_add valid_cron ok now args t) = t"
  | h where "ht_rows (snd (heartbeat_add valid_cron ok now args t)) = ht_rows t @ [h]" "row_ok h" "hb_id h = ht_next t" "hb_last_run h = None"
      "hb_name h \<notin> hb_name ` set (ht_rows t)" "length (ht_rows t) < 100"
      "ht_next (snd (heartbeat_add valid_cron ok now args t)) = ht_next t + 1"
proof (cases "snd (heartbeat_add valid_cron ok now args t) = t")
  case False
  then obtain a where a: "args = Some a" by (cases args) (auto simp: heartbeat_add_def)
  define name where "name = trim_space (ha_name a)"
  define cron where "cron = trim_space (ha_cron_expr a)"
  define prompt where "prompt = trim_space (ha_prompt a)"
  obtain e t' where i: "insert_heartbeat ok now name cron prompt max_heartbeat_count t = (e, t')" by fastforce
  have checks: "name \<noteq> []" "validate_heartbeat_name name" "rune_count name \<le> 255" "cron \<noteq> []" "rune_count cron \<le> 255" "prompt \<noteq> []"
    "rune_count prompt \<le> 10000" and r: "snd (heartbeat_add valid_cron ok now args t) = t'"
    using False i
    by (simp_all add: heartbeat_add_def a max_heartbeat_name_len_def max_heartbeat_cron_expr_len_def max_heartbeat_prompt_len_def
        Let_def name_def cron_def prompt_def not_less split: if_splits option.splits)
  from insert_cases [OF i] False r checks show ?thesis
    by (intro that(2) [of "\<lparr>hb_id = ht_next t, hb_name = name, hb_cron = cron, hb_prompt = prompt, hb_last_run = None, hb_created = now\<rparr>"])
      (auto simp: row_ok_def max_heartbeat_count_def)
qed (rule that(1))

lemma remove_cases:
  obtains "snd (heartbeat_remove ok arg t) = t"
  | P where "snd (heartbeat_remove ok arg t) = t\<lparr>ht_rows := filter P (ht_rows t)\<rparr>"
proof -
  have "snd (heartbeat_remove ok arg t) = t \<or>
      (\<exists>name. snd (heartbeat_remove ok arg t) = t\<lparr>ht_rows := filter (\<lambda>h. hb_name h \<noteq> name) (ht_rows t)\<rparr>)"
    by (cases arg) (auto simp: heartbeat_remove_def delete_heartbeat_def Let_def)
  then show thesis using that by blast
qed

lemma update_cases:
  "snd (update_heartbeat_last_run ok i now t) = t \<or>
   snd (update_heartbeat_last_run ok i now t) =
     t\<lparr>ht_rows := map (\<lambda>h. if hb_id h = i then h\<lparr>hb_last_run := Some now\<rparr> else h) (ht_rows t)\<rparr>"
  by (simp add: update_heartbeat_last_run_def)

lemma update_rows:
  "ht_rows (snd (update_heartbeat_last_run True i now t)) =
     map (\<lambda>h. if hb_id h = i then h\<lparr>hb_last_run := Some now\<rparr> else h) (ht_rows t)"
proof (cases "i \<in> hb_id ` set (ht_rows t)")
  case False
  then have "map (\<lambda>h. if hb_id h = i then h\<lparr>hb_last_run := Some now\<rparr> else h) (ht_rows t) = ht_rows t"
    by (intro map_idI) auto
  with False show ?thesis by (simp add: update_heartbeat_last_run_def)
qed (simp add: update_heartbeat_last_run_def)

lemma heartbeats_ok_add: "heartbeats_ok t \<Longrightarrow> heartbeats_ok (snd (heartbeat_add valid_cron ok now args t))"
  by (rule add_cases [of valid_cron ok now args t]) (auto simp: heartbeats_ok_def)

lemma heartbeats_ok_remove: "heartbeats_ok t \<Longrightarrow> heartbeats_ok (snd (heartbeat_remove ok arg t))"
  by (rule remove_cases [of ok arg t])
    (auto simp: heartbeats_ok_def list_all_iff distinct_map_filter intro: order.trans [OF length_filter_le])

lemma heartbeats_ok_update:
  assumes "heartbeats_ok t"
  shows "heartbeats_ok (snd (update_heartbeat_last_run ok i now t))"
proof -
  let ?u = "\<lambda>h. if hb_id h = i then h\<lparr>hb_last_run := Some now\<rparr> else h"
  have same: "map hb_name (map ?u hs) = map hb_name hs" "map hb_id (map ?u hs) = map hb_id hs" for hs by (induction hs) simp_all
  have rows: "list_all row_ok (map ?u hs) = list_all row_ok hs" for hs by (induction hs) (simp_all add: row_ok_def)
  have "heartbeats_ok (t\<lparr>ht_rows := map ?u (ht_rows t)\<rparr>)"
    using assms by (simp add: heartbeats_ok_def same rows del: map_map) (auto simp: heartbeats_ok_def)
  then show ?thesis using update_cases [of ok i now t] assms by auto
qed

section \<open>Once a minute\<close>

lemma truncate_mono: "a \<le> b \<Longrightarrow> truncate_minute a \<le> truncate_minute b"
proof -
  assume "a \<le> b"
  then have "a div minute \<le> b div minute" by (intro zdiv_mono1) (simp_all add: minute_def)
  moreover have "truncate_minute t = minute * (t div minute)" for t by (simp add: truncate_minute_def minus_mod_eq_mult_div)
  ultimately show ?thesis by (simp add: minute_def)
qed

text \<open>A heartbeat remembers the prompts that were published for it.\<close>

definition remembers :: "(nat \<times> prompt_event) list \<Rightarrow> heartbeat \<Rightarrow> bool" where
  "remembers ps h \<longleftrightarrow> (\<forall>(i, e) \<in> set ps. i = hb_id h \<longrightarrow> (\<exists>l. hb_last_run h = Some l \<and> turn_at (pr_message e) \<le> l))"

definition ran_before :: "time_ns \<Rightarrow> heartbeat \<Rightarrow> bool" where
  "ran_before t h \<longleftrightarrow> (\<forall>l. hb_last_run h = Some l \<longrightarrow> l \<le> t)"

definition firings :: "heart \<Rightarrow> (nat \<times> time_ns) list" where
  "firings s = map (\<lambda>(i, e). (i, truncate_minute (turn_at (pr_message e)))) (hr_published s)"

definition beat_prompt_ok :: "prompt_event \<Rightarrow> bool" where
  "beat_prompt_ok e \<longleftrightarrow> turn_text (pr_message e) \<noteq> [] \<and>
     (\<exists>name. pr_metadata e ''heartbeat_name'' = Some name \<and> name \<noteq> [] \<and> validate_heartbeat_name name)"

text \<open>What every run keeps, and what it keeps besides when the updates work.\<close>

definition heart_ok :: "heart \<Rightarrow> bool" where
  "heart_ok s \<longleftrightarrow> heartbeats_ok (hr_table s) \<and> (\<forall>(i, e) \<in> set (hr_published s). beat_prompt_ok e \<and> i < ht_next (hr_table s)) \<and>
     (case hr_check s of None \<Rightarrow> True
      | Some (hs, now) \<Rightarrow> distinct (map hb_id hs) \<and> (\<forall>h \<in> set hs. row_ok h \<and> hb_id h < ht_next (hr_table s)))"

definition heart_punctual :: "time_ns \<Rightarrow> heart \<Rightarrow> bool" where
  "heart_punctual clock s \<longleftrightarrow> distinct (firings s) \<and>
     (\<forall>h \<in> set (ht_rows (hr_table s)). remembers (hr_published s) h \<and> ran_before clock h) \<and>
     (case hr_check s of None \<Rightarrow> True
      | Some (hs, now) \<Rightarrow> now \<le> clock \<and> (\<forall>h \<in> set hs. remembers (hr_published s) h \<and> ran_before now h))"

lemma row_prompt: "row_ok h \<Longrightarrow> beat_prompt_ok (heartbeat_prompt u now h)"
  by (simp add: beat_prompt_ok_def heartbeat_prompt_def row_ok_def)

lemma update_next: "ht_next (snd (update_heartbeat_last_run ok i now t)) = ht_next t"
  by (simp add: update_heartbeat_last_run_def)

lemma heart_ok_next: "heart_ok s \<Longrightarrow> heart_ok (next_heartbeat ca s)"
  by (auto simp: heart_ok_def next_heartbeat_def check_heartbeat_def update_next heartbeats_ok_update row_prompt split: option.splits list.splits)

lemma heart_run_ok: "heart_run works clock s \<Longrightarrow> heart_ok s"
proof (induction rule: heart_run.induct)
  case (start clock)
  show ?case by (simp add: heart_ok_def empty_heart_def heartbeats_ok_def)
next
  case (begin_step clock s ok)
  then show ?case by (auto simp: heart_ok_def begin_check_def list_heartbeats_def heartbeats_ok_def list_all_iff)
next
  case (next_step clock s ca)
  then show ?case by (simp add: heart_ok_next)
next
  case (add clock s valid_cron ok args)
  have "ht_next (hr_table s) \<le> ht_next (snd (heartbeat_add valid_cron ok clock args (hr_table s)))"
    by (rule add_cases [of valid_cron ok clock args "hr_table s"]) simp_all
  with add.IH heartbeats_ok_add [of "hr_table s" valid_cron ok clock args] show ?case
    by (fastforce simp: heart_ok_def split: option.splits)
next
  case (remove clock s ok arg)
  have "ht_next (hr_table s) = ht_next (snd (heartbeat_remove ok arg (hr_table s)))"
    by (rule remove_cases [of ok arg "hr_table s"]) simp_all
  with remove.IH heartbeats_ok_remove [of "hr_table s" ok arg] show ?case by (auto simp: heart_ok_def split: option.splits)
qed (simp_all add: heart_ok_def)

lemma remembers_own:
  assumes "remembers ps h" and "ran_before now h" and "hb_id h' = hb_id h"
  shows "remembers (ps @ [(hb_id h, heartbeat_prompt u now h)]) (h'\<lparr>hb_last_run := Some now\<rparr>)"
  using assms by (fastforce simp: remembers_def ran_before_def heartbeat_prompt_def)

lemma remembers_other:
  "remembers ps h' \<Longrightarrow> hb_id h' \<noteq> hb_id h \<Longrightarrow> remembers (ps @ [(hb_id h, heartbeat_prompt u now h)]) h'"
  by (auto simp: remembers_def)

text \<open>A heartbeat that fires now has not fired in this minute.\<close>

lemma fires_anew:
  assumes "remembers (hr_published s) h" and "ran_before now h" and "\<not> already_fired now h"
  shows "(hb_id h, truncate_minute now) \<notin> set (firings s)"
proof
  assume "(hb_id h, truncate_minute now) \<in> set (firings s)"
  then obtain e where e: "(hb_id h, e) \<in> set (hr_published s)" "truncate_minute (turn_at (pr_message e)) = truncate_minute now"
    by (auto simp: firings_def)
  with assms(1,2) obtain l where l: "hb_last_run h = Some l" "turn_at (pr_message e) \<le> l" "l \<le> now"
    by (fastforce simp: remembers_def ran_before_def)
  from truncate_mono [OF l(2)] truncate_mono [OF l(3)] e(2) have "truncate_minute l = truncate_minute now" by simp
  with assms(3) l(1) show False by (simp add: already_fired_def)
qed

lemma punctual_fire:
  assumes p: "heart_punctual clock s" and ok: "heart_ok s" and c: "hr_check s = Some (h # hs, now)" and new: "\<not> already_fired now h"
  defines "t \<equiv> snd (update_heartbeat_last_run True (hb_id h) now (hr_table s))"
  shows "heart_punctual clock
    (s\<lparr>hr_published := hr_published s @ [(hb_id h, heartbeat_prompt u now h)], hr_table := t, hr_check := Some (hs, now)\<rparr>)"
proof -
  let ?ps = "hr_published s @ [(hb_id h, heartbeat_prompt u now h)]"
  from p c have now: "now \<le> clock" and h: "remembers (hr_published s) h" "ran_before now h"
    and hs: "\<forall>g \<in> set hs. remembers (hr_published s) g \<and> ran_before now g"
    and rows: "\<forall>g \<in> set (ht_rows (hr_table s)). remembers (hr_published s) g \<and> ran_before clock g"
    by (simp_all add: heart_punctual_def)
  from ok c have "\<forall>g \<in> set hs. hb_id g \<noteq> hb_id h" by (simp add: heart_ok_def) (metis image_eqI)
  with hs have hs': "\<forall>g \<in> set hs. remembers ?ps g \<and> ran_before now g" using remembers_other by blast
  have "ht_rows t = map (\<lambda>g. if hb_id g = hb_id h then g\<lparr>hb_last_run := Some now\<rparr> else g) (ht_rows (hr_table s))"
    by (simp add: t_def update_rows)
  then have rows': "\<forall>g \<in> set (ht_rows t). remembers ?ps g \<and> ran_before clock g"
    using rows now remembers_own [OF h] remembers_other by (auto simp: ran_before_def)
  have "distinct (firings s @ [(hb_id h, truncate_minute now)])"
    using p fires_anew [OF h new] by (simp add: heart_punctual_def)
  with rows' hs' now show ?thesis by (simp add: heart_punctual_def firings_def heartbeat_prompt_def)
qed

lemma punctual_next:
  assumes "heart_punctual clock s" and "heart_ok s" and "ca_update_works ca"
  shows "heart_punctual clock (next_heartbeat ca s)"
proof (cases "hr_check s")
  case None
  then show ?thesis using assms(1) by (simp add: next_heartbeat_def)
next
  case (Some p)
  obtain hs now where c: "hr_check s = Some (hs, now)" using Some by (cases p) simp
  have dropped: "heart_punctual clock (s\<lparr>hr_check := None\<rparr>)" using assms(1) by (simp add: heart_punctual_def firings_def)
  show ?thesis
  proof (cases hs)
    case Nil
    then show ?thesis using c dropped by (simp add: next_heartbeat_def)
  next
    case (Cons h hs')
    have skipped: "heart_punctual clock (s\<lparr>hr_check := Some (hs', now)\<rparr>)"
      using assms(1) c Cons by (simp add: heart_punctual_def firings_def)
    show ?thesis
    proof (cases "already_fired now h \<or> ca_due ca (hb_cron h) (truncate_minute now) \<noteq> Some True \<or> ca_shutting_down ca")
      case True
      then show ?thesis
        using c Cons dropped skipped by (auto simp: next_heartbeat_def check_heartbeat_def split: option.split)
    next
      case False
      with punctual_fire [OF assms(1,2), of h hs' now "ca_uuid ca"] c Cons assms(3) show ?thesis
        by (simp add: next_heartbeat_def check_heartbeat_def)
    qed
  qed
qed

lemma heart_run_punctual: "heart_run True clock s \<Longrightarrow> heart_punctual clock s"
proof (induction rule: heart_run.induct)
  case (start clock)
  show ?case by (simp add: heart_punctual_def empty_heart_def firings_def)
next
  case (tick clock s clock')
  then show ?case by (fastforce simp: heart_punctual_def ran_before_def split: option.splits)
next
  case (begin_step clock s ok)
  then show ?case by (auto simp: heart_punctual_def begin_check_def list_heartbeats_def firings_def)
next
  case (next_step clock s ca)
  then show ?case using punctual_next heart_run_ok by blast
next
  case (add clock s valid_cron ok args)
  from heart_run_ok [OF add.hyps] have old: "\<forall>(i, e) \<in> set (hr_published s). i < ht_next (hr_table s)" by (auto simp: heart_ok_def)
  show ?case
  proof (rule add_cases [of valid_cron ok clock args "hr_table s"])
    fix h
    assume "ht_rows (snd (heartbeat_add valid_cron ok clock args (hr_table s))) = ht_rows (hr_table s) @ [h]"
      and "hb_id h = ht_next (hr_table s)" and "hb_last_run h = None"
    moreover from this old have "remembers (hr_published s) h" "ran_before clock h" by (auto simp: remembers_def ran_before_def)
    ultimately show ?thesis using add.IH by (auto simp: heart_punctual_def firings_def split: option.splits)
  qed (use add.IH in simp)
next
  case (remove clock s ok arg)
  show ?case
    by (rule remove_cases [of ok arg "hr_table s"]) (use remove.IH in \<open>auto simp: heart_punctual_def firings_def split: option.splits\<close>)
next
  case (restart clock s)
  then show ?case by (simp add: heart_punctual_def firings_def)
qed

text \<open>
  C24: A heartbeat runs at most once a minute. Whatever the tools do to the table during a check, and however often the service is
  restarted, no heartbeat is published twice in the same minute, provided the clock does not go back and the updates of the last run
  succeed.
\<close>

theorem heartbeat_once_a_minute:
  assumes "heart_run True clock s"
  shows "distinct (map (\<lambda>(i, e). (i, truncate_minute (turn_at (pr_message e)))) (hr_published s))"
  using heart_run_punctual [OF assms] by (simp add: heart_punctual_def firings_def)

text \<open>
  The table is bounded and its names are harmless. In every run there are at most 100 heartbeats with distinct names, each within
  the limits of its fields, and each prompt that is published carries a name without control characters and quotes, which is what the
  template of the prompt relies on.
\<close>

theorem heartbeats_within_limits:
  assumes "heart_run works clock s"
  shows "length (ht_rows (hr_table s)) \<le> 100 \<and> distinct (map hb_name (ht_rows (hr_table s))) \<and> list_all row_ok (ht_rows (hr_table s)) \<and>
    (\<forall>(i, e) \<in> set (hr_published s). beat_prompt_ok e)"
  using heart_run_ok [OF assms] by (auto simp: heart_ok_def heartbeats_ok_def)

section \<open>A check on its own\<close>

definition fires :: "(string \<Rightarrow> time_ns \<Rightarrow> bool option) \<Rightarrow> time_ns \<Rightarrow> heartbeat \<Rightarrow> bool" where
  "fires due now h \<longleftrightarrow> \<not> already_fired now h \<and> due (hb_cron h) (truncate_minute now) = Some True"

lemma check_silent:
  assumes "\<forall>i. ca_due (ca i) = due" and "\<forall>h \<in> set hs. \<not> fires due now h"
  shows "check_all ca hs now s = s"
  using assms(2)
proof (induction hs)
  case (Cons h hs)
  then have "check_heartbeat (ca (hb_id h)) h now s = Some s"
    using assms(1) by (auto simp: check_heartbeat_def fires_def split: option.split)
  with Cons show ?case by simp
qed simp

lemma check_all_fires:
  assumes "\<forall>i. ca_due (ca i) = due \<and> \<not> ca_shutting_down (ca i) \<and> ca_update_works (ca i)"
  shows "hr_published (check_all ca hs now s) = hr_published s @
      map (\<lambda>h. (hb_id h, heartbeat_prompt (ca_uuid (ca (hb_id h))) now h)) (filter (fires due now) hs) \<and>
    ht_rows (hr_table (check_all ca hs now s)) =
      map (\<lambda>g. if \<exists>h \<in> set hs. fires due now h \<and> hb_id h = hb_id g then g\<lparr>hb_last_run := Some now\<rparr> else g) (ht_rows (hr_table s))"
proof (induction hs arbitrary: s)
  case (Cons h hs)
  show ?case
  proof (cases "fires due now h")
    case False
    then have "check_heartbeat (ca (hb_id h)) h now s = Some s"
      using assms by (auto simp: check_heartbeat_def fires_def split: option.split)
    with Cons False show ?thesis by simp
  next
    case True
    define s' where "s' = s\<lparr>hr_published := hr_published s @ [(hb_id h, heartbeat_prompt (ca_uuid (ca (hb_id h))) now h)],
      hr_table := snd (update_heartbeat_last_run True (hb_id h) now (hr_table s))\<rparr>"
    from True assms have c: "check_heartbeat (ca (hb_id h)) h now s = Some s'"
      by (simp add: check_heartbeat_def fires_def s'_def)
    have "ht_rows (hr_table s') = map (\<lambda>g. if hb_id g = hb_id h then g\<lparr>hb_last_run := Some now\<rparr> else g) (ht_rows (hr_table s))"
      by (simp add: s'_def update_rows)
    with Cons [of s'] c True show ?thesis by (auto simp: s'_def)
  qed
qed simp

text \<open>
  A check publishes exactly the heartbeats that are due and have not run in this minute, in the order of the table, and a second check
  in the same minute publishes nothing.
\<close>

theorem check_publishes_due:
  fixes s :: heart
  assumes "\<forall>i. ca_due (ca i) = due \<and> \<not> ca_shutting_down (ca i) \<and> ca_update_works (ca i)"
    and "\<forall>i. ca_due (ca' i) = due" and "truncate_minute now' = truncate_minute now"
  defines "s' \<equiv> check_heartbeats True ca now s"
  shows "hr_published s' = hr_published s @
      map (\<lambda>h. (hb_id h, heartbeat_prompt (ca_uuid (ca (hb_id h))) now h)) (filter (fires due now) (ht_rows (hr_table s))) \<and>
    check_heartbeats works ca' now' s' = s'"
proof -
  let ?rows = "ht_rows (hr_table s)"
  have s': "s' = check_all ca ?rows now s" by (simp add: s'_def check_heartbeats_def list_heartbeats_def)
  note f = check_all_fires [OF assms(1), of ?rows now s, folded s']
  define u where "u g = (if \<exists>h \<in> set ?rows. fires due now h \<and> hb_id h = hb_id g then g\<lparr>hb_last_run := Some now\<rparr> else g)" for g :: heartbeat
  have rows: "ht_rows (hr_table s') = map u ?rows" using conjunct2 [OF f] by (simp add: u_def [abs_def])
  have "\<not> fires due now' g" if "g \<in> set (ht_rows (hr_table s'))" for g
  proof -
    from that obtain r where r: "r \<in> set ?rows" and g: "g = u r" unfolding rows by auto
    show ?thesis
    proof (cases "\<exists>h \<in> set ?rows. fires due now h \<and> hb_id h = hb_id r")
      case True
      with g assms(3) show ?thesis by (simp add: u_def fires_def already_fired_def)
    next
      case False
      with g r have "\<not> fires due now r" "g = r" by (auto simp: u_def)
      with assms(3) show ?thesis by (auto simp: fires_def already_fired_def split: option.splits)
    qed
  qed
  then have "check_all ca' (ht_rows (hr_table s')) now' s' = s'" using check_silent [OF assms(2)] by blast
  with conjunct1 [OF f] show ?thesis by (simp add: check_heartbeats_def list_heartbeats_def)
qed

section \<open>A concrete heartbeat\<close>

definition demo_args :: heartbeat_add_args where
  "demo_args = \<lparr>ha_name = ''n'', ha_cron_expr = ''c'', ha_prompt = ''p''\<rparr>"

definition demo_row :: "time_ns option \<Rightarrow> heartbeat" where
  "demo_row l = \<lparr>hb_id = 1, hb_name = ''n'', hb_cron = ''c'', hb_prompt = ''p'', hb_last_run = l, hb_created = 0\<rparr>"

definition demo_answers :: "bool \<Rightarrow> check_answers" where
  "demo_answers works = \<lparr>ca_due = (\<lambda>_ _. Some True), ca_shutting_down = False, ca_uuid = ''u'', ca_update_works = works\<rparr>"

lemma demo_add: "heartbeat_add (\<lambda>_. True) True 0 (Some demo_args) (hr_table empty_heart) = (None, \<lparr>ht_rows = [demo_row None], ht_next = 2\<rparr>)"
proof -
  have "trim_space [c] = [c]" "rune_count [c] = 1" "runes [c] = [bv c]" if "bv c < 0x80" "\<not> is_space (bv c)" for c
    using that by (simp_all add: trim_space_def trim_segs_def segs.simps(2) decode_rune_ascii seg_space_def rune_count_def runes_def)
  then show ?thesis
    by (simp add: heartbeat_add_def demo_args_def is_space_def validate_heartbeat_name_def max_heartbeat_name_len_def
        max_heartbeat_cron_expr_len_def max_heartbeat_prompt_len_def max_heartbeat_count_def insert_heartbeat_def empty_heart_def demo_row_def)
qed

text \<open>The heartbeat fires at the start of a minute; the flag tells whether the update works.\<close>

definition demo_heart :: "bool \<Rightarrow> heart" where
  "demo_heart works = \<lparr>hr_table = \<lparr>ht_rows = [demo_row (if works then Some 0 else None)], ht_next = 2\<rparr>, hr_check = None,
     hr_published = [(1, heartbeat_prompt ''u'' 0 (demo_row None))]\<rparr>"

lemma demo_run: "heart_run works 0 (demo_heart works)"
proof -
  have "heart_run works 0 (empty_heart\<lparr>hr_table := \<lparr>ht_rows = [demo_row None], ht_next = 2\<rparr>\<rparr>)" (is "heart_run _ _ ?a")
    using heart_run.add [OF heart_run.start, of works 0 "\<lambda>_. True" True "Some demo_args"] demo_add by simp
  from heart_run.begin_step [OF this, of True] have "heart_run works 0 (begin_check True 0 ?a)" by (simp add: empty_heart_def)
  from heart_run.next_step [OF heart_run.next_step [OF this, of "demo_answers works"], of "demo_answers works"]
  have "heart_run works 0 (next_heartbeat (demo_answers works) (next_heartbeat (demo_answers works) (begin_check True 0 ?a)))"
    by (simp add: demo_answers_def)
  moreover have "next_heartbeat (demo_answers works) (next_heartbeat (demo_answers works) (begin_check True 0 ?a)) = demo_heart works"
    by (simp add: begin_check_def list_heartbeats_def empty_heart_def next_heartbeat_def check_heartbeat_def demo_answers_def
        update_heartbeat_last_run_def demo_row_def already_fired_def demo_heart_def)
  ultimately show ?thesis by simp
qed

theorem heartbeat_once_a_minute_witness:
  "heart_run True 0 (demo_heart True) \<and> map fst (hr_published (demo_heart True)) = [1] \<and>
   distinct (map (\<lambda>(i, e). (i, truncate_minute (turn_at (pr_message e)))) (hr_published (demo_heart True)))"
  using demo_run [of True] heartbeat_once_a_minute [OF demo_run] by (simp add: demo_heart_def)

theorem heartbeats_within_limits_witness:
  "list_all row_ok (ht_rows (hr_table (demo_heart False))) \<and> ht_rows (hr_table (demo_heart False)) = [demo_row None] \<and>
   (\<forall>(i, e) \<in> set (hr_published (demo_heart False)). beat_prompt_ok e)"
  using heartbeats_within_limits [OF demo_run [of False]] by (simp add: demo_heart_def)

theorem check_publishes_due_witness:
  "map fst (hr_published (check_heartbeats True (\<lambda>_. demo_answers True) (90 * second) (demo_heart True))) = [1, 1] \<and>
   check_heartbeats True (\<lambda>_. demo_answers True) (100 * second) (check_heartbeats True (\<lambda>_. demo_answers True) (90 * second) (demo_heart True)) =
     check_heartbeats True (\<lambda>_. demo_answers True) (90 * second) (demo_heart True)"
proof -
  have m: "truncate_minute (90 * second) = 60 * second" "truncate_minute (100 * second) = 60 * second" "truncate_minute 0 = 0"
    by (simp_all add: truncate_minute_def minute_def)
  have "fires (\<lambda>_ _. Some True) (90 * second) (demo_row (Some 0))" using m by (simp add: fires_def already_fired_def demo_row_def)
  with check_publishes_due [of "\<lambda>_. demo_answers True" "\<lambda>_ _. Some True" "\<lambda>_. demo_answers True" "100 * second" "90 * second" "demo_heart True" True] m
  show ?thesis by (simp add: demo_answers_def demo_heart_def demo_row_def)
qed

text \<open>
  The guard is the stored time. When its update fails, the heartbeat stays due: there is a run in which it is published twice in one
  minute, as it happens when the service restarts within that minute.
\<close>

theorem heartbeat_repeats:
  "\<exists>s. heart_run False (30 * second) s \<and>
     map (\<lambda>(i, e). (i, truncate_minute (turn_at (pr_message e)))) (hr_published s) = [(1, 0), (1, 0)]"
proof -
  let ?s = "next_heartbeat (demo_answers False) (begin_check True (30 * second) (demo_heart False))"
  have "heart_run False (30 * second) (demo_heart False)" by (rule heart_run.tick [OF demo_run]) simp
  from heart_run.begin_step [OF this, of True] have "heart_run False (30 * second) (begin_check True (30 * second) (demo_heart False))"
    by (simp add: demo_heart_def)
  from heart_run.next_step [OF this, of "demo_answers False"] have "heart_run False (30 * second) ?s" by simp
  moreover have "hr_published ?s = [(1, heartbeat_prompt ''u'' 0 (demo_row None)), (1, heartbeat_prompt ''u'' (30 * second) (demo_row None))]"
    by (simp add: begin_check_def list_heartbeats_def demo_heart_def next_heartbeat_def check_heartbeat_def demo_answers_def
        demo_row_def already_fired_def)
  moreover have "truncate_minute 0 = 0" "truncate_minute (30 * second) = 0" by (simp_all add: truncate_minute_def minute_def)
  ultimately show ?thesis by (intro exI [of _ ?s]) (simp add: heartbeat_prompt_def)
qed

end
