(* ===== verification/PushTokens.thy ===== *)
theory PushTokens
  imports TextSanitize GoStrings
begin

text \<open>
  The push tokens of mobile devices: the table (\<open>internal/config/store/push_tokens.go\<close>) and the calls that register and unregister a
  device (\<open>internal/server/grpc_services_push_tokens.go\<close>), with the removal of the tokens of a deleted login
  (\<open>DeleteToken\<close> in \<open>grpc_services_auth.go\<close>). The login of a call and the state of the database are arguments. The columns
  \<open>created_at\<close> and \<open>updated_at\<close> are left out: the rows stand in the order of their creation, which an update keeps.
\<close>

section \<open>The table (\<open>push_tokens.go\<close>, \<open>schema.go\<close>)\<close>

record push_token =
  pt_device :: string
  pt_token :: string
  pt_events :: "string list"
  pt_auth :: string

type_synonym push_table = "push_token list"

datatype store_access = Working | Read_Only | Failing

datatype push_error =
  Not_Writable | Device_Required | Device_Too_Long | Token_Required | Token_Too_Long | Event_Required | Auth_Required | Database_Failed

definition max_push_token_field_len :: nat where "max_push_token_field_len = 256"

definition validate_push_token_input ::
    "string \<Rightarrow> string \<Rightarrow> string list \<Rightarrow> push_error + string \<times> string \<times> string list" where
  "validate_push_token_input device token events =
     (let device = trim_space device; token = trim_space token
      in if device = [] then Inl Device_Required
         else if length device > max_push_token_field_len then Inl Device_Too_Long
         else if token = [] then Inl Token_Required
         else if length token > max_push_token_field_len then Inl Token_Too_Long
         else if events = [] then Inl Event_Required
         else Inr (device, token, events))"

text \<open>The upsert on the key \<open>device_id\<close>: a row that exists gets the new values.\<close>

definition upsert_push_token :: "push_token \<Rightarrow> push_table \<Rightarrow> push_table" where
  "upsert_push_token new t =
     (if pt_device new \<in> pt_device ` set t
      then map (\<lambda>r. if pt_device r = pt_device new then new else r) t
      else t @ [new])"

text \<open>The operations that write return the number of rows they touched, as a boolean.\<close>

definition save_push_token_owned ::
    "store_access \<Rightarrow> string \<Rightarrow> string \<Rightarrow> string list \<Rightarrow> string \<Rightarrow> push_table \<Rightarrow> (push_error + bool) \<times> push_table" where
  "save_push_token_owned db device token events auth t =
     (if db = Read_Only then (Inl Not_Writable, t)
      else if auth = [] then (Inl Auth_Required, t)
      else case validate_push_token_input device token events of
             Inl e \<Rightarrow> (Inl e, t)
           | Inr (device, token, events) \<Rightarrow>
               if db = Failing then (Inl Database_Failed, t)
               else if list_ex (\<lambda>r. pt_device r = device \<and> \<not> (pt_auth r = [] \<or> pt_auth r = auth)) t then (Inr False, t)
               else (Inr True,
                 upsert_push_token \<lparr>pt_device = device, pt_token = token, pt_events = events, pt_auth = auth\<rparr> t))"

definition get_push_token :: "store_access \<Rightarrow> string \<Rightarrow> push_table \<Rightarrow> push_error + push_token option" where
  "get_push_token db device t =
     (let device = trim_space device
      in if device = [] then Inl Device_Required
         else if db = Failing then Inl Database_Failed
         else Inr (find (\<lambda>r. pt_device r = device) t))"

definition delete_push_token_owned :: "store_access \<Rightarrow> string \<Rightarrow> string \<Rightarrow> push_table \<Rightarrow> (push_error + bool) \<times> push_table" where
  "delete_push_token_owned db device auth t =
     (if db = Read_Only then (Inl Not_Writable, t)
      else let device = trim_space device
           in if device = [] then (Inl Device_Required, t)
              else if auth = [] then (Inl Auth_Required, t)
              else if db = Failing then (Inl Database_Failed, t)
              else let gone = (\<lambda>r. pt_device r = device \<and> (pt_auth r = [] \<or> pt_auth r = auth))
                   in (Inr (list_ex gone t), filter (\<lambda>r. \<not> gone r) t))"

definition delete_push_token_if_match :: "store_access \<Rightarrow> string \<Rightarrow> string \<Rightarrow> push_table \<Rightarrow> (push_error + bool) \<times> push_table" where
  "delete_push_token_if_match db device token t =
     (if db = Read_Only then (Inl Not_Writable, t)
      else let device = trim_space device; token = trim_space token
           in if device = [] then (Inl Device_Required, t)
              else if token = [] then (Inl Token_Required, t)
              else if db = Failing then (Inl Database_Failed, t)
              else let gone = (\<lambda>r. pt_device r = device \<and> pt_token r = token)
                   in (Inr (list_ex gone t), filter (\<lambda>r. \<not> gone r) t))"

definition list_push_tokens_for_event :: "store_access \<Rightarrow> string \<Rightarrow> push_table \<Rightarrow> push_table option" where
  "list_push_tokens_for_event db event t =
     (let event = trim_space event
      in if event = [] then None
         else if db = Failing then None
         else Some (filter (\<lambda>r. event \<in> set (pt_events r)) t))"

definition delete_push_tokens_by_auth_token :: "store_access \<Rightarrow> string \<Rightarrow> push_table \<Rightarrow> push_error option \<times> push_table" where
  "delete_push_tokens_by_auth_token db auth t =
     (if db = Read_Only then (Some Not_Writable, t)
      else let auth = trim_space auth
           in if auth = [] then (Some Auth_Required, t)
              else if db = Failing then (Some Database_Failed, t)
              else (None, filter (\<lambda>r. pt_auth r \<noteq> auth) t))"

section \<open>The calls (\<open>grpc_services_push_tokens.go\<close>)\<close>

datatype rpc_code = Unavailable | Invalid_Argument | Unauthenticated | Internal | Permission_Denied

definition max_push_token_len :: nat where "max_push_token_len = 256"

definition max_device_id_len :: nat where "max_device_id_len = 256"

text \<open>The characters \<open>[A-Za-z0-9._-]\<close>, and the two regular expressions.\<close>

definition id_char :: "char \<Rightarrow> bool" where
  "id_char c \<longleftrightarrow> (let b = bv c in 0x41 \<le> b \<and> b \<le> 0x5A \<or> 0x61 \<le> b \<and> b \<le> 0x7A \<or> 0x30 \<le> b \<and> b \<le> 0x39 \<or> b \<in> {0x2E, 0x5F, 0x2D})"

definition expo_push_token_format :: "string \<Rightarrow> bool" where
  "expo_push_token_format s \<longleftrightarrow>
     (let p = ''ExponentPushToken[''; inner = butlast (drop (length p) s)
      in take (length p) s = p \<and> drop (length p) s \<noteq> [] \<and> last s = CHR '']'' \<and> list_all id_char inner \<and> length inner \<ge> 10)"

definition device_id_format :: "string \<Rightarrow> bool" where
  "device_id_format s \<longleftrightarrow> s \<noteq> [] \<and> list_all id_char s"

text \<open>The enumeration of the protocol; any other number is an \<open>Other_Event\<close> with the name that the generated code prints for it.\<close>

datatype event_type = Task_Completed | Input_Needed | Error_Event | Other_Event string

definition is_known_notification_event_type :: "event_type \<Rightarrow> bool" where
  "is_known_notification_event_type ev = (case ev of Other_Event _ \<Rightarrow> False | _ \<Rightarrow> True)"

fun notification_event_type_to_string :: "event_type \<Rightarrow> string" where
  "notification_event_type_to_string Task_Completed = ''TASK_COMPLETED''"
| "notification_event_type_to_string Input_Needed = ''INPUT_NEEDED''"
| "notification_event_type_to_string Error_Event = ''ERROR''"
| "notification_event_type_to_string (Other_Event s) =
     (let p = ''NOTIFICATION_EVENT_TYPE_'' in if has_prefix s p then drop (length p) s else s)"

text \<open>The loop over the events of a request: unknown ones are refused, repeated ones skipped.\<close>

fun collect_events :: "event_type list \<Rightarrow> string list \<Rightarrow> string list option" where
  "collect_events [] events = Some events"
| "collect_events (ev # evs) events =
     (if \<not> is_known_notification_event_type ev then None
      else let s = notification_event_type_to_string ev
           in if s \<in> set events then collect_events evs events else collect_events evs (events @ [s]))"

text \<open>\<open>auth\<close> is the id of the login in the context of the call, \<open>None\<close> when there is no login.\<close>

definition register_push_token ::
    "bool \<Rightarrow> store_access \<Rightarrow> string option \<Rightarrow> string \<Rightarrow> string \<Rightarrow> event_type list \<Rightarrow> push_table \<Rightarrow> rpc_code option \<times> push_table" where
  "register_push_token has_store db auth token device evs t =
     (if \<not> has_store then (Some Unavailable, t)
      else let token = trim_space token; device = trim_space device
           in if token = [] then (Some Invalid_Argument, t)
              else if length token > max_push_token_len then (Some Invalid_Argument, t)
              else if \<not> expo_push_token_format token then (Some Invalid_Argument, t)
              else if device = [] then (Some Invalid_Argument, t)
              else if length device > max_device_id_len then (Some Invalid_Argument, t)
              else if \<not> device_id_format device then (Some Invalid_Argument, t)
              else if evs = [] then (Some Invalid_Argument, t)
              else case collect_events evs [] of
                     None \<Rightarrow> (Some Invalid_Argument, t)
                   | Some events \<Rightarrow>
                       if auth = None \<or> auth = Some [] then (Some Unauthenticated, t)
                       else case save_push_token_owned db device token events (the auth) t of
                              (Inl e, t) \<Rightarrow> (Some Internal, t)
                            | (Inr saved, t) \<Rightarrow> (if saved then None else Some Permission_Denied, t))"

definition unregister_push_token ::
    "bool \<Rightarrow> store_access \<Rightarrow> string option \<Rightarrow> string \<Rightarrow> push_table \<Rightarrow> rpc_code option \<times> push_table" where
  "unregister_push_token has_store db auth device t =
     (if \<not> has_store then (Some Unavailable, t)
      else let device = trim_space device
           in if device = [] then (Some Invalid_Argument, t)
              else if length device > max_device_id_len then (Some Invalid_Argument, t)
              else if \<not> device_id_format device then (Some Invalid_Argument, t)
              else if auth = None \<or> auth = Some [] then (Some Unauthenticated, t)
              else case delete_push_token_owned db device (the auth) t of
                     (Inl e, t) \<Rightarrow> (Some Internal, t)
                   | (Inr deleted, t) \<Rightarrow>
                       (if deleted then None
                        else case get_push_token db device t of
                               Inl e \<Rightarrow> Some Internal
                             | Inr existing \<Rightarrow> (if existing = None then None else Some Permission_Denied), t))"

text \<open>The end of \<open>DeleteToken\<close>, after the login is gone: an error is only logged.\<close>

definition cascade_push_tokens :: "bool \<Rightarrow> store_access \<Rightarrow> string \<Rightarrow> push_table \<Rightarrow> push_table" where
  "cascade_push_tokens has_store db removed t = (if has_store then snd (delete_push_tokens_by_auth_token db removed t) else t)"

section \<open>Plain identifiers\<close>

lemma id_char_plain: "id_char c \<Longrightarrow> bv c < 0x80 \<and> \<not> is_space (bv c)"
  by (auto simp: id_char_def is_space_def Let_def)

lemma plain_segs: "\<forall>c \<in> set s. bv c < 0x80 \<Longrightarrow> segs s = map (\<lambda>c. (bv c, [c])) s"
  by (induction s) (simp_all add: segs.simps(2) decode_rune_ascii)

lemma plain_trim:
  assumes "\<forall>c \<in> set s. bv c < 0x80 \<and> \<not> is_space (bv c)"
  shows "trim_space s = s"
proof -
  have keep: "dropWhile seg_space (map (\<lambda>c. (bv c, [c])) u) = map (\<lambda>c. (bv c, [c])) u" if "set u \<subseteq> set s" for u
    using assms that by (cases u) (auto simp: seg_space_def)
  have "trim_segs (segs s) = map (\<lambda>c. (bv c, [c])) s"
    using assms keep [of s] keep [of "rev s"] by (simp add: plain_segs trim_segs_def rev_map)
  then show ?thesis by (simp add: trim_space_def comp_def)
qed

lemma device_trim: "device_id_format d \<Longrightarrow> trim_space d = d"
  by (rule plain_trim) (auto simp: device_id_format_def list_all_iff id_char_plain)

lemma expo_token_trim:
  assumes "expo_push_token_format s"
  shows "trim_space s = s \<and> s \<noteq> []"
proof -
  define p where "p = ''ExponentPushToken[''"
  have f: "take (length p) s = p" "drop (length p) s \<noteq> []" "last s = CHR '']''" "list_all id_char (butlast (drop (length p) s))"
    using assms by (simp_all add: expo_push_token_format_def p_def Let_def)
  from f(2,3) have "last (drop (length p) s) = CHR '']''" by simp
  with f(1,2) have s: "s = p @ butlast (drop (length p) s) @ [CHR '']'']"
    by (metis append_butlast_last_id append_take_drop_id)
  have "\<forall>c \<in> set p. bv c < 0x80 \<and> \<not> is_space (bv c)" by (simp add: p_def is_space_def)
  moreover have "bv (CHR '']'') < 0x80 \<and> \<not> is_space (bv (CHR '']''))" by (simp add: is_space_def)
  ultimately have "\<forall>c \<in> set (p @ butlast (drop (length p) s) @ [CHR '']'']). bv c < 0x80 \<and> \<not> is_space (bv c)"
    using f(4) id_char_plain by (auto simp: list_all_iff)
  with s have "trim_space s = s" by (metis plain_trim)
  with f(2) show ?thesis by auto
qed

lemma collect_events_some:
  "\<forall>ev \<in> set evs. is_known_notification_event_type ev \<Longrightarrow> distinct events \<Longrightarrow>
    \<exists>es. collect_events evs events = Some es \<and> distinct es \<and> set es = set events \<union> notification_event_type_to_string ` set evs"
proof (induction evs events rule: collect_events.induct)
  case (2 ev evs events)
  show ?case
  proof (cases "notification_event_type_to_string ev \<in> set events")
    case True
    with 2 show ?thesis by (simp add: insert_absorb)
  next
    case False
    with 2 show ?thesis by simp
  qed
qed simp

lemma collect_events_none: "\<not> (\<forall>ev \<in> set evs. is_known_notification_event_type ev) \<Longrightarrow> collect_events evs events = None"
  by (induction evs events rule: collect_events.induct) (auto simp: Let_def)

section \<open>What a registration does\<close>

definition request_ok :: "string \<Rightarrow> string \<Rightarrow> event_type list \<Rightarrow> bool" where
  "request_ok token device evs \<longleftrightarrow>
     expo_push_token_format (trim_space token) \<and> length (trim_space token) \<le> 256 \<and>
     device_id_format (trim_space device) \<and> length (trim_space device) \<le> 256 \<and>
     evs \<noteq> [] \<and> (\<forall>ev \<in> set evs. is_known_notification_event_type ev)"

definition owned_by_other :: "string \<Rightarrow> string \<Rightarrow> push_table \<Rightarrow> bool" where
  "owned_by_other device auth t \<longleftrightarrow> (\<exists>r \<in> set t. pt_device r = device \<and> pt_auth r \<noteq> [] \<and> pt_auth r \<noteq> auth)"

lemma list_ex_owned: "list_ex (\<lambda>r. pt_device r = d \<and> pt_auth r \<noteq> [] \<and> pt_auth r \<noteq> a) t = owned_by_other d a t"
  by (auto simp: owned_by_other_def list_ex_iff)

text \<open>A request that the call accepts passes the checks of the table too.\<close>

lemma register_accepted:
  assumes "request_ok token device evs" and "auth \<noteq> []"
  obtains es where "distinct es" "set es = notification_event_type_to_string ` set evs"
    "register_push_token True db (Some auth) token device evs t =
      (if db \<noteq> Working then (Some Internal, t)
       else if owned_by_other (trim_space device) auth t then (Some Permission_Denied, t)
       else (None, upsert_push_token \<lparr>pt_device = trim_space device, pt_token = trim_space token, pt_events = es, pt_auth = auth\<rparr> t))"
proof -
  from assms(1) obtain es where es: "collect_events evs [] = Some es" "distinct es" "set es = notification_event_type_to_string ` set evs"
    using collect_events_some [of evs "[]"] by (auto simp: request_ok_def)
  with assms(1) have ne: "es \<noteq> []" by (auto simp: request_ok_def)
  have tr: "trim_space (trim_space device) = trim_space device" "trim_space device \<noteq> []"
    "trim_space (trim_space token) = trim_space token" "trim_space token \<noteq> []"
    using assms(1) device_trim [of "trim_space device"] expo_token_trim [of "trim_space token"]
    by (auto simp: request_ok_def device_id_format_def)
  have "validate_push_token_input (trim_space device) (trim_space token) es = Inr (trim_space device, trim_space token, es)"
    using assms(1) tr ne by (simp add: validate_push_token_input_def request_ok_def max_push_token_field_len_def Let_def)
  then have "save_push_token_owned db (trim_space device) (trim_space token) es auth t =
      (if db = Read_Only then (Inl Not_Writable, t) else if db = Failing then (Inl Database_Failed, t)
       else if owned_by_other (trim_space device) auth t then (Inr False, t)
       else (Inr True, upsert_push_token \<lparr>pt_device = trim_space device, pt_token = trim_space token, pt_events = es, pt_auth = auth\<rparr> t))"
    using assms(2) by (simp add: save_push_token_owned_def list_ex_owned)
  then have "register_push_token True db (Some auth) token device evs t =
      (if db \<noteq> Working then (Some Internal, t)
       else if owned_by_other (trim_space device) auth t then (Some Permission_Denied, t)
       else (None, upsert_push_token \<lparr>pt_device = trim_space device, pt_token = trim_space token, pt_events = es, pt_auth = auth\<rparr> t))"
    using assms tr es(1) by (cases db) (simp_all add: register_push_token_def request_ok_def max_push_token_len_def max_device_id_len_def)
  with es(2,3) that show thesis by blast
qed

lemma register_refused:
  "\<not> request_ok token device evs \<Longrightarrow> register_push_token True db auth token device evs t = (Some Invalid_Argument, t)"
  using collect_events_none [of evs "[]"]
  by (cases "\<forall>ev \<in> set evs. is_known_notification_event_type ev")
    (auto simp: register_push_token_def request_ok_def max_push_token_len_def max_device_id_len_def Let_def)

lemma upsert_row:
  "\<exists>r \<in> set (upsert_push_token new t). r = new"
  "filter (\<lambda>r. pt_device r \<noteq> pt_device new) (upsert_push_token new t) = filter (\<lambda>r. pt_device r \<noteq> pt_device new) t"
  "map pt_device (upsert_push_token new t) =
    (if pt_device new \<in> pt_device ` set t then map pt_device t else map pt_device t @ [pt_device new])"
proof -
  show "\<exists>r \<in> set (upsert_push_token new t). r = new" by (force simp: upsert_push_token_def)
  have "filter (\<lambda>r. pt_device r \<noteq> d) (map (\<lambda>r. if pt_device r = d then new else r) u) = filter (\<lambda>r. pt_device r \<noteq> d) u"
    if "d = pt_device new" for u d using that by (induction u) auto
  then show "filter (\<lambda>r. pt_device r \<noteq> pt_device new) (upsert_push_token new t) = filter (\<lambda>r. pt_device r \<noteq> pt_device new) t"
    by (simp add: upsert_push_token_def)
  show "map pt_device (upsert_push_token new t) =
      (if pt_device new \<in> pt_device ` set t then map pt_device t else map pt_device t @ [pt_device new])"
    by (simp add: upsert_push_token_def)
qed

text \<open>
  C1: What a registration by a login does. A request outside the formats is refused and changes nothing; a request for a device of
  another login is denied and changes nothing; every other request is served, whether the device is new or not: then the table has
  the device with the new token, this login and exactly the events asked for, each once, and the rows of the other devices are as before.
\<close>

theorem registration_outcome:
  assumes "auth \<noteq> []"
  shows "case register_push_token True Working (Some auth) token device evs t of (code, t') \<Rightarrow>
    if \<not> request_ok token device evs then code = Some Invalid_Argument \<and> t' = t
    else if owned_by_other (trim_space device) auth t then code = Some Permission_Denied \<and> t' = t
    else code = None \<and> filter (\<lambda>r. pt_device r \<noteq> trim_space device) t' = filter (\<lambda>r. pt_device r \<noteq> trim_space device) t \<and>
      (\<exists>r \<in> set t'. pt_device r = trim_space device \<and> pt_token r = trim_space token \<and> pt_auth r = auth \<and>
        distinct (pt_events r) \<and> set (pt_events r) = notification_event_type_to_string ` set evs)"
proof (cases "request_ok token device evs")
  case True
  obtain es where es: "distinct es" "set es = notification_event_type_to_string ` set evs"
    and r: "register_push_token True Working (Some auth) token device evs t =
      (if owned_by_other (trim_space device) auth t then (Some Permission_Denied, t)
       else (None, upsert_push_token \<lparr>pt_device = trim_space device, pt_token = trim_space token, pt_events = es, pt_auth = auth\<rparr> t))"
    using register_accepted [OF True assms, of Working t] by auto
  let ?new = "\<lparr>pt_device = trim_space device, pt_token = trim_space token, pt_events = es, pt_auth = auth\<rparr>"
  show ?thesis using True es upsert_row(1,2) [of ?new t] by (auto simp: r intro!: bexI [of _ ?new] split: if_splits)
qed (simp add: register_refused)

theorem registration_outcome_witness:
  "register_push_token True Working (Some ''a'') ''ExponentPushToken[0123456789]'' ''phone'' [Error_Event, Error_Event] [] =
     (None, [\<lparr>pt_device = ''phone'', pt_token = ''ExponentPushToken[0123456789]'', pt_events = [''ERROR''], pt_auth = ''a''\<rparr>]) \<and>
   (\<exists>r \<in> set (snd (register_push_token True Working (Some ''a'') ''ExponentPushToken[0123456789]'' ''phone'' [Error_Event, Error_Event] [])).
     set (pt_events r) = {''ERROR''})"
proof -
  have d: "device_id_format ''phone''" by (simp add: device_id_format_def id_char_def)
  have e: "expo_push_token_format ''ExponentPushToken[0123456789]''" by (simp add: expo_push_token_format_def id_char_def)
  note tr = device_trim [OF d] conjunct1 [OF expo_token_trim [OF e]]
  have r: "register_push_token True Working (Some ''a'') ''ExponentPushToken[0123456789]'' ''phone'' [Error_Event, Error_Event] [] =
     (None, [\<lparr>pt_device = ''phone'', pt_token = ''ExponentPushToken[0123456789]'', pt_events = [''ERROR''], pt_auth = ''a''\<rparr>])"
    using d e by (simp add: register_push_token_def tr max_push_token_len_def max_device_id_len_def is_known_notification_event_type_def
        save_push_token_owned_def validate_push_token_input_def max_push_token_field_len_def upsert_push_token_def)
  have "request_ok ''ExponentPushToken[0123456789]'' ''phone'' [Error_Event, Error_Event]"
    using d e by (simp add: request_ok_def tr is_known_notification_event_type_def)
  with registration_outcome [of "''a''" "''ExponentPushToken[0123456789]''" "''phone''" "[Error_Event, Error_Event]" "[]"] r
  show ?thesis by (auto simp: owned_by_other_def)
qed

section \<open>Whose calls reach a row\<close>

text \<open>The calls of the server and the removal of stale tokens by the notification service, in any order.\<close>

datatype push_call =
  Register_Call "string option" string string "event_type list"
| Unregister_Call "string option" string
| Login_Deleted string
| Stale_Removed string string

fun push_step :: "store_access \<times> push_call \<Rightarrow> push_table \<Rightarrow> push_table" where
  "push_step (db, Register_Call auth token device evs) t = snd (register_push_token True db auth token device evs t)"
| "push_step (db, Unregister_Call auth device) t = snd (unregister_push_token True db auth device t)"
| "push_step (db, Login_Deleted auth) t = cascade_push_tokens True db auth t"
| "push_step (db, Stale_Removed device token) t = snd (delete_push_token_if_match db device token t)"

text \<open>The calls that may touch a row: those of its own login for its device, the deletion of its login, and the removal of its very token.\<close>

fun entitled :: "push_call \<Rightarrow> push_token \<Rightarrow> bool" where
  "entitled (Register_Call auth _ device _) r \<longleftrightarrow> trim_space device = pt_device r \<and> (pt_auth r = [] \<or> auth = Some (pt_auth r))"
| "entitled (Unregister_Call auth device) r \<longleftrightarrow> trim_space device = pt_device r \<and> (pt_auth r = [] \<or> auth = Some (pt_auth r))"
| "entitled (Login_Deleted auth) r \<longleftrightarrow> trim_space auth = pt_auth r"
| "entitled (Stale_Removed device token) r \<longleftrightarrow> trim_space device = pt_device r \<and> trim_space token = pt_token r"

lemma upsert_keeps: "r \<in> set t \<Longrightarrow> pt_device r \<noteq> pt_device new \<Longrightarrow> r \<in> set (upsert_push_token new t)"
  by (force simp: upsert_push_token_def)

lemma register_keeps:
  assumes "r \<in> set t" and "\<not> entitled (Register_Call auth token device evs) r"
  shows "r \<in> set (snd (register_push_token True db auth token device evs t))"
proof (cases "request_ok token device evs \<and> auth \<noteq> None \<and> auth \<noteq> Some []")
  case True
  then obtain a where a: "auth = Some a" "a \<noteq> []" by auto
  have "owned_by_other (trim_space device) a t \<or> pt_device r \<noteq> trim_space device"
    using assms a by (auto simp: owned_by_other_def)
  then show ?thesis
    using register_accepted [of token device evs a db t] True a assms(1) upsert_keeps [OF assms(1)]
    by (metis (no_types, lifting) push_token.select_convs(1) snd_conv)
next
  case False
  show ?thesis
  proof (cases "request_ok token device evs")
    case True
    with False assms(1) show ?thesis
      by (auto simp: register_push_token_def Let_def split: option.splits)
  qed (simp add: register_refused assms(1))
qed

lemma push_step_keeps: "r \<in> set t \<Longrightarrow> \<not> entitled c r \<Longrightarrow> r \<in> set (push_step (db, c) t)"
proof (cases c)
  case (Register_Call auth token device evs)
  assume "r \<in> set t" "\<not> entitled c r"
  then show ?thesis using register_keeps by (simp add: Register_Call)
next
  case (Unregister_Call auth device)
  assume a: "r \<in> set t" "\<not> entitled c r"
  have tr: "device_id_format (trim_space device) \<Longrightarrow> trim_space (trim_space device) = trim_space device" by (rule device_trim)
  with a show ?thesis
    by (auto simp: Unregister_Call unregister_push_token_def delete_push_token_owned_def Let_def split: sum.splits)
qed (auto simp: cascade_push_tokens_def delete_push_tokens_by_auth_token_def delete_push_token_if_match_def Let_def)

text \<open>
  C1: A device belongs to the login that registered it. Whatever calls arrive, in any order and with any failures of the database, the
  row of a device stays as it is, token, events and login, as long as none of them is a call of its own login for this device, the
  deletion of its login, or the removal of the very token it holds.
\<close>

theorem push_token_ownership:
  assumes "r \<in> set t" and "\<forall>(db, c) \<in> set calls. \<not> entitled c r"
  shows "r \<in> set (fold push_step calls t)"
  using assms
proof (induction calls arbitrary: t)
  case (Cons call calls)
  then show ?case using push_step_keeps by (cases call) auto
qed simp

theorem push_token_ownership_witness:
  "\<lparr>pt_device = ''phone'', pt_token = ''new'', pt_events = [''ERROR''], pt_auth = ''a''\<rparr> \<in>
     set (fold push_step [(Working, Register_Call (Some ''b'') ''x'' ''phone'' []), (Failing, Login_Deleted ''b''), (Working, Stale_Removed ''phone'' ''old'')]
       [\<lparr>pt_device = ''phone'', pt_token = ''new'', pt_events = [''ERROR''], pt_auth = ''a''\<rparr>])"
proof (rule push_token_ownership)
  have "trim_space ''old'' = ''old''" "trim_space ''b'' = ''b''" by (simp_all add: plain_trim is_space_def)
  then show "\<forall>(db, c) \<in> set [(Working, Register_Call (Some ''b'') ''x'' ''phone'' []), (Failing, Login_Deleted ''b''),
      (Working, Stale_Removed ''phone'' ''old'')].
    \<not> entitled c \<lparr>pt_device = ''phone'', pt_token = ''new'', pt_events = [''ERROR''], pt_auth = ''a''\<rparr>"
    by simp
qed simp

section \<open>The rows are well formed\<close>

definition push_row_ok :: "push_token \<Rightarrow> bool" where
  "push_row_ok r \<longleftrightarrow> device_id_format (pt_device r) \<and> length (pt_device r) \<le> 256 \<and>
     expo_push_token_format (pt_token r) \<and> length (pt_token r) \<le> 256 \<and>
     pt_events r \<noteq> [] \<and> distinct (pt_events r) \<and> set (pt_events r) \<subseteq> {''TASK_COMPLETED'', ''INPUT_NEEDED'', ''ERROR''} \<and> pt_auth r \<noteq> []"

definition push_table_ok :: "push_table \<Rightarrow> bool" where
  "push_table_ok t \<longleftrightarrow> distinct (map pt_device t) \<and> (\<forall>r \<in> set t. push_row_ok r)"

lemma known_strings: "is_known_notification_event_type ev \<Longrightarrow>
    notification_event_type_to_string ev \<in> {''TASK_COMPLETED'', ''INPUT_NEEDED'', ''ERROR''}"
  by (cases ev) (simp_all add: is_known_notification_event_type_def)

lemma table_ok_upsert: "push_table_ok t \<Longrightarrow> push_row_ok new \<Longrightarrow> push_table_ok (upsert_push_token new t)"
  using upsert_row(3) [of new t] by (auto simp: push_table_ok_def) (auto simp: upsert_push_token_def split: if_splits)

lemma table_ok_filter: "push_table_ok t \<Longrightarrow> push_table_ok (filter P t)"
  by (simp add: push_table_ok_def distinct_map_filter)

lemma table_ok_register:
  assumes "push_table_ok t"
  shows "push_table_ok (snd (register_push_token True db auth token device evs t))"
proof (cases "request_ok token device evs")
  case True
  show ?thesis
  proof (cases "auth = None \<or> auth = Some []")
    case auth: True
    with assms show ?thesis by (auto simp: register_push_token_def Let_def split: option.splits)
  next
    case False
    then obtain a where a: "auth = Some a" "a \<noteq> []" by auto
    obtain es where es: "distinct es" "set es = notification_event_type_to_string ` set evs"
      and r: "register_push_token True db (Some a) token device evs t =
        (if db \<noteq> Working then (Some Internal, t)
         else if owned_by_other (trim_space device) a t then (Some Permission_Denied, t)
         else (None, upsert_push_token \<lparr>pt_device = trim_space device, pt_token = trim_space token, pt_events = es, pt_auth = a\<rparr> t))"
      using register_accepted [OF True a(2), of db t] by auto
    have "set es \<subseteq> {''TASK_COMPLETED'', ''INPUT_NEEDED'', ''ERROR''}" "es \<noteq> []"
      using True es(2) known_strings by (fastforce simp: request_ok_def)+
    with True es(1) a(2) have "push_row_ok \<lparr>pt_device = trim_space device, pt_token = trim_space token, pt_events = es, pt_auth = a\<rparr>"
      by (simp add: push_row_ok_def request_ok_def)
    with assms show ?thesis by (simp add: a(1) r table_ok_upsert)
  qed
qed (simp add: register_refused assms)

lemma table_ok_step: "push_table_ok t \<Longrightarrow> push_table_ok (push_step (db, c) t)"
proof (cases c)
  case (Register_Call auth token device evs)
  assume "push_table_ok t"
  then show ?thesis using table_ok_register by (simp add: Register_Call)
qed (auto simp: unregister_push_token_def delete_push_token_owned_def cascade_push_tokens_def delete_push_tokens_by_auth_token_def
      delete_push_token_if_match_def Let_def table_ok_filter split: sum.splits)

text \<open>
  C1: The table holds only what the calls allow. After any calls, with any failures of the database, every device has one row; its token
  has the form of an Expo token, its events are some of the three that the service sends, each once, and it has a login.
\<close>

theorem push_tokens_wellformed: "push_table_ok (fold push_step calls [])"
proof -
  have "push_table_ok t \<Longrightarrow> push_table_ok (fold push_step calls t)" for t
    by (induction calls arbitrary: t) (auto simp: table_ok_step)
  moreover have "push_table_ok []" by (simp add: push_table_ok_def)
  ultimately show ?thesis by blast
qed

section \<open>Deleted logins\<close>

text \<open>
  When the removal of the rows of a deleted login fails, nothing repeats it: the device keeps its row, and every other login is denied
  the device, whatever it sends. Only the very login could free it, and that is gone.
\<close>

lemma lost_cascade_locks_device:
  assumes "r \<in> set t" and "pt_auth r = old" and "old \<noteq> []" and "new \<noteq> []" and "new \<noteq> old"
    and "request_ok token (pt_device r) evs" and "trim_space (pt_device r) = pt_device r"
  shows "fst (register_push_token True Working (Some new) token (pt_device r) evs (cascade_push_tokens True Failing old t)) = Some Permission_Denied \<and>
    r \<in> set (snd (register_push_token True Working (Some new) token (pt_device r) evs (cascade_push_tokens True Failing old t)))"
proof -
  have "cascade_push_tokens True Failing old t = t" by (simp add: cascade_push_tokens_def delete_push_tokens_by_auth_token_def Let_def)
  moreover have "owned_by_other (trim_space (pt_device r)) new t" using assms by (auto simp: owned_by_other_def)
  ultimately show ?thesis using register_accepted [OF assms(6,4), of Working t] assms(1) by (metis fst_conv snd_conv)
qed

text \<open>
  A call that was authenticated before its login was deleted, and reaches the table after, registers the device for the deleted login.
\<close>

lemma registration_outlives_login:
  assumes "request_ok token device evs" and "auth \<noteq> []"
  shows "\<exists>r \<in> set (fold push_step [(Working, Login_Deleted auth), (Working, Register_Call (Some auth) token device evs)] []).
    pt_device r = trim_space device \<and> pt_auth r = auth"
proof -
  have e: "push_step (Working, Login_Deleted auth) [] = []"
    by (simp add: cascade_push_tokens_def delete_push_tokens_by_auth_token_def Let_def)
  have no: "\<not> owned_by_other (trim_space device) auth []" by (simp add: owned_by_other_def)
  obtain es where "register_push_token True Working (Some auth) token device evs [] =
      (if owned_by_other (trim_space device) auth [] then (Some Permission_Denied, [])
       else (None, upsert_push_token \<lparr>pt_device = trim_space device, pt_token = trim_space token, pt_events = es, pt_auth = auth\<rparr> []))"
    by (rule register_accepted [OF assms, of Working "[]"]) (simp only: not_True_eq_False refl if_False that)
  with no have "register_push_token True Working (Some auth) token device evs [] =
      (None, upsert_push_token \<lparr>pt_device = trim_space device, pt_token = trim_space token, pt_events = es, pt_auth = auth\<rparr> [])"
    by simp
  with e show ?thesis by (simp add: upsert_push_token_def)
qed

end
