(* ===== verification/ExpoClient.thy ===== *)
theory ExpoClient
  imports TextSanitize GoStrings
begin

text \<open>
  The client of the push service (\<open>internal/notification/expo.go\<close>): messages go out in batches of up to 100, each batch with retries,
  and the tickets that come back tell which device tokens are no longer registered. What the network does in an attempt, and whether the
  context outlives the wait before a retry, are arguments. A response comes with the result of decoding its body; the marshalling of the
  messages, which cannot fail, and the headers of the request are left out.
\<close>

section \<open>Messages, tickets and responses\<close>

record expo_message =
  em_to :: string
  em_title :: string
  em_body :: string
  em_data :: "(string \<times> string) list"
  em_sound :: string
  em_priority :: string
  em_channel_id :: string

text \<open>The raw details of a ticket: absent, not decodable, or an \<open>ExpoTicketError\<close>.\<close>

datatype ticket_details = No_Details | Bad_Details | Ticket_Error string

record expo_ticket =
  et_status :: string
  et_id :: string
  et_message :: string
  et_details :: ticket_details

text \<open>What an HTTP exchange comes to: no request, no answer, a body that cannot be read, or a status with a body and its decoding.\<close>

datatype exchange =
  Bad_Request
| No_Answer
| Broken_Body
| Response nat string "(expo_ticket list \<times> string list) option"

datatype expo_error =
  Create_Request | Send_Request | Read_Response | Response_Too_Large | Bad_Status nat string | Unmarshal_Response | Api_Errors string
| Context_Over

definition max_batch_size :: nat where "max_batch_size = 100"

definition max_response_size :: nat where "max_response_size = 2 ^ 20"

section \<open>Sending (\<open>expo.go\<close>)\<close>

text \<open>One attempt: the tickets, or an error and whether to try again.\<close>

fun do_send_batch :: "exchange \<Rightarrow> expo_error \<times> bool + expo_ticket list" where
  "do_send_batch Bad_Request = Inl (Create_Request, False)"
| "do_send_batch No_Answer = Inl (Send_Request, True)"
| "do_send_batch Broken_Body = Inl (Read_Response, False)"
| "do_send_batch (Response status body decoded) =
     (if length body > max_response_size then Inl (Response_Too_Large, False)
      else if status \<noteq> 200 then Inl (Bad_Status status (truncate_utf8 body 512), status \<ge> 500)
      else case decoded of
             None \<Rightarrow> Inl (Unmarshal_Response, False)
           | Some (tickets, errors) \<Rightarrow>
               if errors \<noteq> [] then Inl (Api_Errors (truncate_utf8 (join ''; '' (map (\<lambda>e. truncate_utf8 e 256) errors)) 512), False)
               else Inr tickets)"

definition default_retry_backoffs :: "duration list" where
  "default_retry_backoffs = [500 * millisecond, second, 2 * second]"

text \<open>The attempts from number \<open>k\<close> on, with the waits that are left; \<open>waited\<close> tells whether the wait before the next attempt ends before the context.\<close>

fun send_attempts :: "(nat \<Rightarrow> exchange) \<Rightarrow> (nat \<Rightarrow> duration \<Rightarrow> bool) \<Rightarrow> nat \<Rightarrow> duration list \<Rightarrow> expo_error + expo_ticket list" where
  "send_attempts exch waited k [] =
     (case do_send_batch (exch k) of Inr tickets \<Rightarrow> Inr tickets | Inl (e, _) \<Rightarrow> Inl e)"
| "send_attempts exch waited k (d # ds) =
     (case do_send_batch (exch k) of
        Inr tickets \<Rightarrow> Inr tickets
      | Inl (e, retry) \<Rightarrow>
          if \<not> retry then Inl e
          else if \<not> waited k d then Inl Context_Over
          else send_attempts exch waited (Suc k) ds)"

definition send_batch :: "duration list \<Rightarrow> (nat \<Rightarrow> exchange) \<Rightarrow> (nat \<Rightarrow> duration \<Rightarrow> bool) \<Rightarrow> expo_error + expo_ticket list" where
  "send_batch backoffs exch waited = send_attempts exch waited 0 backoffs"

record send_result =
  sr_tickets :: "expo_ticket list"
  sr_unregistered :: "string list"

definition device_not_registered :: "expo_ticket \<Rightarrow> bool" where
  "device_not_registered t \<longleftrightarrow> et_status t = ''error'' \<and> et_details t = Ticket_Error ''DeviceNotRegistered''"

text \<open>The loop over the tickets of the batch that begins at message \<open>i\<close>.\<close>

fun stale_tokens :: "expo_message list \<Rightarrow> nat \<Rightarrow> nat \<Rightarrow> expo_ticket list \<Rightarrow> string list" where
  "stale_tokens messages i j [] = []"
| "stale_tokens messages i j (t # ts) =
     (if device_not_registered t \<and> i + j < length messages then em_to (messages ! (i + j)) # stale_tokens messages i (Suc j) ts
      else stale_tokens messages i (Suc j) ts)"

text \<open>What the network does is told for the batch that begins at message \<open>i\<close> and for each of its attempts.\<close>

record network =
  nw_exchange :: "nat \<Rightarrow> nat \<Rightarrow> exchange"
  nw_waited :: "nat \<Rightarrow> nat \<Rightarrow> duration \<Rightarrow> bool"

definition batch_result :: "duration list \<Rightarrow> network \<Rightarrow> nat \<Rightarrow> expo_error + expo_ticket list" where
  "batch_result backoffs nw i = send_batch backoffs (nw_exchange nw i) (nw_waited nw i)"

function send_batches :: "duration list \<Rightarrow> network \<Rightarrow> expo_message list \<Rightarrow> nat \<Rightarrow> send_result \<Rightarrow> send_result \<times> expo_error option" where
  "send_batches backoffs nw messages i result =
     (if i \<ge> length messages then (result, None)
      else case batch_result backoffs nw i of
             Inl e \<Rightarrow> (result, Some e)
           | Inr tickets \<Rightarrow>
               send_batches backoffs nw messages (i + max_batch_size)
                 \<lparr>sr_tickets = sr_tickets result @ tickets, sr_unregistered = sr_unregistered result @ stale_tokens messages i 0 tickets\<rparr>)"
  by pat_completeness auto
termination by (relation "measure (\<lambda>(_, _, messages, i, _). length messages - i)") (auto simp: max_batch_size_def)

declare send_batches.simps [simp del]

definition send :: "duration list \<Rightarrow> network \<Rightarrow> expo_message list \<Rightarrow> send_result \<times> expo_error option" where
  "send backoffs nw messages = send_batches backoffs nw messages 0 \<lparr>sr_tickets = [], sr_unregistered = []\<rparr>"

section \<open>Retries\<close>

lemma attempts_from:
  "send_attempts exch waited k ds = Inr ts \<longleftrightarrow>
     (\<exists>n \<le> length ds. do_send_batch (exch (k + n)) = Inr ts \<and>
        (\<forall>j < n. (\<exists>e. do_send_batch (exch (k + j)) = Inl (e, True)) \<and> waited (k + j) (ds ! j)))"
proof (induction ds arbitrary: k)
  case Nil
  then show ?case by (auto split: sum.splits)
next
  case (Cons d ds)
  let ?tried = "\<lambda>n. do_send_batch (exch (k + n)) = Inr ts \<and>
    (\<forall>j < n. (\<exists>e. do_send_batch (exch (k + j)) = Inl (e, True)) \<and> waited (k + j) ((d # ds) ! j))"
  have split: "(\<exists>n \<le> length (d # ds). ?tried n) \<longleftrightarrow> ?tried 0 \<or> (\<exists>n \<le> length ds. ?tried (Suc n))"
  proof
    assume "\<exists>n \<le> length (d # ds). ?tried n"
    then obtain n where n: "n \<le> Suc (length ds)" "?tried n" by auto
    then show "?tried 0 \<or> (\<exists>n \<le> length ds. ?tried (Suc n))" by (cases n) auto
  qed (metis Suc_le_mono le0 length_Cons)
  have later: "?tried (Suc n) \<longleftrightarrow> (\<exists>e. do_send_batch (exch k) = Inl (e, True)) \<and> waited k d \<and>
      do_send_batch (exch (Suc k + n)) = Inr ts \<and>
      (\<forall>j < n. (\<exists>e. do_send_batch (exch (Suc k + j)) = Inl (e, True)) \<and> waited (Suc k + j) (ds ! j))" for n
    by (auto simp: All_less_Suc2)
  show ?case
    unfolding split later using Cons.IH [of "Suc k"] by (auto split: sum.splits)
qed

text \<open>
  C1: A batch goes out exactly when one of its attempts succeeds, at most one more than there are waits, and everything before it was a
  failure of the connection or of the server (status 500 and above) whose wait ended in time.
\<close>

theorem batch_sent_iff:
  "send_batch backoffs exch waited = Inr ts \<longleftrightarrow>
     (\<exists>n \<le> length backoffs. do_send_batch (exch n) = Inr ts \<and>
        (\<forall>j < n. (\<exists>e. do_send_batch (exch j) = Inl (e, True)) \<and> waited j (backoffs ! j)))"
  using attempts_from [of exch waited 0 backoffs ts] by (simp add: send_batch_def)

lemma retryable_iff:
  "(\<exists>e. do_send_batch x = Inl (e, True)) \<longleftrightarrow>
     x = No_Answer \<or> (\<exists>status body decoded. x = Response status body decoded \<and> length body \<le> max_response_size \<and> status \<ge> 500)"
  by (cases x) (auto split: option.splits)

section \<open>What a send reports\<close>

text \<open>The documented contract of the service: a response without errors has one ticket for each message of the batch.\<close>

definition one_ticket_each :: "duration list \<Rightarrow> network \<Rightarrow> expo_message list \<Rightarrow> bool" where
  "one_ticket_each backoffs nw messages \<longleftrightarrow>
     (\<forall>i < length messages. \<forall>ts. 100 dvd i \<longrightarrow> batch_result backoffs nw i = Inr ts \<longrightarrow> length ts = min max_batch_size (length messages - i))"

lemma stale_tokens_zip:
  "i + j + length ts \<le> length messages \<Longrightarrow>
    stale_tokens messages i j ts = map (em_to \<circ> fst) (filter (device_not_registered \<circ> snd) (zip (drop (i + j) messages) ts))"
proof (induction messages i j ts rule: stale_tokens.induct)
  case (2 messages i j t ts)
  from "2.prems" have d: "drop (i + j) messages = messages ! (i + j) # drop (Suc (i + j)) messages"
    by (simp add: Cons_nth_drop_Suc)
  from 2 show ?case by (simp add: d)
qed simp

lemma zip_cut: "zip (take (length ys) xs) ys = zip xs ys"
  using take_zip [of "length ys" xs ys] by simp

text \<open>The state of the loop at message \<open>i\<close>.\<close>

definition send_progress :: "duration list \<Rightarrow> network \<Rightarrow> expo_message list \<Rightarrow> nat \<Rightarrow> send_result \<Rightarrow> bool" where
  "send_progress backoffs nw messages i r \<longleftrightarrow>
     100 dvd i \<and> length (sr_tickets r) = min i (length messages) \<and>
     (\<forall>k. k < i \<and> k < length messages \<and> 100 dvd k \<longrightarrow> (\<exists>ts. batch_result backoffs nw k = Inr ts)) \<and>
     sr_unregistered r = map (em_to \<circ> fst) (filter (device_not_registered \<circ> snd) (zip messages (sr_tickets r)))"

lemma progress_batch:
  assumes "send_progress backoffs nw messages i r" and "one_ticket_each backoffs nw messages" and "i < length messages"
    and "batch_result backoffs nw i = Inr ts"
  shows "send_progress backoffs nw messages (i + max_batch_size)
    \<lparr>sr_tickets = sr_tickets r @ ts, sr_unregistered = sr_unregistered r @ stale_tokens messages i 0 ts\<rparr>"
proof -
  have i: "length (sr_tickets r) = i" "100 dvd i" using assms(1,3) by (simp_all add: send_progress_def)
  have len: "length ts = min 100 (length messages - i)" using assms(2-4) i(2) by (auto simp: one_ticket_each_def max_batch_size_def)
  have "stale_tokens messages i 0 ts = map (em_to \<circ> fst) (filter (device_not_registered \<circ> snd) (zip (drop i messages) ts))"
    using stale_tokens_zip [of i 0 ts messages] len assms(3) by simp
  moreover have "zip messages (sr_tickets r @ ts) = zip messages (sr_tickets r) @ zip (drop i messages) ts"
    using i(1) zip_cut [of "sr_tickets r" messages] by (simp add: zip_append2)
  moreover have "k = i \<or> k < i" if "k < i + 100" "100 dvd k" for k
    using that i(2) by (auto elim!: dvdE)
  ultimately show ?thesis
    using assms(1,4) len i by (auto simp: send_progress_def max_batch_size_def)
qed

lemma send_loop:
  "send_progress backoffs nw messages i r \<Longrightarrow> one_ticket_each backoffs nw messages \<Longrightarrow>
    send_batches backoffs nw messages i r = (r', err) \<Longrightarrow>
    \<exists>n. send_progress backoffs nw messages n r' \<and>
      (if n < length messages then \<exists>e. batch_result backoffs nw n = Inl e \<and> err = Some e else err = None)"
proof (induction backoffs nw messages i r rule: send_batches.induct)
  case (1 backoffs nw messages i r)
  show ?case
  proof (cases "i < length messages")
    case False
    with "1.prems" show ?thesis by (subst (asm) send_batches.simps) (auto intro!: exI [of _ i])
  next
    case True
    show ?thesis
    proof (cases "batch_result backoffs nw i")
      case (Inl e)
      with "1.prems" True show ?thesis by (subst (asm) send_batches.simps) (auto intro!: exI [of _ i])
    next
      case (Inr ts)
      with "1.prems" True "1.IH" progress_batch [OF "1.prems"(1,2) True Inr] show ?thesis
        by (subst (asm) send_batches.simps) auto
    qed
  qed
qed

text \<open>
  C1: What a send reports. Provided each response has one ticket for each message of its batch, a send without an error has got a ticket
  for every message; one with an error has got the tickets of all batches before the first that failed. In both cases the tokens reported
  as unregistered are exactly those of the messages whose tickets say so.
\<close>

theorem send_reports:
  assumes "one_ticket_each backoffs nw messages" and "send backoffs nw messages = (r, err)"
  shows "sr_unregistered r = map (em_to \<circ> fst) (filter (device_not_registered \<circ> snd) (zip messages (sr_tickets r))) \<and>
    (case err of
       None \<Rightarrow> length (sr_tickets r) = length messages
     | Some e \<Rightarrow> 100 dvd length (sr_tickets r) \<and> length (sr_tickets r) < length messages \<and>
         batch_result backoffs nw (length (sr_tickets r)) = Inl e \<and>
         (\<forall>k < length (sr_tickets r). 100 dvd k \<longrightarrow> (\<exists>ts. batch_result backoffs nw k = Inr ts)))"
proof -
  have "send_progress backoffs nw messages 0 \<lparr>sr_tickets = [], sr_unregistered = []\<rparr>" by (simp add: send_progress_def)
  from send_loop [OF this assms(1) assms(2) [unfolded send_def]] obtain n where p: "send_progress backoffs nw messages n r"
    and n: "if n < length messages then \<exists>e. batch_result backoffs nw n = Inl e \<and> err = Some e else err = None" by blast
  show ?thesis
  proof (cases "n < length messages")
    case True
    with p n show ?thesis by (auto simp: send_progress_def)
  next
    case False
    with p n show ?thesis by (auto simp: send_progress_def)
  qed
qed

definition demo_message :: "string \<Rightarrow> expo_message" where
  "demo_message token = \<lparr>em_to = token, em_title = [], em_body = [], em_data = [], em_sound = [], em_priority = [], em_channel_id = []\<rparr>"

definition demo_ticket :: "string \<Rightarrow> ticket_details \<Rightarrow> expo_ticket" where
  "demo_ticket status d = \<lparr>et_status = status, et_id = [], et_message = [], et_details = d\<rparr>"

text \<open>The first attempt fails at the server, the second gives two tickets.\<close>

definition demo_network :: network where
  "demo_network = \<lparr>nw_exchange = (\<lambda>i k. if k = 0 then Response 503 [] None
      else Response 200 [] (Some ([demo_ticket ''ok'' No_Details, demo_ticket ''error'' (Ticket_Error ''DeviceNotRegistered'')], []))),
    nw_waited = (\<lambda>i k d. True)\<rparr>"

lemma demo_batch: "batch_result default_retry_backoffs demo_network i =
    Inr [demo_ticket ''ok'' No_Details, demo_ticket ''error'' (Ticket_Error ''DeviceNotRegistered'')]"
  by (simp add: batch_result_def send_batch_def default_retry_backoffs_def demo_network_def max_response_size_def)

theorem send_reports_witness:
  "\<exists>r. send default_retry_backoffs demo_network [demo_message ''a'', demo_message ''b''] = (r, None) \<and>
     length (sr_tickets r) = 2 \<and> sr_unregistered r = [''b'']"
proof -
  let ?ms = "[demo_message ''a'', demo_message ''b'']"
  have c: "one_ticket_each default_retry_backoffs demo_network ?ms"
    by (auto simp: one_ticket_each_def demo_batch max_batch_size_def less_Suc_eq)
  obtain r where s: "send default_retry_backoffs demo_network ?ms = (r, None)"
      "sr_tickets r = [demo_ticket ''ok'' No_Details, demo_ticket ''error'' (Ticket_Error ''DeviceNotRegistered'')]"
    by (simp add: send_def send_batches.simps demo_batch max_batch_size_def)
  with send_reports [OF c s(1)] show ?thesis
    by (simp add: device_not_registered_def demo_ticket_def demo_message_def)
qed

end
