(* ===== verification/Notifications.thy ===== *)
theory Notifications
  imports PushTokens ExpoClient ContentPipeline IntentRouter "HOL-Library.Multiset"
begin

text \<open>
  The notification service (\<open>internal/notification/service.go\<close>): the end of a session, a prompt that waits for the user and some spoken
  messages become push notifications on the registered devices. Three consumers take events from the bus and hand each to a goroutine of
  its own, of which a semaphore allows a few at a time; the goroutines share the map that suppresses repetitions and the table of tokens,
  which the calls of the server change meanwhile. A goroutine therefore runs in steps: it handles the event, checks for a repetition (under the
  mutex), lists the tokens, sends, and then deletes stale tokens and forgets the key one by one. The clock, the order in which Go
  iterates over a map, the state of the database and the network are arguments of a step; timeouts show as failures of these. Log messages are left out.
\<close>

section \<open>From events to notifications\<close>

record session_event =
  se_session_id :: string
  se_label :: string
  se_state :: string
  se_exit_code :: "int option"
  se_reason :: string

record notification =
  nt_session :: string
  nt_event :: string
  nt_source :: string
  nt_title :: string
  nt_body :: string

definition max_notif_body_bytes :: int where "max_notif_body_bytes = 2048"

definition decimal_int :: "int \<Rightarrow> string" where
  "decimal_int v = (if v < 0 then CHR ''-'' # decimal (nat (- v)) else decimal (nat v))"

text \<open>Reading a Go map of strings.\<close>

definition value_of :: "(string \<Rightarrow> string option) \<Rightarrow> string \<Rightarrow> string" where
  "value_of m k = (case m k of None \<Rightarrow> [] | Some v \<Rightarrow> v)"

definition event_label :: "string \<Rightarrow> string" where
  "event_label event =
     (if event = ''TASK_COMPLETED'' then ''Task completed''
      else if event = ''INPUT_NEEDED'' then ''Input needed''
      else if event = ''ERROR'' then ''Session error''
      else event)"

definition handle_lifecycle_event :: "bool \<Rightarrow> session_event \<Rightarrow> notification option" where
  "handle_lifecycle_event stopping evt =
     (if se_state evt \<noteq> ''stopped'' then None
      else if se_session_id evt = [] then None
      else if stopping then None
      else if se_reason evt = ''session_killed'' then None
      else let name = (if se_label evt = [] then se_session_id evt else se_label evt)
           in Some (case se_exit_code evt of
                Some code \<Rightarrow>
                  if code = 0
                  then \<lparr>nt_session = se_session_id evt, nt_event = ''TASK_COMPLETED'', nt_source = ''lifecycle'',
                    nt_title = ''Nupi: Task completed'', nt_body = ''Session '' @ [CHR 0x27] @ name @ [CHR 0x27] @ '' has finished''\<rparr>
                  else \<lparr>nt_session = se_session_id evt, nt_event = ''ERROR'', nt_source = ''lifecycle'',
                    nt_title = ''Nupi: Session error'',
                    nt_body = ''Session '' @ [CHR 0x27] @ name @ [CHR 0x27] @ '' exited with error (code '' @ decimal_int code @ '')''\<rparr>
              | None \<Rightarrow> \<lparr>nt_session = se_session_id evt, nt_event = ''ERROR'', nt_source = ''lifecycle'',
                  nt_title = ''Nupi: Session error'', nt_body = ''Session '' @ [CHR 0x27] @ name @ [CHR 0x27] @ '' exited with error''\<rparr>))"

definition handle_pipeline_event :: "bool \<Rightarrow> pipeline_message \<Rightarrow> notification option" where
  "handle_pipeline_event stopping evt =
     (let ann = value_of (msg_annotations evt); waiting = ann ''waiting_for''
      in if stopping then None
         else if msg_session_id evt = [] then None
         else if ann ''notable'' \<noteq> ''true'' \<or> ann ''idle_state'' = [] then None
         else if waiting \<notin> {''user_input'', ''confirmation'', ''choice''} then None
         else let body = (if ann ''prompt_text'' = [] then ''Session is waiting for '' @ waiting else ann ''prompt_text'')
              in Some \<lparr>nt_session = msg_session_id evt, nt_event = ''INPUT_NEEDED'', nt_source = ''pipeline'',
                   nt_title = ''Nupi: Input needed'', nt_body = truncate_utf8 (strip_control_chars body) max_notif_body_bytes\<rparr>)"

definition handle_speak_event :: "bool \<Rightarrow> speak_event \<Rightarrow> notification option" where
  "handle_speak_event stopping evt =
     (if sp_text evt = [] then None
      else if sp_session_id evt = [] then None
      else if stopping then None
      else let kind = value_of (sp_metadata evt) ''type'';
               event = (if kind = ''clarification'' then Some ''INPUT_NEEDED''
                        else if kind = ''error'' then Some ''ERROR''
                        else if kind = ''completion'' then Some ''TASK_COMPLETED''
                        else None)
           in case event of
                None \<Rightarrow> None
              | Some event \<Rightarrow>
                  Some \<lparr>nt_session = sp_session_id evt, nt_event = event, nt_source = ''speak'', nt_title = ''Nupi: '' @ event_label event,
                    nt_body = truncate_utf8 (strip_control_chars (sp_text evt)) max_notif_body_bytes\<rparr>)"

text \<open>The three kinds of event, each with a consumer of its own.\<close>

datatype note_event = Lifecycle_Note session_event | Speak_Note speak_event | Pipeline_Note pipeline_message

datatype event_source = From_Lifecycle | From_Speak | From_Pipeline

fun source_of :: "note_event \<Rightarrow> event_source" where
  "source_of (Lifecycle_Note _) = From_Lifecycle"
| "source_of (Speak_Note _) = From_Speak"
| "source_of (Pipeline_Note _) = From_Pipeline"

fun handle_event :: "bool \<Rightarrow> note_event \<Rightarrow> notification option" where
  "handle_event stopping (Lifecycle_Note evt) = handle_lifecycle_event stopping evt"
| "handle_event stopping (Speak_Note evt) = handle_speak_event stopping evt"
| "handle_event stopping (Pipeline_Note evt) = handle_pipeline_event stopping evt"

section \<open>Messages\<close>

text \<open>\<open>url.PathEscape\<close>.\<close>

definition upper_hex :: "nat \<Rightarrow> char" where
  "upper_hex n = (if n < 10 then char_of (48 + n) else char_of (55 + n))"

definition path_char :: "char \<Rightarrow> bool" where
  "path_char c \<longleftrightarrow> id_char c \<or> bv c \<in> {0x7E, 0x24, 0x26, 0x2B, 0x3A, 0x3D, 0x40}"

definition path_escape :: "string \<Rightarrow> string" where
  "path_escape s = concat (map (\<lambda>c. if path_char c then [c] else [CHR ''%'', upper_hex (bv c div 16), upper_hex (bv c mod 16)]) s)"

definition message_for :: "notification \<Rightarrow> string \<Rightarrow> expo_message" where
  "message_for n token =
     \<lparr>em_to = token, em_title = nt_title n, em_body = nt_body n,
      em_data = [(''sessionId'', nt_session n), (''eventType'', nt_event n), (''url'', ''/session/'' @ path_escape (nt_session n))],
      em_sound = ''default'', em_priority = ''high'', em_channel_id = ''nupi-session-events''\<rparr>"

text \<open>The loop over the rows; a token that was seen is skipped.\<close>

fun build_messages :: "notification \<Rightarrow> string list \<Rightarrow> push_table \<Rightarrow> expo_message list" where
  "build_messages n seen [] = []"
| "build_messages n seen (r # rs) =
     (if pt_token r \<in> set seen then build_messages n seen rs
      else message_for n (pt_token r) # build_messages n (pt_token r # seen) rs)"

section \<open>Repetitions\<close>

definition dedup_key :: "string \<Rightarrow> string \<Rightarrow> string \<Rightarrow> string \<Rightarrow> string" where
  "dedup_key session event source body =
     (if session \<noteq> [] then session @ '':'' @ event @ '':'' @ source
      else '':'' @ event @ '':'' @ source @ '':'' @ truncate_utf8 body 64)"

definition key_of :: "notification \<Rightarrow> string" where
  "key_of n = dedup_key (nt_session n) (nt_event n) (nt_source n) (nt_body n)"

record note_settings =
  ns_dedup_window :: duration
  ns_max_concurrent_send :: nat
  ns_dedup_hard_cap :: nat
  ns_retry_backoffs :: "duration list"

definition default_note_settings :: note_settings where
  "default_note_settings = \<lparr>ns_dedup_window = 30 * second, ns_max_concurrent_send = 4, ns_dedup_hard_cap = 500,
     ns_retry_backoffs = default_retry_backoffs\<rparr>"

definition dedup_cleanup_threshold :: nat where "dedup_cleanup_threshold = 100"

type_synonym dedup_map = "(string, time_ns) gomap"

definition expire_entries :: "duration \<Rightarrow> time_ns \<Rightarrow> dedup_map \<Rightarrow> dedup_map" where
  "expire_entries window now m = filter (\<lambda>(k, v). \<not> now - v \<ge> window) m"

text \<open>
  The oldest half goes; what is left is the rest of the sorted entries. The sort is not stable and the entries come in the order of the
  map, which is arbitrary: \<open>shuffle\<close> stands for both.
\<close>

definition evict_oldest :: "(dedup_map \<Rightarrow> dedup_map) \<Rightarrow> dedup_map \<Rightarrow> dedup_map" where
  "evict_oldest shuffle m = (let entries = sort_key snd (shuffle m) in drop (length entries div 2) entries)"

definition clean_dedup :: "note_settings \<Rightarrow> time_ns \<Rightarrow> dedup_map \<Rightarrow> dedup_map" where
  "clean_dedup st now m = (if length m > dedup_cleanup_threshold then expire_entries (ns_dedup_window st) now m else m)"

definition bound_dedup :: "note_settings \<Rightarrow> time_ns \<Rightarrow> (dedup_map \<Rightarrow> dedup_map) \<Rightarrow> dedup_map \<Rightarrow> dedup_map" where
  "bound_dedup st now shuffle m =
     (let m' = clean_dedup st now m
      in if length m > dedup_cleanup_threshold \<and> length m' > ns_dedup_hard_cap st then evict_oldest shuffle m' else m')"

definition seen_recently :: "note_settings \<Rightarrow> string \<Rightarrow> time_ns \<Rightarrow> dedup_map \<Rightarrow> bool" where
  "seen_recently st key received m = (case map_of m key of None \<Rightarrow> False | Some seen \<Rightarrow> received - seen < ns_dedup_window st)"

definition is_duplicate ::
    "note_settings \<Rightarrow> time_ns \<Rightarrow> (dedup_map \<Rightarrow> dedup_map) \<Rightarrow> string \<Rightarrow> time_ns \<Rightarrow> dedup_map \<Rightarrow> bool \<times> dedup_map" where
  "is_duplicate st now shuffle key received m =
     (if seen_recently st key received m then (True, m) else (False, bound_dedup st now shuffle (mput key received m)))"

section \<open>The service\<close>

datatype consumer = Waiting | Holding note_event time_ns | Left

text \<open>What a goroutine does after the send, in order.\<close>

datatype note_action = Forget_Key string | Delete_Token string string

text \<open>How a goroutine ends; the numbers count the tickets that are ok.\<close>

datatype note_outcome = Ignored | Suppressed | No_Device | Send_Failed nat | Sent_To nat

datatype note_phase =
  Handle note_event time_ns
| Check notification time_ns
| List_Tokens notification
| Sending notification push_table "expo_message list"
| Finish "note_action list" note_outcome

text \<open>The history, newest first: checks that passed (with the reception and the time of the check), keys that left the map and why, and so on.\<close>

datatype forget_reason = Failure | Expiry | Eviction

datatype note_entry =
  Passed nat string time_ns time_ns
| Forgot forget_reason string
| Wiped
| Sent nat notification "expo_message list"
| Reported "string list"
| Ended nat note_outcome

record notifier =
  nf_clock :: time_ns
  nf_consumers :: "event_source \<Rightarrow> consumer"
  nf_workers :: "(nat, note_phase) gomap"
  nf_next :: nat
  nf_dedup :: dedup_map
  nf_tokens :: push_table
  nf_stopping :: bool
  nf_cancelled :: bool
  nf_log :: "note_entry list"

record work_answers =
  wa_shuffle :: "dedup_map \<Rightarrow> dedup_map"
  wa_store :: store_access
  wa_network :: network

definition set_phase :: "nat \<Rightarrow> note_phase \<Rightarrow> notifier \<Rightarrow> notifier" where
  "set_phase w ph s = s\<lparr>nf_workers := mput w ph (nf_workers s)\<rparr>"

definition end_worker :: "nat \<Rightarrow> note_outcome \<Rightarrow> notifier \<Rightarrow> notifier" where
  "end_worker w res s = s\<lparr>nf_workers := mdel w (nf_workers s), nf_log := Ended w res # nf_log s\<rparr>"

definition keys_lost :: "dedup_map \<Rightarrow> dedup_map \<Rightarrow> string list" where
  "keys_lost m m' = filter (\<lambda>k. k \<notin> set (keys m')) (keys m)"

definition check_repetition :: "note_settings \<Rightarrow> work_answers \<Rightarrow> nat \<Rightarrow> notification \<Rightarrow> time_ns \<Rightarrow> notifier \<Rightarrow> notifier" where
  "check_repetition st an w n received s =
     (let now = nf_clock s; (dup, m) = is_duplicate st now (wa_shuffle an) (key_of n) received (nf_dedup s);
          m1 = mput (key_of n) received (nf_dedup s); m2 = clean_dedup st now m1
      in if dup then end_worker w Suppressed s
         else set_phase w (List_Tokens n)
           (s\<lparr>nf_dedup := m,
              nf_log := map (Forgot Eviction) (keys_lost m2 m) @ map (Forgot Expiry) (keys_lost m1 m2) @ Passed w (key_of n) received now # nf_log s\<rparr>))"

definition list_tokens :: "work_answers \<Rightarrow> nat \<Rightarrow> notification \<Rightarrow> notifier \<Rightarrow> notifier" where
  "list_tokens an w n s =
     (case list_push_tokens_for_event (wa_store an) (nt_event n) (nf_tokens s) of
        None \<Rightarrow> set_phase w (Finish [Forget_Key (key_of n)] No_Device) s
      | Some rows \<Rightarrow>
          if rows = [] then set_phase w (Finish [Forget_Key (key_of n)] No_Device) s
          else set_phase w (Sending n rows (build_messages n [] rows)) s)"

definition cleanup_stale_tokens :: "string list \<Rightarrow> push_table \<Rightarrow> note_action list" where
  "cleanup_stale_tokens stale rows =
     (if stale = [] then []
      else map (\<lambda>r. Delete_Token (pt_device r) (pt_token r)) (filter (\<lambda>r. pt_token r \<in> set stale) rows))"

definition ok_count :: "expo_ticket list \<Rightarrow> nat" where
  "ok_count ts = length (filter (\<lambda>t. et_status t = ''ok'') ts)"

definition send_messages :: "note_settings \<Rightarrow> work_answers \<Rightarrow> nat \<Rightarrow> notification \<Rightarrow> push_table \<Rightarrow> expo_message list \<Rightarrow> notifier \<Rightarrow> notifier" where
  "send_messages st an w n rows messages s =
     (let (result, err) = send (ns_retry_backoffs st) (wa_network an) messages;
          ok = ok_count (sr_tickets result);
          cleanup = cleanup_stale_tokens (sr_unregistered result) rows;
          forget = [Forget_Key (key_of n)];
          s = s\<lparr>nf_log := Reported (sr_unregistered result) # Sent w n messages # nf_log s\<rparr>
      in if err \<noteq> None then set_phase w (Finish (cleanup @ forget) (Send_Failed ok)) s
         else if ok = 0 \<and> messages \<noteq> [] then set_phase w (Finish (forget @ cleanup) (Sent_To 0)) s
         else set_phase w (Finish cleanup (Sent_To ok)) s)"

definition do_action :: "work_answers \<Rightarrow> note_action \<Rightarrow> notifier \<Rightarrow> notifier" where
  "do_action an act s =
     (case act of
        Forget_Key key \<Rightarrow> s\<lparr>nf_dedup := mdel key (nf_dedup s), nf_log := Forgot Failure key # nf_log s\<rparr>
      | Delete_Token device token \<Rightarrow>
          s\<lparr>nf_tokens := snd (delete_push_token_if_match (wa_store an) device token (nf_tokens s))\<rparr>)"

text \<open>The next step of a goroutine.\<close>

definition work :: "note_settings \<Rightarrow> work_answers \<Rightarrow> nat \<Rightarrow> notifier \<Rightarrow> notifier" where
  "work st an w s =
     (case map_of (nf_workers s) w of
        None \<Rightarrow> s
      | Some (Handle ev received) \<Rightarrow>
          (case handle_event (nf_stopping s) ev of
             None \<Rightarrow> end_worker w Ignored s
           | Some n \<Rightarrow> set_phase w (Check n received) s)
      | Some (Check n received) \<Rightarrow> check_repetition st an w n received s
      | Some (List_Tokens n) \<Rightarrow> list_tokens an w n s
      | Some (Sending n rows messages) \<Rightarrow> send_messages st an w n rows messages s
      | Some (Finish [] res) \<Rightarrow> end_worker w res s
      | Some (Finish (act # acts) res) \<Rightarrow> set_phase w (Finish acts res) (do_action an act s))"

text \<open>The moves of the service and of what surrounds it; \<open>None\<close> where a move is not possible.\<close>

datatype note_move =
  Tick duration
| Receive note_event
| Dispatch event_source
| Drop_Event event_source
| Leave event_source
| Work work_answers nat
| Server_Call store_access push_call
| Begin_Shutdown
| Cancel_Context
| Wipe_Dedup

fun note_step :: "note_settings \<Rightarrow> note_move \<Rightarrow> notifier \<Rightarrow> notifier option" where
  "note_step st (Tick d) s = (if d \<ge> 0 then Some (s\<lparr>nf_clock := nf_clock s + d\<rparr>) else None)"
| "note_step st (Receive ev) s =
     (if nf_consumers s (source_of ev) = Waiting
      then Some (s\<lparr>nf_consumers := (nf_consumers s)(source_of ev := Holding ev (nf_clock s))\<rparr>) else None)"
| "note_step st (Dispatch src) s =
     (case nf_consumers s src of
        Holding ev received \<Rightarrow>
          if length (nf_workers s) < ns_max_concurrent_send st
          then Some (s\<lparr>nf_consumers := (nf_consumers s)(src := Waiting), nf_workers := mput (nf_next s) (Handle ev received) (nf_workers s),
            nf_next := nf_next s + 1\<rparr>)
          else None
      | _ \<Rightarrow> None)"
| "note_step st (Drop_Event src) s =
     (case nf_consumers s src of
        Holding ev received \<Rightarrow> if nf_cancelled s then Some (s\<lparr>nf_consumers := (nf_consumers s)(src := Waiting)\<rparr>) else None
      | _ \<Rightarrow> None)"
| "note_step st (Leave src) s =
     (if nf_consumers s src = Waiting \<and> nf_cancelled s then Some (s\<lparr>nf_consumers := (nf_consumers s)(src := Left)\<rparr>) else None)"
| "note_step st (Work an w) s = Some (work st an w s)"
| "note_step st (Server_Call db call) s =
     (case call of
        Stale_Removed _ _ \<Rightarrow> None
      | _ \<Rightarrow> Some (s\<lparr>nf_tokens := push_step (db, call) (nf_tokens s)\<rparr>))"
| "note_step st Begin_Shutdown s = Some (s\<lparr>nf_stopping := True\<rparr>)"
| "note_step st Cancel_Context s = Some (s\<lparr>nf_cancelled := True\<rparr>)"
| "note_step st Wipe_Dedup s =
     (if nf_stopping s \<and> (\<forall>src \<in> {From_Lifecycle, From_Speak, From_Pipeline}. nf_consumers s src = Left)
      then Some (s\<lparr>nf_dedup := [], nf_log := Wiped # nf_log s\<rparr>) else None)"

definition notifier_start :: "time_ns \<Rightarrow> push_table \<Rightarrow> notifier" where
  "notifier_start now t =
     \<lparr>nf_clock = now, nf_consumers = (\<lambda>_. Waiting), nf_workers = [], nf_next = 0, nf_dedup = [], nf_tokens = t,
      nf_stopping = False, nf_cancelled = False, nf_log = []\<rparr>"

text \<open>The runs; an iteration over a map gives each of its entries once.\<close>

definition iterates :: "note_move \<Rightarrow> bool" where
  "iterates mv = (case mv of Work an _ \<Rightarrow> (\<forall>m. mset (wa_shuffle an m) = mset m) | _ \<Rightarrow> True)"

inductive note_run :: "note_settings \<Rightarrow> notifier \<Rightarrow> bool" for st :: note_settings where
  start: "push_table_ok t \<Longrightarrow> note_run st (notifier_start now t)"
| step: "note_run st s \<Longrightarrow> iterates mv \<Longrightarrow> note_step st mv s = Some s' \<Longrightarrow> note_run st s'"

end
