(* ===== verification/Spec2Isabelle.thy ===== *)
theory Spec2Isabelle
  imports TextSanitize MetadataSanitize Compaction BusConcurrency TermResize StreamManager Barge ContentPipeline Wav Conversation JournalProperties RouterProperties ConversationLogProperties Composition AdapterManager Chunker Heartbeat Notifications
begin

text \<open>
  A verification library for the core of the \<open>nupi\<close> daemon (Go, \<open>src/internal\<close>).

  \<^bold>\<open>The program.\<close> The daemon runs terminal sessions. What a session prints goes over an in-process event bus
  to the content pipeline, which buffers it until the tool is idle and publishes it in cleaned pieces. The
  conversation service keeps these pieces as turns and turns what the user says into a prompt on the bus. The intent
  router hands a prompt to the AI adapter, lets it use tools for a bounded number of rounds and carries out its actions:
  commands for sessions, speech, replies. The adapter manager keeps the processes of
  adapters in step with their bindings, and the adapter bridge connects the router to the one that is ready; configurations
  are checked against the options of the adapter's manifest. The awareness services keep the memory: the journal
  has a rolling log per session, the conversation log one for the conversation; old raw text is replaced by summaries
  that the AI is asked for by a prompt, old summaries are moved to an archive, markdown files are cut into chunks for
  the search, and heartbeats ask the AI to run recurring tasks. On the audio side a stream manager connects streams to adapters that may be
  missing for a while, the speech output service speaks replies through it, a barge-in coordinator interrupts playback
  when the user speaks, and WAV files carry test audio. A resize manager decides whose terminal size counts.

  \<^bold>\<open>Conventions.\<close> Strings and byte slices are lists of bytes (a \<open>char\<close> is one byte), with Go's UTF-8 decoding written
  out in \<open>Utf8\<close>. A struct is a record, an error return a sum or an option. Fixed-width integers whose width
  matters are words (\<open>32 word\<close> in \<open>Wav\<close>, \<open>64 word\<close> counters); byte counts and durations are \<open>nat\<close> or \<open>int\<close>.
  A time is a number of nanoseconds, and every operation that reads the clock takes the reading as an argument. A
  map whose iteration order can matter is an association list, whose order stands for the order of that
  iteration; other maps are functions to \<open>option\<close>. A method that holds its mutex throughout is one step; where the code
  releases the lock in the middle (the bus, \<open>termresize\<close>) the two halves are separate steps that others may
  come between. A timer is a step that the environment may take, early callbacks included where the code
  does not exclude them. A call into the file system takes its outcome as an argument, so every error path
  is a branch. JavaScript plugins, adapter factories, adapters, tools, cron expressions, JSON and YAML decoders, gRPC and the database's
  failures are arguments of the definitions. Confidence values (\<open>float32\<close>) are rational numbers, without rounding; the floats of a
  configuration are exact values, and what the machine decides about them is an argument.
  No definition uses fuel: loops are structural recursion, or recursion with a termination proof on
  the length of what is left to read; the number of tool rounds is the code's own bound.

  \<^bold>\<open>The theories.\<close>
  \<^item> \<open>Prelude\<close>: lemmas on lists and options, the collections of simplification rules, and the locale
    \<open>op_machine\<close> (a state, operations, an invariant that each keeps), from which each component's
    invariants over arbitrary histories follow.
  \<^item> \<open>GoStrings\<close>, \<open>GoNumbers\<close>, \<open>Utf8\<close>, \<open>GoTime\<close>, \<open>GoPaths\<close>: the parts of the packages \<open>strings\<close>, \<open>fmt\<close>, \<open>unicode/utf8\<close>, \<open>time\<close>
    and \<open>path/filepath\<close> that the program uses.
  \<^item> \<open>TextSanitize\<close> (\<open>sanitize/sanitize.go\<close>): \<open>SafeSlug\<close>, \<open>TruncateUTF8\<close>, \<open>StripControlChars\<close>,
    \<open>CollapseExcessiveNewlines\<close>: their result is safe for a file name, within the limit, free of control bytes.
  \<^item> \<open>MetadataSanitize\<close> (\<open>sanitize/metadata.go\<close>): the strict normaliser and the lossy accumulator: limits are never exceeded.
  \<^item> \<open>RollingLogFile\<close>, \<open>RollingLog\<close> (\<open>awareness/rolling_log.go\<close>): the live-file format and its parser, then the engine
    with its counters, its append, compaction and archival operations. The lemmas show that the format round-trips, that
    every operation keeps the invariant, that an operation that fails rolls back, and what compaction and context select.
  \<^item> \<open>Compaction\<close> (\<open>awareness/journal.go\<close>): the cleaning of raw entries and of AI replies, the archival workflow, and the
    equivalence of the code that collapses empty lines with repeated replacement.
  \<^item> \<open>Journal\<close>, \<open>JournalSafety\<close>, \<open>JournalProperties\<close> (\<open>awareness/journal.go\<close>): the service with its logs per session, its audit
    files, pending compactions and restart, as histories of its handlers in which any file operation may fail. No raw entry is lost
    before the AI has seen it, a session has one compaction at a time, and a restart finds what was written.
  \<^item> \<open>ConversationLog\<close>, \<open>ConversationLogProperties\<close> (\<open>awareness/conversation_log.go\<close>): the same for the log of the conversation, with the
    audit of every turn and the round trip of a turn through the file.
  \<^item> \<open>Chunker\<close> (\<open>awareness/chunker.go\<close>): the chunks of a markdown file show all of its text.
  \<^item> \<open>Heartbeat\<close> (\<open>awareness/heartbeat.go\<close>, \<open>config/store/heartbeats.go\<close>): the table, the tools and the check, interleaved; a
    heartbeat runs at most once a minute as long as the updates work.
  \<^item> \<open>OverflowBuffer\<close> (\<open>eventbus/overflow.go\<close>): Go's buffered channel and the ring buffer, against
    one contract, the locale \<open>bounded_fifo\<close>.
  \<^item> \<open>EventBus\<close>, \<open>BusRouting\<close>, \<open>BusConcurrency\<close> (\<open>eventbus/bus.go\<close>, \<open>policy.go\<close>, \<open>types.go\<close>): one subscription with
    its back-pressure strategies and counters; the routing table; and the locking protocol as an inductive
    step relation over any number of goroutines, with safety (no send on a closed channel) and absence of deadlock.
  \<^item> \<open>TermResize\<close> (\<open>termresize\<close>): session states, modes, manager.
  \<^item> \<open>AudioFormat\<close> (\<open>audio/audiofmt\<close>), \<open>StreamManager\<close> (\<open>audio/streammanager\<close>), \<open>Barge\<close> (\<open>audio/barge\<close>),
    \<open>Wav\<close> (\<open>audioio/wav.go\<close>): stream keys, pending queues with exponential retry, the reconnecting adapter, cooldown and
    quiet period of an interruption, and the WAV reader and writer.
  \<^item> \<open>OutputBuffer\<close>, \<open>ContentPipeline\<close> (\<open>contentpipeline\<close>): the buffer with its generation counter, and the service. A
    history of its events conserves the output of a session.
  \<^item> \<open>Conversation\<close> (\<open>conversation/service.go\<close>): turns, prompts with their rate limits, tool cache and detached sessions.
  \<^item> \<open>IntentRouter\<close>, \<open>RouterProperties\<close> (\<open>intentrouter/service.go\<close>, \<open>tool_registry.go\<close>): a prompt from its arrival to the last
    action, on a state of the world that adapter and tools may change. Every prompt is answered, the adapter is asked a bounded
    number of times and with complete tool histories, and commands go to existing sessions only.
  \<^item> \<open>AdapterOptions\<close> (\<open>plugins/manifest\<close>): coercion, normalisation and validation of the options of an adapter; the validator and the
    normaliser agree.
  \<^item> \<open>AdapterBridge\<close> (\<open>intentrouter/adapter_bridge.go\<close>): status events, circuit breaker, start and shutdown. No connection leaks, a
    failure keeps the adapter that works, and the backoff is right for up to 37 failures and gone after 59.
  \<^item> \<open>AdapterManager\<close> (\<open>plugins/adapters/manager.go\<close>, \<open>service.go\<close>): bindings become plans with a fingerprint, plans become processes, and
    the service publishes what runs. Every process is accounted for, a reconciliation without errors settles, and the status events
    that the bridge follows alternate for each slot.
  \<^item> \<open>Egress\<close>, \<open>EgressProperties\<close> (\<open>audio/egress/service.go\<close>): the speech output service as interleaved steps of handlers, timers and
    workers over the stream manager. Every request is accounted for, stays in its session, and playback is numbered without a gap.
  \<^item> \<open>Composition\<close>: router, journal and speech output together, joined by the replies and speak events they exchange.

  \<^bold>\<open>Bounds.\<close> \<open>Wav.wav_roundtrip\<close> covers data from 1 byte to 256 MiB, which is the reader's limit for a chunk. Byte
  counters of logs and buffers are unbounded naturals: they count bytes held in memory and cannot reach 2^63.

  The multiplication of the bridge's backoff is done in 64 bits, where it overflows. A run of \<open>Egress\<close> or \<open>Heartbeat\<close> has any number of
  steps in any order that the code allows.

  \<^bold>\<open>Not modelled.\<close> Goroutine start-up, waiting and loggers of the services (they subscribe, loop and call the
  modelled handlers); operating-system errors in the WAV code; durations that go through \<open>float64\<close>. PTY processes,
  the rest of the SQL store, the search index with its ranking in floating point, speech input (it uses the stream manager in the way speech
  output does), gRPC and HTTP handlers, key rings, the preparation and the processes of plugins, the command line and start-up are input and output with
  little logic that can be stated without the other side.
\<close>

end
